(* ===== verification/Prelude.thy ===== *)
theory Prelude
  imports Main "HOL-Library.Word"
begin

text \<open>
  Shared vocabulary of the development: the Rust machine integers as words, the checked
  operations of the Rust standard library the code uses on them, results as sums
  (\<open>Inl\<close> is \<open>Err\<close>, \<open>Inr\<close> is \<open>Ok\<close>) with the \<open>?\<close> operator as \<open>and_then\<close>, and the
  little-endian byte images of integers (\<open>to_le_bytes\<close>, \<open>from_le_bytes\<close>) with their
  round trips.  A Rust \<open>usize\<close> is a \<open>nat\<close> and the target is taken to be a 64-bit one:
  where the code checks a \<open>usize\<close> computation the bound \<open>usize_max\<close> is written out.
\<close>

named_theorems res_simps \<open>inversion of results built by and_then\<close>

type_synonym byte = "8 word"
type_synonym u8 = "8 word"
type_synonym u16 = "16 word"
type_synonym u32 = "32 word"
type_synonym u64 = "64 word"

definition usize_max :: nat where
  "usize_max = 2 ^ 64 - 1"

section \<open>Results\<close>

definition and_then :: "'e + 'a \<Rightarrow> ('a \<Rightarrow> 'e + 'b) \<Rightarrow> 'e + 'b" where
  "and_then m k = (case m of Inl e \<Rightarrow> Inl e | Inr x \<Rightarrow> k x)"

definition map_err :: "('e \<Rightarrow> 'f) \<Rightarrow> 'e + 'a \<Rightarrow> 'f + 'a" where
  "map_err f m = (case m of Inl e \<Rightarrow> Inl (f e) | Inr x \<Rightarrow> Inr x)"

definition ok_or :: "'e \<Rightarrow> 'a option \<Rightarrow> 'e + 'a" where
  "ok_or e m = (case m of None \<Rightarrow> Inl e | Some x \<Rightarrow> Inr x)"

definition is_ok :: "'e + 'a \<Rightarrow> bool" where
  "is_ok m = (case m of Inl _ \<Rightarrow> False | Inr _ \<Rightarrow> True)"

lemma and_then_simps [simp]:
  "and_then (Inl e) k = Inl e"
  "and_then (Inr x) k = k x"
  by (simp_all add: and_then_def)

lemma and_then_Inr [res_simps]:
  "and_then m k = Inr y \<longleftrightarrow> (\<exists>x. m = Inr x \<and> k x = Inr y)"
  by (cases m) auto

lemma and_then_Inl [res_simps]:
  "and_then m k = Inl e \<longleftrightarrow> m = Inl e \<or> (\<exists>x. m = Inr x \<and> k x = Inl e)"
  by (cases m) auto

lemma and_then_cong [fundef_cong]:
  "m = m' \<Longrightarrow> (\<And>x. m' = Inr x \<Longrightarrow> k x = k' x) \<Longrightarrow> and_then m k = and_then m' k'"
  by (cases m') auto

lemma and_then_assoc:
  "and_then (and_then m f) g = and_then m (\<lambda>x. and_then (f x) g)"
  by (cases m) auto

lemma map_err_simps [simp]:
  "map_err f (Inl e) = Inl (f e)"
  "map_err f (Inr x) = Inr x"
  by (simp_all add: map_err_def)

lemma map_err_Inr [res_simps]: "map_err f m = Inr x \<longleftrightarrow> m = Inr x"
  by (cases m) auto

lemma map_err_Inl [res_simps]: "map_err f m = Inl e \<longleftrightarrow> (\<exists>e'. m = Inl e' \<and> e = f e')"
  by (cases m) auto

lemma ok_or_simps [simp]:
  "ok_or e None = Inl e"
  "ok_or e (Some x) = Inr x"
  by (simp_all add: ok_or_def)

lemma ok_or_Inr [res_simps]: "ok_or e m = Inr x \<longleftrightarrow> m = Some x"
  by (cases m) auto

lemma ok_or_Inl [res_simps]: "ok_or e m = Inl e' \<longleftrightarrow> m = None \<and> e' = e"
  by (cases m) auto

lemma is_ok_simps [simp]:
  "is_ok (Inr x)"
  "\<not> is_ok (Inl e)"
  by (simp_all add: is_ok_def)


lemma is_ok_iff: "is_ok m \<longleftrightarrow> (\<exists>x. m = Inr x)"
  by (cases m) auto

text \<open>Updating one element of a list shifts its sum.\<close>

lemma sum_list_update_nat:
  "i < length xs \<Longrightarrow> sum_list (xs[i := v]) + xs ! i = sum_list xs + (v :: nat)"
  by (induction xs arbitrary: i) (auto split: nat.splits)

section \<open>Checked and saturating integer operations\<close>

definition checked_add :: "'a::len word \<Rightarrow> 'a word \<Rightarrow> 'a word option" where
  "checked_add a b = (if unat a + unat b < 2 ^ LENGTH('a) then Some (a + b) else None)"

definition checked_sub :: "'a::len word \<Rightarrow> 'a word \<Rightarrow> 'a word option" where
  "checked_sub a b = (if b \<le> a then Some (a - b) else None)"

definition saturating_sub :: "'a::len word \<Rightarrow> 'a word \<Rightarrow> 'a word" where
  "saturating_sub a b = (if b \<le> a then a - b else 0)"

definition usize_checked_add :: "nat \<Rightarrow> nat \<Rightarrow> nat option" where
  "usize_checked_add a b = (if a + b \<le> usize_max then Some (a + b) else None)"

definition usize_checked_mul :: "nat \<Rightarrow> nat \<Rightarrow> nat option" where
  "usize_checked_mul a b = (if a * b \<le> usize_max then Some (a * b) else None)"

lemma checked_add_Some: "checked_add a b = Some c \<longleftrightarrow> unat c = unat a + unat b"
  for a b c :: "'a::len word"
proof
  assume "checked_add a b = Some c"
  then show "unat c = unat a + unat b"
    by (auto simp: checked_add_def unat_word_ariths split: if_splits)
next
  assume c: "unat c = unat a + unat b"
  then have lt: "unat a + unat b < 2 ^ LENGTH('a)"
    by (metis unsigned_less)
  then have "unat (a + b) = unat c"
    using c by (simp add: unat_word_ariths)
  then show "checked_add a b = Some c"
    using lt by (simp add: checked_add_def word_unat_eq_iff)
qed

lemma checked_add_None: "checked_add a b = None \<longleftrightarrow> 2 ^ LENGTH('a) \<le> unat a + unat b"
  for a b :: "'a::len word"
  by (auto simp: checked_add_def)

lemma checked_sub_Some:
  "checked_sub a b = Some c \<longleftrightarrow> unat b \<le> unat a \<and> unat c = unat a - unat b"
  for a b c :: "'a::len word"
  by (auto simp: checked_sub_def word_le_nat_alt word_unat_eq_iff unat_sub)

lemma checked_sub_None: "checked_sub a b = None \<longleftrightarrow> unat a < unat b"
  for a b :: "'a::len word"
  by (auto simp: checked_sub_def word_le_nat_alt)

lemma unat_saturating_sub: "unat (saturating_sub a b) = unat a - unat b"
  for a b :: "'a::len word"
  by (auto simp: saturating_sub_def word_le_nat_alt unat_sub)

lemma usize_checked_add_Some [res_simps]:
  "usize_checked_add a b = Some c \<longleftrightarrow> c = a + b \<and> a + b \<le> usize_max"
  by (auto simp: usize_checked_add_def)

lemma usize_checked_mul_Some [res_simps]:
  "usize_checked_mul a b = Some c \<longleftrightarrow> c = a * b \<and> a * b \<le> usize_max"
  by (auto simp: usize_checked_mul_def)

section \<open>Little-endian byte images\<close>

fun le_of_nat :: "nat \<Rightarrow> nat \<Rightarrow> byte list" where
  "le_of_nat 0 x = []"
| "le_of_nat (Suc n) x = word_of_nat (x mod 256) # le_of_nat n (x div 256)"

fun nat_of_le :: "byte list \<Rightarrow> nat" where
  "nat_of_le [] = 0"
| "nat_of_le (b # bs) = unat b + 256 * nat_of_le bs"

definition to_le_bytes :: "'a::len word \<Rightarrow> byte list" where
  "to_le_bytes w = le_of_nat (LENGTH('a) div 8) (unat w)"

definition from_le_bytes :: "byte list \<Rightarrow> 'a::len word" where
  "from_le_bytes bs = word_of_nat (nat_of_le bs)"

lemma length_le_of_nat [simp]: "length (le_of_nat n x) = n"
  by (induction n arbitrary: x) auto

lemma unat_byte_of_mod: "unat (word_of_nat (x mod 256) :: byte) = x mod 256"
  by (simp add: unat_of_nat)

lemma nat_of_le_of_nat: "nat_of_le (le_of_nat n x) = x mod 256 ^ n"
proof (induction n arbitrary: x)
  case (Suc n)
  have "x mod 256 + 256 * (x div 256 mod 256 ^ n) = x mod 256 ^ Suc n"
    by (simp add: mod_mult2_eq)
  then show ?case by (simp add: Suc unat_of_nat)
qed simp

lemma nat_of_le_less: "nat_of_le bs < 256 ^ length bs"
proof (induction bs)
  case (Cons b bs)
  have "unat b < 256" using unsigned_less [of b] by simp
  with Cons show ?case by simp
qed simp

lemma le_of_nat_of_le: "le_of_nat (length bs) (nat_of_le bs) = bs"
proof (induction bs)
  case (Cons b bs)
  have b: "unat b < 256" using unsigned_less [of b] by simp
  then have "(unat b + 256 * nat_of_le bs) mod 256 = unat b"
    and "(unat b + 256 * nat_of_le bs) div 256 = nat_of_le bs"
    by simp_all
  with Cons show ?case by simp
qed simp

lemma length_to_le_bytes [simp]:
  "length (to_le_bytes (w :: 'a::len word)) = LENGTH('a) div 8"
  by (simp add: to_le_bytes_def)

lemma nat_of_to_le_bytes:
  assumes "8 dvd LENGTH('a::len)"
  shows "nat_of_le (to_le_bytes (w :: 'a word)) = unat w"
proof -
  have "(256::nat) ^ (LENGTH('a) div 8) = 2 ^ (8 * (LENGTH('a) div 8))"
    by (simp add: power_mult)
  also have "\<dots> = 2 ^ LENGTH('a)" using assms by simp
  finally show ?thesis by (simp add: to_le_bytes_def nat_of_le_of_nat)
qed

lemma from_to_le_bytes:
  assumes "8 dvd LENGTH('a::len)"
  shows "from_le_bytes (to_le_bytes (w :: 'a word)) = w"
  using assms by (simp add: from_le_bytes_def nat_of_to_le_bytes)

lemma to_from_le_bytes:
  assumes "8 dvd LENGTH('a::len)" and "length bs = LENGTH('a) div 8"
  shows "to_le_bytes (from_le_bytes bs :: 'a word) = bs"
proof -
  have "(256::nat) ^ (LENGTH('a) div 8) = 2 ^ (8 * (LENGTH('a) div 8))"
    by (simp add: power_mult)
  also have "\<dots> = 2 ^ LENGTH('a)" using assms by simp
  finally have "nat_of_le bs < 2 ^ LENGTH('a)"
    using nat_of_le_less [of bs] assms by simp
  then have "unat (from_le_bytes bs :: 'a word) = nat_of_le bs"
    by (simp add: from_le_bytes_def unat_of_nat)
  then show ?thesis
    using le_of_nat_of_le [of bs] assms by (simp add: to_le_bytes_def)
qed

lemma to_le_bytes_inj:
  assumes "8 dvd LENGTH('a::len)" and "to_le_bytes (v :: 'a word) = to_le_bytes w"
  shows "v = w"
  by (metis assms from_to_le_bytes)

section \<open>Ordered maps\<close>

text \<open>
  A \<^verbatim>\<open>BTreeMap\<close> is its entries in ascending key order, the order its iterators visit.
\<close>

fun bt_insert :: "'k::linorder \<Rightarrow> 'v \<Rightarrow> ('k \<times> 'v) list \<Rightarrow> ('k \<times> 'v) list" where
  "bt_insert k v [] = [(k, v)]"
| "bt_insert k v ((l, w) # m) =
     (if k < l then (k, v) # (l, w) # m else if k = l then (k, v) # m else (l, w) # bt_insert k v m)"

definition bt_remove :: "'k \<Rightarrow> ('k \<times> 'v) list \<Rightarrow> ('k \<times> 'v) list" where
  "bt_remove k m = filter (\<lambda>e. fst e \<noteq> k) m"

definition bt_ok :: "('k::linorder \<times> 'v) list \<Rightarrow> bool" where
  "bt_ok m \<longleftrightarrow> sorted_wrt (<) (map fst m)"

lemma bt_ok_Nil [simp]: "bt_ok []"
  by (simp add: bt_ok_def)

lemma bt_ok_Cons [simp]: "bt_ok ((k, v) # m) \<longleftrightarrow> (\<forall>l \<in> fst ` set m. k < l) \<and> bt_ok m"
  by (simp add: bt_ok_def)

lemma keys_bt_insert [simp]: "fst ` set (bt_insert k v m) = insert k (fst ` set m)"
  by (induction k v m rule: bt_insert.induct) auto

lemma bt_ok_insert [simp]: "bt_ok m \<Longrightarrow> bt_ok (bt_insert k v m)"
  by (induction k v m rule: bt_insert.induct) auto

lemma bt_ok_filter [simp]: "bt_ok m \<Longrightarrow> bt_ok (filter P m)"
  by (induction m) auto

lemma bt_ok_remove [simp]: "bt_ok m \<Longrightarrow> bt_ok (bt_remove k m)"
  by (simp add: bt_remove_def)

lemma map_of_bt_insert: "bt_ok m \<Longrightarrow> map_of (bt_insert k v m) = (map_of m)(k \<mapsto> v)"
  by (induction k v m rule: bt_insert.induct) auto

lemma bt_ok_distinct: "bt_ok m \<Longrightarrow> distinct (map fst m)"
  by (induction m) (auto, force)

lemma map_of_bt_filter:
  "bt_ok m \<Longrightarrow> map_of (filter P m) k = (case map_of m k of None \<Rightarrow> None | Some v \<Rightarrow> if P (k, v) then Some v else None)"
proof (induction m)
  case (Cons e m)
  obtain l w where e: "e = (l, w)" by (cases e)
  have "map_of m l = None" using Cons.prems e by (auto simp: map_of_eq_None_iff)
  then show ?case using Cons e by (cases "k = l") auto
qed simp

text \<open>Inserting a key above all others appends the entry.\<close>

lemma bt_insert_last:
  "\<forall>l \<in> fst ` set m. l < k \<Longrightarrow> bt_insert k v m = m @ [(k, v)]"
proof (induction m)
  case (Cons e m)
  obtain l w where "e = (l, w)" by (cases e)
  with Cons show ?case by auto
qed simp

end
