(* ===== verification/Codec.thy ===== *)
theory Codec
  imports Prelude
begin

text \<open>
  \<^verbatim>\<open>crates/synctick/src/codec.rs\<close>: bounded game payloads.  The \<open>Encoder\<close> and
  \<open>Decoder\<close> with their byte, allocation and nesting budgets; the \<open>Wire\<close> trait as the
  record \<open>wire\<close> of its constant and its three operations (plus \<open>size_of\<close> of the type);
  the implementations for scalars, \<open>()\<close>, \<open>Vec<T>\<close> and \<open>String\<close>; and the entry points
  \<open>validate\<close>, \<open>decode\<close> and \<open>encode\<close>.

  Every reservation of the code may fail, so reader and writer carry the answer of the
  allocator as the function \<open>allocator\<close> (is a reservation of so many elements granted).
  The interface that game payloads rely on is the locale \<open>wire_codec\<close>: the operations
  of a \<open>wire\<close> implement one canonical byte image, described by a \<open>shape\<close>.
\<close>

section \<open>Budgets, errors, reader and writer\<close>

datatype codec_error = CodecError string

definition max_payload_bytes :: nat where
  "max_payload_bytes = 64 * 1024"

definition max_allocation_bytes :: nat where
  "max_allocation_bytes = 4 * 1024 * 1024"

definition max_depth :: nat where
  "max_depth = 32"

record encoder =
  buf :: "byte list"
  grants :: "nat \<Rightarrow> bool"

definition encoder_default :: "(nat \<Rightarrow> bool) \<Rightarrow> encoder" where
  "encoder_default al = \<lparr>buf = [], grants = al\<rparr>"

definition encoder_write :: "byte list \<Rightarrow> encoder \<Rightarrow> codec_error + encoder" where
  "encoder_write bytes w =
     (if length bytes > max_payload_bytes - length (buf w)
      then Inl (CodecError ''payload byte budget exceeded'')
      else if \<not> grants w (length bytes) then Inl (CodecError ''allocation failed'')
      else Inr (w\<lparr>buf := buf w @ bytes\<rparr>))"

record decoder =
  remaining :: "byte list"
  allocation :: nat
  depth :: nat
  allocator :: "nat \<Rightarrow> bool"

definition decoder_new :: "(nat \<Rightarrow> bool) \<Rightarrow> byte list \<Rightarrow> decoder" where
  "decoder_new al bytes = \<lparr>remaining = bytes, allocation = 0, depth = 0, allocator = al\<rparr>"

definition take_bytes :: "nat \<Rightarrow> decoder \<Rightarrow> codec_error + (byte list \<times> decoder)" where
  "take_bytes n r =
     (if n > length (remaining r) then Inl (CodecError ''truncated field'')
      else Inr (take n (remaining r), r\<lparr>remaining := drop n (remaining r)\<rparr>))"

definition enter :: "decoder \<Rightarrow> codec_error + decoder" where
  "enter r =
     (let r' = r\<lparr>depth := depth r + 1\<rparr> in
      if depth r' > max_depth then Inl (CodecError ''nesting budget exceeded'') else Inr r')"

definition finish :: "decoder \<Rightarrow> codec_error + unit" where
  "finish r = (if remaining r = [] then Inr () else Inl (CodecError ''trailing bytes''))"

section \<open>The Wire trait and its implementations\<close>

record 'a wire =
  min_size :: nat
  mem_size :: nat
  wvalidate :: "decoder \<Rightarrow> codec_error + decoder"
  wdecode :: "decoder \<Rightarrow> codec_error + ('a \<times> decoder)"
  wencode :: "'a \<Rightarrow> encoder \<Rightarrow> codec_error + encoder"

definition scalar_wire :: "('a::len word) wire" where
  "scalar_wire =
     (let n = LENGTH('a) div 8 in
      \<lparr>min_size = n, mem_size = n,
       wvalidate = (\<lambda>r. and_then (take_bytes n r) (\<lambda>(_, r). Inr r)),
       wdecode = (\<lambda>r. and_then (take_bytes n r) (\<lambda>(bytes, r). Inr (from_le_bytes bytes, r))),
       wencode = (\<lambda>v w. encoder_write (to_le_bytes v) w)\<rparr>)"

abbreviation u8_wire :: "u8 wire" where "u8_wire \<equiv> scalar_wire"
abbreviation u16_wire :: "u16 wire" where "u16_wire \<equiv> scalar_wire"
abbreviation u32_wire :: "u32 wire" where "u32_wire \<equiv> scalar_wire"
abbreviation u64_wire :: "u64 wire" where "u64_wire \<equiv> scalar_wire"

definition unit_validate :: "decoder \<Rightarrow> codec_error + decoder" where
  "unit_validate r =
     and_then (wdecode u8_wire r)
       (\<lambda>(b, r). if b \<noteq> 0 then Inl (CodecError ''invalid unit'') else Inr r)"

definition unit_wire :: "unit wire" where
  "unit_wire =
     \<lparr>min_size = 1, mem_size = 0,
      wvalidate = unit_validate,
      wdecode = (\<lambda>r. and_then (unit_validate r) (\<lambda>r. Inr ((), r))),
      wencode = (\<lambda>_ w. wencode u8_wire 0 w)\<rparr>"

text \<open>\<open>Decoder::count::<T>\<close>: the element count of a collection, charged to the budget.\<close>

definition count :: "'a wire \<Rightarrow> decoder \<Rightarrow> codec_error + (nat \<times> decoder)" where
  "count W r =
     and_then (wdecode u32_wire r) (\<lambda>(c, r).
     let n = unat c in
     if min_size W = 0 \<or> n > length (remaining r) div min_size W
     then Inl (CodecError ''collection length exceeds remaining payload'')
     else
       and_then (ok_or (CodecError ''allocation overflow'') (usize_checked_mul n (max (mem_size W) 1)))
         (\<lambda>bytes.
       and_then (ok_or (CodecError ''allocation overflow'') (usize_checked_add (allocation r) bytes))
         (\<lambda>total.
       if total > max_allocation_bytes then Inl (CodecError ''allocation budget exceeded'')
       else Inr (n, r\<lparr>allocation := total\<rparr>))))"

fun validate_n :: "(decoder \<Rightarrow> codec_error + decoder) \<Rightarrow> nat \<Rightarrow> decoder \<Rightarrow> codec_error + decoder" where
  "validate_n f 0 r = Inr r"
| "validate_n f (Suc n) r = and_then (f r) (validate_n f n)"

fun decode_n ::
  "(decoder \<Rightarrow> codec_error + ('a \<times> decoder)) \<Rightarrow> nat \<Rightarrow> decoder \<Rightarrow> codec_error + ('a list \<times> decoder)" where
  "decode_n f 0 r = Inr ([], r)"
| "decode_n f (Suc n) r =
     and_then (f r) (\<lambda>(v, r). and_then (decode_n f n r) (\<lambda>(vs, r). Inr (v # vs, r)))"

fun encode_list ::
  "('a \<Rightarrow> encoder \<Rightarrow> codec_error + encoder) \<Rightarrow> 'a list \<Rightarrow> encoder \<Rightarrow> codec_error + encoder" where
  "encode_list f [] w = Inr w"
| "encode_list f (v # vs) w = and_then (f v w) (encode_list f vs)"

definition vec_wire :: "'a wire \<Rightarrow> 'a list wire" where
  "vec_wire W =
     \<lparr>min_size = 4, mem_size = 24,
      wvalidate = (\<lambda>r.
        and_then (enter r) (\<lambda>r.
        and_then (count W r) (\<lambda>(n, r).
        and_then (validate_n (wvalidate W) n r) (\<lambda>r.
        Inr (r\<lparr>depth := depth r - 1\<rparr>))))),
      wdecode = (\<lambda>r.
        and_then (enter r) (\<lambda>r.
        and_then (count W r) (\<lambda>(n, r).
        if \<not> allocator r n then Inl (CodecError ''allocation failed'')
        else and_then (decode_n (wdecode W) n r) (\<lambda>(vs, r).
        Inr (vs, r\<lparr>depth := depth r - 1\<rparr>))))),
      wencode = (\<lambda>vs w.
        if length vs \<ge> 2 ^ 32 then Inl (CodecError ''collection too long'')
        else and_then (wencode u32_wire (word_of_nat (length vs)) w)
          (encode_list (wencode W) vs))\<rparr>"

text \<open>
  \<open>str::from_utf8\<close> of the standard library: a \<open>String\<close> is modelled by its UTF-8 bytes.
\<close>

abbreviation utf8_cont :: "byte \<Rightarrow> bool" where
  "utf8_cont b \<equiv> 0x80 \<le> b \<and> b \<le> 0xBF"

fun utf8_valid :: "byte list \<Rightarrow> bool" where
  "utf8_valid [] = True"
| "utf8_valid (b0 # bs) =
     (if b0 \<le> 0x7F then utf8_valid bs
      else if 0xC2 \<le> b0 \<and> b0 \<le> 0xDF then
        (case bs of b1 # rest \<Rightarrow> utf8_cont b1 \<and> utf8_valid rest | _ \<Rightarrow> False)
      else if 0xE0 \<le> b0 \<and> b0 \<le> 0xEF then
        (case bs of b1 # b2 # rest \<Rightarrow>
           (if b0 = 0xE0 then 0xA0 \<le> b1 \<and> b1 \<le> 0xBF
            else if b0 = 0xED then 0x80 \<le> b1 \<and> b1 \<le> 0x9F
            else utf8_cont b1) \<and> utf8_cont b2 \<and> utf8_valid rest
         | _ \<Rightarrow> False)
      else if 0xF0 \<le> b0 \<and> b0 \<le> 0xF4 then
        (case bs of b1 # b2 # b3 # rest \<Rightarrow>
           (if b0 = 0xF0 then 0x90 \<le> b1 \<and> b1 \<le> 0xBF
            else if b0 = 0xF4 then 0x80 \<le> b1 \<and> b1 \<le> 0x8F
            else utf8_cont b1) \<and> utf8_cont b2 \<and> utf8_cont b3 \<and> utf8_valid rest
         | _ \<Rightarrow> False)
      else False)"

definition string_read :: "decoder \<Rightarrow> codec_error + (byte list \<times> decoder)" where
  "string_read r =
     and_then (count u8_wire r) (\<lambda>(n, r).
     and_then (take_bytes n r) (\<lambda>(bytes, r).
     if utf8_valid bytes then Inr (bytes, r) else Inl (CodecError ''invalid UTF-8'')))"

definition string_wire :: "byte list wire" where
  "string_wire =
     \<lparr>min_size = 4, mem_size = 24,
      wvalidate = (\<lambda>r. and_then (string_read r) (\<lambda>(_, r). Inr r)),
      wdecode = (\<lambda>r. and_then (string_read r) (\<lambda>(text, r).
        if \<not> allocator r (length text) then Inl (CodecError ''allocation failed'')
        else Inr (text, r))),
      wencode = (\<lambda>s w.
        if length s \<ge> 2 ^ 32 then Inl (CodecError ''string too long'')
        else and_then (wencode u32_wire (word_of_nat (length s)) w) (encoder_write s))\<rparr>"

section \<open>Entry points\<close>

definition validate :: "'a wire \<Rightarrow> (nat \<Rightarrow> bool) \<Rightarrow> byte list \<Rightarrow> codec_error + unit" where
  "validate W al bytes =
     (if length bytes > max_payload_bytes then Inl (CodecError ''payload byte budget exceeded'')
      else and_then (wvalidate W (decoder_new al bytes)) finish)"

definition decode :: "'a wire \<Rightarrow> (nat \<Rightarrow> bool) \<Rightarrow> byte list \<Rightarrow> codec_error + 'a" where
  "decode W al bytes =
     and_then (validate W al bytes) (\<lambda>_.
     and_then (wdecode W (decoder_new al bytes)) (\<lambda>(v, r).
     and_then (finish r) (\<lambda>_. Inr v)))"

definition encode :: "'a wire \<Rightarrow> (nat \<Rightarrow> bool) \<Rightarrow> 'a \<Rightarrow> codec_error + byte list" where
  "encode W al v =
     and_then (wencode W v (encoder_default al)) (\<lambda>w.
     and_then (validate W al (buf w)) (\<lambda>_. Inr (buf w)))"

section \<open>The codec interface\<close>

text \<open>
  A \<open>shape\<close> describes what a type looks like on the wire: which values can be
  transmitted, their canonical bytes, the bytes they charge to the allocation budget and
  how deeply their collections nest.
\<close>

record 'a shape =
  sendable :: "'a \<Rightarrow> bool"
  canon :: "'a \<Rightarrow> byte list"
  heap_cost :: "'a \<Rightarrow> nat"
  nesting :: "'a \<Rightarrow> nat"

definition consumed :: "'a shape \<Rightarrow> 'a \<Rightarrow> decoder \<Rightarrow> byte list \<Rightarrow> decoder" where
  "consumed S v r rest = r\<lparr>remaining := rest, allocation := allocation r + heap_cost S v\<rparr>"

text \<open>
  \<open>wire_fields\<close> is what a sequence of fields promises; \<open>wire_codec\<close>, for a whole value,
  adds that \<open>MIN_SIZE\<close> is positive.
\<close>

locale wire_fields =
  fixes W :: "'a wire" and S :: "'a shape"
  assumes decode_sound:
      "wdecode W r = Inr (v, r') \<Longrightarrow>
         sendable S v \<and> remaining r = canon S v @ remaining r' \<and> r' = consumed S v r (remaining r')"
    and decode_budget:
      "wdecode W r = Inr (v, r') \<Longrightarrow> allocation r \<le> max_allocation_bytes \<Longrightarrow>
         depth r \<le> max_depth \<Longrightarrow>
         allocation r' \<le> max_allocation_bytes \<and> depth r + nesting S v \<le> max_depth"
    and decode_complete:
      "sendable S v \<Longrightarrow> remaining r = canon S v @ rest \<Longrightarrow>
         allocation r + heap_cost S v \<le> max_allocation_bytes \<Longrightarrow>
         depth r + nesting S v \<le> max_depth \<Longrightarrow> (\<And>n. allocator r n) \<Longrightarrow>
         wdecode W r = Inr (v, consumed S v r rest)"
    and decode_validates:
      "wdecode W r = Inr (v, r') \<Longrightarrow> wvalidate W r = Inr r'"
    and validate_agrees:
      "(\<And>n. allocator r n) \<Longrightarrow> wvalidate W r = and_then (wdecode W r) (\<lambda>(_, r'). Inr r')"
    and canon_length: "sendable S v \<Longrightarrow> min_size W \<le> length (canon S v)"
    and canon_prefix:
      "sendable S v \<Longrightarrow> sendable S v' \<Longrightarrow> canon S v @ xs = canon S v' @ ys \<Longrightarrow> v = v'"
    and encode_sound:
      "wencode W v w = Inr w' \<Longrightarrow> w' = w\<lparr>buf := buf w @ canon S v\<rparr>"
    and encode_budget:
      "wencode W v w = Inr w' \<Longrightarrow> length (buf w) \<le> max_payload_bytes \<Longrightarrow>
         length (buf w') \<le> max_payload_bytes"
    and encode_complete:
      "sendable S v \<Longrightarrow> length (buf w) + length (canon S v) \<le> max_payload_bytes \<Longrightarrow>
         (\<And>n. grants w n) \<Longrightarrow> wencode W v w = Inr (w\<lparr>buf := buf w @ canon S v\<rparr>)"

locale wire_codec = wire_fields +
  assumes min_size_pos: "0 < min_size W"

section \<open>Scalars and the unit marker\<close>

lemmas reader_defs = take_bytes_def enter_def finish_def count_def
lemmas wire_defs = scalar_wire_def unit_wire_def vec_wire_def string_wire_def

lemma max_payload_small: "max_payload_bytes < 2 ^ 32"
  by (simp add: max_payload_bytes_def)

lemma encoder_write_Inr:
  "encoder_write bs w = Inr w' \<longleftrightarrow>
     length bs \<le> max_payload_bytes - length (buf w) \<and> grants w (length bs) \<and>
     w' = w\<lparr>buf := buf w @ bs\<rparr>"
  by (auto simp: encoder_write_def)

lemma encoder_write_fits:
  "length (buf w) + length bs \<le> max_payload_bytes \<Longrightarrow> grants w (length bs) \<Longrightarrow>
     encoder_write bs w = Inr (w\<lparr>buf := buf w @ bs\<rparr>)"
  by (simp add: encoder_write_Inr)

lemma take_bytes_Inr:
  "take_bytes n r = Inr (bs, r') \<longleftrightarrow>
     n \<le> length (remaining r) \<and> bs = take n (remaining r) \<and>
     r' = r\<lparr>remaining := drop n (remaining r)\<rparr>"
  by (auto simp: take_bytes_def)

lemma take_bytes_append:
  "remaining r = bs @ rest \<Longrightarrow> take_bytes (length bs) r = Inr (bs, r\<lparr>remaining := rest\<rparr>)"
  by (simp add: take_bytes_def)

definition scalar_shape :: "('a::len word) shape" where
  "scalar_shape =
     \<lparr>sendable = (\<lambda>_. True), canon = to_le_bytes, heap_cost = (\<lambda>_. 0), nesting = (\<lambda>_. 0)\<rparr>"

lemma scalar_wire_sel [simp]:
  "min_size (scalar_wire :: ('a::len word) wire) = LENGTH('a) div 8"
  "mem_size (scalar_wire :: ('a::len word) wire) = LENGTH('a) div 8"
  "wencode (scalar_wire :: ('a::len word) wire) v = encoder_write (to_le_bytes v)"
  by (simp_all add: scalar_wire_def Let_def)

lemma scalar_shape_sel [simp]:
  "sendable scalar_shape v" "canon scalar_shape v = to_le_bytes v"
  "heap_cost scalar_shape v = 0" "nesting scalar_shape v = 0"
  by (simp_all add: scalar_shape_def)

lemma scalar_decode_Inr:
  assumes "8 dvd LENGTH('a::len)"
  shows "wdecode (scalar_wire :: ('a word) wire) r = Inr (v, r') \<longleftrightarrow>
           remaining r = to_le_bytes v @ remaining r' \<and> r' = r\<lparr>remaining := remaining r'\<rparr>"
proof
  assume "wdecode (scalar_wire :: ('a word) wire) r = Inr (v, r')"
  then have n: "LENGTH('a) div 8 \<le> length (remaining r)"
    and v: "v = from_le_bytes (take (LENGTH('a) div 8) (remaining r))"
    and r': "r' = r\<lparr>remaining := drop (LENGTH('a) div 8) (remaining r)\<rparr>"
    by (auto simp: scalar_wire_def Let_def res_simps take_bytes_Inr)
  have "to_le_bytes v = take (LENGTH('a) div 8) (remaining r)"
    unfolding v by (rule to_from_le_bytes) (use assms n in auto)
  then show "remaining r = to_le_bytes v @ remaining r' \<and> r' = r\<lparr>remaining := remaining r'\<rparr>"
    by (simp add: r')
next
  assume "remaining r = to_le_bytes v @ remaining r' \<and> r' = r\<lparr>remaining := remaining r'\<rparr>"
  then show "wdecode (scalar_wire :: ('a word) wire) r = Inr (v, r')"
    using take_bytes_append [of r "to_le_bytes v" "remaining r'"] assms
    by (simp add: scalar_wire_def Let_def from_to_le_bytes)
qed

lemma scalar_codec:
  assumes dvd: "8 dvd LENGTH('a::len)"
  shows "wire_codec (scalar_wire :: ('a word) wire) scalar_shape"
proof -
  have pos: "0 < LENGTH('a) div 8"
    using dvd by (metis dvd_div_eq_0_iff len_gt_0 neq0_conv)
  note dec = scalar_decode_Inr [OF dvd]
  show ?thesis
  proof (unfold_locales, goal_cases)
    case (1 r v r')
    then show ?case by (cases r; cases r') (auto simp: dec consumed_def)
  next
    case (2 r v r')
    then show ?case by (cases r; cases r') (auto simp: dec)
  next
    case (3 v r rest)
    then show ?case by (simp add: dec consumed_def)
  next
    case (4 r v r')
    then show ?case by (auto simp: scalar_wire_def Let_def res_simps)
  next
    case (5 r)
    then show ?case by (simp add: scalar_wire_def Let_def take_bytes_def)
  next
    case (7 v v' xs ys)
    then show ?case using to_le_bytes_inj [OF dvd, of v v'] by simp
  qed (use pos in \<open>auto simp: encoder_write_Inr\<close>)
qed

interpretation w8: wire_codec u8_wire scalar_shape by (rule scalar_codec) simp
interpretation w16: wire_codec u16_wire scalar_shape by (rule scalar_codec) simp
interpretation w32: wire_codec u32_wire scalar_shape by (rule scalar_codec) simp
interpretation w64: wire_codec u64_wire scalar_shape by (rule scalar_codec) simp

definition unit_shape :: "unit shape" where
  "unit_shape =
     \<lparr>sendable = (\<lambda>_. True), canon = (\<lambda>_. [0]), heap_cost = (\<lambda>_. 0), nesting = (\<lambda>_. 0)\<rparr>"

lemma to_le_bytes_0 [simp]: "to_le_bytes (0::u8) = [0]"
  by (simp add: to_le_bytes_def)

lemma to_le_bytes_u8 [simp]: "to_le_bytes (b::u8) = [b]"
proof -
  have "unat b < 256" using unsigned_less [of b] by simp
  then show ?thesis by (simp add: to_le_bytes_def)
qed

lemma u8_decode:
  "wdecode u8_wire r =
     (case remaining r of [] \<Rightarrow> Inl (CodecError ''truncated field'')
      | b # rest \<Rightarrow> Inr (b, r\<lparr>remaining := rest\<rparr>))"
  by (cases "remaining r") (simp_all add: scalar_wire_def take_bytes_def from_le_bytes_def)

lemma unit_validate_Inr:
  "unit_validate r = Inr r' \<longleftrightarrow> remaining r = 0 # remaining r' \<and> r' = r\<lparr>remaining := remaining r'\<rparr>"
  by (cases "remaining r"; cases r; cases r') (auto simp: unit_validate_def u8_decode)

interpretation unit: wire_codec unit_wire unit_shape
proof (unfold_locales, goal_cases)
  case (1 r v r')
  then show ?case
    by (cases r; cases r')
      (auto simp: unit_wire_def unit_shape_def consumed_def res_simps unit_validate_Inr)
next
  case (2 r v r')
  then show ?case
    by (cases r; cases r') (auto simp: unit_wire_def unit_shape_def res_simps unit_validate_Inr)
next
  case (4 r v r')
  then show ?case by (auto simp: unit_wire_def res_simps)
next
  case (5 r)
  then show ?case by (auto simp: unit_wire_def and_then_assoc and_then_def split: sum.split)
qed (auto simp: unit_wire_def unit_shape_def consumed_def res_simps unit_validate_Inr
      encoder_write_Inr)

section \<open>Collections\<close>

lemma count_Inr:
  "count W r = Inr (n, r') \<longleftrightarrow>
     n < 2 ^ 32 \<and> remaining r = to_le_bytes (word_of_nat n :: u32) @ remaining r' \<and>
     0 < min_size W \<and> n * min_size W \<le> length (remaining r') \<and>
     r' = r\<lparr>remaining := remaining r', allocation := allocation r + n * max (mem_size W) 1\<rparr> \<and>
     allocation r' \<le> max_allocation_bytes" (is "?L \<longleftrightarrow> ?R")
proof
  assume ?L
  then obtain c r1 where c: "wdecode u32_wire r = Inr (c, r1)" and n: "n = unat c"
    and m: "min_size W \<noteq> 0" "n \<le> length (remaining r1) div min_size W"
    and t: "allocation r1 + n * max (mem_size W) 1 \<le> max_allocation_bytes"
    and r': "r' = r1\<lparr>allocation := allocation r1 + n * max (mem_size W) 1\<rparr>"
    by (auto simp: count_def res_simps Let_def split: if_splits)
  from c have r1: "remaining r = to_le_bytes c @ remaining r1" "r1 = r\<lparr>remaining := remaining r1\<rparr>"
    by (simp_all add: scalar_decode_Inr)
  have "n < 2 ^ 32" using n unsigned_less [of c] by simp
  moreover have "n * min_size W \<le> length (remaining r1)"
    using m less_eq_div_iff_mult_less_eq by simp
  moreover have "allocation r1 = allocation r"
    by (subst r1(2)) simp
  ultimately show ?R
    using r1 n m t r' by (cases r; cases r1) auto
next
  assume R: ?R
  define r1 where "r1 = r\<lparr>remaining := remaining r'\<rparr>"
  have "wdecode u32_wire r = Inr (word_of_nat n, r1)"
    using R by (simp add: scalar_decode_Inr r1_def)
  moreover have "unat (word_of_nat n :: u32) = n" using R by (simp add: unat_of_nat)
  moreover have "n \<le> length (remaining r') div min_size W"
    using R less_eq_div_iff_mult_less_eq by simp
  moreover have "allocation r + n * max (mem_size W) 1 \<le> max_allocation_bytes"
    using R by (cases r; cases r') auto
  then have "allocation r + n * max (mem_size W) 1 \<le> usize_max"
    and "allocation r + n * max (mem_size W) 1 \<le> max_allocation_bytes"
    by (simp_all add: usize_max_def max_allocation_bytes_def)
  ultimately show ?L
    using R by (cases r; cases r')
      (auto simp: count_def Let_def usize_checked_mul_def usize_checked_add_def r1_def)
qed

definition string_shape :: "byte list shape" where
  "string_shape =
     \<lparr>sendable = (\<lambda>s. utf8_valid s \<and> length s < 2 ^ 32),
      canon = (\<lambda>s. to_le_bytes (word_of_nat (length s) :: u32) @ s),
      heap_cost = length, nesting = (\<lambda>_. 0)\<rparr>"

lemma string_read_Inr:
  "string_read r = Inr (s, r') \<longleftrightarrow>
     utf8_valid s \<and> length s < 2 ^ 32 \<and>
     remaining r = to_le_bytes (word_of_nat (length s) :: u32) @ s @ remaining r' \<and>
     r' = r\<lparr>remaining := remaining r', allocation := allocation r + length s\<rparr> \<and>
     allocation r' \<le> max_allocation_bytes" (is "?L \<longleftrightarrow> ?R")
proof
  assume ?L
  then obtain n r1 where c: "count u8_wire r = Inr (n, r1)"
    and t: "take_bytes n r1 = Inr (s, r')" and u: "utf8_valid s"
    by (auto simp: string_read_def res_simps split: if_splits)
  from t have "length s = n" and "remaining r1 = s @ remaining r'"
    and "r' = r1\<lparr>remaining := remaining r'\<rparr>"
    by (auto simp: take_bytes_Inr)
  then show ?R using c u by (cases r; cases r1; cases r') (auto simp: count_Inr)
next
  assume R: ?R
  define r1 where "r1 = r\<lparr>remaining := s @ remaining r', allocation := allocation r + length s\<rparr>"
  have "count u8_wire r = Inr (length s, r1)"
    using R by (cases r; cases r') (auto simp: count_Inr r1_def)
  moreover have "take_bytes (length s) r1 = Inr (s, r')"
    using R by (cases r; cases r') (auto simp: take_bytes_Inr r1_def)
  ultimately show ?L using R by (simp add: string_read_def)
qed

lemma length_prefix_inj:
  assumes "to_le_bytes (word_of_nat m :: u32) @ xs = to_le_bytes (word_of_nat n :: u32) @ ys"
    and "m < 2 ^ 32" "n < 2 ^ 32"
  shows "m = n \<and> xs = ys"
proof -
  have "to_le_bytes (word_of_nat m :: u32) = to_le_bytes (word_of_nat n :: u32)" and xy: "xs = ys"
    using assms(1) by (simp_all add: append_eq_append_conv)
  then have "(word_of_nat m :: u32) = word_of_nat n"
    by (auto intro: to_le_bytes_inj [rotated])
  then have "unat (word_of_nat m :: u32) = unat (word_of_nat n :: u32)" by simp
  then show ?thesis using assms xy by (simp add: unat_of_nat)
qed

interpretation string: wire_codec string_wire string_shape
proof (unfold_locales, goal_cases)
  case (1 r v r')
  then show ?case
    by (cases r; cases r')
      (auto simp: string_wire_def string_shape_def consumed_def res_simps string_read_Inr
        split: if_splits)
next
  case (2 r v r')
  then show ?case
    by (auto simp: string_wire_def string_shape_def res_simps string_read_Inr split: if_splits)
next
  case (3 v r rest)
  then have "string_read r = Inr (v, consumed string_shape v r rest)"
    by (simp add: string_read_Inr consumed_def string_shape_def)
  with 3 show ?case
    by (simp add: string_wire_def consumed_def)
next
  case (4 r v r')
  then show ?case by (auto simp: string_wire_def res_simps split: if_splits)
next
  case (5 r)
  show ?case
  proof (cases "string_read r")
    case (Inr p)
    then obtain s r' where p: "p = (s, r')" and s: "string_read r = Inr (s, r')"
      by (cases p) auto
    from s have "allocator r' = allocator r"
      by (cases r; cases r') (auto simp: string_read_Inr)
    with s p 5 show ?thesis by (simp add: string_wire_def)
  qed (simp add: string_wire_def)
next
  case (7 v v' xs ys)
  then have "length v = length v' \<and> v @ xs = v' @ ys"
    by (intro length_prefix_inj) (simp_all add: string_shape_def)
  then show ?case by (metis append_eq_append_conv)
qed (auto simp: string_wire_def string_shape_def res_simps encoder_write_Inr
      split: if_splits)

definition max_list :: "nat list \<Rightarrow> nat" where
  "max_list ns = foldr max ns 0"

lemma max_list_simps [simp]:
  "max_list [] = 0"
  "max_list (n # ns) = max n (max_list ns)"
  by (simp_all add: max_list_def)

lemma max_list_ge: "n \<in> set ns \<Longrightarrow> n \<le> max_list ns"
  by (induction ns) auto

definition vec_shape :: "'a shape \<Rightarrow> 'a wire \<Rightarrow> 'a list shape" where
  "vec_shape S W =
     \<lparr>sendable = (\<lambda>vs. length vs < 2 ^ 32 \<and> list_all (sendable S) vs),
      canon = (\<lambda>vs. to_le_bytes (word_of_nat (length vs) :: u32) @ concat (map (canon S) vs)),
      heap_cost = (\<lambda>vs. length vs * max (mem_size W) 1 + sum_list (map (heap_cost S) vs)),
      nesting = (\<lambda>vs. Suc (max_list (map (nesting S) vs)))\<rparr>"

definition list_shape :: "'a shape \<Rightarrow> 'a list shape" where
  "list_shape S =
     \<lparr>sendable = list_all (sendable S), canon = (\<lambda>vs. concat (map (canon S) vs)),
      heap_cost = (\<lambda>vs. sum_list (map (heap_cost S) vs)),
      nesting = (\<lambda>vs. max_list (map (nesting S) vs))\<rparr>"

lemma consumed_sel [simp]:
  "remaining (consumed S v r rest) = rest"
  "allocation (consumed S v r rest) = allocation r + heap_cost S v"
  "depth (consumed S v r rest) = depth r"
  "allocator (consumed S v r rest) = allocator r"
  by (simp_all add: consumed_def)

context wire_fields
begin

lemma decode_remaining:
  assumes "wdecode W r = Inr (v, r')"
  shows "remaining r = canon S v @ remaining r'" "depth r' = depth r" "allocator r' = allocator r"
    "allocation r' = allocation r + heap_cost S v" "sendable S v"
  using decode_sound [OF assms] by (auto intro: consumed_sel elim: ssubst)

lemma decode_n_sound:
  "decode_n (wdecode W) n r = Inr (vs, r') \<Longrightarrow>
     length vs = n \<and> sendable (list_shape S) vs \<and>
     remaining r = canon (list_shape S) vs @ remaining r' \<and>
     r' = consumed (list_shape S) vs r (remaining r')"
proof (induction n arbitrary: r vs)
  case 0
  then show ?case by (simp add: list_shape_def consumed_def)
next
  case (Suc n)
  then obtain v r1 vs1 where v: "wdecode W r = Inr (v, r1)"
    and vs: "decode_n (wdecode W) n r1 = Inr (vs1, r')" and eq: "vs = v # vs1"
    by (auto simp: res_simps)
  note s = decode_sound [OF v] and IH = Suc.IH [OF vs]
  have "r1 = consumed S v r (remaining r1)" using s by blast
  then have "r' = consumed (list_shape S) vs1 (consumed S v r (remaining r1)) (remaining r')"
    using IH by metis
  then have "r' = consumed (list_shape S) vs r (remaining r')"
    by (simp add: eq consumed_def list_shape_def add.assoc)
  then show ?case using s IH by (simp add: eq list_shape_def)
qed

lemma decode_n_budget:
  "decode_n (wdecode W) n r = Inr (vs, r') \<Longrightarrow> allocation r \<le> max_allocation_bytes \<Longrightarrow>
     depth r \<le> max_depth \<Longrightarrow>
     allocation r' \<le> max_allocation_bytes \<and> depth r + nesting (list_shape S) vs \<le> max_depth"
proof (induction n arbitrary: r vs)
  case (Suc n)
  then obtain v r1 vs1 where v: "wdecode W r = Inr (v, r1)"
    and vs: "decode_n (wdecode W) n r1 = Inr (vs1, r')" and eq: "vs = v # vs1"
    by (auto simp: res_simps)
  note b = decode_budget [OF v Suc.prems(2,3)]
  have "allocation r' \<le> max_allocation_bytes \<and> depth r1 + nesting (list_shape S) vs1 \<le> max_depth"
    using b by (intro Suc.IH [OF vs]) (auto simp: decode_remaining(2) [OF v] Suc.prems)
  then show ?case using b by (auto simp: eq list_shape_def decode_remaining(2) [OF v] max_def)
qed (simp add: list_shape_def)

lemma decode_n_complete:
  "sendable (list_shape S) vs \<Longrightarrow> remaining r = canon (list_shape S) vs @ rest \<Longrightarrow>
     allocation r + heap_cost (list_shape S) vs \<le> max_allocation_bytes \<Longrightarrow>
     depth r + nesting (list_shape S) vs \<le> max_depth \<Longrightarrow> (\<And>n. allocator r n) \<Longrightarrow>
     decode_n (wdecode W) (length vs) r = Inr (vs, consumed (list_shape S) vs r rest)"
proof (induction vs arbitrary: r)
  case Nil
  then show ?case by (simp add: list_shape_def consumed_def)
next
  case (Cons v vs)
  define r1 where "r1 = consumed S v r (canon (list_shape S) vs @ rest)"
  have "wdecode W r = Inr (v, r1)"
    unfolding r1_def using Cons.prems by (intro decode_complete) (simp_all add: list_shape_def)
  moreover have "decode_n (wdecode W) (length vs) r1 = Inr (vs, consumed (list_shape S) vs r1 rest)"
    using Cons.prems by (intro Cons.IH) (simp_all add: list_shape_def r1_def)
  moreover have "consumed (list_shape S) vs r1 rest = consumed (list_shape S) (v # vs) r rest"
    by (simp add: r1_def consumed_def list_shape_def add.assoc)
  ultimately show ?case by simp
qed

lemma validate_n_agrees:
  "(\<And>n. allocator r n) \<Longrightarrow>
     validate_n (wvalidate W) n r = and_then (decode_n (wdecode W) n r) (\<lambda>(_, r'). Inr r')"
proof (induction n arbitrary: r)
  case (Suc n)
  show ?case
  proof (cases "wdecode W r")
    case (Inr p)
    then obtain v r1 where v: "wdecode W r = Inr (v, r1)" by (cases p) auto
    then have "allocator r1 = allocator r" by (rule decode_remaining)
    then have IH: "validate_n (wvalidate W) n r1 =
        and_then (decode_n (wdecode W) n r1) (\<lambda>(_, r'). Inr r')"
      using Suc by simp
    have "wvalidate W r = Inr r1" using v by (rule decode_validates)
    with v IH show ?thesis by (cases "decode_n (wdecode W) n r1") auto
  qed (simp add: validate_agrees Suc.prems)
qed simp

lemma decode_n_validates:
  "decode_n (wdecode W) n r = Inr (vs, r') \<Longrightarrow> validate_n (wvalidate W) n r = Inr r'"
  by (induction n arbitrary: r vs) (auto simp: res_simps dest!: decode_validates)

lemma canon_list_prefix:
  "sendable (list_shape S) vs \<Longrightarrow> sendable (list_shape S) vs' \<Longrightarrow> length vs = length vs' \<Longrightarrow>
     canon (list_shape S) vs @ xs = canon (list_shape S) vs' @ ys \<Longrightarrow> vs = vs'"
proof (induction vs vs' rule: list_induct2')
  case (4 v vs v' vs')
  have eq: "canon S v @ (canon (list_shape S) vs @ xs) = canon S v' @ (canon (list_shape S) vs' @ ys)"
    using 4 by (simp add: list_shape_def)
  have "v = v'" using 4 by (intro canon_prefix [OF _ _ eq]) (simp_all add: list_shape_def)
  moreover have "vs = vs'"
    using 4 eq \<open>v = v'\<close> by (intro "4.IH") (simp_all add: list_shape_def)
  ultimately show ?case by simp
qed (simp_all add: list_shape_def)

lemma canon_list_length:
  "sendable (list_shape S) vs \<Longrightarrow> length vs * min_size W \<le> length (canon (list_shape S) vs)"
  by (induction vs) (auto simp: list_shape_def add_mono dest: canon_length)

lemma encode_list_sound:
  "encode_list (wencode W) vs w = Inr w' \<Longrightarrow> w' = w\<lparr>buf := buf w @ canon (list_shape S) vs\<rparr>"
proof (induction vs arbitrary: w)
  case (Cons v vs)
  then obtain w1 where v: "wencode W v w = Inr w1" and vs: "encode_list (wencode W) vs w1 = Inr w'"
    by (auto simp: res_simps)
  from encode_sound [OF v] Cons.IH [OF vs] show ?case by (simp add: list_shape_def)
qed (simp add: list_shape_def)

lemma encode_list_budget:
  "encode_list (wencode W) vs w = Inr w' \<Longrightarrow> length (buf w) \<le> max_payload_bytes \<Longrightarrow>
     length (buf w') \<le> max_payload_bytes"
  by (induction vs arbitrary: w) (auto simp: res_simps dest: encode_budget)

lemma encode_list_complete:
  "sendable (list_shape S) vs \<Longrightarrow>
     length (buf w) + length (canon (list_shape S) vs) \<le> max_payload_bytes \<Longrightarrow>
     (\<And>n. grants w n) \<Longrightarrow>
     encode_list (wencode W) vs w = Inr (w\<lparr>buf := buf w @ canon (list_shape S) vs\<rparr>)"
  by (induction vs arbitrary: w) (auto simp: list_shape_def encode_complete)

end

context wire_codec
begin

lemma vec_decode_Inr:
  "wdecode (vec_wire W) r = Inr (vs, r') \<longleftrightarrow>
     (\<exists>r1 r2 r3. enter r = Inr r1 \<and> count W r1 = Inr (length vs, r2) \<and> allocator r2 (length vs) \<and>
        decode_n (wdecode W) (length vs) r2 = Inr (vs, r3) \<and> r' = r3\<lparr>depth := depth r3 - 1\<rparr>)"
  by (auto simp: vec_wire_def res_simps dest: decode_n_sound split: if_splits)

lemma vec_decode_sound:
  assumes "wdecode (vec_wire W) r = Inr (vs, r')"
  shows "sendable (vec_shape S W) vs \<and> remaining r = canon (vec_shape S W) vs @ remaining r' \<and>
    r' = consumed (vec_shape S W) vs r (remaining r') \<and>
    (allocation r \<le> max_allocation_bytes \<longrightarrow> depth r \<le> max_depth \<longrightarrow>
       allocation r' \<le> max_allocation_bytes \<and> depth r + nesting (vec_shape S W) vs \<le> max_depth)"
proof -
  obtain r1 r2 r3 where e: "enter r = Inr r1" and c: "count W r1 = Inr (length vs, r2)"
    and d: "decode_n (wdecode W) (length vs) r2 = Inr (vs, r3)"
    and r': "r' = r3\<lparr>depth := depth r3 - 1\<rparr>"
    using assms by (auto simp: vec_decode_Inr)
  have r1: "r1 = r\<lparr>depth := depth r + 1\<rparr>" "depth r1 \<le> max_depth"
    using e by (auto simp: enter_def Let_def split: if_splits)
  have r2: "length vs < 2 ^ 32" "allocation r2 \<le> max_allocation_bytes"
    "remaining r = to_le_bytes (word_of_nat (length vs) :: u32) @ remaining r2"
    "allocation r2 = allocation r + length vs * max (mem_size W) 1" "depth r2 = depth r + 1"
    "allocator r2 = allocator r"
    using c unfolding count_Inr r1 by (cases r; cases r2; auto)+
  have r3: "sendable (list_shape S) vs" "remaining r2 = canon (list_shape S) vs @ remaining r3"
    "r3 = consumed (list_shape S) vs r2 (remaining r3)"
    using decode_n_sound [OF d] by blast+
  have f: "depth r3 = depth r2" "allocation r3 = allocation r2 + heap_cost (list_shape S) vs"
    "allocator r3 = allocator r2"
    using r3(3) by (metis consumed_sel)+
  have b: "allocation r3 \<le> max_allocation_bytes \<and> depth r2 + nesting (list_shape S) vs \<le> max_depth"
    using r2(2,5) r1 by (intro decode_n_budget [OF d]) auto
  show ?thesis
    using r2 r3(1,2) f b unfolding r'
    by (cases r; cases r3) (auto simp: vec_shape_def list_shape_def consumed_def)
qed

lemma vec_decode_complete:
  assumes "sendable (vec_shape S W) vs" "remaining r = canon (vec_shape S W) vs @ rest"
    "allocation r + heap_cost (vec_shape S W) vs \<le> max_allocation_bytes"
    "depth r + nesting (vec_shape S W) vs \<le> max_depth" "\<And>n. allocator r n"
  shows "wdecode (vec_wire W) r = Inr (vs, consumed (vec_shape S W) vs r rest)"
proof -
  define r1 where "r1 = r\<lparr>depth := depth r + 1\<rparr>"
  define r2 where "r2 = r1\<lparr>remaining := canon (list_shape S) vs @ rest,
    allocation := allocation r + length vs * max (mem_size W) 1\<rparr>"
  have sl: "sendable (list_shape S) vs" using assms(1) by (simp add: vec_shape_def list_shape_def)
  have "enter r = Inr r1"
    using assms(4) by (simp add: enter_def r1_def vec_shape_def)
  moreover have "count W r1 = Inr (length vs, r2)"
    using assms canon_list_length [OF sl] min_size_pos
    by (simp add: count_Inr r1_def r2_def vec_shape_def list_shape_def)
  moreover have "decode_n (wdecode W) (length vs) r2 = Inr (vs, consumed (list_shape S) vs r2 rest)"
    using assms by (intro decode_n_complete [OF sl])
      (simp_all add: r1_def r2_def vec_shape_def list_shape_def add.assoc)
  moreover have "allocator r2 (length vs)" by (simp add: r1_def r2_def assms(5))
  ultimately show ?thesis
    unfolding vec_decode_Inr
    by (intro exI [of _ r1] exI [of _ r2] exI [of _ "consumed (list_shape S) vs r2 rest"])
      (simp add: r1_def r2_def vec_shape_def list_shape_def consumed_def add.assoc)
qed

lemma vec_validate_agrees:
  assumes "\<And>n. allocator r n"
  shows "wvalidate (vec_wire W) r = and_then (wdecode (vec_wire W) r) (\<lambda>(_, r'). Inr r')"
proof (cases "and_then (enter r) (count W)")
  case (Inl e)
  then show ?thesis by (auto simp: vec_wire_def res_simps)
next
  case (Inr p)
  then obtain r1 n r2 where e: "enter r = Inr r1" and c: "count W r1 = Inr (n, r2)"
    by (cases p) (auto simp: res_simps)
  have "allocator r2 = allocator r"
    using e c by (cases r; cases r2) (auto simp: enter_def Let_def count_Inr split: if_splits)
  then have "validate_n (wvalidate W) n r2 = and_then (decode_n (wdecode W) n r2) (\<lambda>(_, r'). Inr r')"
    using assms by (intro validate_n_agrees) simp
  then show ?thesis
    using assms \<open>allocator r2 = allocator r\<close> e c
    by (cases "decode_n (wdecode W) n r2") (auto simp: vec_wire_def)
qed

lemma vec_canon_prefix:
  assumes "sendable (vec_shape S W) vs" "sendable (vec_shape S W) vs'"
    "canon (vec_shape S W) vs @ xs = canon (vec_shape S W) vs' @ ys"
  shows "vs = vs'"
proof -
  have "length vs = length vs' \<and>
      canon (list_shape S) vs @ xs = canon (list_shape S) vs' @ ys"
    using assms by (intro length_prefix_inj) (simp_all add: vec_shape_def list_shape_def)
  then show ?thesis
    using assms(1,2) by (intro canon_list_prefix) (auto simp: vec_shape_def list_shape_def)
qed

lemma vec_encode_Inr:
  "wencode (vec_wire W) vs w = Inr w' \<longleftrightarrow>
     length vs < 2 ^ 32 \<and>
     (\<exists>w1. encoder_write (to_le_bytes (word_of_nat (length vs) :: u32)) w = Inr w1 \<and>
        encode_list (wencode W) vs w1 = Inr w')"
  by (auto simp: vec_wire_def res_simps split: if_splits)

lemma vec_codec: "wire_codec (vec_wire W) (vec_shape S W)"
proof (unfold_locales, goal_cases)
  case (1 r vs r')
  then show ?case using vec_decode_sound by blast
next
  case (2 r vs r')
  then show ?case using vec_decode_sound by blast
next
  case (3 vs r rest)
  then show ?case by (rule vec_decode_complete)
next
  case (4 r vs r')
  then show ?case by (auto simp: vec_wire_def res_simps dest: decode_n_validates split: if_splits)
next
  case (5 r)
  then show ?case by (rule vec_validate_agrees)
next
  case (6 vs)
  then show ?case by (simp add: vec_wire_def vec_shape_def)
next
  case (7 vs vs' xs ys)
  then show ?case by (rule vec_canon_prefix)
next
  case (8 vs w w')
  then show ?case
    by (auto simp: vec_encode_Inr vec_shape_def list_shape_def encoder_write_Inr
        dest!: encode_list_sound)
next
  case (9 vs w w')
  then show ?case
    by (auto simp: vec_encode_Inr encoder_write_Inr intro: encode_list_budget)
next
  case (10 vs w)
  define w1 where "w1 = w\<lparr>buf := buf w @ to_le_bytes (word_of_nat (length vs) :: u32)\<rparr>"
  have "encode_list (wencode W) vs w1 = Inr (w1\<lparr>buf := buf w1 @ canon (list_shape S) vs\<rparr>)"
    using 10 by (intro encode_list_complete) (simp_all add: w1_def vec_shape_def list_shape_def)
  then show ?case
    using 10 by (auto simp: vec_encode_Inr encoder_write_Inr w1_def vec_shape_def list_shape_def)
qed (simp add: vec_wire_def)

end

section \<open>The entry points, characterised by the shape\<close>

definition within_budget :: "'a shape \<Rightarrow> 'a \<Rightarrow> bool" where
  "within_budget S v \<longleftrightarrow> sendable S v \<and> length (canon S v) \<le> max_payload_bytes \<and>
     heap_cost S v \<le> max_allocation_bytes \<and> nesting S v \<le> max_depth"

definition infallible :: "nat \<Rightarrow> bool" where
  "infallible n = True"

lemma decoder_new_sel [simp]:
  "remaining (decoder_new al bs) = bs" "allocation (decoder_new al bs) = 0"
  "depth (decoder_new al bs) = 0" "allocator (decoder_new al bs) = al"
  by (simp_all add: decoder_new_def)

lemma finish_Inr [res_simps]: "finish r = Inr x \<longleftrightarrow> remaining r = []"
  by (auto simp: finish_def)

lemma encoder_default_sel [simp]:
  "buf (encoder_default al) = []" "grants (encoder_default al) = al"
  by (simp_all add: encoder_default_def)

context wire_codec
begin

lemma decode_sound_budget:
  assumes "decode W al bs = Inr v"
  shows "within_budget S v \<and> bs = canon S v \<and> validate W al bs = Inr ()"
proof -
  obtain r where d: "wdecode W (decoder_new al bs) = Inr (v, r)" and v: "validate W al bs = Inr ()"
    and e: "remaining r = []"
    using assms by (auto simp: decode_def res_simps)
  have "length bs \<le> max_payload_bytes"
    using v by (auto simp: validate_def split: if_splits)
  moreover have "allocation r \<le> max_allocation_bytes \<and> nesting S v \<le> max_depth"
    using decode_budget [OF d] by (simp add: max_allocation_bytes_def max_depth_def)
  ultimately show ?thesis
    using decode_remaining [OF d] e v by (simp add: within_budget_def)
qed

lemma decode_canon:
  assumes "within_budget S v"
  shows "decode W infallible (canon S v) = Inr v"
proof -
  have "wdecode W (decoder_new infallible (canon S v)) =
      Inr (v, consumed S v (decoder_new infallible (canon S v)) [])"
    using assms by (intro decode_complete) (auto simp: within_budget_def infallible_def)
  moreover from decode_validates [OF this]
  have "validate W infallible (canon S v) = Inr ()"
    using assms by (simp add: validate_def within_budget_def finish_def)
  ultimately show ?thesis by (simp add: decode_def finish_def)
qed

lemma decode_iff: "decode W infallible bs = Inr v \<longleftrightarrow> within_budget S v \<and> bs = canon S v"
  using decode_sound_budget decode_canon by blast

lemma validate_iff: "validate W infallible bs = Inr () \<longleftrightarrow> (\<exists>v. within_budget S v \<and> bs = canon S v)"
proof
  assume v: "validate W infallible bs = Inr ()"
  then obtain r where r: "wvalidate W (decoder_new infallible bs) = Inr r" and "remaining r = []"
    by (auto simp: validate_def res_simps split: if_splits)
  moreover obtain x where "wdecode W (decoder_new infallible bs) = Inr (x, r)"
    using r by (auto simp: validate_agrees infallible_def res_simps)
  ultimately have "decode W infallible bs = Inr x"
    using v by (simp add: decode_def finish_def)
  then show "\<exists>v. within_budget S v \<and> bs = canon S v" using decode_iff by blast
next
  assume "\<exists>v. within_budget S v \<and> bs = canon S v"
  then show "validate W infallible bs = Inr ()"
    using decode_iff decode_sound_budget by blast
qed

lemma encode_canon: "encode W al v = Inr bs \<Longrightarrow> bs = canon S v"
  by (auto simp: encode_def res_simps dest!: encode_sound)

lemma encode_Inr:
  assumes "sendable S v"
  shows "encode W infallible v = Inr bs \<longleftrightarrow> within_budget S v \<and> bs = canon S v"
proof
  assume e: "encode W infallible v = Inr bs"
  then have bs: "bs = canon S v" by (rule encode_canon)
  moreover have "validate W infallible bs = Inr ()"
    using e by (auto simp: encode_def res_simps)
  ultimately obtain v' where v': "within_budget S v'" and eq: "canon S v = canon S v'"
    using validate_iff by auto
  have "v = v'"
    by (rule canon_prefix [of v v' "[]" "[]"]) (use assms v' eq in \<open>auto simp: within_budget_def\<close>)
  then show "within_budget S v \<and> bs = canon S v" using v' bs by blast
next
  assume a: "within_budget S v \<and> bs = canon S v"
  then have "wencode W v (encoder_default infallible) =
      Inr ((encoder_default infallible)\<lparr>buf := canon S v\<rparr>)"
    using encode_complete [of v "encoder_default infallible"]
    by (auto simp: within_budget_def infallible_def)
  moreover have "validate W infallible (canon S v) = Inr ()" using a validate_iff by blast
  ultimately show "encode W infallible v = Inr bs"
    using a by (simp add: encode_def)
qed

lemma roundtrip:
  "sendable S v \<Longrightarrow> encode W infallible v = Inr bs \<Longrightarrow> decode W infallible bs = Inr v"
  by (simp add: encode_Inr decode_iff)

text \<open>No proper prefix of an accepted payload is accepted, and nothing may follow one.\<close>

lemma decode_proper_prefix:
  assumes "decode W infallible bs = Inr v" "k < length bs"
  shows "\<exists>e. decode W infallible (take k bs) = Inl e"
proof (cases "decode W infallible (take k bs)")
  case (Inr v')
  then have s: "within_budget S v'" "take k bs = canon S v'" "within_budget S v" "bs = canon S v"
    using assms(1) by (simp_all add: decode_iff)
  then have "canon S v' @ drop k bs = canon S v @ []" by (metis append_Nil2 append_take_drop_id)
  then have "v' = v" using s by (intro canon_prefix [of v' v "drop k bs" "[]"]) (auto simp: within_budget_def)
  then show ?thesis using s assms(2) by (metis length_take min.absorb4 nat_less_le)
qed simp

lemma decode_trailing:
  assumes "decode W infallible bs = Inr v" "xs \<noteq> []"
  shows "\<exists>e. decode W infallible (bs @ xs) = Inl e"
proof (cases "decode W infallible (bs @ xs)")
  case (Inr v')
  then show ?thesis using decode_proper_prefix [OF Inr, of "length bs"] assms by simp
qed simp

end

lemma validate_too_long: "max_payload_bytes < length bs \<Longrightarrow> validate W al bs = Inl (CodecError ''payload byte budget exceeded'')"
  by (simp add: validate_def)

interpretation vec_u64: wire_codec "vec_wire u64_wire" "vec_shape scalar_shape u64_wire"
  by (rule w64.vec_codec)

section \<open>Properties\<close>

text \<open>Decoding a vector of integers succeeds on exactly the canonical byte string of a
  value within the byte, allocation and nesting budgets, and returns that value; everything
  else, truncated, trailing or oversized, is refused.\<close>

theorem vec_decode_exact:
  "decode (vec_wire u64_wire) infallible bs = Inr vs \<longleftrightarrow>
     within_budget (vec_shape scalar_shape u64_wire) vs \<and>
     bs = canon (vec_shape scalar_shape u64_wire) vs"
  by (rule vec_u64.decode_iff)

text \<open>C26. Whatever the allocator refuses, a decoded payload of a type that meets the codec
  interface is a value that can be sent, was kept within every budget, and its bytes are the
  canonical image of the value: encoding it produces them again.\<close>

theorem decoded_within_budgets:
  assumes "wire_codec W S" "decode W al bs = Inr v"
  shows "sendable S v \<and> length bs \<le> max_payload_bytes \<and> heap_cost S v \<le> max_allocation_bytes \<and>
    nesting S v \<le> max_depth \<and> bs = canon S v \<and> encode W infallible v = Inr bs"
  using wire_codec.decode_sound_budget [OF assms] wire_codec.encode_Inr [OF assms(1), of v bs]
  by (simp add: within_budget_def)

lemma decode_five: "decode u64_wire infallible (to_le_bytes (5 :: u64)) = Inr 5"
  by (simp add: w64.decode_iff within_budget_def scalar_shape_def max_payload_bytes_def
      max_allocation_bytes_def max_depth_def)

theorem decoded_within_budgets_witness:
  "length (to_le_bytes (5 :: u64)) \<le> max_payload_bytes \<and>
     to_le_bytes (5 :: u64) = canon scalar_shape (5 :: u64) \<and>
     encode u64_wire infallible 5 = Inr (to_le_bytes (5 :: u64))"
  using decoded_within_budgets [OF w64.wire_codec_axioms decode_five] by simp

text \<open>C25. A value that the codec accepts comes back unchanged, for every type that meets the
  codec interface.\<close>

theorem wire_roundtrip:
  assumes "wire_codec W S" "sendable S v" "encode W infallible v = Inr bs"
  shows "decode W infallible bs = Inr v"
  using assms by (rule wire_codec.roundtrip)

lemma encode_five: "encode u64_wire infallible 5 = Inr (to_le_bytes (5 :: u64))"
  by (simp add: w64.encode_Inr within_budget_def scalar_shape_def max_payload_bytes_def
      max_allocation_bytes_def max_depth_def)

theorem wire_roundtrip_witness:
  "decode u64_wire infallible (to_le_bytes (5 :: u64)) = Inr 5"
  by (rule wire_roundtrip [OF w64.wire_codec_axioms _ encode_five]) (simp add: scalar_shape_def)

end
