(* ===== verification/Session.thy ===== *)
theory Session
  imports Codec
begin

text \<open>
  \<^verbatim>\<open>crates/synctick/src/session.rs\<close>: the error type shared by all runtimes, the
  presentation status, the cancellation control and the worker that owns the thread's
  join handle.  Error texts keep their fixed part; interpolated values are left out.

  A \<open>SessionControl\<close> is shared by the worker and its owner: it is the record of its two
  cells, passed to and returned by every operation that writes it.  A worker's thread is
  represented by what \<open>JoinHandle::join\<close> will report of it.
\<close>

datatype io_kind = InvalidData | UnexpectedEof | AlreadyExists | NotFound | OtherIo

datatype io_error = IoError io_kind string

datatype session_error =
    Configuration string
  | Compatibility string
  | Codec_Error codec_error
  | Simulation_Error string
  | Io io_error
  | Protocol string
  | Transport string
  | InputDisconnected
  | Worker string
  | Desync string

type_synonym 'a session_result = "session_error + 'a"

datatype loading_phase = LoadingSave | ReceivingSave | ReplayingSave

datatype session_status =
    Connecting
  | Loading loading_phase u64
  | Waiting nat nat
  | AwaitingStart_Status
  | Live_Status
  | Stopped
  | Failed session_error

record session_control =
  cancelled :: bool
  status :: session_status

definition session_control_default :: session_control where
  "session_control_default = \<lparr>cancelled = False, status = Connecting\<rparr>"

definition cancel :: "session_control \<Rightarrow> session_control" where
  "cancel c = c\<lparr>cancelled := True\<rparr>"

definition is_cancelled :: "session_control \<Rightarrow> bool" where
  "is_cancelled c = cancelled c"

definition publish_status :: "session_status \<Rightarrow> session_control \<Rightarrow> session_control" where
  "publish_status s c = c\<lparr>status := s\<rparr>"

section \<open>The worker\<close>

datatype thread_outcome = Returned "unit session_result" | Panicked string

record session_worker =
  thread :: "thread_outcome option"
  terminal :: "(unit session_result) option"

definition spawn :: "thread_outcome \<Rightarrow> session_worker" where
  "spawn work = \<lparr>thread = Some work, terminal = None\<rparr>"

definition is_failed :: "session_status \<Rightarrow> bool" where
  "is_failed s = (case s of Failed _ \<Rightarrow> True | _ \<Rightarrow> False)"

text \<open>The \<open>match\<close> on the joined thread: only a cancelled session may end normally.\<close>

definition thread_result :: "thread_outcome \<Rightarrow> session_control \<Rightarrow> unit session_result" where
  "thread_result t c =
     (if (t = Returned (Inr ()) \<or> t = Returned (Inl InputDisconnected)) \<and> is_cancelled c then Inr ()
      else case t of
        Returned (Inr _) \<Rightarrow> Inl (Worker ''simulation worker stopped unexpectedly'')
      | Returned (Inl e) \<Rightarrow> Inl e
      | Panicked msg \<Rightarrow> Inl (Worker (''simulation worker panicked: '' @ msg)))"

definition publish_result :: "unit session_result \<Rightarrow> session_control \<Rightarrow> session_control" where
  "publish_result res c =
     (case res of
        Inl e \<Rightarrow> publish_status (Failed e) (cancel c)
      | Inr _ \<Rightarrow> if \<not> is_failed (status c) then publish_status Stopped c else c)"

text \<open>
  \<open>join\<close> panics (\<open>None\<close>) on a worker with neither a thread nor a retained result; no
  operation produces one.
\<close>

definition join ::
  "session_worker \<Rightarrow> session_control \<Rightarrow> (unit session_result \<times> session_worker \<times> session_control) option" where
  "join w c =
     (case terminal w of
        Some res \<Rightarrow> Some (res, w, c)
      | None \<Rightarrow>
          (case thread w of
             None \<Rightarrow> None
           | Some t \<Rightarrow>
               let res = thread_result t c
               in Some (res, \<lparr>thread = None, terminal = Some res\<rparr>, publish_result res c)))"

definition poll ::
  "bool \<Rightarrow> session_worker \<Rightarrow> session_control \<Rightarrow> (session_worker \<times> session_control) option" where
  "poll is_finished w c =
     (if thread w \<noteq> None \<and> is_finished
      then map_option (\<lambda>(_, w, c). (w, c)) (join w c) else Some (w, c))"

section \<open>Worker lifecycle\<close>

definition worker_ok :: "session_worker \<Rightarrow> bool" where
  "worker_ok w \<longleftrightarrow> (thread w = None) = (terminal w \<noteq> None)"

lemma spawn_ok: "worker_ok (spawn t)"
  by (simp add: worker_ok_def spawn_def)

lemma join_total: "worker_ok w \<Longrightarrow> \<exists>res w' c'. join w c = Some (res, w', c')"
  by (auto simp: worker_ok_def join_def Let_def split: option.splits)

lemma join_ok: "join w c = Some (res, w', c') \<Longrightarrow> worker_ok w \<Longrightarrow> worker_ok w'"
  by (auto simp: worker_ok_def join_def Let_def split: option.splits)

lemma join_retains: "join w c = Some (res, w', c') \<Longrightarrow> terminal w' = Some res"
  by (auto simp: join_def Let_def split: option.splits)

lemma join_again:
  "join w c = Some (res, w', c') \<Longrightarrow> join w' c'' = Some (res, w', c'')"
  by (frule join_retains) (simp add: join_def [of w'])

lemma join_fresh:
  assumes "join w c = Some (res, w', c')" "terminal w = None"
  obtains t where "thread w = Some t" "res = thread_result t c" "c' = publish_result res c"
  using assms by (auto simp: join_def Let_def split: option.splits)

lemma join_error_cancels:
  "join (spawn t) c = Some (Inl e, w', c') \<Longrightarrow> is_cancelled c' \<and> status c' = Failed e"
  by (auto simp: join_def spawn_def Let_def publish_result_def publish_status_def cancel_def
      is_cancelled_def)

lemma thread_result_Inr:
  "thread_result t c = Inr () \<longleftrightarrow>
     is_cancelled c \<and> (t = Returned (Inr ()) \<or> t = Returned (Inl InputDisconnected))"
proof (cases t)
  case (Returned r)
  show ?thesis
  proof (cases r)
    case (Inl e)
    then show ?thesis
      using Returned by (cases "e = InputDisconnected \<and> is_cancelled c") (auto simp: thread_result_def)
  qed (simp add: Returned thread_result_def)
qed (simp add: thread_result_def)

section \<open>Properties\<close>

text \<open>A worker reports success only when its session was cancelled and its thread ended
  normally; an unasked end and a panic are worker errors.\<close>

theorem normal_end_needs_cancellation:
  "join (spawn t) c = Some (Inr (), w, c') \<longleftrightarrow>
     is_cancelled c \<and> (t = Returned (Inr ()) \<or> t = Returned (Inl InputDisconnected)) \<and>
     w = \<lparr>thread = None, terminal = Some (Inr ())\<rparr> \<and> c' = publish_result (Inr ()) c"
  using thread_result_Inr [of t c] by (auto simp: join_def spawn_def Let_def)

text \<open>Joining is idempotent: the terminal result is retained and every later join, under
  any control, returns it again and changes nothing.\<close>

theorem join_idempotent:
  assumes "join w c = Some (res, w', c')"
  shows "join w' c'' = Some (res, w', c'')"
  using assms by (rule join_again)

theorem join_idempotent_witness:
  "\<exists>w. join w session_control_default =
     Some (Inl (Worker ''simulation worker stopped unexpectedly''), w, session_control_default)"
proof -
  have "join (spawn (Returned (Inr ()))) session_control_default =
      Some (Inl (Worker ''simulation worker stopped unexpectedly''),
        \<lparr>thread = None, terminal = Some (Inl (Worker ''simulation worker stopped unexpectedly''))\<rparr>,
        publish_result (Inl (Worker ''simulation worker stopped unexpectedly'')) session_control_default)"
    by (simp add: join_def spawn_def thread_result_def session_control_default_def is_cancelled_def Let_def)
  from join_idempotent [OF this] show ?thesis by blast
qed

text \<open>A failing worker cancels the session and publishes its error as the status.\<close>

theorem failure_is_published:
  assumes "join (spawn t) c = Some (Inl e, w, c')"
  shows "is_cancelled c' \<and> status c' = Failed e"
  using assms by (rule join_error_cancels)

theorem failure_is_published_witness:
  "is_cancelled (publish_result (Inl (Desync ''x'')) session_control_default)"
proof -
  have "join (spawn (Returned (Inl (Desync ''x'')))) session_control_default =
      Some (Inl (Desync ''x''), \<lparr>thread = None, terminal = Some (Inl (Desync ''x''))\<rparr>,
        publish_result (Inl (Desync ''x'')) session_control_default)"
    by (simp add: join_def spawn_def thread_result_def Let_def)
  from failure_is_published [OF this] show ?thesis by simp
qed

end
