(* ===== verification/Simulation.thy ===== *)
theory Simulation
  imports Session
begin

text \<open>
  \<^verbatim>\<open>crates/synctick/src/simulation.rs\<close> (with the data types of
  \<^verbatim>\<open>protocol.rs\<close> and the header of \<^verbatim>\<open>replay.rs\<close> that its signatures mention): the
  contract between a session and the game, and the driver of one tick.

  The trait \<open>SessionSimulation\<close> is the record \<open>session_sim\<close> of its methods over a state
  \<open>'s\<close>; methods that take \<open>&mut self\<close> return the new state, also when they fail.
  \<open>state_hash\<close> takes \<open>&mut self\<close> only to let an ECS build queries; it is read-only here.
  A method that panics instead of hashing makes the worker report a \<open>Worker\<close> error, which
  is the \<open>Inl\<close> case of \<open>state_hash\<close>.
\<close>

section \<open>Data\<close>

datatype participant_id = Host | Remote u64

record command =
  participant :: participant_id
  payload :: "byte list"

record tick_advance =
  tick :: u64
  inputs :: "command list"

record replay_header =
  magic :: "byte list"
  protocol_id :: u64
  format_version :: u32
  game_id :: "byte list"
  game_version :: u32
  tick_nanos :: u64
  initialization :: "byte list"

datatype tick_phase = Replay | Live

section \<open>The simulation contract and the tick driver\<close>

record 's session_sim =
  sim_header :: "'s \<Rightarrow> replay_header"
  sim_initialize :: "replay_header \<Rightarrow> 's \<Rightarrow> 's \<times> unit session_result"
  sim_validate_command :: "'s \<Rightarrow> byte list \<Rightarrow> unit session_result"
  sim_hash_interval :: "'s \<Rightarrow> u64"
  sim_current_tick :: "'s \<Rightarrow> u64"
  sim_state_hash :: "'s \<Rightarrow> u64 session_result"
  sim_advance :: "tick_advance \<Rightarrow> 's \<Rightarrow> 's \<times> unit session_result"
  sim_publish :: "'s \<Rightarrow> 's \<times> unit session_result"
  sim_finish_tick :: "'s \<Rightarrow> 's"

text \<open>The trait's default methods; the interval is the ticks of one second, rounded.\<close>

definition default_initialize :: "replay_header \<Rightarrow> 's \<Rightarrow> 's \<times> unit session_result" where
  "default_initialize h s = (s, Inr ())"

definition default_validate_command :: "'s \<Rightarrow> byte list \<Rightarrow> unit session_result" where
  "default_validate_command s bytes = Inr ()"

definition hash_interval :: "u64 \<Rightarrow> u64" where
  "hash_interval nanos = (1000000000 + nanos div 2) div nanos"

definition default_finish_tick :: "'s \<Rightarrow> 's" where
  "default_finish_tick s = s"

definition validate_tick :: "'s session_sim \<Rightarrow> 's \<Rightarrow> u64 \<Rightarrow> unit session_result" where
  "validate_tick sim s t =
     (if checked_add (sim_current_tick sim s) 1 \<noteq> Some t then Inl (Protocol ''tick gap'')
      else Inr ())"

text \<open>
  \<open>advance_tick\<close>: the closure under \<open>and_then\<close> (check the tick, publish when live), then
  \<open>finish_tick\<close> whatever its result.
\<close>

definition advance_checked ::
  "'s session_sim \<Rightarrow> u64 \<Rightarrow> tick_phase \<Rightarrow> 's \<Rightarrow> 's \<times> unit session_result" where
  "advance_checked sim expected phase s =
     (if sim_current_tick sim s \<noteq> expected
      then (s, Inl (Simulation_Error ''adapter ended at the wrong tick''))
      else if phase = Live then sim_publish sim s
      else (s, Inr ()))"

definition advance_tick ::
  "'s session_sim \<Rightarrow> tick_advance \<Rightarrow> tick_phase \<Rightarrow> 's \<Rightarrow> 's \<times> unit session_result" where
  "advance_tick sim adv phase s =
     (case validate_tick sim s (tick adv) of
        Inl e \<Rightarrow> (s, Inl e)
      | Inr _ \<Rightarrow>
          let (s, res) = sim_advance sim adv s;
              (s, res) = (case res of
                  Inl e \<Rightarrow> (s, Inl e)
                | Inr _ \<Rightarrow> advance_checked sim (tick adv) phase s)
          in (sim_finish_tick sim s, res))"

text \<open>A run of the driver over consecutive records, stopping at the first error.\<close>

fun advance_all ::
  "'s session_sim \<Rightarrow> tick_phase \<Rightarrow> tick_advance list \<Rightarrow> 's \<Rightarrow> 's \<times> unit session_result" where
  "advance_all sim phase [] s = (s, Inr ())"
| "advance_all sim phase (a # as) s =
     (case advance_tick sim a phase s of
        (s, Inl e) \<Rightarrow> (s, Inl e)
      | (s, Inr _) \<Rightarrow> advance_all sim phase as s)"

section \<open>Facts about the driver that need no contract\<close>

lemma validate_tick_Inr:
  "validate_tick sim s t = Inr () \<longleftrightarrow> unat t = Suc (unat (sim_current_tick sim s))"
  by (auto simp: validate_tick_def checked_add_Some)

lemma validate_tick_exhausted:
  "sim_current_tick sim s = - 1 \<Longrightarrow> validate_tick sim s t = Inl (Protocol ''tick gap'')"
  by (simp add: validate_tick_def checked_add_def unsigned_minus_1_eq_mask mask_eq_exp_minus_1)

lemma advance_tick_gap:
  "validate_tick sim s (tick adv) = Inl e \<Longrightarrow> advance_tick sim adv phase s = (s, Inl e)"
  by (simp add: advance_tick_def)

lemma advance_tick_Inr:
  "advance_tick sim adv phase s = (s', Inr ()) \<longleftrightarrow>
     unat (tick adv) = Suc (unat (sim_current_tick sim s)) \<and>
     (\<exists>s1 s2. sim_advance sim adv s = (s1, Inr ()) \<and> sim_current_tick sim s1 = tick adv \<and>
        (if phase = Live then sim_publish sim s1 = (s2, Inr ()) else s2 = s1) \<and>
        s' = sim_finish_tick sim s2)"
  by (auto simp: advance_tick_def advance_checked_def validate_tick_Inr [symmetric] split_beta
      prod_eq_iff Let_def split: sum.splits if_splits)

lemma advance_all_append:
  "advance_all sim phase (as @ bs) s =
     (case advance_all sim phase as s of
        (s, Inl e) \<Rightarrow> (s, Inl e) | (s, Inr _) \<Rightarrow> advance_all sim phase bs s)"
  by (induction as arbitrary: s) (auto split: prod.splits sum.splits)

section \<open>The contract of a simulation\<close>

text \<open>
  \<open>det\<close> projects the authoritative part of the state.  The assumptions are the rules the
  trait documents: advancing is a function of the authoritative state and the record,
  publication and cleanup do not touch the authoritative state, and tick and fingerprint
  are read from it.
\<close>

locale deterministic_sim =
  fixes sim :: "'s session_sim" and det :: "'s \<Rightarrow> 'd"
  assumes advance_det:
      "det s = det t \<Longrightarrow> det (fst (sim_advance sim a s)) = det (fst (sim_advance sim a t)) \<and>
         snd (sim_advance sim a s) = snd (sim_advance sim a t)"
    and publish_det: "det (fst (sim_publish sim s)) = det s"
    and finish_det: "det (sim_finish_tick sim s) = det s"
    and tick_det: "det s = det t \<Longrightarrow> sim_current_tick sim s = sim_current_tick sim t"
    and hash_det: "det s = det t \<Longrightarrow> sim_state_hash sim s = sim_state_hash sim t"
begin

text \<open>A tick that succeeds live succeeds in replay, with the same authoritative state.\<close>

lemma advance_tick_replays:
  assumes "advance_tick sim a phase s = (s', Inr ())" and "det s = det t"
  shows "\<exists>t'. advance_tick sim a Replay t = (t', Inr ()) \<and> det s' = det t'"
proof -
  obtain s1 s2 where t: "unat (tick a) = Suc (unat (sim_current_tick sim s))"
    and s1: "sim_advance sim a s = (s1, Inr ())" "sim_current_tick sim s1 = tick a"
    and s2: "if phase = Live then sim_publish sim s1 = (s2, Inr ()) else s2 = s1"
    and s': "s' = sim_finish_tick sim s2"
    using assms(1) by (auto simp: advance_tick_Inr)
  obtain t1 where t1: "sim_advance sim a t = (t1, Inr ())" and d1: "det s1 = det t1"
    using advance_det [OF assms(2), of a] s1 by (metis fst_conv snd_conv prod.collapse)
  have "det s2 = det s1" using s2 publish_det by (metis fst_conv)
  then have "det s' = det (sim_finish_tick sim t1)" by (simp add: s' finish_det d1)
  moreover have "advance_tick sim a Replay t = (sim_finish_tick sim t1, Inr ())"
    using t t1 s1 tick_det [OF assms(2)] tick_det [OF d1] by (simp add: advance_tick_Inr)
  ultimately show ?thesis by blast
qed

lemma advance_all_replays:
  "advance_all sim phase as s = (s', Inr ()) \<Longrightarrow> det s = det t \<Longrightarrow>
     \<exists>t'. advance_all sim Replay as t = (t', Inr ()) \<and> det s' = det t'"
proof (induction as arbitrary: s t)
  case (Cons a as)
  obtain s1 where s1: "advance_tick sim a phase s = (s1, Inr ())"
    and rest: "advance_all sim phase as s1 = (s', Inr ())"
    using Cons.prems(1) by (auto split: prod.splits sum.splits)
  obtain t1 where "advance_tick sim a Replay t = (t1, Inr ())" "det s1 = det t1"
    using advance_tick_replays [OF s1 Cons.prems(2)] by blast
  with Cons.IH [OF rest, of t1] show ?case by simp
qed simp

text \<open>The tick of the result is the tick of the record.\<close>

lemma advance_tick_tick:
  "advance_tick sim a phase s = (s', Inr ()) \<Longrightarrow> sim_current_tick sim s' = tick a"
  by (auto simp: advance_tick_Inr split: if_splits)
    (metis finish_det fst_conv publish_det tick_det)+

lemma advance_tick_det:
  assumes "advance_tick sim a p s = (s', Inr ())" "advance_tick sim a q t = (t', Inr ())" "det s = det t"
  shows "det s' = det t'"
  using advance_tick_replays [OF assms(1,3)] advance_tick_replays [OF assms(2) refl] by auto

text \<open>On error the driver still cleans up, and a tick gap touches nothing.\<close>

lemma advance_all_ticks:
  "advance_all sim phase as s = (s', Inr ()) \<Longrightarrow>
     \<forall>i < length as. unat (tick (as ! i)) = unat (sim_current_tick sim s) + Suc i"
proof (induction as arbitrary: s)
  case (Cons a as)
  obtain s1 where s1: "advance_tick sim a phase s = (s1, Inr ())"
    and rest: "advance_all sim phase as s1 = (s', Inr ())"
    using Cons.prems(1) by (auto split: prod.splits sum.splits)
  have "unat (tick a) = Suc (unat (sim_current_tick sim s))" using s1 by (simp add: advance_tick_Inr)
  with Cons.IH [OF rest] advance_tick_tick [OF s1] show ?case
    by (auto simp: less_Suc_eq_0_disj)
qed simp

lemma advance_all_final:
  "advance_all sim phase as s = (s', Inr ()) \<Longrightarrow>
     unat (sim_current_tick sim s') = unat (sim_current_tick sim s) + length as"
proof (induction as arbitrary: s)
  case (Cons a as)
  obtain s1 where s1: "advance_tick sim a phase s = (s1, Inr ())"
    and rest: "advance_all sim phase as s1 = (s', Inr ())"
    using Cons.prems(1) by (auto split: prod.splits sum.splits)
  have "unat (tick a) = Suc (unat (sim_current_tick sim s))" using s1 by (simp add: advance_tick_Inr)
  with Cons.IH [OF rest] advance_tick_tick [OF s1] show ?case by simp
qed simp

end

text \<open>
  A simulation whose fingerprint interval never changes while it runs, as the session
  protocol relies on when both sides sample the same ticks.
\<close>

locale fingerprinted_sim = deterministic_sim sim det
  for sim :: "'s session_sim" and det :: "'s \<Rightarrow> 'd" +
  assumes interval_advance: "sim_hash_interval sim (fst (sim_advance sim a s)) = sim_hash_interval sim s"
    and interval_publish: "sim_hash_interval sim (fst (sim_publish sim s)) = sim_hash_interval sim s"
    and interval_finish: "sim_hash_interval sim (sim_finish_tick sim s) = sim_hash_interval sim s"
begin

lemma interval_advance_tick:
  "advance_tick sim a p s = (s', Inr ()) \<Longrightarrow> sim_hash_interval sim s' = sim_hash_interval sim s"
  using interval_advance interval_publish interval_finish
  by (auto simp: advance_tick_Inr split: if_splits) (metis fst_conv)+

lemma interval_advance_all:
  "advance_all sim p as s = (s', Inr ()) \<Longrightarrow> sim_hash_interval sim s' = sim_hash_interval sim s"
proof (induction as arbitrary: s)
  case (Cons a as)
  obtain s1 where "advance_tick sim a p s = (s1, Inr ())" "advance_all sim p as s1 = (s', Inr ())"
    using Cons.prems by (auto split: prod.splits sum.splits)
  then show ?case using Cons.IH interval_advance_tick by metis
qed simp

end

end
