(* ===== verification/Protocol.thy ===== *)
theory Protocol
  imports Simulation
begin

text \<open>
  \<^verbatim>\<open>crates/synctick/src/protocol.rs\<close>: the messages of a session, the channel layout,
  and the bounded two-pass decoders of the envelopes.

  The scalar codec and the derived serializers are \<^verbatim>\<open>bincode\<close> and \<^verbatim>\<open>serde\<close>, third-party
  packages: they are the parameter \<open>bincode\<close>, a record of the functions the code calls.
  What the code relies on is the locale \<open>bincode_format\<close>: \<^verbatim>\<open>bincode\<close>'s documented
  \<open>standard\<close> layout (a value starts with its scalars in declaration order, an enum with
  its variant index as \<open>u32\<close>, a sequence with its length as \<open>u64\<close>) and the round trip of
  scalars.  \<open>standard_bincode\<close> is a concrete instance.
\<close>

section \<open>Messages and constants\<close>

definition protocol_id_const :: u64 where
  "protocol_id_const = 0x53455353494F0001"

definition channel_lockstep :: u8 where "channel_lockstep = 0"
definition channel_desync :: u8 where "channel_desync = 1"
definition channel_save :: u8 where "channel_save = 2"

definition channel_max_mem :: nat where
  "channel_max_mem = 1024 * 1024"

definition channel_save_max_mem :: nat where
  "channel_save_max_mem = 4 * 1024 * 1024"

definition max_replay_record_bytes :: nat where
  "max_replay_record_bytes = 256 * 1024"

definition max_save_chunk_bytes :: nat where
  "max_save_chunk_bytes = 256 * 1024"

datatype client_message =
    Input "byte list"
  | Progress u64 u64
  | Ready u64 u64

datatype server_message =
    Start u64 u64
  | Tick tick_advance

record save_metadata =
  total_bytes :: u64
  meta_tick :: u64
  meta_hash :: u64

datatype save_message =
    Begin save_metadata
  | Chunk "byte list"

record desync_hash =
  report_tick :: u64
  report_hash :: u64

record channel_config =
  channel_id :: u8
  max_memory_usage_bytes :: nat
  resend_millis :: nat

record connection_config =
  available_bytes_per_tick :: nat
  server_channels_config :: "channel_config list"
  client_channels_config :: "channel_config list"

definition connection_config :: connection_config where
  "connection_config =
     (let reliable = (\<lambda>ch mem. \<lparr>channel_id = ch, max_memory_usage_bytes = mem, resend_millis = 100\<rparr>);
          channels = [reliable channel_lockstep channel_max_mem,
                      reliable channel_desync channel_max_mem,
                      reliable channel_save channel_save_max_mem]
      in \<lparr>available_bytes_per_tick = 60000,
          server_channels_config = channels, client_channels_config = channels\<rparr>)"

section \<open>The serialization package\<close>

record bincode =
  dec_u32 :: "byte list \<Rightarrow> (u32 \<times> nat) option"
  dec_u64 :: "byte list \<Rightarrow> (u64 \<times> nat) option"
  dec_participant :: "byte list \<Rightarrow> (participant_id \<times> nat) option"
  dec_array :: "nat \<Rightarrow> byte list \<Rightarrow> (byte list \<times> nat) option"
  enc_u32 :: "u32 \<Rightarrow> byte list"
  enc_u64 :: "u64 \<Rightarrow> byte list"
  enc_participant :: "participant_id \<Rightarrow> byte list"
  enc_client :: "client_message \<Rightarrow> byte list"
  enc_server :: "server_message \<Rightarrow> byte list"
  enc_save :: "save_message \<Rightarrow> byte list"
  enc_desync :: "desync_hash \<Rightarrow> byte list"
  enc_tick :: "tick_advance \<Rightarrow> byte list"
  enc_header :: "replay_header \<Rightarrow> byte list"

section \<open>The cursor\<close>

datatype decode_error = Other string | Scalar_Error

record cursor =
  unread :: "byte list"
  materialize :: bool
  reserves :: "nat \<Rightarrow> bool"

definition scalar ::
  "(byte list \<Rightarrow> ('a \<times> nat) option) \<Rightarrow> cursor \<Rightarrow> decode_error + ('a \<times> cursor)" where
  "scalar dec c =
     and_then (ok_or Scalar_Error (dec (unread c))) (\<lambda>(v, used).
     if used \<le> length (unread c) then Inr (v, c\<lparr>unread := drop used (unread c)\<rparr>)
     else Inl (Other ''scalar length''))"

definition read_length :: "bincode \<Rightarrow> cursor \<Rightarrow> decode_error + (nat \<times> cursor)" where
  "read_length bc c =
     and_then (scalar (dec_u64 bc) c) (\<lambda>(len, c).
     if unat len > length (unread c)
     then Inl (Other ''collection length exceeds remaining payload'')
     else Inr (unat len, c))"

definition read_payload :: "bincode \<Rightarrow> cursor \<Rightarrow> decode_error + (byte list \<times> cursor)" where
  "read_payload bc c =
     and_then (read_length bc c) (\<lambda>(len, c).
     if len > max_payload_bytes then Inl (Other ''command byte budget exceeded'')
     else
       let bytes = take len (unread c); c = c\<lparr>unread := drop len (unread c)\<rparr> in
       if materialize c then
         if \<not> reserves c len then Inl (Other ''command allocation failed'')
         else Inr (bytes, c)
       else Inr ([], c))"

fun read_inputs :: "bincode \<Rightarrow> nat \<Rightarrow> cursor \<Rightarrow> decode_error + (command list \<times> cursor)" where
  "read_inputs bc 0 c = Inr ([], c)"
| "read_inputs bc (Suc n) c =
     and_then (scalar (dec_participant bc) c) (\<lambda>(p, c).
     and_then (read_payload bc c) (\<lambda>(bytes, c).
     and_then (read_inputs bc n c) (\<lambda>(rest, c).
     Inr (if materialize c then \<lparr>participant = p, payload = bytes\<rparr> # rest else rest, c))))"

definition read_tick :: "bincode \<Rightarrow> cursor \<Rightarrow> decode_error + (tick_advance \<times> cursor)" where
  "read_tick bc c =
     and_then (scalar (dec_u64 bc) c) (\<lambda>(t, c).
     and_then (read_length bc c) (\<lambda>(n, c).
     if materialize c \<and> \<not> reserves c n then Inl (Other ''input allocation failed'')
     else and_then (read_inputs bc n c) (\<lambda>(is, c). Inr (\<lparr>tick = t, inputs = is\<rparr>, c))))"

definition read_pair ::
  "bincode \<Rightarrow> (u64 \<Rightarrow> u64 \<Rightarrow> 'a) \<Rightarrow> cursor \<Rightarrow> decode_error + ('a \<times> cursor)" where
  "read_pair bc mk c =
     and_then (scalar (dec_u64 bc) c) (\<lambda>(a, c).
     and_then (scalar (dec_u64 bc) c) (\<lambda>(b, c). Inr (mk a b, c)))"

text \<open>\<open>validated\<close>: a pass that checks the whole shape, then one that materializes it.\<close>

definition one_pass ::
  "(cursor \<Rightarrow> decode_error + ('a \<times> cursor)) \<Rightarrow> cursor \<Rightarrow> decode_error + 'a" where
  "one_pass rd c =
     and_then (rd c) (\<lambda>(v, c).
     if unread c \<noteq> [] then Inl (Other ''trailing bytes'') else Inr v)"

definition validated ::
  "(nat \<Rightarrow> bool) \<Rightarrow> (cursor \<Rightarrow> decode_error + ('a \<times> cursor)) \<Rightarrow> byte list \<Rightarrow> decode_error + 'a" where
  "validated al rd bytes =
     and_then (one_pass rd \<lparr>unread = bytes, materialize = False, reserves = al\<rparr>) (\<lambda>_.
     one_pass rd \<lparr>unread = bytes, materialize = True, reserves = al\<rparr>)"

section \<open>Envelope decoders\<close>

definition read_client :: "bincode \<Rightarrow> cursor \<Rightarrow> decode_error + (client_message \<times> cursor)" where
  "read_client bc c =
     and_then (scalar (dec_u32 bc) c) (\<lambda>(v, c).
     if v = 0 then and_then (read_payload bc c) (\<lambda>(bytes, c). Inr (Input bytes, c))
     else if v = 1 then read_pair bc Progress c
     else if v = 2 then read_pair bc Ready c
     else Inl (Other ''invalid client message variant''))"

definition decode_client_message ::
  "bincode \<Rightarrow> (nat \<Rightarrow> bool) \<Rightarrow> byte list \<Rightarrow> decode_error + client_message" where
  "decode_client_message bc al bytes = validated al (read_client bc) bytes"

definition read_server :: "bincode \<Rightarrow> cursor \<Rightarrow> decode_error + (server_message \<times> cursor)" where
  "read_server bc c =
     and_then (scalar (dec_u32 bc) c) (\<lambda>(v, c).
     if v = 0 then read_pair bc Start c
     else if v = 1 then and_then (read_tick bc c) (\<lambda>(a, c). Inr (Tick a, c))
     else Inl (Other ''invalid server message variant''))"

definition decode_server_message ::
  "bincode \<Rightarrow> (nat \<Rightarrow> bool) \<Rightarrow> byte list \<Rightarrow> decode_error + server_message" where
  "decode_server_message bc al bytes =
     (if length bytes > max_replay_record_bytes then Inl (Other ''tick byte budget exceeded'')
      else validated al (read_server bc) bytes)"

definition read_save :: "bincode \<Rightarrow> cursor \<Rightarrow> decode_error + (save_message \<times> cursor)" where
  "read_save bc c =
     and_then (scalar (dec_u32 bc) c) (\<lambda>(v, c).
     if v = 0 then
       and_then (scalar (dec_u64 bc) c) (\<lambda>(n, c).
       and_then (scalar (dec_u64 bc) c) (\<lambda>(t, c).
       and_then (scalar (dec_u64 bc) c) (\<lambda>(h, c).
       Inr (Begin \<lparr>total_bytes = n, meta_tick = t, meta_hash = h\<rparr>, c))))
     else if v = 1 then
       and_then (read_length bc c) (\<lambda>(len, c).
       if len = 0 \<or> len > max_save_chunk_bytes then Inl (Other ''invalid save chunk size'')
       else
         let bytes = take len (unread c); c = c\<lparr>unread := drop len (unread c)\<rparr> in
         if materialize c then
           if \<not> reserves c len then Inl (Other ''chunk allocation failed'')
           else Inr (Chunk bytes, c)
         else Inr (Chunk [], c))
     else Inl (Other ''invalid save message variant''))"

definition decode_save_message ::
  "bincode \<Rightarrow> (nat \<Rightarrow> bool) \<Rightarrow> byte list \<Rightarrow> decode_error + save_message" where
  "decode_save_message bc al bytes = validated al (read_save bc) bytes"

definition decode_desync_hash ::
  "bincode \<Rightarrow> (nat \<Rightarrow> bool) \<Rightarrow> byte list \<Rightarrow> decode_error + desync_hash" where
  "decode_desync_hash bc al bytes =
     validated al (read_pair bc (\<lambda>t h. \<lparr>report_tick = t, report_hash = h\<rparr>)) bytes"

definition decode_tick_advance ::
  "bincode \<Rightarrow> (nat \<Rightarrow> bool) \<Rightarrow> byte list \<Rightarrow> decode_error + tick_advance" where
  "decode_tick_advance bc al bytes =
     (if length bytes > max_replay_record_bytes then Inl (Other ''tick byte budget exceeded'')
      else validated al (read_tick bc) bytes)"

section \<open>The documented format\<close>

definition enc_bytes :: "bincode \<Rightarrow> byte list \<Rightarrow> byte list" where
  "enc_bytes bc bs = enc_u64 bc (word_of_nat (length bs)) @ bs"

definition enc_command :: "bincode \<Rightarrow> command \<Rightarrow> byte list" where
  "enc_command bc c = enc_participant bc (participant c) @ enc_bytes bc (payload c)"

text \<open>A record the session can carry: every payload within the payload budget.\<close>

definition carries :: "tick_advance \<Rightarrow> bool" where
  "carries adv \<longleftrightarrow> list_all (\<lambda>i. length (payload i) \<le> max_payload_bytes) (inputs adv) \<and>
     length (inputs adv) < 2 ^ 64"

locale bincode_format =
  fixes bc :: bincode
  assumes u32_roundtrip: "dec_u32 bc (enc_u32 bc v @ rest) = Some (v, length (enc_u32 bc v))"
    and u64_roundtrip: "dec_u64 bc (enc_u64 bc w @ rest) = Some (w, length (enc_u64 bc w))"
    and participant_roundtrip:
      "dec_participant bc (enc_participant bc p @ rest) = Some (p, length (enc_participant bc p))"
    and array_roundtrip: "length bs = n \<Longrightarrow> dec_array bc n (bs @ rest) = Some (bs, n)"
    and array_consumes: "dec_array bc n bytes = Some (arr, used) \<Longrightarrow> length arr = n \<and> used = n \<and> n \<le> length bytes"
    and participant_nonempty: "enc_participant bc p \<noteq> []"
    and u64_nonempty: "enc_u64 bc w \<noteq> []"
    and client_layout:
      "enc_client bc (Input bs) = enc_u32 bc 0 @ enc_bytes bc bs"
      "enc_client bc (Progress a b) = enc_u32 bc 1 @ enc_u64 bc a @ enc_u64 bc b"
      "enc_client bc (Ready a b) = enc_u32 bc 2 @ enc_u64 bc a @ enc_u64 bc b"
    and server_layout:
      "enc_server bc (Start a b) = enc_u32 bc 0 @ enc_u64 bc a @ enc_u64 bc b"
      "enc_server bc (Tick adv) = enc_u32 bc 1 @ enc_tick bc adv"
    and tick_layout:
      "enc_tick bc adv =
         enc_u64 bc (tick adv) @ enc_u64 bc (word_of_nat (length (inputs adv))) @
         concat (map (enc_command bc) (inputs adv))"
    and save_layout:
      "enc_save bc (Begin m) =
         enc_u32 bc 0 @ enc_u64 bc (total_bytes m) @ enc_u64 bc (meta_tick m) @ enc_u64 bc (meta_hash m)"
      "enc_save bc (Chunk bs) = enc_u32 bc 1 @ enc_bytes bc bs"
    and desync_layout:
      "enc_desync bc d = enc_u64 bc (report_tick d) @ enc_u64 bc (report_hash d)"
    and header_layout:
      "enc_header bc h =
         magic h @ enc_u64 bc (protocol_id h) @ enc_u32 bc (format_version h) @ game_id h @
         enc_u32 bc (game_version h) @ enc_u64 bc (tick_nanos h) @ enc_bytes bc (initialization h)"
begin

lemma scalar_u32 [simp]:
  "unread c = enc_u32 bc v @ rest \<Longrightarrow> scalar (dec_u32 bc) c = Inr (v, c\<lparr>unread := rest\<rparr>)"
  by (simp add: scalar_def u32_roundtrip)

lemma scalar_u64 [simp]:
  "unread c = enc_u64 bc v @ rest \<Longrightarrow> scalar (dec_u64 bc) c = Inr (v, c\<lparr>unread := rest\<rparr>)"
  by (simp add: scalar_def u64_roundtrip)

lemma scalar_participant [simp]:
  "unread c = enc_participant bc p @ rest \<Longrightarrow>
     scalar (dec_participant bc) c = Inr (p, c\<lparr>unread := rest\<rparr>)"
  by (simp add: scalar_def participant_roundtrip)

lemma scalar_u64_last [simp]:
  "unread c = enc_u64 bc v \<Longrightarrow> scalar (dec_u64 bc) c = Inr (v, c\<lparr>unread := []\<rparr>)"
  using scalar_u64 [of c v "[]"] by simp

lemma unat_length [simp]:
  "n \<le> max_payload_bytes \<Longrightarrow> unat (word_of_nat n :: u64) = n"
  by (simp add: unat_of_nat max_payload_bytes_def)

lemma read_length_enc:
  assumes "unread c = enc_u64 bc (word_of_nat n) @ rest" "n \<le> length rest" "n < 2 ^ 64"
  shows "read_length bc c = Inr (n, c\<lparr>unread := rest\<rparr>)"
  using assms by (simp add: read_length_def unat_of_nat)

lemma read_payload_enc:
  assumes "unread c = enc_bytes bc bs @ rest" "length bs \<le> max_payload_bytes" "\<And>n. reserves c n"
  shows "read_payload bc c = Inr (if materialize c then bs else [], c\<lparr>unread := rest\<rparr>)"
proof -
  have "read_length bc c = Inr (length bs, c\<lparr>unread := bs @ rest\<rparr>)"
    using assms by (intro read_length_enc) (auto simp: enc_bytes_def max_payload_bytes_def)
  then show ?thesis using assms by (simp add: read_payload_def)
qed

lemma read_inputs_enc:
  "unread c = concat (map (enc_command bc) cs) @ rest \<Longrightarrow>
     list_all (\<lambda>i. length (payload i) \<le> max_payload_bytes) cs \<Longrightarrow> (\<And>n. reserves c n) \<Longrightarrow>
     read_inputs bc (length cs) c = Inr (if materialize c then cs else [], c\<lparr>unread := rest\<rparr>)"
proof (induction cs arbitrary: c)
  case (Cons i cs)
  define c1 where "c1 = c\<lparr>unread := enc_bytes bc (payload i) @ concat (map (enc_command bc) cs) @ rest\<rparr>"
  define c2 where "c2 = c\<lparr>unread := concat (map (enc_command bc) cs) @ rest\<rparr>"
  have "scalar (dec_participant bc) c = Inr (participant i, c1)"
    using Cons.prems by (simp add: enc_command_def [of _ i] c1_def)
  moreover have "read_payload bc c1 = Inr (if materialize c then payload i else [], c2)"
    using Cons.prems
    by (subst read_payload_enc [where rest = "concat (map (enc_command bc) cs) @ rest"])
      (simp_all add: c1_def c2_def)
  moreover have "read_inputs bc (length cs) c2 = Inr (if materialize c then cs else [], c\<lparr>unread := rest\<rparr>)"
    using Cons.prems Cons.IH [of c2] by (simp add: c2_def)
  ultimately show ?case by simp
qed simp

lemma enc_command_nonempty: "enc_command bc i \<noteq> []"
  by (simp add: enc_command_def participant_nonempty)

lemma length_commands: "length cs \<le> length (concat (map (enc_command bc) cs))"
proof (induction cs)
  case (Cons i cs)
  have "1 \<le> length (enc_command bc i)" using enc_command_nonempty [of i] by (cases "enc_command bc i") auto
  with Cons show ?case by simp
qed simp

lemma read_tick_enc:
  assumes "unread c = enc_tick bc adv @ rest" "carries adv" "\<And>n. reserves c n"
  shows "read_tick bc c = Inr (\<lparr>tick = tick adv, inputs = if materialize c then inputs adv else []\<rparr>,
    c\<lparr>unread := rest\<rparr>)"
proof -
  let ?cs = "concat (map (enc_command bc) (inputs adv))"
  define c1 where "c1 = c\<lparr>unread := enc_u64 bc (word_of_nat (length (inputs adv))) @ ?cs @ rest\<rparr>"
  define c2 where "c2 = c\<lparr>unread := ?cs @ rest\<rparr>"
  have "scalar (dec_u64 bc) c = Inr (tick adv, c1)"
    using assms(1) by (simp add: tick_layout c1_def)
  moreover have "read_length bc c1 = Inr (length (inputs adv), c2)"
    using assms(2) length_commands [of "inputs adv"]
    by (subst read_length_enc [where rest = "?cs @ rest"]) (auto simp: c1_def c2_def carries_def)
  moreover have "read_inputs bc (length (inputs adv)) c2 =
      Inr (if materialize c then inputs adv else [], c\<lparr>unread := rest\<rparr>)"
    using assms read_inputs_enc [of c2 "inputs adv" rest] by (simp add: c2_def carries_def)
  ultimately show ?thesis
    using assms(3) by (simp add: read_tick_def c2_def)
qed

lemma tick_eta: "\<lparr>tick = tick adv, inputs = inputs adv\<rparr> = adv" for adv :: tick_advance
  by simp

lemma decode_encode_tick:
  assumes "carries adv" "length (enc_tick bc adv) \<le> max_replay_record_bytes"
  shows "decode_tick_advance bc infallible (enc_tick bc adv) = Inr adv"
  using assms read_tick_enc [of _ adv "[]"]
  by (simp add: decode_tick_advance_def validated_def one_pass_def infallible_def)

lemma decode_encode_server_start:
  assumes "length (enc_server bc (Start t h)) \<le> max_replay_record_bytes"
  shows "decode_server_message bc infallible (enc_server bc (Start t h)) = Inr (Start t h)"
  using assms
  by (simp add: decode_server_message_def validated_def one_pass_def read_server_def read_pair_def
      server_layout)

lemma decode_encode_server_tick:
  assumes "carries adv" "length (enc_server bc (Tick adv)) \<le> max_replay_record_bytes"
  shows "decode_server_message bc infallible (enc_server bc (Tick adv)) = Inr (Tick adv)"
  using assms read_tick_enc [of _ adv "[]"]
  by (simp add: decode_server_message_def validated_def one_pass_def read_server_def
      server_layout infallible_def)

lemma decode_encode_client:
  assumes "case m of Input bs \<Rightarrow> length bs \<le> max_payload_bytes | _ \<Rightarrow> True"
  shows "decode_client_message bc infallible (enc_client bc m) = Inr m"
proof (cases m)
  case (Input bs)
  then show ?thesis
    using assms read_payload_enc [of _ bs "[]"]
    by (simp add: decode_client_message_def validated_def one_pass_def read_client_def
        client_layout infallible_def)
qed (simp_all add: decode_client_message_def validated_def one_pass_def read_client_def
      read_pair_def client_layout)

lemma decode_encode_save:
  assumes "case m of Chunk bs \<Rightarrow> bs \<noteq> [] \<and> length bs \<le> max_save_chunk_bytes | _ \<Rightarrow> True"
  shows "decode_save_message bc infallible (enc_save bc m) = Inr m"
proof (cases m)
  case (Begin b)
  then show ?thesis
    by (simp add: decode_save_message_def validated_def one_pass_def read_save_def save_layout)
next
  case (Chunk bs)
  have "read_length bc c = Inr (length bs, c\<lparr>unread := bs\<rparr>)" if "unread c = enc_bytes bc bs" for c
    using assms that Chunk
    by (intro read_length_enc) (auto simp: enc_bytes_def max_save_chunk_bytes_def)
  then show ?thesis
    using assms Chunk
    by (simp add: decode_save_message_def validated_def one_pass_def read_save_def save_layout
        infallible_def Let_def)
qed

lemma decode_encode_desync:
  "decode_desync_hash bc infallible (enc_desync bc d) = Inr d"
  by (simp add: decode_desync_hash_def validated_def one_pass_def read_pair_def desync_layout)

end

section \<open>Bounds that hold for any serialization package\<close>

lemma scalar_Inr:
  assumes "scalar dec c = Inr (v, c')"
  shows "length (unread c') \<le> length (unread c)" "materialize c' = materialize c"
    "reserves c' = reserves c"
  using assms by (auto simp: scalar_def res_simps split: if_splits)

lemma read_length_Inr:
  assumes "read_length bc c = Inr (n, c')"
  shows "length (unread c') \<le> length (unread c)" "n \<le> length (unread c')"
    "materialize c' = materialize c" "reserves c' = reserves c"
proof -
  from assms obtain w where w: "scalar (dec_u64 bc) c = Inr (w, c')" "n = unat w"
      "unat w \<le> length (unread c')"
    by (auto simp: read_length_def res_simps split: if_splits)
  show "length (unread c') \<le> length (unread c)" "n \<le> length (unread c')"
    "materialize c' = materialize c" "reserves c' = reserves c"
    using scalar_Inr [OF w(1)] w(2,3) by simp_all
qed

lemma read_payload_Inr:
  assumes "read_payload bc c = Inr (bs, c')"
  shows "length bs + length (unread c') \<le> length (unread c)" "length bs \<le> max_payload_bytes"
    "materialize c' = materialize c" "reserves c' = reserves c"
  using assms read_length_Inr
  by (fastforce simp: read_payload_def res_simps Let_def split: if_splits)+

lemma read_inputs_Inr:
  assumes "read_inputs bc n c = Inr (cs, c')"
  shows "sum_list (map (\<lambda>i. length (payload i)) cs) + length (unread c') \<le> length (unread c)"
    "list_all (\<lambda>i. length (payload i) \<le> max_payload_bytes) cs" "length cs \<le> n"
  using assms
proof (induction n arbitrary: c cs)
  case (Suc n)
  {
    case 1
    then show ?case
      using Suc.IH(1) scalar_Inr(1) read_payload_Inr(1)
      by (fastforce simp: res_simps split: if_splits)
  next
    case 2
    then show ?case
      using Suc.IH(2) read_payload_Inr(2)
      by (fastforce simp: res_simps split: if_splits)
  next
    case 3
    then show ?case
      using Suc.IH(3) by (fastforce simp: res_simps split: if_splits)
  }
qed auto

lemma read_tick_Inr:
  assumes "read_tick bc c = Inr (adv, c')"
  shows "sum_list (map (\<lambda>i. length (payload i)) (inputs adv)) \<le> length (unread c)"
    "list_all (\<lambda>i. length (payload i) \<le> max_payload_bytes) (inputs adv)"
    "length (inputs adv) \<le> length (unread c)"
proof -
  from assms obtain t c1 n c2 cs where
    r: "scalar (dec_u64 bc) c = Inr (t, c1)" "read_length bc c1 = Inr (n, c2)"
      "read_inputs bc n c2 = Inr (cs, c')" "adv = \<lparr>tick = t, inputs = cs\<rparr>"
    by (auto simp: read_tick_def res_simps split: if_splits)
  note bounds = scalar_Inr(1) [OF r(1)] read_length_Inr(1,2) [OF r(2)] read_inputs_Inr [OF r(3)]
  show "sum_list (map (\<lambda>i. length (payload i)) (inputs adv)) \<le> length (unread c)"
    "list_all (\<lambda>i. length (payload i) \<le> max_payload_bytes) (inputs adv)"
    "length (inputs adv) \<le> length (unread c)"
    using bounds r(4) by simp_all
qed

lemma validated_Inr:
  assumes "validated al rd bytes = Inr v"
  obtains c where "rd \<lparr>unread = bytes, materialize = True, reserves = al\<rparr> = Inr (v, c)" "unread c = []"
  using assms by (auto simp: validated_def one_pass_def res_simps split: if_splits)

section \<open>The standard layout of the package\<close>

text \<open>
  The documented integer layout of \<^verbatim>\<open>bincode::config::standard\<close>: one byte below 251, else
  a tag byte and the value in 2, 4 or 8 little-endian bytes.
\<close>

definition varint :: "nat \<Rightarrow> byte list" where
  "varint n =
     (if n < 251 then [word_of_nat n]
      else if n < 2 ^ 16 then 251 # to_le_bytes (word_of_nat n :: u16)
      else if n < 2 ^ 32 then 252 # to_le_bytes (word_of_nat n :: u32)
      else 253 # to_le_bytes (word_of_nat n :: u64))"

definition fixed_tail :: "nat \<Rightarrow> byte list \<Rightarrow> (nat \<times> nat) option" where
  "fixed_tail k bs = (if length bs < k then None else Some (nat_of_le (take k bs), Suc k))"

fun unvarint :: "byte list \<Rightarrow> (nat \<times> nat) option" where
  "unvarint [] = None"
| "unvarint (b # bs) =
     (if b < 251 then Some (unat b, 1)
      else if b = 251 then fixed_tail 2 bs
      else if b = 252 then fixed_tail 4 bs
      else if b = 253 then fixed_tail 8 bs
      else None)"

definition std_dec_u64 :: "byte list \<Rightarrow> (u64 \<times> nat) option" where
  "std_dec_u64 bs = map_option (\<lambda>(n, k). (word_of_nat n, k)) (unvarint bs)"

definition std_dec_u32 :: "byte list \<Rightarrow> (u32 \<times> nat) option" where
  "std_dec_u32 bs =
     (case unvarint bs of
        Some (n, k) \<Rightarrow> if k \<le> 5 then Some (word_of_nat n, k) else None
      | None \<Rightarrow> None)"

definition std_dec_participant :: "byte list \<Rightarrow> (participant_id \<times> nat) option" where
  "std_dec_participant bs =
     (case std_dec_u32 bs of
        Some (v, k) \<Rightarrow>
          if v = 0 then Some (Host, k)
          else if v = 1 then map_option (\<lambda>(r, j). (Remote r, k + j)) (std_dec_u64 (drop k bs))
          else None
      | None \<Rightarrow> None)"

definition std_enc_u32 :: "u32 \<Rightarrow> byte list" where "std_enc_u32 w = varint (unat w)"
definition std_enc_u64 :: "u64 \<Rightarrow> byte list" where "std_enc_u64 w = varint (unat w)"

fun std_enc_participant :: "participant_id \<Rightarrow> byte list" where
  "std_enc_participant Host = std_enc_u32 0"
| "std_enc_participant (Remote r) = std_enc_u32 1 @ std_enc_u64 r"

definition std_enc_bytes :: "byte list \<Rightarrow> byte list" where
  "std_enc_bytes bs = std_enc_u64 (word_of_nat (length bs)) @ bs"

definition std_enc_tick :: "tick_advance \<Rightarrow> byte list" where
  "std_enc_tick adv =
     std_enc_u64 (tick adv) @ std_enc_u64 (word_of_nat (length (inputs adv))) @
     concat (map (\<lambda>i. std_enc_participant (participant i) @ std_enc_bytes (payload i)) (inputs adv))"

definition standard_bincode :: bincode where
  "standard_bincode =
     \<lparr>dec_u32 = std_dec_u32, dec_u64 = std_dec_u64, dec_participant = std_dec_participant,
      dec_array = (\<lambda>n bs. if n \<le> length bs then Some (take n bs, n) else None),
      enc_u32 = std_enc_u32, enc_u64 = std_enc_u64, enc_participant = std_enc_participant,
      enc_client = (\<lambda>m. case m of
          Input bs \<Rightarrow> std_enc_u32 0 @ std_enc_bytes bs
        | Progress a b \<Rightarrow> std_enc_u32 1 @ std_enc_u64 a @ std_enc_u64 b
        | Ready a b \<Rightarrow> std_enc_u32 2 @ std_enc_u64 a @ std_enc_u64 b),
      enc_server = (\<lambda>m. case m of
          Start a b \<Rightarrow> std_enc_u32 0 @ std_enc_u64 a @ std_enc_u64 b
        | Tick adv \<Rightarrow> std_enc_u32 1 @ std_enc_tick adv),
      enc_save = (\<lambda>m. case m of
          Begin d \<Rightarrow> std_enc_u32 0 @ std_enc_u64 (total_bytes d) @ std_enc_u64 (meta_tick d) @
            std_enc_u64 (meta_hash d)
        | Chunk bs \<Rightarrow> std_enc_u32 1 @ std_enc_bytes bs),
      enc_desync = (\<lambda>d. std_enc_u64 (report_tick d) @ std_enc_u64 (report_hash d)),
      enc_tick = std_enc_tick,
      enc_header = (\<lambda>h. magic h @ std_enc_u64 (protocol_id h) @ std_enc_u32 (format_version h) @
        game_id h @ std_enc_u32 (game_version h) @ std_enc_u64 (tick_nanos h) @
        std_enc_bytes (initialization h))\<rparr>"

lemma unvarint_varint:
  assumes "n < 2 ^ 64"
  shows "unvarint (varint n @ rest) = Some (n, length (varint n))"
proof -
  consider "n < 251" | "251 \<le> n" "n < 2 ^ 16" | "2 ^ 16 \<le> n" "n < 2 ^ 32" | "2 ^ 32 \<le> n" by linarith
  then show ?thesis
    using assms
    by cases (simp_all add: varint_def fixed_tail_def length_to_le_bytes nat_of_to_le_bytes
        unat_of_nat word_less_nat_alt)
qed

lemma varint_nonempty: "varint n \<noteq> []"
  by (simp add: varint_def)

lemma std_u64: "std_dec_u64 (std_enc_u64 w @ rest) = Some (w, length (std_enc_u64 w))"
proof -
  have "unat w < 2 ^ 64" using unsigned_less [of w] by simp
  then show ?thesis by (simp add: std_dec_u64_def std_enc_u64_def unvarint_varint)
qed

lemma std_u32: "std_dec_u32 (std_enc_u32 w @ rest) = Some (w, length (std_enc_u32 w))"
proof -
  have "unat w < 2 ^ 32" using unsigned_less [of w] by simp
  then have "length (varint (unat w)) \<le> 5" by (simp add: varint_def)
  with \<open>unat w < 2 ^ 32\<close> show ?thesis
    by (simp add: std_dec_u32_def std_enc_u32_def unvarint_varint)
qed

lemma std_participant:
  "std_dec_participant (std_enc_participant p @ rest) = Some (p, length (std_enc_participant p))"
  by (cases p) (simp_all add: std_dec_participant_def std_u32 std_u64)

interpretation std: bincode_format standard_bincode
proof (unfold_locales, goal_cases)
  case (5 n bytes arr used)
  then show ?case by (auto simp: standard_bincode_def split: if_splits)
next
  case (6 p)
  then show ?case by (cases p) (simp_all add: standard_bincode_def std_enc_u32_def varint_nonempty)
next
  case (7 w)
  then show ?case by (simp add: standard_bincode_def std_enc_u64_def varint_nonempty)
qed (auto simp: standard_bincode_def std_u32 std_u64 std_participant
    varint_nonempty std_enc_tick_def std_enc_bytes_def enc_bytes_def enc_command_def
    cong: map_cong)

lemma decoded_command_bounds:
  assumes "decode_client_message bc al bytes = Inr (Input bs)"
  shows "length bs \<le> max_payload_bytes \<and> length bs \<le> length bytes"
proof -
  obtain c where "read_client bc \<lparr>unread = bytes, materialize = True, reserves = al\<rparr> = Inr (Input bs, c)"
    using assms unfolding decode_client_message_def by (rule validated_Inr)
  then obtain v c1 where v: "scalar (dec_u32 bc) \<lparr>unread = bytes, materialize = True, reserves = al\<rparr> = Inr (v, c1)"
    and p: "read_payload bc c1 = Inr (bs, c)"
    by (auto simp: read_client_def read_pair_def res_simps split: if_splits)
  show ?thesis using scalar_Inr(1) [OF v] read_payload_Inr(1,2) [OF p] by simp
qed

lemma decoded_chunk_bounds:
  assumes "decode_save_message bc al bytes = Inr (Chunk ch)"
  shows "ch \<noteq> [] \<and> length ch \<le> max_save_chunk_bytes \<and> length ch \<le> length bytes"
proof -
  obtain c where "read_save bc \<lparr>unread = bytes, materialize = True, reserves = al\<rparr> = Inr (Chunk ch, c)"
    using assms unfolding decode_save_message_def by (rule validated_Inr)
  then obtain v c1 n c2 where v: "scalar (dec_u32 bc) \<lparr>unread = bytes, materialize = True, reserves = al\<rparr> = Inr (v, c1)"
    and l: "read_length bc c1 = Inr (n, c2)" and n: "n \<noteq> 0" "n \<le> max_save_chunk_bytes"
    and ch: "ch = take n (unread c2) \<or> ch = [] \<and> \<not> materialize c2"
    by (auto simp: read_save_def res_simps Let_def split: if_splits)
  have "materialize c2" using scalar_Inr(2) [OF v] read_length_Inr(3) [OF l] by simp
  then have c: "ch = take n (unread c2)" using ch by simp
  have "length (unread c2) \<le> length bytes" using scalar_Inr(1) [OF v] read_length_Inr(1) [OF l] by simp
  then show ?thesis using c n read_length_Inr(2) [OF l] by auto
qed

lemma decoded_tick_bounds:
  assumes "decode_server_message bc al bytes = Inr (Tick adv)"
  shows "length bytes \<le> max_replay_record_bytes" "length (inputs adv) \<le> max_replay_record_bytes"
    "sum_list (map (\<lambda>i. length (payload i)) (inputs adv)) \<le> max_replay_record_bytes"
    "list_all (\<lambda>i. length (payload i) \<le> max_payload_bytes) (inputs adv)"
proof -
  have len: "length bytes \<le> max_replay_record_bytes" and v: "validated al (read_server bc) bytes = Inr (Tick adv)"
    using assms by (auto simp: decode_server_message_def split: if_splits)
  obtain c where "read_server bc \<lparr>unread = bytes, materialize = True, reserves = al\<rparr> = Inr (Tick adv, c)"
    using v by (rule validated_Inr)
  then obtain w c1 where w: "scalar (dec_u32 bc) \<lparr>unread = bytes, materialize = True, reserves = al\<rparr> = Inr (w, c1)"
    and t: "read_tick bc c1 = Inr (adv, c)"
    by (auto simp: read_server_def read_pair_def res_simps split: if_splits)
  have "length (unread c1) \<le> length bytes" using scalar_Inr(1) [OF w] by simp
  then show "length bytes \<le> max_replay_record_bytes" "length (inputs adv) \<le> max_replay_record_bytes"
    "sum_list (map (\<lambda>i. length (payload i)) (inputs adv)) \<le> max_replay_record_bytes"
    "list_all (\<lambda>i. length (payload i) \<le> max_payload_bytes) (inputs adv)"
    using len read_tick_Inr [OF t] by simp_all
qed

section \<open>Properties\<close>

text \<open>C21. A control envelope within the decoders' bounds decodes to the message that was encoded:
  a client message whose payload is within its budget, a save message whose chunk is not
  empty and not longer than a chunk may be, a fingerprint report, and a Start that fits a
  record.\<close>

theorem control_envelopes_roundtrip:
  assumes "bincode_format bc"
    and "case c of Input bs \<Rightarrow> length bs \<le> max_payload_bytes | _ \<Rightarrow> True"
    and "case s of Chunk bs \<Rightarrow> bs \<noteq> [] \<and> length bs \<le> max_save_chunk_bytes | _ \<Rightarrow> True"
    and "length (enc_server bc (Start t h)) \<le> max_replay_record_bytes"
  shows "decode_client_message bc infallible (enc_client bc c) = Inr c \<and>
    decode_save_message bc infallible (enc_save bc s) = Inr s \<and>
    decode_desync_hash bc infallible (enc_desync bc d) = Inr d \<and>
    decode_server_message bc infallible (enc_server bc (Start t h)) = Inr (Start t h)"
  using assms bincode_format.decode_encode_client [OF assms(1,2)]
    bincode_format.decode_encode_save [OF assms(1,3)] bincode_format.decode_encode_desync [OF assms(1)]
    bincode_format.decode_encode_server_start [OF assms(1,4)] by blast

lemma start_size: "length (enc_server standard_bincode (Start t h)) \<le> max_replay_record_bytes"
proof -
  have "length (varint n) \<le> 9" for n by (simp add: varint_def)
  then have "length (std_enc_u64 w) \<le> 9" "length (std_enc_u32 v) \<le> 9" for w v
    by (simp_all only: std_enc_u64_def std_enc_u32_def)
  from this(1) [of t] this(1) [of h] this(2) [of 0]
  show ?thesis by (simp add: standard_bincode_def max_replay_record_bytes_def)
qed

theorem control_envelopes_roundtrip_witness:
  "decode_client_message standard_bincode infallible (enc_client standard_bincode (Input [1, 2])) =
     Inr (Input [1, 2]) \<and>
   decode_save_message standard_bincode infallible (enc_save standard_bincode (Chunk [3])) = Inr (Chunk [3])"
  using control_envelopes_roundtrip [OF std.bincode_format_axioms, of "Input [1, 2]" "Chunk [3]" 0 0]
    start_size by (simp add: max_payload_bytes_def max_save_chunk_bytes_def)

text \<open>C20. A tick record decodes to itself from a broadcast and from a recording, when its
  commands are within the payload budget and its encoding within the record budget.\<close>

theorem tick_envelopes_roundtrip:
  assumes "bincode_format bc" "carries adv"
    and "length (enc_server bc (Tick adv)) \<le> max_replay_record_bytes"
  shows "decode_server_message bc infallible (enc_server bc (Tick adv)) = Inr (Tick adv) \<and>
    decode_tick_advance bc infallible (enc_tick bc adv) = Inr adv"
proof -
  have "length (enc_tick bc adv) \<le> max_replay_record_bytes"
    using assms(3) bincode_format.server_layout(2) [OF assms(1), of adv] by simp
  then show ?thesis
    using bincode_format.decode_encode_server_tick [OF assms] bincode_format.decode_encode_tick [OF assms(1,2)]
    by blast
qed

theorem tick_envelopes_roundtrip_witness:
  "decode_server_message standard_bincode infallible
     (enc_server standard_bincode (Tick \<lparr>tick = 3, inputs = [\<lparr>participant = Remote 4, payload = [9]\<rparr>]\<rparr>)) =
   Inr (Tick \<lparr>tick = 3, inputs = [\<lparr>participant = Remote 4, payload = [9]\<rparr>]\<rparr>)"
proof -
  let ?adv = "\<lparr>tick = 3, inputs = [\<lparr>participant = Remote 4, payload = [9]\<rparr>]\<rparr>"
  have "length (enc_server standard_bincode (Tick ?adv)) = 7" by code_simp
  then have "length (enc_server standard_bincode (Tick ?adv)) \<le> max_replay_record_bytes"
    by (simp add: max_replay_record_bytes_def)
  moreover have "carries ?adv" by (simp add: carries_def max_payload_bytes_def)
  ultimately show ?thesis
    using tick_envelopes_roundtrip [OF std.bincode_format_axioms, of ?adv] by blast
qed

text \<open>C22. Whatever bytes a peer sends, whatever the serialization package reads in them and
  whatever the allocator refuses, an accepted envelope is bounded: a command has at most the
  payload budget and no more bytes than arrived, a chunk is non-empty and at most the chunk
  size, and a tick has no more payload bytes and no more commands than the record budget.\<close>

theorem decoded_envelopes_bounded:
  "(decode_client_message bc al bytes = Inr (Input bs) \<longrightarrow>
      length bs \<le> max_payload_bytes \<and> length bs \<le> length bytes) \<and>
   (decode_save_message bc al bytes = Inr (Chunk ch) \<longrightarrow>
      ch \<noteq> [] \<and> length ch \<le> max_save_chunk_bytes \<and> length ch \<le> length bytes) \<and>
   (decode_server_message bc al bytes = Inr (Tick adv) \<longrightarrow>
      length bytes \<le> max_replay_record_bytes \<and> length (inputs adv) \<le> max_replay_record_bytes \<and>
      sum_list (map (\<lambda>i. length (payload i)) (inputs adv)) \<le> max_replay_record_bytes \<and>
      list_all (\<lambda>i. length (payload i) \<le> max_payload_bytes) (inputs adv))"
proof (intro conjI impI)
  assume "decode_client_message bc al bytes = Inr (Input bs)"
  then have "length bs \<le> max_payload_bytes \<and> length bs \<le> length bytes" by (rule decoded_command_bounds)
  then show "length bs \<le> max_payload_bytes" "length bs \<le> length bytes" by simp_all
next
  assume "decode_save_message bc al bytes = Inr (Chunk ch)"
  then have "ch \<noteq> [] \<and> length ch \<le> max_save_chunk_bytes \<and> length ch \<le> length bytes"
    by (rule decoded_chunk_bounds)
  then show "ch \<noteq> []" "length ch \<le> max_save_chunk_bytes" "length ch \<le> length bytes" by simp_all
next
  assume a: "decode_server_message bc al bytes = Inr (Tick adv)"
  note t = decoded_tick_bounds [OF a]
  show "length bytes \<le> max_replay_record_bytes" "length (inputs adv) \<le> max_replay_record_bytes"
    "sum_list (map (\<lambda>i. length (payload i)) (inputs adv)) \<le> max_replay_record_bytes"
    "list_all (\<lambda>i. length (payload i) \<le> max_payload_bytes) (inputs adv)"
    using t by simp_all
qed

theorem decoded_envelopes_bounded_witness:
  "length ([1, 2] :: byte list) \<le> max_payload_bytes \<and>
     length ([1, 2] :: byte list) \<le> length (enc_client standard_bincode (Input [1, 2]))"
proof -
  have "decode_client_message standard_bincode infallible (enc_client standard_bincode (Input [1, 2])) =
      Inr (Input [1, 2])"
    by (rule std.decode_encode_client) (simp add: max_payload_bytes_def)
  then show ?thesis
    using decoded_envelopes_bounded [of standard_bincode infallible
        "enc_client standard_bincode (Input [1, 2])" "[1, 2]"] by blast
qed

end
