(* ===== verification/Replay_Log.thy ===== *)
theory Replay_Log
  imports Protocol
begin

text \<open>
  \<^verbatim>\<open>crates/synctick/src/replay.rs\<close>: the versioned input log, its writer and reader, and
  bounded replay into a simulation.

  A file writer is the bytes it accepted so far with the fault its file would report; a
  \<^verbatim>\<open>BufRead\<close> source is the bytes it still holds, how many of them one \<^verbatim>\<open>fill_buf\<close> exposes,
  and the fault reading would report.  Both faults are arbitrary functions.
  The clock and the cancellation flag that the replay loop polls are its input: a list of
  observations, one per iteration.
\<close>

section \<open>Header\<close>

definition magic_const :: "byte list" where
  "magic_const = [0x53, 0x45, 0x53, 0x53]"

definition format_version_const :: u32 where
  "format_version_const = 1"

definition replay_header_new ::
  "byte list \<Rightarrow> u32 \<Rightarrow> u64 \<Rightarrow> byte list \<Rightarrow> replay_header" where
  "replay_header_new gid gv nanos init =
     \<lparr>magic = magic_const, protocol_id = protocol_id_const,
      format_version = format_version_const, game_id = gid, game_version = gv,
      tick_nanos = nanos, initialization = init\<rparr>"

text \<open>\<open>api.rs\<close>: a tick lasts between a microsecond and a second; the argument is in nanoseconds.\<close>

definition validate_tick_duration :: "nat \<Rightarrow> unit session_result" where
  "validate_tick_duration nanos =
     (if nanos < 1000 \<or> nanos > 1000000000
      then Inl (Configuration ''tick duration must be between 1 microsecond and 1 second'')
      else Inr ())"

section \<open>Writer\<close>

record replay_writer =
  written :: "byte list"
  flushed :: nat
  write_fault :: "byte list \<Rightarrow> byte list \<Rightarrow> (nat \<times> io_error) option"
  flush_fault :: "byte list \<Rightarrow> io_error option"

text \<open>A failing \<open>write_all\<close> may have written a prefix.\<close>

definition write_all ::
  "byte list \<Rightarrow> replay_writer \<Rightarrow> replay_writer \<times> (io_error + unit)" where
  "write_all bs w =
     (case write_fault w (written w) bs of
        None \<Rightarrow> (w\<lparr>written := written w @ bs\<rparr>, Inr ())
      | Some (k, e) \<Rightarrow> (w\<lparr>written := written w @ take k bs\<rparr>, Inl e))"

definition create ::
  "bincode \<Rightarrow> (string \<rightharpoonup> byte list) \<Rightarrow> replay_writer \<Rightarrow> string \<Rightarrow> replay_header \<Rightarrow> io_error + replay_writer" where
  "create bc fs blank path h =
     (if fs path \<noteq> None then Inl (IoError AlreadyExists ''File exists'')
      else case write_all (enc_header bc h) (blank\<lparr>written := [], flushed := 0\<rparr>) of
        (w, Inl e) \<Rightarrow> Inl e
      | (w, Inr _) \<Rightarrow> Inr w)"

definition append_record ::
  "bincode \<Rightarrow> tick_advance \<Rightarrow> replay_writer \<Rightarrow> replay_writer \<times> (io_error + unit)" where
  "append_record bc adv w =
     (let bs = enc_tick bc adv in
      if length bs > max_replay_record_bytes
      then (w, Inl (IoError InvalidData ''replay record exceeds lockstep budget''))
      else if length bs \<ge> 2 ^ 32
      then (w, Inl (IoError InvalidData ''TickAdvance payload exceeds u32::MAX''))
      else case write_all (to_le_bytes (word_of_nat (length bs) :: u32)) w of
        (w, Inl e) \<Rightarrow> (w, Inl e)
      | (w, Inr _) \<Rightarrow> write_all bs w)"

definition flush :: "replay_writer \<Rightarrow> replay_writer \<times> (io_error + unit)" where
  "flush w =
     (case flush_fault w (written w) of
        None \<Rightarrow> (w\<lparr>flushed := length (written w)\<rparr>, Inr ())
      | Some e \<Rightarrow> (w, Inl e))"

section \<open>Reader\<close>

record source =
  held :: "byte list"
  window :: "nat \<Rightarrow> nat"
  read_fault :: "nat \<Rightarrow> io_error option"

text \<open>\<open>fill_buf\<close> exposes nothing only at the end of the source.\<close>

definition fill_buf :: "source \<Rightarrow> io_error + byte list" where
  "fill_buf s =
     (case read_fault s (length (held s)) of
        Some e \<Rightarrow> Inl e
      | None \<Rightarrow> Inr (take (Suc (window s (length (held s)))) (held s)))"

definition consume :: "nat \<Rightarrow> source \<Rightarrow> source" where
  "consume n s = s\<lparr>held := drop n (held s)\<rparr>"

text \<open>
  The loop that fills a buffer of \<open>n\<close> bytes from what \<open>fill_buf\<close> exposes, reserving
  each piece first.  \<open>eof\<close> is the error for an exhausted source, \<open>oom\<close> the one for a
  refused allocation.
\<close>

function collect ::
  "io_error \<Rightarrow> io_error \<Rightarrow> (nat \<Rightarrow> bool) \<Rightarrow> nat \<Rightarrow> source \<Rightarrow> io_error + (byte list \<times> source)" where
  "collect eof oom al n s =
     (if n = 0 then Inr ([], s)
      else case fill_buf s of
        Inl e \<Rightarrow> Inl e
      | Inr available \<Rightarrow>
          if available = [] then Inl eof
          else
            let k = min (length available) n in
            if \<not> al k then Inl oom
            else and_then (collect eof oom al (n - k) (consume k s)) (\<lambda>(bs, s).
                 Inr (take k available @ bs, s)))"
  by pat_completeness auto
termination
  by (relation "measure (\<lambda>(eof, oom, al, n, s). n)") (auto simp: min_def)

declare collect.simps [simp del]

text \<open>The standard \<open>read_exact\<close> is that loop into a buffer the caller owns.\<close>

definition read_exact :: "nat \<Rightarrow> source \<Rightarrow> io_error + (byte list \<times> source)" where
  "read_exact n s =
     collect (IoError UnexpectedEof ''failed to fill whole buffer'') (IoError OtherIo '''') (\<lambda>_. True) n s"

text \<open>\<open>decode_from_std_read\<close> of one scalar: any failure becomes \<open>InvalidData\<close>.\<close>

definition read_scalar ::
  "(byte list \<Rightarrow> ('a \<times> nat) option) \<Rightarrow> source \<Rightarrow> io_error + ('a \<times> source)" where
  "read_scalar dec s =
     (case dec (held s) of
        None \<Rightarrow> Inl (IoError InvalidData ''decode'')
      | Some (v, used) \<Rightarrow>
          map_err (\<lambda>_. IoError InvalidData ''decode'')
            (and_then (read_exact used s) (\<lambda>(bs, s). Inr (v, s))))"

text \<open>The initialization bytes arrive through a 4096-byte buffer.\<close>

function read_blocks ::
  "(nat \<Rightarrow> bool) \<Rightarrow> nat \<Rightarrow> source \<Rightarrow> io_error + (byte list \<times> source)" where
  "read_blocks al n s =
     (if n = 0 then Inr ([], s)
      else
        let k = min 4096 n in
        and_then (read_exact k s) (\<lambda>(block, s).
        if \<not> al k then Inl (IoError OtherIo ''allocation'')
        else and_then (read_blocks al (n - k) s) (\<lambda>(bs, s). Inr (block @ bs, s))))"
  by pat_completeness auto
termination
  by (relation "measure (\<lambda>(al, n, s). n)") auto

declare read_blocks.simps [simp del]

definition read_header :: "bincode \<Rightarrow> (nat \<Rightarrow> bool) \<Rightarrow> source \<Rightarrow> io_error + (replay_header \<times> source)" where
  "read_header bc al s =
     and_then (read_scalar (dec_array bc 4) s) (\<lambda>(mg, s).
     if mg \<noteq> magic_const then Inl (IoError InvalidData ''unsupported save magic'')
     else
     and_then (read_scalar (dec_u64 bc) s) (\<lambda>(pid, s).
     and_then (read_scalar (dec_u32 bc) s) (\<lambda>(fv, s).
     and_then (read_scalar (dec_array bc 16) s) (\<lambda>(gid, s).
     and_then (read_scalar (dec_u32 bc) s) (\<lambda>(gv, s).
     and_then (read_scalar (dec_u64 bc) s) (\<lambda>(nanos, s).
     and_then (read_scalar (dec_u64 bc) s) (\<lambda>(len, s).
     if unat (len :: u64) > max_payload_bytes then Inl (IoError InvalidData ''initialization too large'')
     else
     and_then (read_blocks al (unat len) s) (\<lambda>(init, s).
     let h = \<lparr>magic = mg, protocol_id = pid, format_version = fv, game_id = gid,
              game_version = gv, tick_nanos = nanos, initialization = init\<rparr> in
     if magic h \<noteq> magic_const then Inl (IoError InvalidData ''replay log magic mismatch'')
     else if protocol_id h \<noteq> protocol_id_const
     then Inl (IoError InvalidData ''replay log PROTOCOL_ID mismatch'')
     else if format_version h \<noteq> format_version_const
     then Inl (IoError InvalidData ''replay log format_version mismatch'')
     else and_then (map_err (\<lambda>_. IoError InvalidData ''tick duration'')
                     (validate_tick_duration (unat (tick_nanos h)))) (\<lambda>_.
     Inr (h, s))))))))))"

record replay_reader =
  inner :: source
  header :: replay_header

definition from_reader :: "bincode \<Rightarrow> (nat \<Rightarrow> bool) \<Rightarrow> source \<Rightarrow> io_error + replay_reader" where
  "from_reader bc al s = and_then (read_header bc al s) (\<lambda>(h, s). Inr \<lparr>inner = s, header = h\<rparr>)"

definition open_log ::
  "bincode \<Rightarrow> (nat \<Rightarrow> bool) \<Rightarrow> (string \<rightharpoonup> byte list) \<Rightarrow> source \<Rightarrow> string \<Rightarrow> io_error + replay_reader" where
  "open_log bc al fs file path =
     (case fs path of
        None \<Rightarrow> Inl (IoError NotFound ''No such file'')
      | Some bs \<Rightarrow> from_reader bc al (file\<lparr>held := bs\<rparr>))"

definition next_record ::
  "bincode \<Rightarrow> (nat \<Rightarrow> bool) \<Rightarrow> source \<Rightarrow> io_error + (tick_advance option \<times> source)" where
  "next_record bc al s =
     and_then (fill_buf s) (\<lambda>available.
     if available = [] then Inr (None, s)
     else
     and_then (map_err (\<lambda>e. case e of
         IoError UnexpectedEof _ \<Rightarrow> IoError InvalidData ''truncated replay record length''
       | _ \<Rightarrow> e) (read_exact 4 s)) (\<lambda>(len_bytes, s).
     let len = unat (from_le_bytes len_bytes :: u32) in
     if len > max_replay_record_bytes
     then Inl (IoError InvalidData ''replay record exceeds lockstep budget'')
     else
     and_then (collect (IoError InvalidData ''truncated replay record'')
                (IoError InvalidData ''replay allocation'') al len s) (\<lambda>(bs, s).
     and_then (map_err (\<lambda>_. IoError InvalidData ''bincode decode of TickAdvance'')
                (decode_tick_advance bc al bs)) (\<lambda>adv.
     Inr (Some adv, s)))))"

section \<open>Replay\<close>

datatype observation = Go | Expired | Cancel_Seen

record 's replay_run =
  run_state :: 's
  run_source :: source
  run_mirror :: "replay_writer option"

record replay_batch =
  records :: u64
  finished :: bool

text \<open>One record: validate, then mirror, then advance.\<close>

definition replay_step ::
  "bincode \<Rightarrow> 's session_sim \<Rightarrow> tick_advance \<Rightarrow> 's replay_run \<Rightarrow> 's replay_run \<times> unit session_result" where
  "replay_step bc sim adv r =
     (case validate_tick sim (run_state r) (tick adv) of
        Inl _ \<Rightarrow> (r, Inl (Io (IoError InvalidData ''protocol: tick gap'')))
      | Inr _ \<Rightarrow>
          (let (r, res) = (case run_mirror r of
               None \<Rightarrow> (r, Inr ())
             | Some w \<Rightarrow> (let (w, res) = append_record bc adv w in (r\<lparr>run_mirror := Some w\<rparr>, res)))
           in case res of
                Inl e \<Rightarrow> (r, Inl (Io e))
              | Inr _ \<Rightarrow>
                  (let (s, res) = advance_tick sim adv Replay (run_state r)
                   in (r\<lparr>run_state := s\<rparr>, res))))"

text \<open>
  \<open>batch_loop n os\<close> runs at most \<open>n\<close> more records; \<open>os\<close> is what the clock and the
  cancellation flag say before each, and a list that ends stands for an expired clock.
\<close>

fun batch_loop ::
  "bincode \<Rightarrow> (nat \<Rightarrow> bool) \<Rightarrow> 's session_sim \<Rightarrow> nat \<Rightarrow> observation list \<Rightarrow> u64 \<Rightarrow> 's replay_run \<Rightarrow>
   's replay_run \<times> replay_batch session_result" where
  "batch_loop bc al sim (Suc n) (Go # os) k r =
     (case next_record bc al (run_source r) of
        Inl e \<Rightarrow> (r, Inl (Io e))
      | Inr (None, src) \<Rightarrow> (r\<lparr>run_source := src\<rparr>, Inr \<lparr>records = k, finished = True\<rparr>)
      | Inr (Some adv, src) \<Rightarrow>
          (case replay_step bc sim adv (r\<lparr>run_source := src\<rparr>) of
             (r, Inl e) \<Rightarrow> (r, Inl e)
           | (r, Inr _) \<Rightarrow> batch_loop bc al sim n os (k + 1) r))"
| "batch_loop bc al sim n os k r = (r, Inr \<lparr>records = k, finished = False\<rparr>)"

definition replay_batch ::
  "bincode \<Rightarrow> (nat \<Rightarrow> bool) \<Rightarrow> 's session_sim \<Rightarrow> observation list \<Rightarrow> 's replay_run \<Rightarrow>
   's replay_run \<times> replay_batch session_result" where
  "replay_batch bc al sim os r = batch_loop bc al sim 128 os 0 r"

text \<open>
  \<open>replay_into\<close>: per round, whether the flag is set before the batch and what the batch
  observes.  \<open>None\<close> when the rounds end before the loop does.
\<close>

fun replay_into ::
  "bincode \<Rightarrow> (nat \<Rightarrow> bool) \<Rightarrow> 's session_sim \<Rightarrow> (bool \<times> observation list) list \<Rightarrow> u64 \<Rightarrow> 's replay_run \<Rightarrow>
   ('s replay_run \<times> u64 session_result) option" where
  "replay_into bc al sim [] acc r = None"
| "replay_into bc al sim ((stop, os) # rounds) acc r =
     (if stop then Some (r, Inr acc)
      else case replay_batch bc al sim os r of
        (r, Inl e) \<Rightarrow> Some (r, Inl e)
      | (r, Inr b) \<Rightarrow>
          if finished b then Some (r, Inr (acc + records b))
          else replay_into bc al sim rounds (acc + records b) r)"

section \<open>Reading what was written\<close>

definition faultless :: "source \<Rightarrow> bool" where
  "faultless s \<longleftrightarrow> (\<forall>n. read_fault s n = None)"

definition reliable :: "replay_writer \<Rightarrow> bool" where
  "reliable w \<longleftrightarrow> (\<forall>l bs. write_fault w l bs = None)"

definition record_bytes :: "bincode \<Rightarrow> tick_advance \<Rightarrow> byte list" where
  "record_bytes bc adv =
     to_le_bytes (word_of_nat (length (enc_tick bc adv)) :: u32) @ enc_tick bc adv"

definition log_bytes :: "bincode \<Rightarrow> tick_advance list \<Rightarrow> byte list" where
  "log_bytes bc advs = concat (map (record_bytes bc) advs)"

text \<open>What the writer accepts as a record and the decoder as a payload.\<close>

definition recordable :: "bincode \<Rightarrow> tick_advance \<Rightarrow> bool" where
  "recordable bc adv \<longleftrightarrow> carries adv \<and> length (enc_tick bc adv) \<le> max_replay_record_bytes"

definition header_current :: "replay_header \<Rightarrow> bool" where
  "header_current h \<longleftrightarrow>
     magic h = magic_const \<and> protocol_id h = protocol_id_const \<and>
     format_version h = format_version_const \<and> length (game_id h) = 16 \<and>
     validate_tick_duration (unat (tick_nanos h)) = Inr () \<and>
     length (initialization h) \<le> max_payload_bytes"

lemma consume_simps [simp]:
  "held (consume n s) = drop n (held s)" "faultless (consume n s) = faultless s"
  "consume 0 s = s" "consume m (consume n s) = consume (n + m) s"
  by (simp_all add: consume_def faultless_def add.commute)

lemma fill_buf_faultless:
  "faultless s \<Longrightarrow> fill_buf s = Inr (take (Suc (window s (length (held s)))) (held s))"
  by (simp add: fill_buf_def faultless_def)

lemma infallible_True: "infallible n"
  by (simp add: infallible_def)

lemma take_then_take: "k \<le> n \<Longrightarrow> take k xs @ take (n - k) (drop k xs) = take n xs"
  using take_add [of k "n - k" xs] by simp

lemma collect_enough:
  "faultless s \<Longrightarrow> al = infallible \<Longrightarrow> n \<le> length (held s) \<Longrightarrow>
     collect eof oom al n s = Inr (take n (held s), consume n s)"
proof (induction eof oom al n s rule: collect.induct)
  case (1 eof oom al n s)
  show ?case
  proof (cases "n = 0")
    case False
    let ?a = "take (Suc (window s (length (held s)))) (held s)"
    define k where "k = min (length ?a) n"
    have k: "k \<le> n" "k \<le> length (held s)" "take k ?a = take k (held s)"
      by (simp_all add: k_def min_def)
    have a: "fill_buf s = Inr ?a" "?a \<noteq> []"
      using 1 False by (auto simp: fill_buf_faultless)
    have "collect eof oom al (n - k) (consume k s) =
        Inr (take (n - k) (drop k (held s)), consume n s)"
      using 1(1) [OF False a k_def] 1(2,3,4) k by (simp add: infallible_True diff_le_mono)
    moreover have "collect eof oom al n s =
        and_then (collect eof oom al (n - k) (consume k s)) (\<lambda>(bs, s). Inr (take k ?a @ bs, s))"
      using False a 1(3) by (subst collect.simps) (simp add: Let_def k_def infallible_True)
    ultimately show ?thesis
      using k by (simp add: take_then_take)
  qed (simp add: collect.simps)
qed

lemma collect_short:
  "faultless s \<Longrightarrow> al = infallible \<Longrightarrow> length (held s) < n \<Longrightarrow> collect eof oom al n s = Inl eof"
proof (induction eof oom al n s rule: collect.induct)
  case (1 eof oom al n s)
  let ?a = "take (Suc (window s (length (held s)))) (held s)"
  let ?k = "min (length ?a) n"
  have a: "fill_buf s = Inr ?a" using 1(2) by (simp add: fill_buf_faultless)
  show ?case
  proof (cases "held s = []")
    case False
    then have a': "?a \<noteq> []" by simp
    have "length (held (consume ?k s)) < n - ?k" using 1(4) by auto
    then have "collect eof oom al (n - ?k) (consume ?k s) = Inl eof"
      using 1(1) [OF _ a a' refl] 1(2,3,4) infallible_True by simp
    then show ?thesis
      using a a' 1(3,4) by (subst collect.simps) (simp add: Let_def infallible_True)
  next
    case True
    then show ?thesis using a 1(4) by (subst collect.simps) simp
  qed
qed

lemma read_exact_enough:
  "faultless s \<Longrightarrow> n \<le> length (held s) \<Longrightarrow> read_exact n s = Inr (take n (held s), consume n s)"
  by (simp add: read_exact_def collect_enough infallible_def [abs_def])

lemma read_scalar_enough:
  assumes "faultless s" "held s = enc @ rest" "dec (held s) = Some (v, length enc)"
  shows "read_scalar dec s = Inr (v, s\<lparr>held := rest\<rparr>)"
  using assms by (simp add: read_scalar_def read_exact_enough consume_def)

lemma read_blocks_enough:
  "faultless s \<Longrightarrow> al = infallible \<Longrightarrow> n \<le> length (held s) \<Longrightarrow>
     read_blocks al n s = Inr (take n (held s), consume n s)"
proof (induction al n s rule: read_blocks.induct)
  case (1 al n s)
  show ?case
  proof (cases "n = 0")
    case False
    let ?k = "min 4096 n"
    have r: "read_exact ?k s = Inr (take ?k (held s), consume ?k s)"
      using 1(2,4) by (intro read_exact_enough) auto
    have "read_blocks al (n - ?k) (consume ?k s) =
        Inr (take (n - ?k) (drop ?k (held s)), consume n s)"
      using 1(1) [OF False refl r refl] 1(2,3,4) by (simp add: infallible_True diff_le_mono)
    then show ?thesis
      using False r 1(3) by (subst read_blocks.simps) (simp add: Let_def take_then_take infallible_True)
  qed (simp add: read_blocks.simps)
qed

lemma faultless_held [simp]: "faultless (s\<lparr>held := bs\<rparr>) = faultless s"
  by (simp add: faultless_def)

lemma u32_length:
  "n \<le> max_replay_record_bytes \<Longrightarrow> unat (word_of_nat n :: u32) = n"
  by (simp add: unat_of_nat max_replay_record_bytes_def)

lemma next_record_end:
  "faultless s \<Longrightarrow> held s = [] \<Longrightarrow> next_record bc al s = Inr (None, s)"
  by (simp add: next_record_def fill_buf_faultless)

context bincode_format
begin

lemma read_scalar_u32 [simp]:
  "faultless s \<Longrightarrow> held s = enc_u32 bc v @ rest \<Longrightarrow>
     read_scalar (dec_u32 bc) s = Inr (v, s\<lparr>held := rest\<rparr>)"
  by (rule read_scalar_enough) (simp_all add: u32_roundtrip)

lemma read_scalar_u64 [simp]:
  "faultless s \<Longrightarrow> held s = enc_u64 bc v @ rest \<Longrightarrow>
     read_scalar (dec_u64 bc) s = Inr (v, s\<lparr>held := rest\<rparr>)"
  by (rule read_scalar_enough) (simp_all add: u64_roundtrip)

lemma read_scalar_array:
  "faultless s \<Longrightarrow> held s = bs @ rest \<Longrightarrow> length bs = n \<Longrightarrow>
     read_scalar (dec_array bc n) s = Inr (bs, s\<lparr>held := rest\<rparr>)"
  by (rule read_scalar_enough [where enc = bs, of s rest "dec_array bc n" bs])
    (auto simp: array_roundtrip)

text \<open>What the reader makes of the fields of a header, current or not.\<close>

lemma read_header_fields:
  assumes "faultless s" "held s = enc_header bc h @ rest" "magic h = magic_const" "length (game_id h) = 16"
    "length (initialization h) \<le> max_payload_bytes"
  shows "read_header bc infallible s =
    (if protocol_id h \<noteq> protocol_id_const then Inl (IoError InvalidData ''replay log PROTOCOL_ID mismatch'')
     else if format_version h \<noteq> format_version_const
     then Inl (IoError InvalidData ''replay log format_version mismatch'')
     else and_then (map_err (\<lambda>_. IoError InvalidData ''tick duration'')
                     (validate_tick_duration (unat (tick_nanos h)))) (\<lambda>_. Inr (h, s\<lparr>held := rest\<rparr>)))"
proof -
  have len: "unat (word_of_nat (length (initialization h)) :: u64) = length (initialization h)"
    using assms(5) by simp
  have blocks: "read_blocks infallible (length (initialization h))
      (s\<lparr>held := initialization h @ rest\<rparr>) = Inr (initialization h, s\<lparr>held := rest\<rparr>)"
    using assms(1) by (subst read_blocks_enough) (simp_all add: consume_def)
  have 1: "read_scalar (dec_array bc 4) s =
      Inr (magic_const, s\<lparr>held := drop 4 (held s)\<rparr>)"
    using assms
    by (subst read_scalar_array [of _ magic_const "drop 4 (held s)"]) (simp_all add: header_layout magic_const_def)
  have 2: "read_scalar (dec_array bc 16) (s\<lparr>held := game_id h @ bs\<rparr>) =
      Inr (game_id h, s\<lparr>held := bs\<rparr>)" for bs
    using assms by (subst read_scalar_array [of _ "game_id h" bs]) simp_all
  have "held s = magic_const @ enc_u64 bc (protocol_id h) @ enc_u32 bc (format_version h) @
      game_id h @ enc_u32 bc (game_version h) @ enc_u64 bc (tick_nanos h) @
      enc_u64 bc (word_of_nat (length (initialization h))) @ initialization h @ rest"
    using assms by (simp add: header_layout enc_bytes_def)
  moreover have "\<lparr>magic = [0x53, 0x45, 0x53, 0x53], protocol_id = protocol_id_const,
      format_version = format_version_const, game_id = game_id h,
      game_version = game_version h, tick_nanos = tick_nanos h, initialization = initialization h\<rparr> = h"
    if "protocol_id h = protocol_id_const" "format_version h = format_version_const"
    using assms(3) by (simp add: magic_const_def flip: that)
  ultimately show ?thesis
    using assms(1,5) 2 blocks len by (simp add: read_header_def 1 magic_const_def Let_def)
qed

lemma read_header_enc:
  assumes "faultless s" "held s = enc_header bc h @ rest" "header_current h"
  shows "read_header bc infallible s = Inr (h, s\<lparr>held := rest\<rparr>)"
  using assms by (subst read_header_fields) (auto simp: header_current_def)

lemma from_reader_enc:
  assumes "faultless s" "held s = enc_header bc h @ rest" "header_current h"
  shows "from_reader bc infallible s = Inr \<lparr>inner = s\<lparr>held := rest\<rparr>, header = h\<rparr>"
  using read_header_enc [OF assms] by (simp add: from_reader_def)

lemma next_record_enc:
  assumes "faultless s" "held s = record_bytes bc adv @ rest" "recordable bc adv"
  shows "next_record bc infallible s = Inr (Some adv, s\<lparr>held := rest\<rparr>)"
proof -
  let ?len = "word_of_nat (length (enc_tick bc adv)) :: u32"
  have small: "length (enc_tick bc adv) \<le> max_replay_record_bytes" and "carries adv"
    using assms(3) by (auto simp: recordable_def)
  have h: "held s = to_le_bytes ?len @ enc_tick bc adv @ rest"
    using assms(2) by (simp add: record_bytes_def)
  then have "length (held s) \<ge> 4" by simp
  then have "held s \<noteq> []" by auto
  have "read_exact 4 s = Inr (to_le_bytes ?len, s\<lparr>held := enc_tick bc adv @ rest\<rparr>)"
    using assms(1) h by (subst read_exact_enough) (simp_all add: consume_def)
  moreover have "collect eof oom infallible (length (enc_tick bc adv))
      (s\<lparr>held := enc_tick bc adv @ rest\<rparr>) = Inr (enc_tick bc adv, s\<lparr>held := rest\<rparr>)" for eof oom
    using assms(1) by (subst collect_enough) (simp_all add: consume_def)
  ultimately show ?thesis
    using assms(1) \<open>held s \<noteq> []\<close> decode_encode_tick [OF \<open>carries adv\<close> small] small
    by (simp add: next_record_def fill_buf_faultless from_to_le_bytes u32_length)
qed

lemma next_record_torn:
  assumes "faultless s" "held s = take k (record_bytes bc adv)" "recordable bc adv"
    "0 < k" "k < length (record_bytes bc adv)"
  shows "\<exists>msg. next_record bc infallible s = Inl (IoError InvalidData msg)"
proof -
  let ?len = "word_of_nat (length (enc_tick bc adv)) :: u32"
  have small: "length (enc_tick bc adv) \<le> max_replay_record_bytes"
    using assms(3) by (auto simp: recordable_def)
  have ne: "held s \<noteq> []" using assms(2,4,5) by auto
  show ?thesis
  proof (cases "k < 4")
    case True
    then have "read_exact 4 s = Inl (IoError UnexpectedEof ''failed to fill whole buffer'')"
      using assms(1,2) infallible_True
      by (simp add: read_exact_def collect_short infallible_def [abs_def])
    then show ?thesis
      using assms(1) ne by (simp add: next_record_def fill_buf_faultless)
  next
    case False
    then have h: "held s = to_le_bytes ?len @ take (k - 4) (enc_tick bc adv)"
      using assms(2) by (simp add: record_bytes_def)
    then have "read_exact 4 s = Inr (to_le_bytes ?len, s\<lparr>held := take (k - 4) (enc_tick bc adv)\<rparr>)"
      using assms(1) by (subst read_exact_enough) (simp_all add: consume_def)
    moreover have "collect eof oom infallible (length (enc_tick bc adv))
        (s\<lparr>held := take (k - 4) (enc_tick bc adv)\<rparr>) = Inl eof" for eof oom
      using assms(1,5) False by (subst collect_short) (auto simp: record_bytes_def)
    ultimately show ?thesis
      using assms(1) ne small
      by (simp add: next_record_def fill_buf_faultless from_to_le_bytes u32_length)
  qed
qed

end

section \<open>What replay does to the simulation and the mirror\<close>

definition mirror_ok :: "replay_writer option \<Rightarrow> bool" where
  "mirror_ok m = (case m of None \<Rightarrow> True | Some w \<Rightarrow> reliable w)"

definition mirror_after ::
  "bincode \<Rightarrow> tick_advance list \<Rightarrow> replay_writer option \<Rightarrow> replay_writer option" where
  "mirror_after bc advs m = map_option (\<lambda>w. w\<lparr>written := written w @ log_bytes bc advs\<rparr>) m"

definition after_records ::
  "bincode \<Rightarrow> 's session_sim \<Rightarrow> tick_advance list \<Rightarrow> byte list \<Rightarrow> 's replay_run \<Rightarrow> 's replay_run" where
  "after_records bc sim advs rest r =
     r\<lparr>run_source := (run_source r)\<lparr>held := rest\<rparr>,
       run_state := fst (advance_all sim Replay advs (run_state r)),
       run_mirror := mirror_after bc advs (run_mirror r)\<rparr>"

lemma write_all_reliable:
  "reliable w \<Longrightarrow> write_all bs w = (w\<lparr>written := written w @ bs\<rparr>, Inr ())"
  by (simp add: write_all_def reliable_def)

lemma reliable_written [simp]: "reliable (w\<lparr>written := l\<rparr>) = reliable w"
  by (simp add: reliable_def)

lemma append_record_reliable:
  assumes "reliable w" "recordable bc adv"
  shows "append_record bc adv w = (w\<lparr>written := written w @ record_bytes bc adv\<rparr>, Inr ())"
proof -
  have "length (enc_tick bc adv) \<le> max_replay_record_bytes"
    using assms(2) by (simp add: recordable_def)
  moreover from this have "\<not> 2 ^ 32 \<le> length (enc_tick bc adv)"
    by (simp add: max_replay_record_bytes_def)
  ultimately show ?thesis
    using assms(1) by (simp add: append_record_def Let_def write_all_reliable record_bytes_def)
qed

lemma mirror_after_simps [simp]:
  "mirror_after bc [] m = m"
  "mirror_after bc bs (mirror_after bc as m) = mirror_after bc (as @ bs) m"
  "mirror_ok (mirror_after bc as m) = mirror_ok m"
  by (cases m; simp add: mirror_after_def log_bytes_def mirror_ok_def)+

lemma log_bytes_simps [simp]:
  "log_bytes bc [] = []" "log_bytes bc (a # as) = record_bytes bc a @ log_bytes bc as"
  by (simp_all add: log_bytes_def)

lemma advance_all_Cons_Inr:
  "advance_all sim phase (a # as) s = (s', Inr ()) \<longleftrightarrow>
     (\<exists>s1. advance_tick sim a phase s = (s1, Inr ()) \<and> advance_all sim phase as s1 = (s', Inr ()))"
  by (auto split: prod.splits sum.splits)

lemma advance_tick_validates:
  "advance_tick sim a phase s = (s', Inr ()) \<Longrightarrow> validate_tick sim s (tick a) = Inr ()"
  by (simp add: advance_tick_Inr validate_tick_Inr)

lemma replay_step_ok:
  assumes "recordable bc a" "mirror_ok (run_mirror r)"
    "advance_tick sim a Replay (run_state r) = (s1, Inr ())"
  shows "replay_step bc sim a r =
    (r\<lparr>run_state := s1, run_mirror := mirror_after bc [a] (run_mirror r)\<rparr>, Inr ())"
  using assms advance_tick_validates [OF assms(3)]
  by (cases "run_mirror r")
    (simp_all add: replay_step_def mirror_ok_def mirror_after_def append_record_reliable)

text \<open>The number of records a batch may run: the bound and the observations allow it.\<close>

definition batch_room :: "nat \<Rightarrow> observation list \<Rightarrow> nat" where
  "batch_room n os = min n (length (takeWhile (\<lambda>ob. ob = Go) os))"

lemma batch_room_simps [simp]:
  "batch_room 0 os = 0" "batch_room n [] = 0" "batch_room n (Expired # os) = 0"
  "batch_room n (Cancel_Seen # os) = 0" "batch_room (Suc n) (Go # os) = Suc (batch_room n os)"
  by (simp_all add: batch_room_def)

lemma batch_loop_stops:
  "batch_room n os = 0 \<Longrightarrow>
     batch_loop bc al sim n os k r = (r, Inr \<lparr>records = k, finished = False\<rparr>)"
  by (cases "(bc, al, sim, n, os, k, r)" rule: batch_loop.cases) simp_all

lemma batch_room_Suc:
  assumes "batch_room n os = Suc m"
  obtains n' os' where "n = Suc n'" "os = Go # os'" "m = batch_room n' os'"
  using assms by (cases n; cases os; cases "hd os") auto

lemma after_records_Nil:
  "held (run_source r) = bs \<Longrightarrow> after_records bc sim [] bs r = r"
  by (cases r; cases "run_source r") (auto simp: after_records_def)

context bincode_format
begin

lemma batch_loop_Go:
  assumes "faultless (run_source r)" "held (run_source r) = record_bytes bc a @ rest"
    "recordable bc a" "mirror_ok (run_mirror r)"
    "advance_tick sim a Replay (run_state r) = (s1, Inr ())"
  shows "batch_loop bc infallible sim (Suc n) (Go # os) k r =
    batch_loop bc infallible sim n os (k + 1)
      (r\<lparr>run_source := (run_source r)\<lparr>held := rest\<rparr>, run_state := s1,
         run_mirror := mirror_after bc [a] (run_mirror r)\<rparr>)"
  using next_record_enc [OF assms(1-3)]
    replay_step_ok [of bc a "r\<lparr>run_source := (run_source r)\<lparr>held := rest\<rparr>\<rparr>" sim s1] assms
  by simp

lemma batch_loop_plays:
  "faultless (run_source r) \<Longrightarrow> held (run_source r) = log_bytes bc advs \<Longrightarrow>
     list_all (recordable bc) advs \<Longrightarrow> mirror_ok (run_mirror r) \<Longrightarrow>
     advance_all sim Replay advs (run_state r) = (s', Inr ()) \<Longrightarrow>
     batch_loop bc infallible sim n os k r =
       (let m = batch_room n os in
        (after_records bc sim (take m advs) (log_bytes bc (drop m advs)) r,
         Inr \<lparr>records = k + of_nat (length (take m advs)), finished = length advs < m\<rparr>))"
proof (induction advs arbitrary: n os k r)
  case Nil
  show ?case
  proof (cases "batch_room n os")
    case 0
    then show ?thesis using Nil by (simp add: batch_loop_stops after_records_Nil)
  next
    case (Suc m)
    then obtain n' os' where "n = Suc n'" "os = Go # os'" by (rule batch_room_Suc)
    then show ?thesis
      using Suc Nil after_records_Nil [of r "[]" bc sim]
      by (cases r; cases "run_source r") (auto simp: next_record_end)
  qed
next
  case (Cons a as)
  obtain s1 where s1: "advance_tick sim a Replay (run_state r) = (s1, Inr ())"
    and rest: "advance_all sim Replay as s1 = (s', Inr ())"
    using Cons.prems(5) by (auto simp: advance_all_Cons_Inr simp del: advance_all.simps)
  have a: "held (run_source r) = record_bytes bc a @ log_bytes bc as" "recordable bc a"
    using Cons.prems(2,3) by simp_all
  show ?case
  proof (cases "batch_room n os")
    case 0
    then show ?thesis using a by (simp add: batch_loop_stops after_records_Nil)
  next
    case (Suc m)
    then obtain n' os' where n: "n = Suc n'" "os = Go # os'" "m = batch_room n' os'"
      by (rule batch_room_Suc)
    let ?r = "r\<lparr>run_source := (run_source r)\<lparr>held := log_bytes bc as\<rparr>, run_state := s1,
      run_mirror := mirror_after bc [a] (run_mirror r)\<rparr>"
    note step = batch_loop_Go [OF Cons.prems(1) a Cons.prems(4) s1, of n' os' k]
    have "batch_loop bc infallible sim n' os' (k + 1) ?r =
       (let m = batch_room n' os' in
        (after_records bc sim (take m as) (log_bytes bc (drop m as)) ?r,
         Inr \<lparr>records = k + 1 + of_nat (length (take m as)), finished = length as < m\<rparr>))"
      using Cons.prems rest by (intro Cons.IH) simp_all
    then show ?thesis
      using n s1 unfolding n(1,2) step by (simp add: Let_def after_records_def)
  qed
qed

lemma advance_all_split:
  assumes "advance_all sim phase (as @ bs) s = (s', Inr ())"
  shows "advance_all sim phase bs (fst (advance_all sim phase as s)) = (s', Inr ())"
  using assms by (auto simp: advance_all_append split: prod.splits sum.splits)

lemma fst_advance_all:
  assumes "advance_all sim phase (as @ bs) s = (s', Inr ())"
  shows "fst (advance_all sim phase bs (fst (advance_all sim phase as s))) = s'"
    "fst (advance_all sim phase (as @ bs) s) = s'"
  using advance_all_split [OF assms] assms by simp_all

lemma after_records_append:
  assumes "advance_all sim Replay (as @ bs) (run_state r) = (s', Inr ())"
  shows "after_records bc sim bs rest (after_records bc sim as rest' r) =
    after_records bc sim (as @ bs) rest r"
  using fst_advance_all [OF assms] by (simp add: after_records_def)

text \<open>
  Every round that starts running and sees time for one record makes progress, so
  one round more than there are records reaches the end of the log.
\<close>

lemma replay_into_plays:
  "faultless (run_source r) \<Longrightarrow> held (run_source r) = log_bytes bc advs \<Longrightarrow>
     list_all (recordable bc) advs \<Longrightarrow> mirror_ok (run_mirror r) \<Longrightarrow>
     advance_all sim Replay advs (run_state r) = (s', Inr ()) \<Longrightarrow>
     list_all (\<lambda>(stop, os). \<not> stop \<and> batch_room 128 os > 0) rounds \<Longrightarrow>
     length advs < length rounds \<Longrightarrow>
     replay_into bc infallible sim rounds acc r =
       Some (after_records bc sim advs [] r, Inr (acc + of_nat (length advs)))"
proof (induction rounds arbitrary: advs acc r)
  case (Cons round rounds)
  obtain os where round: "round = (False, os)" "batch_room 128 os > 0"
    using Cons.prems(6) by (cases round) auto
  define m where "m = batch_room 128 os"
  have batch: "replay_batch bc infallible sim os r =
      (after_records bc sim (take m advs) (log_bytes bc (drop m advs)) r,
       Inr \<lparr>records = of_nat (length (take m advs)), finished = length advs < m\<rparr>)"
    using batch_loop_plays [OF Cons.prems(1-5), of 128 os 0]
    by (simp add: replay_batch_def m_def Let_def)
  show ?case
  proof (cases "length advs < m")
    case True
    then show ?thesis using batch round by simp
  next
    case False
    let ?r = "after_records bc sim (take m advs) (log_bytes bc (drop m advs)) r"
    have split: "advance_all sim Replay (take m advs @ drop m advs) (run_state r) = (s', Inr ())"
      using Cons.prems(5) by simp
    have "replay_into bc infallible sim rounds (acc + of_nat m) ?r =
        Some (after_records bc sim (drop m advs) [] ?r,
          Inr (acc + of_nat m + of_nat (length (drop m advs))))"
    proof (rule Cons.IH)
      show "list_all (recordable bc) (drop m advs)"
        using Cons.prems(3) by (simp add: list_all_iff) (meson in_set_dropD)
      show "advance_all sim Replay (drop m advs) (run_state ?r) = (s', Inr ())"
        using advance_all_split [OF split] by (simp add: after_records_def)
    qed (use Cons.prems round False in \<open>auto simp: after_records_def m_def\<close>)
    moreover have "(of_nat m :: u64) + of_nat (length advs - m) = of_nat (length advs)"
      using False by (simp flip: of_nat_add)
    ultimately show ?thesis
      using batch round False after_records_append [OF split]
      by (simp add: min_absorb2 add.assoc)
  qed
qed simp

end

text \<open>A rejected record enters neither the mirror nor the simulation.\<close>

lemma replay_step_rejects:
  "validate_tick sim (run_state r) (tick adv) = Inl e \<Longrightarrow>
     replay_step bc sim adv r = (r, Inl (Io (IoError InvalidData ''protocol: tick gap'')))"
  by (simp add: replay_step_def)

section \<open>Properties\<close>

text \<open>A current header followed by any records is read back, whatever the buffering of the
  reader, and leaves the reader at the first record.\<close>

theorem header_roundtrip:
  assumes "bincode_format bc" "faultless src" "held src = enc_header bc h @ rest" "header_current h"
  shows "from_reader bc infallible src = Inr \<lparr>inner = src\<lparr>held := rest\<rparr>, header = h\<rparr>"
  using bincode_format.from_reader_enc [OF assms] .

text \<open>A small header and record, read one byte at a time.\<close>

definition small_header :: replay_header where
  "small_header = replay_header_new (replicate 16 0) 1 1000 [5]"

definition small_record :: tick_advance where
  "small_record = \<lparr>tick = 1, inputs = [\<lparr>participant = Host, payload = [9]\<rparr>]\<rparr>"

definition byte_source :: "byte list \<Rightarrow> source" where
  "byte_source bs = \<lparr>held = bs, window = (\<lambda>_. 0), read_fault = (\<lambda>_. None)\<rparr>"

lemma byte_source_simps [simp]:
  "faultless (byte_source bs)" "held (byte_source bs) = bs" "(byte_source bs)\<lparr>held := cs\<rparr> = byte_source cs"
  by (simp_all add: byte_source_def faultless_def)

lemma small_header_current: "header_current small_header"
  by (simp add: small_header_def replay_header_new_def header_current_def validate_tick_duration_def
      max_payload_bytes_def magic_const_def protocol_id_const_def format_version_const_def)

lemma small_recordable: "recordable standard_bincode small_record"
proof -
  have "length (enc_tick standard_bincode small_record) = 5" by code_simp
  then show ?thesis
    by (simp add: recordable_def carries_def small_record_def max_payload_bytes_def max_replay_record_bytes_def)
qed

theorem header_roundtrip_witness:
  "from_reader standard_bincode infallible (byte_source (enc_header standard_bincode small_header @ [1, 2])) =
     Inr \<lparr>inner = byte_source [1, 2], header = small_header\<rparr>"
  using header_roundtrip [OF std.bincode_format_axioms, of
      "byte_source (enc_header standard_bincode small_header @ [1, 2])" small_header "[1, 2]"]
    small_header_current by simp

text \<open>C18. A log that ends inside a record, at whatever byte, makes the reader fail with
  \<open>InvalidData\<close>; it is never taken for a clean end of the log.\<close>

theorem torn_record_is_an_error:
  assumes "bincode_format bc" "faultless src" "recordable bc adv"
    and "held src = take k (record_bytes bc adv)" "0 < k" "k < length (record_bytes bc adv)"
  shows "\<exists>msg. next_record bc infallible src = Inl (IoError InvalidData msg)"
  using bincode_format.next_record_torn [OF assms(1,2,4,3,5,6)] .

theorem torn_record_is_an_error_witness:
  "\<exists>msg. next_record standard_bincode infallible
     (byte_source (take 7 (record_bytes standard_bincode small_record))) = Inl (IoError InvalidData msg)"
proof -
  have "length (record_bytes standard_bincode small_record) = 9" by code_simp
  then show ?thesis
    by (intro torn_record_is_an_error [OF std.bincode_format_axioms _ small_recordable, of _ 7]) simp_all
qed

text \<open>C17. Loading a log of consecutive records executes exactly these records in order and
  mirrors them byte for byte, for every split into batches that makes progress: one batch
  more than there are records suffices.\<close>

theorem replay_executes_the_log:
  assumes "bincode_format bc" "faultless (run_source r)" "held (run_source r) = log_bytes bc advs"
    and "list_all (recordable bc) advs" "mirror_ok (run_mirror r)"
    and "advance_all sim Replay advs (run_state r) = (s, Inr ())"
    and "list_all (\<lambda>(stop, os). \<not> stop \<and> batch_room 128 os > 0) rounds" "length advs < length rounds"
  shows "\<exists>r'. replay_into bc infallible sim rounds 0 r = Some (r', Inr (of_nat (length advs))) \<and>
    run_state r' = s \<and> held (run_source r') = [] \<and>
    map_option written (run_mirror r') = map_option (\<lambda>w. written w @ log_bytes bc advs) (run_mirror r)"
  using bincode_format.replay_into_plays [OF assms, of 0] assms(6)
  by (auto simp: after_records_def mirror_after_def map_option_case split: option.splits)

text \<open>A simulation that only counts its ticks.\<close>

definition tick_counter :: "u64 session_sim" where
  "tick_counter =
     \<lparr>sim_header = (\<lambda>_. small_header), sim_initialize = default_initialize,
      sim_validate_command = default_validate_command, sim_hash_interval = (\<lambda>_. 30),
      sim_current_tick = (\<lambda>s. s), sim_state_hash = (\<lambda>s. Inr s),
      sim_advance = (\<lambda>adv s. (tick adv, Inr ())), sim_publish = (\<lambda>s. (s, Inr ())),
      sim_finish_tick = default_finish_tick\<rparr>"

theorem replay_executes_the_log_witness:
  "\<exists>r'. replay_into standard_bincode infallible tick_counter [(False, [Go]), (False, [Go, Expired])] 0
      \<lparr>run_state = 0, run_source = byte_source (log_bytes standard_bincode [small_record]), run_mirror = None\<rparr> =
      Some (r', Inr 1) \<and> run_state r' = 1"
proof -
  let ?r = "\<lparr>run_state = 0, run_source = byte_source (log_bytes standard_bincode [small_record]), run_mirror = None\<rparr>"
  have "advance_all tick_counter Replay [small_record] (run_state ?r) = (1, Inr ())"
    by (simp add: advance_tick_def validate_tick_def checked_add_def advance_checked_def
        tick_counter_def small_record_def default_finish_tick_def)
  then show ?thesis
    using replay_executes_the_log [OF std.bincode_format_axioms, of ?r "[small_record]" tick_counter 1
        "[(False, [Go]), (False, [Go, Expired])]"] small_recordable
    by (auto simp: mirror_ok_def numeral_eq_Suc)
qed

text \<open>C19. A record whose tick does not follow the simulation's enters neither the recording
  nor the simulation, and replay stops with an \<open>InvalidData\<close> error.\<close>

theorem gap_is_not_recorded:
  assumes "next_record bc al (run_source r) = Inr (Some adv, src)"
    and "unat (tick adv) \<noteq> Suc (unat (sim_current_tick sim (run_state r)))"
  shows "replay_batch bc al sim (Go # os) r =
    (r\<lparr>run_source := src\<rparr>, Inl (Io (IoError InvalidData ''protocol: tick gap'')))"
proof -
  have "validate_tick sim (run_state r) (tick adv) \<noteq> Inr ()" using assms(2) by (simp add: validate_tick_Inr)
  then obtain e where "validate_tick sim (run_state r) (tick adv) = Inl e"
    by (cases "validate_tick sim (run_state r) (tick adv)") auto
  then show ?thesis
    using assms(1) batch_loop.simps(1) [of bc al sim 127 os 0 r]
    by (simp add: replay_batch_def replay_step_def)
qed

theorem gap_is_not_recorded_witness:
  "snd (replay_batch standard_bincode infallible tick_counter [Go]
      \<lparr>run_state = 4, run_source = byte_source (record_bytes standard_bincode small_record), run_mirror = None\<rparr>) =
    Inl (Io (IoError InvalidData ''protocol: tick gap''))"
proof -
  let ?r = "\<lparr>run_state = 4, run_source = byte_source (record_bytes standard_bincode small_record), run_mirror = None\<rparr>"
  have "next_record standard_bincode infallible (run_source ?r) = Inr (Some small_record, byte_source [])"
    using std.next_record_enc [of "run_source ?r" small_record "[]"] small_recordable by simp
  from gap_is_not_recorded [OF this, of tick_counter "[]"] show ?thesis
    by (simp add: tick_counter_def small_record_def)
qed

end
