(* ===== verification/Socket_Address.thy ===== *)
theory Socket_Address
  imports Prelude
begin

text \<open>
  \<^verbatim>\<open>SocketAddr\<close> of Rust's standard library and its \<open>FromStr\<close>: the type of the address a client
  connects to, and the parser behind the address field of the garden's menu.  The parser
  reads ASCII bytes only, so it is given here on the scalar values of the text.  A reader
  returns what it read with the rest of the input, or \<open>None\<close>; every reader is atomic, so
  after a failure the caller's input is unchanged.
\<close>

unbundle bit_operations_syntax

type_synonym ustring = "nat list"

datatype socket_addr =
    V4 "u8 list" u16
  | V6 "u16 list" u16 u32 u32

section \<open>Numbers\<close>

definition to_digit :: "nat \<Rightarrow> nat \<Rightarrow> nat option" where
  "to_digit radix c =
     (let d = (if 48 \<le> c \<and> c \<le> 57 then c - 48
               else if 97 \<le> c \<and> c \<le> 122 then c - 87
               else if 65 \<le> c \<and> c \<le> 90 then c - 55
               else radix)
      in if d < radix then Some d else None)"

text \<open>With a maximal number of digits the value is checked at the end, otherwise at each digit.\<close>

fun read_digits :: "nat \<Rightarrow> nat option \<Rightarrow> nat \<Rightarrow> nat \<Rightarrow> nat \<Rightarrow> ustring \<Rightarrow> (nat \<times> nat \<times> ustring) option" where
  "read_digits radix max_digits bound n v [] = Some (v, n, [])"
| "read_digits radix max_digits bound n v (c # cs) =
     (case to_digit radix c of
        None \<Rightarrow> Some (v, n, c # cs)
      | Some d \<Rightarrow>
          (let v = v * radix + d; n = n + 1 in
           if (case max_digits of Some m \<Rightarrow> n > m | None \<Rightarrow> v \<ge> bound) then None
           else read_digits radix max_digits bound n v cs))"

definition read_number :: "nat \<Rightarrow> nat option \<Rightarrow> bool \<Rightarrow> nat \<Rightarrow> ustring \<Rightarrow> (nat \<times> ustring) option" where
  "read_number radix max_digits allow_zero_prefix bound s =
     (case read_digits radix max_digits bound 0 0 s of
        None \<Rightarrow> None
      | Some (v, n, rest) \<Rightarrow>
          if n = 0 \<or> \<not> allow_zero_prefix \<and> hd s = 48 \<and> n > 1 \<or> v \<ge> bound then None else Some (v, rest))"

definition read_given_char :: "nat \<Rightarrow> ustring \<Rightarrow> ustring option" where
  "read_given_char c s = (if s \<noteq> [] \<and> hd s = c then Some (tl s) else None)"

definition read_separator ::
  "nat \<Rightarrow> nat \<Rightarrow> (ustring \<Rightarrow> ('a \<times> ustring) option) \<Rightarrow> ustring \<Rightarrow> ('a \<times> ustring) option" where
  "read_separator sep i inner s = (if i > 0 then Option.bind (read_given_char sep s) inner else inner s)"

section \<open>Addresses\<close>

fun read_octets :: "nat \<Rightarrow> nat \<Rightarrow> ustring \<Rightarrow> (u8 list \<times> ustring) option" where
  "read_octets i 0 s = Some ([], s)"
| "read_octets i (Suc k) s =
     Option.bind (read_separator 46 i (read_number 10 (Some 3) False 256) s) (\<lambda>(v, s).
     map_option (\<lambda>(vs, s). (of_nat v # vs, s)) (read_octets (i + 1) k s))"

definition read_ipv4_addr :: "ustring \<Rightarrow> (u8 list \<times> ustring) option" where
  "read_ipv4_addr s = read_octets 0 4 s"

definition be_pair :: "u8 \<Rightarrow> u8 \<Rightarrow> u16" where
  "be_pair a b = push_bit 8 (ucast a) OR ucast b"

text \<open>Up to \<open>limit\<close> groups, of which \<open>k\<close> remain; the flag tells of an embedded IPv4 address.\<close>

fun read_groups :: "nat \<Rightarrow> nat \<Rightarrow> ustring \<Rightarrow> u16 list \<times> bool \<times> ustring" where
  "read_groups limit 0 s = ([], False, s)"
| "read_groups limit (Suc k) s =
     (let i = limit - Suc k in
      case (if i < limit - 1 then read_separator 58 i read_ipv4_addr s else None) of
        Some (o4, s) \<Rightarrow> ([be_pair (o4 ! 0) (o4 ! 1), be_pair (o4 ! 2) (o4 ! 3)], True, s)
      | None \<Rightarrow>
          (case read_separator 58 i (read_number 16 (Some 4) True 65536) s of
             None \<Rightarrow> ([], False, s)
           | Some (v, s) \<Rightarrow>
               let (gs, v4, s) = read_groups limit k s in (of_nat v # gs, v4, s)))"

definition read_ipv6_addr :: "ustring \<Rightarrow> (u16 list \<times> ustring) option" where
  "read_ipv6_addr s =
     (let (front, v4, s) = read_groups 8 8 s in
      if length front = 8 then Some (front, s)
      else if v4 then None
      else
        Option.bind (read_given_char 58 s) (\<lambda>s.
        Option.bind (read_given_char 58 s) (\<lambda>s.
        let limit = 8 - (length front + 1); (back, _, s) = read_groups limit limit s in
        Some (front @ replicate (8 - length front - length back) 0 @ back, s))))"

definition read_port :: "ustring \<Rightarrow> (u16 \<times> ustring) option" where
  "read_port s =
     Option.bind (read_given_char 58 s) (\<lambda>s.
     map_option (\<lambda>(v, s). (of_nat v, s)) (read_number 10 None True 65536 s))"

definition read_scope_id :: "ustring \<Rightarrow> (u32 \<times> ustring) option" where
  "read_scope_id s =
     Option.bind (read_given_char 37 s) (\<lambda>s.
     map_option (\<lambda>(v, s). (of_nat v, s)) (read_number 10 None True (2 ^ 32) s))"

definition read_socket_addr_v4 :: "ustring \<Rightarrow> (socket_addr \<times> ustring) option" where
  "read_socket_addr_v4 s =
     Option.bind (read_ipv4_addr s) (\<lambda>(ip, s).
     map_option (\<lambda>(p, s). (V4 ip p, s)) (read_port s))"

definition read_socket_addr_v6 :: "ustring \<Rightarrow> (socket_addr \<times> ustring) option" where
  "read_socket_addr_v6 s =
     Option.bind (read_given_char 91 s) (\<lambda>s.
     Option.bind (read_ipv6_addr s) (\<lambda>(ip, s).
     let (scope, s) = (case read_scope_id s of Some (v, s) \<Rightarrow> (v, s) | None \<Rightarrow> (0, s)) in
     Option.bind (read_given_char 93 s) (\<lambda>s.
     map_option (\<lambda>(p, s). (V6 ip p 0 scope, s)) (read_port s))))"

definition parse_socket_addr :: "ustring \<Rightarrow> socket_addr option" where
  "parse_socket_addr s =
     (case (case read_socket_addr_v4 s of Some r \<Rightarrow> Some r | None \<Rightarrow> read_socket_addr_v6 s) of
        Some (a, []) \<Rightarrow> Some a
      | _ \<Rightarrow> None)"

section \<open>A printed address parses back\<close>

text \<open>\<open>Display\<close> of a number and of an IPv4 address with its port.\<close>

fun decimal :: "nat \<Rightarrow> ustring" where
  "decimal n = (if n < 10 then [48 + n] else decimal (n div 10) @ [48 + n mod 10])"

declare decimal.simps [simp del]

fun show_octets :: "u8 list \<Rightarrow> ustring" where
  "show_octets [] = []"
| "show_octets [v] = decimal (unat v)"
| "show_octets (v # vs) = decimal (unat v) @ 46 # show_octets vs"

definition show_v4 :: "u8 list \<Rightarrow> u16 \<Rightarrow> ustring" where
  "show_v4 ip p = show_octets ip @ 58 # decimal (unat p)"

text \<open>What follows a number ends it.\<close>

definition ends_number :: "ustring \<Rightarrow> bool" where
  "ends_number s \<longleftrightarrow> s = [] \<or> to_digit 10 (hd s) = None"

lemma to_digit_10 [simp]: "d < 10 \<Longrightarrow> to_digit 10 (48 + d) = Some d"
  by (simp add: to_digit_def)

lemma decimal_induct:
  fixes P :: "nat \<Rightarrow> bool"
  assumes "\<And>n. n < 10 \<Longrightarrow> P n" "\<And>n. 10 \<le> n \<Longrightarrow> P (n div 10) \<Longrightarrow> P n"
  shows "P n"
proof (induction n rule: less_induct)
  case (less n)
  then show ?case using assms by (cases "n < 10") auto
qed

lemma read_digits_end: "ends_number s \<Longrightarrow> read_digits 10 mx bound n v s = Some (v, n, s)"
  by (cases s) (auto simp: ends_number_def)

lemma read_digits_decimal:
  assumes "case mx of Some m \<Rightarrow> n + length (decimal k) \<le> m | None \<Rightarrow> v * 10 ^ length (decimal k) + k < bound"
  shows "read_digits 10 mx bound n v (decimal k @ s) =
    read_digits 10 mx bound (n + length (decimal k)) (v * 10 ^ length (decimal k) + k) s"
  using assms
proof (induction k arbitrary: n v s rule: decimal_induct)
  case (1 k)
  then show ?case by (cases mx) (simp_all add: decimal.simps [of k])
next
  case (2 k)
  let ?l = "length (decimal (k div 10))"
  have d: "decimal k = decimal (k div 10) @ [48 + k mod 10]" using 2(1) by (simp add: decimal.simps [of k])
  have v: "(v * 10 ^ ?l + k div 10) * 10 + k mod 10 = v * 10 ^ (?l + 1) + k" by simp
  have "v * 10 ^ ?l + k div 10 \<le> (v * 10 ^ ?l + k div 10) * 10 + k mod 10" by simp
  then have le: "v * 10 ^ ?l + k div 10 \<le> v * 10 ^ (?l + 1) + k" using v by simp
  have pre: "case mx of Some m \<Rightarrow> n + ?l \<le> m | None \<Rightarrow> v * 10 ^ ?l + k div 10 < bound"
    using 2(3) d le by (auto split: option.splits)
  have w: "k + v * 10 ^ ?l * 10 = v * (10 * 10 ^ ?l) + k" by simp
  show ?case
    using 2(3) 2(2) [OF pre] v by (auto simp: d w split: option.splits)
qed

lemma decimal_head: "\<exists>c cs. decimal n = c # cs \<and> (c = 48 \<longrightarrow> n = 0 \<and> cs = [])"
proof (induction n rule: decimal_induct)
  case (1 n)
  then show ?case by (simp add: decimal.simps [of n])
next
  case (2 n)
  then show ?case by (auto simp: decimal.simps [of n])
qed

lemma decimal_length: "n < 10 ^ k \<Longrightarrow> 0 < k \<Longrightarrow> length (decimal n) \<le> k"
proof (induction n arbitrary: k rule: decimal_induct)
  case (1 n)
  then show ?case by (simp add: decimal.simps [of n])
next
  case (2 n)
  then obtain j where k: "k = Suc j" "0 < j" by (cases k rule: nat.exhaust; cases "k - 1") auto
  then have "n div 10 < 10 ^ j" using 2(3) by (simp add: less_mult_imp_div_less)
  then have "length (decimal (n div 10)) \<le> j" using 2(2) k by blast
  then show ?case using 2(1) k by (simp add: decimal.simps [of n])
qed

lemma read_number_decimal:
  assumes "k < bound" "case mx of Some m \<Rightarrow> length (decimal k) \<le> m | None \<Rightarrow> True" "ends_number s"
  shows "read_number 10 mx zero bound (decimal k @ s) = Some (k, s)"
proof -
  have "read_digits 10 mx bound 0 0 (decimal k @ s) = Some (k, length (decimal k), s)"
    using read_digits_decimal [where mx = mx and n = 0 and k = k and v = 0 and bound = bound and s = s] assms read_digits_end [OF assms(3)]
    by (cases mx) simp_all
  then show ?thesis
    using decimal_head [of k] assms(1) by (auto simp: read_number_def)
qed

lemma octet_digits: "length (decimal (unat (v :: u8))) \<le> 3"
proof -
  have "unat v < 256" using unsigned_less [of v] by simp
  then show ?thesis by (intro decimal_length) simp_all
qed

lemma read_octets_show:
  "vs \<noteq> [] \<Longrightarrow> ends_number s \<Longrightarrow>
     read_octets i (length vs) ((if i > 0 then [46] else []) @ show_octets vs @ s) = Some (vs, s)"
proof (induction vs arbitrary: i rule: show_octets.induct)
  case (2 v)
  have "unat v < 256" using unsigned_less [of v] by simp
  then have "read_number 10 (Some 3) False 256 (decimal (unat v) @ s) = Some (unat v, s)"
    using octet_digits [of v] 2 by (intro read_number_decimal) simp_all
  then show ?case by (simp add: read_separator_def read_given_char_def)
next
  case (3 v w vs)
  let ?rest = "46 # show_octets (w # vs) @ s"
  have "unat v < 256" using unsigned_less [of v] by simp
  then have "read_number 10 (Some 3) False 256 (decimal (unat v) @ ?rest) = Some (unat v, ?rest)"
    using octet_digits [of v] by (intro read_number_decimal) (simp_all add: ends_number_def to_digit_def)
  moreover have "read_octets (i + 1) (length (w # vs)) ?rest = Some (w # vs, s)"
    using 3(1) [of "i + 1"] 3(3) by (simp del: read_octets.simps)
  moreover have "length (v # w # vs) = Suc (length (w # vs))" by simp
  ultimately show ?case
    by (cases "i = 0")
      (simp_all add: read_separator_def read_given_char_def read_octets.simps(2) [of _ "length (w # vs)"]
        del: read_octets.simps list.size)
qed simp

theorem parse_show_v4:
  assumes "length ip = 4"
  shows "parse_socket_addr (show_v4 ip p) = Some (V4 ip p)"
proof -
  have "ip \<noteq> []" using assms by auto
  moreover have "ends_number (58 # decimal (unat p))" by (simp add: ends_number_def to_digit_def)
  ultimately have ip: "read_ipv4_addr (show_v4 ip p) = Some (ip, 58 # decimal (unat p))"
    using read_octets_show [of ip "58 # decimal (unat p)" 0] assms by (simp add: read_ipv4_addr_def show_v4_def)
  have "unat p < 65536" using unsigned_less [of p] by simp
  then have "read_number 10 None True 65536 (decimal (unat p) @ []) = Some (unat p, [])"
    by (intro read_number_decimal) (simp_all add: ends_number_def)
  then have "read_port (58 # decimal (unat p)) = Some (p, [])" by (simp add: read_port_def read_given_char_def)
  then show ?thesis using ip by (simp add: parse_socket_addr_def read_socket_addr_v4_def)
qed

end
