(* ===== verification/Api.thy ===== *)
theory Api
  imports Replay_Log Socket_Address
begin

text \<open>
  \<^verbatim>\<open>crates/synctick/src/api.rs\<close>: the game's side of the contract, the adapter that turns
  a game into a session simulation, command submission, the session handle, and the
  entry points up to the spawning of the worker.

  The traits \<open>Game\<close> and \<open>Simulation\<close> are the record \<open>game\<close> of their items over a state
  \<open>'g\<close>.  The command channel is \<^verbatim>\<open>crossbeam_channel\<close>, third-party: its \<^verbatim>\<open>try_send\<close> is a parameter.
\<close>

section \<open>The game's contract\<close>

record 'c game_input =
  input_participant :: participant_id
  input_command :: 'c

record 'c game_tick =
  number :: u64
  tick_inputs :: "'c game_input list"

record ('c, 'i, 'g) game =
  ID :: "byte list"
  VERSION :: u32
  command_wire :: "'c wire"
  initialization_wire :: "'i wire"
  create_simulation :: "'i \<Rightarrow> nat \<Rightarrow> 'g session_result"
  g_current_tick :: "'g \<Rightarrow> u64"
  g_state_hash :: "'g \<Rightarrow> u64 session_result"
  g_advance :: "'c game_tick \<Rightarrow> 'g \<Rightarrow> 'g \<times> unit session_result"
  g_publish :: "'g \<Rightarrow> 'g \<times> unit session_result"
  g_finish_tick :: "'g \<Rightarrow> 'g"

text \<open>The default methods of \<open>Simulation\<close>.\<close>

definition no_publish :: "'g \<Rightarrow> 'g \<times> unit session_result" where
  "no_publish g = (g, Inr ())"

definition no_finish_tick :: "'g \<Rightarrow> 'g" where
  "no_finish_tick g = g"

section \<open>Configuration\<close>

datatype desync_policy = Disconnect_Policy | FailFast

record 'i server_config =
  port :: u16
  expected_clients :: u32
  config_initialization :: 'i
  tick_duration :: nat
  load_path :: "string option"
  record_path :: "string option"
  desync_policy :: desync_policy
  command_capacity :: nat

definition server_config_new :: "'i \<Rightarrow> 'i server_config" where
  "server_config_new init =
     \<lparr>port = 5000, expected_clients = 0, config_initialization = init, tick_duration = 33333333,
      load_path = None, record_path = None, desync_policy = Disconnect_Policy,
      command_capacity = 256\<rparr>"

record client_config =
  client_id :: u64
  server_addr :: socket_addr
  client_capacity :: nat

definition client_config_new :: "u64 \<Rightarrow> socket_addr \<Rightarrow> client_config" where
  "client_config_new cid addr = \<lparr>client_id = cid, server_addr = addr, client_capacity = 256\<rparr>"

definition validate_capacity :: "nat \<Rightarrow> unit session_result" where
  "validate_capacity capacity =
     (if capacity = 0 \<or> capacity > 65536
      then Inl (Configuration ''command capacity must be in 1..=65536'') else Inr ())"

section \<open>Command submission\<close>

text \<open>
  The queue is a bounded channel of \<^verbatim>\<open>crossbeam_channel\<close>.  Its \<^verbatim>\<open>try_send\<close> is the parameter
  \<open>try_send\<close>: given a payload and the channel, the channel afterwards and the outcome.
\<close>

datatype try_send_error = Full_Send | Disconnected_Send

datatype submit_error = NotLive | Full | Submit_Stopped | Submit_Codec codec_error

definition submit ::
  "'c wire \<Rightarrow> (nat \<Rightarrow> bool) \<Rightarrow> (byte list \<Rightarrow> 'q \<Rightarrow> 'q \<times> (try_send_error + unit)) \<Rightarrow>
   session_control \<Rightarrow> 'c \<Rightarrow> 'q \<Rightarrow> 'q \<times> (submit_error + unit)" where
  "submit W al try_send control command ch =
     (if is_cancelled control then (ch, Inl Submit_Stopped)
      else case status control of
        Live_Status \<Rightarrow>
          (case encode W al command of
             Inl e \<Rightarrow> (ch, Inl (Submit_Codec e))
           | Inr bytes \<Rightarrow>
               (let (ch, res) = try_send bytes ch in
                (ch, map_err (\<lambda>e. case e of Full_Send \<Rightarrow> Full | Disconnected_Send \<Rightarrow> Submit_Stopped) res)))
      | Stopped \<Rightarrow> (ch, Inl Submit_Stopped)
      | Failed _ \<Rightarrow> (ch, Inl Submit_Stopped)
      | _ \<Rightarrow> (ch, Inl NotLive))"

section \<open>The session handle\<close>

text \<open>The control is shared with the worker: every operation takes its current value.\<close>

record 'q session_handle =
  commands :: 'q
  control :: session_control
  worker :: session_worker

definition handle_cancel :: "'q session_handle \<Rightarrow> 'q session_handle" where
  "handle_cancel h = h\<lparr>control := cancel (control h)\<rparr>"

definition handle_poll :: "bool \<Rightarrow> 'q session_handle \<Rightarrow> 'q session_handle option" where
  "handle_poll is_finished h =
     map_option (\<lambda>(w, c). h\<lparr>control := c, worker := w\<rparr>) (poll is_finished (worker h) (control h))"

definition handle_join :: "'q session_handle \<Rightarrow> ('q session_handle \<times> unit session_result) option" where
  "handle_join h =
     map_option (\<lambda>(res, w, c). (h\<lparr>control := c, worker := w\<rparr>, res)) (join (worker h) (control h))"

definition shutdown :: "'q session_handle \<Rightarrow> ('q session_handle \<times> unit session_result) option" where
  "shutdown h = handle_join (handle_cancel h)"

definition handle_drop :: "'q session_handle \<Rightarrow> 'q session_handle option" where
  "handle_drop h = map_option fst (handle_join (handle_cancel h))"

section \<open>No operation of a handle panics\<close>

lemma handle_join_total:
  "worker_ok (worker h) \<Longrightarrow> \<exists>h' res. handle_join h = Some (h', res) \<and> worker_ok (worker h') \<and>
     commands h' = commands h \<and> terminal (worker h') = Some res"
  using join_total [of "worker h" "control h"]
  by (auto simp: handle_join_def dest: join_ok join_retains)

lemma shutdown_total:
  "worker_ok (worker h) \<Longrightarrow> \<exists>h' res. shutdown h = Some (h', res) \<and> worker_ok (worker h') \<and>
     commands h' = commands h \<and> terminal (worker h') = Some res"
  using handle_join_total [of "handle_cancel h"] by (simp add: shutdown_def handle_cancel_def)

lemma handle_join_keeps_cancel:
  "handle_join h = Some (h', res) \<Longrightarrow> is_cancelled (control h) \<Longrightarrow> is_cancelled (control h')"
  by (auto simp: handle_join_def join_def Let_def publish_result_def publish_status_def cancel_def
      is_cancelled_def split: option.splits sum.splits if_splits)

lemma drop_total:
  "worker_ok (worker h) \<Longrightarrow> \<exists>h'. handle_drop h = Some h' \<and> is_cancelled (control h') \<and> terminal (worker h') \<noteq> None"
  using handle_join_total [of "handle_cancel h"] handle_join_keeps_cancel [of "handle_cancel h"]
  by (fastforce simp: handle_drop_def handle_cancel_def cancel_def is_cancelled_def)

lemma handle_poll_total:
  "worker_ok (worker h) \<Longrightarrow> \<exists>h'. handle_poll is_finished h = Some h' \<and> worker_ok (worker h') \<and> commands h' = commands h"
  using join_total [of "worker h" "control h"] join_ok [of "worker h" "control h"]
  by (auto simp: handle_poll_def poll_def)

section \<open>The adapter\<close>

record 'g adapter =
  ad_header :: replay_header
  ad_simulation :: "'g option"

definition adapter_new :: "replay_header \<Rightarrow> 'g adapter" where
  "adapter_new h = \<lparr>ad_header = h, ad_simulation = None\<rparr>"

definition codec_result :: "codec_error + 'a \<Rightarrow> 'a session_result" where
  "codec_result r = map_err Codec_Error r"

definition validate_header ::
  "('c, 'i, 'g) game \<Rightarrow> (nat \<Rightarrow> bool) \<Rightarrow> replay_header \<Rightarrow> unit session_result" where
  "validate_header G al h =
     (if game_id h \<noteq> ID G then Inl (Compatibility ''different game'')
      else if game_version h \<noteq> VERSION G then Inl (Compatibility ''different game version'')
      else and_then (validate_tick_duration (unat (tick_nanos h))) (\<lambda>_.
           codec_result (validate (initialization_wire G) al (initialization h))))"

text \<open>The commands of a record, decoded in order; the first malformed one ends it.\<close>

fun decode_inputs ::
  "'c wire \<Rightarrow> (nat \<Rightarrow> bool) \<Rightarrow> command list \<Rightarrow> 'c game_input list session_result" where
  "decode_inputs W al [] = Inr []"
| "decode_inputs W al (i # is) =
     and_then (codec_result (decode W al (payload i))) (\<lambda>c.
     and_then (decode_inputs W al is) (\<lambda>cs.
     Inr (\<lparr>input_participant = participant i, input_command = c\<rparr> # cs)))"

definition uninitialized :: "'a session_result" where
  "uninitialized = Inl (Simulation_Error ''simulation was not initialized'')"

definition adapter_initialize ::
  "('c, 'i, 'g) game \<Rightarrow> (nat \<Rightarrow> bool) \<Rightarrow> replay_header \<Rightarrow> 'g adapter \<Rightarrow> 'g adapter \<times> unit session_result" where
  "adapter_initialize G al h a =
     (case
        and_then (validate_header G al h) (\<lambda>_.
        if ad_simulation a \<noteq> None then Inl (Simulation_Error ''duplicate initialization'')
        else
        and_then (codec_result (decode (initialization_wire G) al (initialization h))) (\<lambda>initial.
        and_then (create_simulation G initial (unat (tick_nanos h))) (\<lambda>g.
        if g_current_tick G g \<noteq> 0
        then Inl (Simulation_Error ''new simulation must start at tick zero'') else Inr g)))
      of Inl e \<Rightarrow> (a, Inl e)
       | Inr g \<Rightarrow> (\<lparr>ad_header = h, ad_simulation = Some g\<rparr>, Inr ()))"

definition adapter_advance ::
  "('c, 'i, 'g) game \<Rightarrow> (nat \<Rightarrow> bool) \<Rightarrow> tick_advance \<Rightarrow> 'g adapter \<Rightarrow> 'g adapter \<times> unit session_result" where
  "adapter_advance G al adv a =
     (if \<not> al (length (inputs adv)) then (a, Inl (Simulation_Error ''allocation''))
      else case decode_inputs (command_wire G) al (inputs adv) of
        Inl e \<Rightarrow> (a, Inl e)
      | Inr cs \<Rightarrow>
          (case ad_simulation a of
             None \<Rightarrow> (a, uninitialized)
           | Some g \<Rightarrow>
               (let (g, res) = g_advance G \<lparr>number = tick adv, tick_inputs = cs\<rparr> g
                in (a\<lparr>ad_simulation := Some g\<rparr>, res))))"

definition adapter_publish ::
  "('c, 'i, 'g) game \<Rightarrow> 'g adapter \<Rightarrow> 'g adapter \<times> unit session_result" where
  "adapter_publish G a =
     (case ad_simulation a of
        None \<Rightarrow> (a, uninitialized)
      | Some g \<Rightarrow> (let (g, res) = g_publish G g in (a\<lparr>ad_simulation := Some g\<rparr>, res)))"

definition adapter_finish_tick :: "('c, 'i, 'g) game \<Rightarrow> 'g adapter \<Rightarrow> 'g adapter" where
  "adapter_finish_tick G a = a\<lparr>ad_simulation := map_option (g_finish_tick G) (ad_simulation a)\<rparr>"

definition adapter_current_tick :: "('c, 'i, 'g) game \<Rightarrow> 'g adapter \<Rightarrow> u64" where
  "adapter_current_tick G a =
     (case ad_simulation a of None \<Rightarrow> 0 | Some g \<Rightarrow> g_current_tick G g)"

definition adapter_state_hash :: "('c, 'i, 'g) game \<Rightarrow> 'g adapter \<Rightarrow> u64 session_result" where
  "adapter_state_hash G a =
     (case ad_simulation a of
        None \<Rightarrow> Inl (Worker ''driver initializes before hashing'')
      | Some g \<Rightarrow> g_state_hash G g)"

definition adapter_sim :: "('c, 'i, 'g) game \<Rightarrow> (nat \<Rightarrow> bool) \<Rightarrow> 'g adapter session_sim" where
  "adapter_sim G al =
     \<lparr>sim_header = ad_header,
      sim_initialize = adapter_initialize G al,
      sim_validate_command = (\<lambda>_ bytes. codec_result (validate (command_wire G) al bytes)),
      sim_hash_interval = (\<lambda>a. (1000000000 + tick_nanos (ad_header a) div 2) div tick_nanos (ad_header a)),
      sim_current_tick = adapter_current_tick G,
      sim_state_hash = adapter_state_hash G,
      sim_advance = adapter_advance G al,
      sim_publish = adapter_publish G,
      sim_finish_tick = adapter_finish_tick G\<rparr>"

section \<open>Entry points\<close>

text \<open>What the worker of a server is started with.\<close>

record server_start =
  start_header :: replay_header
  start_tick_nanos :: nat
  start_local :: bool
  start_capacity :: nat

definition start_server ::
  "bincode \<Rightarrow> (nat \<Rightarrow> bool) \<Rightarrow> (string \<rightharpoonup> byte list) \<Rightarrow> source \<Rightarrow> ('c, 'i, 'g) game \<Rightarrow>
   'i server_config \<Rightarrow> bool \<Rightarrow> server_start session_result" where
  "start_server bc al fs file G config local =
     and_then (validate_capacity (command_capacity config)) (\<lambda>_.
     and_then (validate_tick_duration (tick_duration config)) (\<lambda>_.
     if expected_clients config > 1024
     then Inl (Configuration ''Renet supports at most 1024 clients'')
     else
     and_then
       (case load_path config of
          Some path \<Rightarrow>
            and_then (map_err Io (open_log bc al fs file path)) (\<lambda>reader.
            and_then (validate_header G al (header reader)) (\<lambda>_. Inr (header reader)))
        | None \<Rightarrow>
            if tick_duration config \<ge> 2 ^ 64 then Inl (Configuration ''tick duration overflow'')
            else and_then (codec_result (encode (initialization_wire G) al (config_initialization config)))
              (\<lambda>init. Inr (replay_header_new (ID G) (VERSION G) (word_of_nat (tick_duration config)) init)))
     (\<lambda>h. Inr \<lparr>start_header = h, start_tick_nanos = unat (tick_nanos h), start_local = local,
               start_capacity = command_capacity config\<rparr>)))"

definition host ::
  "bincode \<Rightarrow> (nat \<Rightarrow> bool) \<Rightarrow> (string \<rightharpoonup> byte list) \<Rightarrow> source \<Rightarrow> ('c, 'i, 'g) game \<Rightarrow>
   'i server_config \<Rightarrow> server_start session_result" where
  "host bc al fs file G config = start_server bc al fs file G config True"

definition dedicated_server ::
  "bincode \<Rightarrow> (nat \<Rightarrow> bool) \<Rightarrow> (string \<rightharpoonup> byte list) \<Rightarrow> source \<Rightarrow> ('c, 'i, 'g) game \<Rightarrow>
   'i server_config \<Rightarrow> server_start session_result" where
  "dedicated_server bc al fs file G config = start_server bc al fs file G config False"

definition connect_replica ::
  "('c, 'i, 'g) game \<Rightarrow> client_config \<Rightarrow> ('g adapter \<times> nat) session_result" where
  "connect_replica G config =
     and_then (validate_capacity (client_capacity config)) (\<lambda>_.
     Inr (adapter_new (replay_header_new (ID G) (VERSION G) 33333333 []), client_capacity config))"

record replay_outcome =
  out_records :: u64
  final_tick :: u64
  final_hash :: u64
  out_cancelled :: bool

text \<open>\<open>None\<close> while the rounds observed so far do not end the replay.\<close>

definition replay_game ::
  "bincode \<Rightarrow> (nat \<Rightarrow> bool) \<Rightarrow> (string \<rightharpoonup> byte list) \<Rightarrow> source \<Rightarrow> ('c, 'i, 'g) game \<Rightarrow> string \<Rightarrow>
   (bool \<times> observation list) list \<Rightarrow> bool \<Rightarrow> replay_outcome session_result option" where
  "replay_game bc al fs file G path rounds cancelled_after =
     (case
        and_then (map_err Io (open_log bc al fs file path)) (\<lambda>reader.
        and_then (validate_header G al (header reader)) (\<lambda>_.
        case adapter_initialize G al (header reader) (adapter_new (header reader)) of
          (a, Inl e) \<Rightarrow> Inl e
        | (a, Inr _) \<Rightarrow> Inr (reader, a)))
      of Inl e \<Rightarrow> Some (Inl e)
       | Inr (reader, a) \<Rightarrow>
           (case replay_into bc al (adapter_sim G al) rounds 0
                   \<lparr>run_state = a, run_source = inner reader, run_mirror = None\<rparr> of
              None \<Rightarrow> None
            | Some (r, Inl e) \<Rightarrow> Some (Inl e)
            | Some (r, Inr n) \<Rightarrow>
                Some (and_then (adapter_state_hash G (run_state r)) (\<lambda>h.
                  Inr \<lparr>out_records = n, final_tick = adapter_current_tick G (run_state r),
                       final_hash = h, out_cancelled = cancelled_after\<rparr>))))"

section \<open>A deterministic game gives a deterministic simulation\<close>

locale deterministic_game =
  fixes G :: "('c, 'i, 'g) game" and al :: "nat \<Rightarrow> bool" and gdet :: "'g \<Rightarrow> 'd"
  assumes g_advance_det:
      "gdet g = gdet g' \<Longrightarrow> gdet (fst (g_advance G t g)) = gdet (fst (g_advance G t g')) \<and>
         snd (g_advance G t g) = snd (g_advance G t g')"
    and g_publish_det: "gdet (fst (g_publish G g)) = gdet g"
    and g_finish_det: "gdet (g_finish_tick G g) = gdet g"
    and g_tick_det: "gdet g = gdet g' \<Longrightarrow> g_current_tick G g = g_current_tick G g'"
    and g_hash_det: "gdet g = gdet g' \<Longrightarrow> g_state_hash G g = g_state_hash G g'"

lemmas adapter_defs = adapter_advance_def adapter_publish_def adapter_finish_tick_def
  adapter_current_tick_def adapter_state_hash_def

lemma adapter_sim_sel [simp]:
  "sim_header (adapter_sim G al) = ad_header"
  "sim_initialize (adapter_sim G al) = adapter_initialize G al"
  "sim_current_tick (adapter_sim G al) = adapter_current_tick G"
  "sim_state_hash (adapter_sim G al) = adapter_state_hash G"
  "sim_advance (adapter_sim G al) = adapter_advance G al"
  "sim_publish (adapter_sim G al) = adapter_publish G"
  "sim_finish_tick (adapter_sim G al) = adapter_finish_tick G"
  by (simp_all add: adapter_sim_def)

sublocale deterministic_game < adapter: fingerprinted_sim "adapter_sim G al"
  "\<lambda>a. map_option gdet (ad_simulation a)"
proof (unfold_locales, goal_cases)
  case (1 s t a)
  show ?case
  proof (cases "ad_simulation s")
    case None
    then show ?thesis
      using 1 by (auto simp: adapter_advance_def split: sum.splits)
  next
    case (Some g)
    then obtain g' where g': "ad_simulation t = Some g'" "gdet g = gdet g'" using 1 by (cases "ad_simulation t") auto
    then show ?thesis
      using Some g_advance_det [OF g'(2)]
      by (auto simp: adapter_advance_def Let_def split_beta split: sum.splits)
  qed
next
  case (2 s)
  then show ?case
    using g_publish_det by (auto simp: adapter_publish_def Let_def split_beta split: option.splits)
next
  case (3 s)
  then show ?case
    using g_finish_det by (cases "ad_simulation s") (simp_all add: adapter_finish_tick_def)
next
  case (4 s t)
  then show ?case
    by (cases "ad_simulation s"; cases "ad_simulation t")
      (auto simp: adapter_current_tick_def intro: g_tick_det)
next
  case (5 s t)
  then show ?case
    by (cases "ad_simulation s"; cases "ad_simulation t")
      (auto simp: adapter_state_hash_def intro: g_hash_det)
next
  case (6 a s)
  then show ?case
    by (auto simp: adapter_sim_def adapter_advance_def Let_def split_beta split: sum.splits option.splits)
next
  case (7 s)
  then show ?case
    by (auto simp: adapter_sim_def adapter_publish_def Let_def split_beta split: option.splits)
next
  case (8 s)
  then show ?case by (simp add: adapter_sim_def adapter_finish_tick_def)
qed

section \<open>Submission and start-up checks\<close>

lemma submit_Inr:
  "submit W al try_send ctl c ch = (ch', Inr ()) \<longleftrightarrow>
     \<not> is_cancelled ctl \<and> status ctl = Live_Status \<and>
     (\<exists>bs. encode W al c = Inr bs \<and> try_send bs ch = (ch', Inr ()))"
  by (auto simp: submit_def Let_def split_beta map_err_def prod_eq_iff
      split: session_status.splits sum.splits if_splits)

lemma submit_unsent:
  "(\<And>bs. encode W al c \<noteq> Inr bs) \<Longrightarrow> fst (submit W al try_send ctl c ch) = ch"
  by (auto simp: submit_def split: session_status.splits sum.splits)

lemma encode_validates: "encode W al v = Inr bs \<Longrightarrow> validate W al bs = Inr ()"
  by (auto simp: encode_def res_simps)

lemma validate_tick_duration_Inr [res_simps]:
  "validate_tick_duration n = Inr x \<longleftrightarrow> 1000 \<le> n \<and> n \<le> 1000000000"
  by (auto simp: validate_tick_duration_def)

lemma validate_capacity_Inr [res_simps]:
  "validate_capacity n = Inr x \<longleftrightarrow> 0 < n \<and> n \<le> 65536"
  by (auto simp: validate_capacity_def)

lemma validate_header_Inr [res_simps]:
  "validate_header G al h = Inr x \<longleftrightarrow>
     game_id h = ID G \<and> game_version h = VERSION G \<and>
     1000 \<le> unat (tick_nanos h) \<and> unat (tick_nanos h) \<le> 1000000000 \<and>
     validate (initialization_wire G) al (initialization h) = Inr x"
  by (auto simp: validate_header_def codec_result_def res_simps split: if_splits)

lemma start_server_Inr:
  assumes "start_server bc al fs file G config local = Inr st"
  shows "validate_header G al (start_header st) = Inr ()"
    and "expected_clients config \<le> 1024"
    and "start_tick_nanos st = unat (tick_nanos (start_header st))"
    and "start_capacity st = command_capacity config"
    and "start_local st = local"
proof -
  show "validate_header G al (start_header st) = Inr ()"
  proof (cases "load_path config")
    case None
    have nanos: "unat (word_of_nat (tick_duration config) :: u64) = tick_duration config"
      if "tick_duration config \<le> 1000000000"
      using that by (simp add: unat_of_nat)
    show ?thesis
      using assms None nanos
      by (auto simp: start_server_def res_simps codec_result_def replay_header_new_def
          dest: encode_validates split: if_splits)
  next
    case (Some path)
    then show ?thesis
      using assms by (auto simp: start_server_def res_simps split: if_splits)
  qed
qed (use assms in \<open>auto simp: start_server_def res_simps split: if_splits\<close>)

text \<open>The interval of an accepted header is positive, so \<open>is_multiple_of\<close> never divides by zero.\<close>

lemma hash_interval_pos:
  assumes "1000 \<le> unat (n :: u64)" "unat n \<le> 1000000000"
  shows "0 < (1000000000 + n div 2) div n" "unat ((1000000000 + n div 2) div n) \<le> 1000000"
proof -
  have u: "unat (1000000000 + n div 2) = 1000000000 + unat n div 2"
    using assms by (subst unat_word_ariths(1)) (simp add: unat_div)
  have d: "unat ((1000000000 + n div 2) div n) = (1000000000 + unat n div 2) div unat n"
    by (simp only: unat_div u)
  have "1 \<le> (1000000000 + unat n div 2) div unat n"
    using assms by (simp add: Suc_le_eq div_greater_zero_iff)
  then show "0 < (1000000000 + n div 2) div n" using d by (simp add: word_less_nat_alt)
  have "(1000000000 + unat n div 2) div unat n \<le> 1000000"
  proof -
    have "(1000000000 + unat n div 2) div unat n < 1000001"
      using assms by (subst div_less_iff_less_mult) (linarith+)
    then show ?thesis by simp
  qed
  then show "unat ((1000000000 + n div 2) div n) \<le> 1000000" using d by simp
qed

end
