(* ===== verification/Startup.thy ===== *)
theory Startup
  imports Replay_Log
begin

text \<open>
  \<^verbatim>\<open>crates/synctick/src/startup.rs\<close>: the bounded transfer of the save to a joining
  client, and the client's state machine that replays it.

  The transport (\<^verbatim>\<open>renet\<close>, third-party) answers two questions while a peer is pumped: how
  much memory its save channel has left, and whether a message fits.  A \<open>link\<close> is those
  answers, as functions of the number of messages handed over so far in the call; it is
  arbitrary.  \<open>pump\<close> returns the messages it sends.
  Instants are nanoseconds.
\<close>

section \<open>Server side\<close>

definition renet_slice_bytes :: nat where
  "renet_slice_bytes = 1200"

definition receive_memory_of :: "nat \<Rightarrow> nat" where
  "receive_memory_of encoded_bytes =
     ((encoded_bytes + renet_slice_bytes - 1) div renet_slice_bytes) * renet_slice_bytes"

definition startup_timeout :: nat where
  "startup_timeout = 30 * 1000000000"

datatype transfer_phase = Transferring | AwaitingReadiness | Ready_Phase

record startup_peer =
  transfer :: transfer_phase
  began :: bool
  offset :: nat
  received :: u64
  outstanding :: "(nat \<times> nat) list"
  receive_memory :: nat
  replayed :: u64
  last_progress :: nat

record link =
  available_memory :: "nat \<Rightarrow> nat"
  can_send :: "nat \<Rightarrow> nat \<Rightarrow> bool"

definition startup_peer_new :: "nat \<Rightarrow> startup_peer" where
  "startup_peer_new now =
     \<lparr>transfer = Transferring, began = False, offset = 0, received = 0, outstanding = [],
      receive_memory = 0, replayed = 0, last_progress = now\<rparr>"

definition push_outstanding :: "nat \<Rightarrow> nat \<Rightarrow> startup_peer \<Rightarrow> startup_peer" where
  "push_outstanding end_at memory p =
     p\<lparr>outstanding := outstanding p @ [(end_at, memory)],
       receive_memory := receive_memory p + memory\<rparr>"

lemma chunk_progress:
  "at < total_len \<Longrightarrow> total_len - min (at + max_save_chunk_bytes) total_len < total_len - at"
  unfolding max_save_chunk_bytes_def min_def by simp arith

text \<open>
  The chunk loop.  The saturation of the code's \<open>offset + MAX_SAVE_CHUNK_BYTES\<close> is not
  observable: a slice is never longer than the saturated value.
\<close>

function pump_chunks ::
  "bincode \<Rightarrow> link \<Rightarrow> byte list \<Rightarrow> nat \<Rightarrow> startup_peer \<Rightarrow> startup_peer \<times> save_message list" where
  "pump_chunks bc lk save k p =
     (if \<not> offset p < length save then (p\<lparr>transfer := AwaitingReadiness\<rparr>, [])
      else
        let end_at = min (offset p + max_save_chunk_bytes) (length save) in
        if available_memory lk k < end_at - offset p then (p, [])
        else
          let msg = Chunk (take (end_at - offset p) (drop (offset p) save));
              size = length (enc_save bc msg);
              memory = receive_memory_of size in
          if memory > channel_save_max_mem - receive_memory p \<or> \<not> can_send lk k size then (p, [])
          else
            let (p, sent) = pump_chunks bc lk save (Suc k)
                  ((push_outstanding end_at memory p)\<lparr>offset := end_at\<rparr>)
            in (p, msg # sent))"
  by pat_completeness auto
termination
  by (relation "measure (\<lambda>(bc, lk, save, k, p). length save - offset p)") (simp_all add: push_outstanding_def chunk_progress)

declare pump_chunks.simps [simp del]

definition pump ::
  "bincode \<Rightarrow> link \<Rightarrow> byte list \<Rightarrow> save_metadata \<Rightarrow> startup_peer \<Rightarrow> startup_peer \<times> save_message list" where
  "pump bc lk save meta p =
     (if transfer p \<noteq> Transferring then (p, [])
      else if \<not> began p then
        (let size = length (enc_save bc (Begin meta)) in
         if \<not> can_send lk 0 size then (p, [])
         else
           let (p, sent) = pump_chunks bc lk save 1
                 ((push_outstanding 0 (receive_memory_of size) p)\<lparr>began := True\<rparr>)
           in (p, Begin meta # sent))
      else pump_chunks bc lk save 0 p)"

text \<open>The loop that releases what the client has consumed.\<close>

fun release :: "u64 \<Rightarrow> (nat \<times> nat) list \<Rightarrow> nat \<Rightarrow> (nat \<times> nat) list \<times> nat" where
  "release got [] mem = ([], mem)"
| "release got ((end_at, memory) # rest) mem =
     (if got = 0 \<or> \<not> end_at \<le> unat got then ((end_at, memory) # rest, mem)
      else release got rest (mem - memory))"

definition receive_startup ::
  "client_message \<Rightarrow> save_metadata \<Rightarrow> nat \<Rightarrow> startup_peer \<Rightarrow> startup_peer \<times> unit session_result" where
  "receive_startup msg meta now p =
     (let rejected = (p, Inl (Protocol ''invalid startup message or state fingerprint'')) in
      case msg of
        Progress got at_tick \<Rightarrow>
          if transfer p \<noteq> Ready_Phase \<and> got \<ge> received p
            \<and> (got = received p \<or> list_ex (\<lambda>(end_at, _). end_at = unat got) (outstanding p))
            \<and> at_tick \<ge> replayed p \<and> at_tick \<le> meta_tick meta
            \<and> (at_tick = 0 \<or> got = total_bytes meta)
          then
            if got > received p \<or> at_tick > replayed p then
              let (rest, mem) = release got (outstanding p) (receive_memory p) in
              (p\<lparr>received := got, outstanding := rest, receive_memory := mem, replayed := at_tick,
                 last_progress := now\<rparr>, Inr ())
            else (p, Inr ())
          else rejected
      | Ready t h \<Rightarrow>
          if transfer p = AwaitingReadiness \<and> t = meta_tick meta \<and> h = meta_hash meta
          then (p\<lparr>transfer := Ready_Phase, last_progress := now\<rparr>, Inr ())
          else rejected
      | Input _ \<Rightarrow> rejected)"

definition is_ready :: "startup_peer \<Rightarrow> bool" where
  "is_ready p \<longleftrightarrow> transfer p = Ready_Phase"

definition timed_out :: "nat \<Rightarrow> startup_peer \<Rightarrow> bool" where
  "timed_out now p \<longleftrightarrow> \<not> is_ready p \<and> now - last_progress p \<ge> startup_timeout"

section \<open>Client side\<close>

datatype client_phase =
    Receiving "save_metadata option" "byte list"
  | Replaying save_metadata replay_reader
  | AwaitingStart save_metadata
  | Live_Phase
  | Failed_Phase

record client_startup =
  cphase :: client_phase
  creceived :: u64
  creplayed :: u64
  initialized :: bool

definition client_startup_default :: client_startup where
  "client_startup_default =
     \<lparr>cphase = Receiving None [], creceived = 0, creplayed = 0, initialized = False\<rparr>"

text \<open>
  The received save is read through a \<^verbatim>\<open>BufReader\<close> of 8 KiB over memory: it exposes the
  rest of the block the position lies in.
\<close>

definition memory_source :: "byte list \<Rightarrow> source" where
  "memory_source save =
     \<lparr>held = save, window = (\<lambda>left. 8191 - (length save - left) mod 8192), read_fault = (\<lambda>_. None)\<rparr>"

text \<open>The completion check that ends every accepted message.\<close>

definition finish_transfer ::
  "bincode \<Rightarrow> (nat \<Rightarrow> bool) \<Rightarrow> save_metadata option \<Rightarrow> byte list \<Rightarrow> client_startup \<Rightarrow>
   client_startup \<times> unit session_result" where
  "finish_transfer bc al meta bytes c =
     (let c = c\<lparr>cphase := Receiving meta bytes\<rparr> in
      case meta of
        None \<Rightarrow> (c, Inr ())
      | Some begin_meta \<Rightarrow>
          if creceived c = total_bytes begin_meta then
            case from_reader bc al (memory_source bytes) of
              Inl e \<Rightarrow> (c\<lparr>cphase := Failed_Phase\<rparr>, Inl (Io e))
            | Inr rd \<Rightarrow> (c\<lparr>cphase := Replaying begin_meta rd\<rparr>, Inr ())
          else (c, Inr ()))"

definition receive_save ::
  "bincode \<Rightarrow> (nat \<Rightarrow> bool) \<Rightarrow> save_message \<Rightarrow> client_startup \<Rightarrow> client_startup \<times> unit session_result" where
  "receive_save bc al msg c =
     (case cphase c of
        Receiving meta bytes \<Rightarrow>
          (case msg of
             Begin begin_meta \<Rightarrow>
               if meta = None \<and> total_bytes begin_meta > 0
               then finish_transfer bc al (Some begin_meta) bytes c
               else (c, Inl (Protocol ''invalid or duplicate Begin''))
           | Chunk chunk \<Rightarrow>
               (case meta of
                  None \<Rightarrow> (c, Inl (Protocol ''chunk before Begin''))
                | Some begin_meta \<Rightarrow>
                    let size = word_of_nat (length chunk) in
                    if chunk = [] \<or> length chunk > max_save_chunk_bytes
                      \<or> (case checked_add (creceived c) size of
                            None \<Rightarrow> True | Some n \<Rightarrow> n > total_bytes begin_meta)
                    then (c, Inl (Protocol ''invalid save chunk size''))
                    else if \<not> al (length chunk)
                    then (c, Inl (Protocol ''save allocation''))
                    else finish_transfer bc al meta (bytes @ chunk)
                           (c\<lparr>creceived := creceived c + size\<rparr>)))
      | _ \<Rightarrow> (c, Inl (Protocol ''save data outside receiving phase'')))"

text \<open>\<open>step\<close> runs one bounded batch and reports readiness at the end of the save.\<close>

definition startup_step ::
  "bincode \<Rightarrow> (nat \<Rightarrow> bool) \<Rightarrow> 's session_sim \<Rightarrow> observation list \<Rightarrow> client_startup \<Rightarrow> 's \<Rightarrow>
   client_startup \<times> 's \<times> client_message option session_result" where
  "startup_step bc al sim os c s =
     (case cphase c of
        Replaying meta rd \<Rightarrow>
          (case (if initialized c then (s, Inr ()) else sim_initialize sim (header rd) s) of
             (s, Inl e) \<Rightarrow> (c, s, Inl e)
           | (s, Inr _) \<Rightarrow>
               let c = c\<lparr>initialized := True\<rparr>;
                   (r, res) = replay_batch bc al sim os
                     \<lparr>run_state = s, run_source = inner rd, run_mirror = None\<rparr>;
                   s = run_state r;
                   c = c\<lparr>cphase := Replaying meta (rd\<lparr>inner := run_source r\<rparr>)\<rparr>
               in case res of
                    Inl e \<Rightarrow> (c, s, Inl e)
                  | Inr batch \<Rightarrow>
                      let c = c\<lparr>creplayed := sim_current_tick sim s\<rparr> in
                      if creplayed c > meta_tick meta
                      then (c, s, Inl (Protocol ''replay exceeds declared final tick''))
                      else if finished batch then
                        if creplayed c \<noteq> meta_tick meta
                        then (c, s, Inl (Protocol ''loaded save fingerprint mismatch''))
                        else case sim_state_hash sim s of
                            Inl e \<Rightarrow> (c, s, Inl e)
                          | Inr h \<Rightarrow>
                              if h \<noteq> meta_hash meta
                              then (c, s, Inl (Protocol ''loaded save fingerprint mismatch''))
                              else (c\<lparr>cphase := AwaitingStart meta\<rparr>, s,
                                    Inr (Some (Ready (meta_tick meta) (meta_hash meta))))
                      else (c, s, Inr None))
      | _ \<Rightarrow> (c, s, Inr None))"

definition start :: "u64 \<Rightarrow> u64 \<Rightarrow> client_startup \<Rightarrow> client_startup \<times> unit session_result" where
  "start t h c =
     (case cphase c of
        AwaitingStart expected \<Rightarrow>
          if t = meta_tick expected \<and> h = meta_hash expected
          then (c\<lparr>cphase := Live_Phase\<rparr>, Inr ())
          else (c, Inl (Protocol ''invalid Start''))
      | _ \<Rightarrow> (c, Inl (Protocol ''invalid Start'')))"

definition is_live :: "client_startup \<Rightarrow> bool" where
  "is_live c \<longleftrightarrow> cphase c = Live_Phase"

definition is_loading :: "client_startup \<Rightarrow> bool" where
  "is_loading c = (case cphase c of Receiving _ _ \<Rightarrow> True | Replaying _ _ \<Rightarrow> True | _ \<Rightarrow> False)"

definition progress :: "client_startup \<Rightarrow> u64 \<times> u64" where
  "progress c = (creceived c, creplayed c)"

section \<open>The server side keeps its books\<close>

text \<open>
  Memory is the sum over the outstanding messages and within the channel's budget; the
  outstanding ends ascend, lie beyond what the client acknowledged and within what was sent.
\<close>

definition peer_inv :: "byte list \<Rightarrow> startup_peer \<Rightarrow> bool" where
  "peer_inv save p \<longleftrightarrow>
     receive_memory p = sum_list (map snd (outstanding p)) \<and>
     receive_memory p \<le> channel_save_max_mem \<and>
     offset p \<le> length save \<and>
     (transfer p \<noteq> Transferring \<longrightarrow> began p \<and> offset p = length save) \<and>
     (\<not> began p \<longrightarrow> outstanding p = [] \<and> offset p = 0) \<and>
     sorted (map fst (outstanding p)) \<and>
     (\<forall>e \<in> fst ` set (outstanding p). e \<le> offset p \<and> (received p \<noteq> 0 \<longrightarrow> unat (received p) < e)) \<and>
     unat (received p) \<le> offset p"

lemma peer_invI:
  assumes "receive_memory p = sum_list (map snd (outstanding p))"
    "receive_memory p \<le> channel_save_max_mem" "offset p \<le> length save"
    "transfer p \<noteq> Transferring \<Longrightarrow> began p \<and> offset p = length save"
    "\<not> began p \<Longrightarrow> outstanding p = [] \<and> offset p = 0"
    "sorted (map fst (outstanding p))"
    "\<And>e. e \<in> fst ` set (outstanding p) \<Longrightarrow> e \<le> offset p"
    "\<And>e. e \<in> fst ` set (outstanding p) \<Longrightarrow> received p \<noteq> 0 \<Longrightarrow> unat (received p) < e"
    "unat (received p) \<le> offset p"
  shows "peer_inv save p"
  using assms unfolding peer_inv_def by blast

lemma peer_invD:
  assumes "peer_inv save p"
  shows "receive_memory p = sum_list (map snd (outstanding p))"
    "receive_memory p \<le> channel_save_max_mem" "offset p \<le> length save"
    "transfer p \<noteq> Transferring \<Longrightarrow> began p \<and> offset p = length save"
    "\<not> began p \<Longrightarrow> outstanding p = [] \<and> offset p = 0"
    "sorted (map fst (outstanding p))"
    "\<And>e. e \<in> fst ` set (outstanding p) \<Longrightarrow> e \<le> offset p"
    "\<And>e. e \<in> fst ` set (outstanding p) \<Longrightarrow> received p \<noteq> 0 \<Longrightarrow> unat (received p) < e"
    "unat (received p) \<le> offset p"
  using assms unfolding peer_inv_def by blast+

lemma peer_inv_new: "peer_inv save (startup_peer_new now)"
  by (simp add: peer_inv_def startup_peer_new_def)

lemma peer_inv_push:
  assumes inv: "peer_inv save p" and "transfer p = Transferring" "began p"
    and "memory \<le> channel_save_max_mem - receive_memory p"
    and "offset p < end_at" "end_at \<le> length save"
  shows "peer_inv save ((push_outstanding end_at memory p)\<lparr>offset := end_at\<rparr>)"
proof (rule peer_invI)
  let ?q = "(push_outstanding end_at memory p)\<lparr>offset := end_at\<rparr>"
  show "sorted (map fst (outstanding ?q))"
    using peer_invD(6,7) [OF inv] assms(5)
    by (force simp: push_outstanding_def sorted_append)
  show "e \<le> offset ?q" if "e \<in> fst ` set (outstanding ?q)" for e
    using that peer_invD(7) [OF inv] assms(5) by (force simp: push_outstanding_def)
  show "unat (received ?q) < e" if "e \<in> fst ` set (outstanding ?q)" "received ?q \<noteq> 0" for e
    using that peer_invD(8,9) [OF inv] assms(5) by (force simp: push_outstanding_def)
qed (use peer_invD [OF inv] assms in \<open>auto simp: push_outstanding_def\<close>)

definition chunks_ok :: "byte list list \<Rightarrow> bool" where
  "chunks_ok chunks \<longleftrightarrow> list_all (\<lambda>ch. ch \<noteq> [] \<and> length ch \<le> max_save_chunk_bytes) chunks"

lemma chunk_end:
  assumes "at < total_len"
  shows "at < min (at + max_save_chunk_bytes) total_len"
    "min (at + max_save_chunk_bytes) total_len - at \<le> max_save_chunk_bytes"
  using assms by (auto simp: max_save_chunk_bytes_def)

lemma take_drop_compose:
  "a \<le> b \<Longrightarrow> b \<le> c \<Longrightarrow> take (b - a) (drop a xs) @ take (c - b) (drop b xs) = take (c - a) (drop a xs)"
  using take_add [of "b - a" "c - b" "drop a xs"] by simp

lemma pump_chunks_inv:
  "peer_inv save p \<Longrightarrow> began p \<Longrightarrow> transfer p = Transferring \<Longrightarrow>
     pump_chunks bc lk save k p = (p', sent) \<Longrightarrow>
     peer_inv save p' \<and> began p' \<and> offset p \<le> offset p' \<and>
     (\<exists>chunks. sent = map Chunk chunks \<and> chunks_ok chunks \<and>
        concat chunks = take (offset p' - offset p) (drop (offset p) save))"
proof (induction bc lk save k p arbitrary: p' sent rule: pump_chunks.induct)
  case (1 bc lk save k p)
  show ?case
  proof (cases "offset p < length save")
    case False
    then have "p' = p\<lparr>transfer := AwaitingReadiness\<rparr>" "sent = []"
      using 1(5) by (subst (asm) pump_chunks.simps; simp)+
    moreover have "offset p = length save" using False peer_invD(3) [OF 1(2)] by simp
    ultimately show ?thesis
      using 1(2,3) by (auto simp: peer_inv_def chunks_ok_def)
  next
    case True
    define end_at where "end_at = min (offset p + max_save_chunk_bytes) (length save)"
    define chunk where "chunk = take (end_at - offset p) (drop (offset p) save)"
    define memory where "memory = receive_memory_of (length (enc_save bc (Chunk chunk)))"
    define q where "q = (push_outstanding end_at memory p)\<lparr>offset := end_at\<rparr>"
    have e: "offset p < end_at" "end_at - offset p \<le> max_save_chunk_bytes" "end_at \<le> length save"
      using chunk_end [OF True] by (simp_all add: end_at_def)
    have chunk: "chunk \<noteq> []" "length chunk \<le> max_save_chunk_bytes"
      using e True by (auto simp: chunk_def)
    show ?thesis
    proof (cases "available_memory lk k < end_at - offset p \<or>
        memory > channel_save_max_mem - receive_memory p \<or>
        \<not> can_send lk k (length (enc_save bc (Chunk chunk)))")
      case stuck: True
      then have "pump_chunks bc lk save k p = (p, [])"
        using True
        by (subst pump_chunks.simps)
          (auto simp add: Let_def simp flip: end_at_def chunk_def memory_def)
      then have "p' = p" "sent = []" using 1(5) by simp_all
      then show ?thesis using 1(2,3) by (simp add: chunks_ok_def)
    next
      case False
      have rec: "pump_chunks bc lk save k p =
          (let (p, sent) = pump_chunks bc lk save (Suc k) q in (p, Chunk chunk # sent))"
        using True False
        by (subst pump_chunks.simps) (simp add: Let_def q_def flip: end_at_def chunk_def memory_def)
      obtain sent' where s: "pump_chunks bc lk save (Suc k) q = (p', sent')" "sent = Chunk chunk # sent'"
        using 1(5) by (auto simp: rec split: prod.splits)
      have IH: "peer_inv save r \<and> began r \<and> offset q \<le> offset r \<and>
            (\<exists>chunks. sent = map Chunk chunks \<and> chunks_ok chunks \<and>
              concat chunks = take (offset r - offset q) (drop (offset q) save))"
        if "peer_inv save q" "began q" "transfer q = Transferring"
          "pump_chunks bc lk save (Suc k) q = (r, sent)" for r sent
        using 1(1) [OF _ end_at_def _ refl refl refl, of r sent] that True False
        by (simp add: q_def memory_def chunk_def)
      have "peer_inv save q"
        unfolding q_def using e False by (intro peer_inv_push 1(2,3,4)) auto
      moreover have "began q" "transfer q = Transferring" "offset q = end_at"
        using 1(3,4) by (simp_all add: q_def push_outstanding_def)
      ultimately have "peer_inv save p' \<and> began p' \<and> end_at \<le> offset p' \<and>
          (\<exists>chunks. sent' = map Chunk chunks \<and> chunks_ok chunks \<and>
            concat chunks = take (offset p' - end_at) (drop end_at save))"
        using s(1) IH by metis
      then obtain chunks where c: "peer_inv save p'" "began p'" "end_at \<le> offset p'"
          "sent' = map Chunk chunks" "chunks_ok chunks"
          "concat chunks = take (offset p' - end_at) (drop end_at save)" by blast
      have "concat (chunk # chunks) = take (offset p' - offset p) (drop (offset p) save)"
        using e c(3,6) take_drop_compose [of "offset p" end_at "offset p'" save]
        by (simp add: chunk_def)
      moreover have "chunks_ok (chunk # chunks)"
        using c(5) chunk by (simp add: chunks_ok_def)
      moreover have "sent = map Chunk (chunk # chunks)" using s(2) c(4) by simp
      moreover have "offset p \<le> offset p'" using e(1) c(3) by simp
      ultimately show ?thesis using c(1,2) by blast
    qed
  qed
qed

definition fresh_transfer :: "save_metadata \<Rightarrow> byte list \<Rightarrow> startup_peer \<Rightarrow> save_message list \<Rightarrow> bool" where
  "fresh_transfer meta save p sent \<longleftrightarrow>
     (if began p then \<exists>chunks. sent = Begin meta # map Chunk chunks \<and> chunks_ok chunks \<and>
           concat chunks = take (offset p) save
      else sent = [])"

definition begin_fits :: "bincode \<Rightarrow> save_metadata \<Rightarrow> bool" where
  "begin_fits bc meta \<longleftrightarrow> receive_memory_of (length (enc_save bc (Begin meta))) \<le> channel_save_max_mem"

lemma pump_inv:
  assumes "begin_fits bc meta" "peer_inv save p" "fresh_transfer meta save p sent"
    "pump bc lk save meta p = (p', new)"
  shows "peer_inv save p' \<and> fresh_transfer meta save p' (sent @ new)"
proof (cases "transfer p = Transferring")
  case False
  then show ?thesis using assms by (simp add: pump_def)
next
  case tr: True
  show ?thesis
  proof (cases "began p")
    case True
    then have "pump_chunks bc lk save 0 p = (p', new)" using assms(4) tr by (simp add: pump_def)
    from pump_chunks_inv [OF assms(2) True tr this] obtain chunks where
      c: "peer_inv save p'" "began p'" "offset p \<le> offset p'" "new = map Chunk chunks" "chunks_ok chunks"
        "concat chunks = take (offset p' - offset p) (drop (offset p) save)" by blast
    obtain old where old: "sent = Begin meta # map Chunk old" "chunks_ok old"
        "concat old = take (offset p) save"
      using assms(3) True by (auto simp: fresh_transfer_def)
    have "concat (old @ chunks) = take (offset p') save"
      using c(3,6) old(3) take_drop_compose [of 0 "offset p" "offset p'" save] by simp
    moreover have "chunks_ok (old @ chunks)" using c(5) old(2) by (simp add: chunks_ok_def)
    moreover have "sent @ new = Begin meta # map Chunk (old @ chunks)" using c(4) old(1) by simp
    ultimately show ?thesis using c(1,2) unfolding fresh_transfer_def by metis
  next
    case False
    let ?size = "length (enc_save bc (Begin meta))"
    define q where "q = (push_outstanding 0 (receive_memory_of ?size) p)\<lparr>began := True\<rparr>"
    note d = peer_invD [OF assms(2)]
    have sent: "sent = []" using assms(3) False by (simp add: fresh_transfer_def)
    show ?thesis
    proof (cases "can_send lk 0 ?size")
      case False
      then show ?thesis using assms tr \<open>\<not> began p\<close> by (simp add: pump_def Let_def)
    next
      case can: True
      then obtain sent' where s: "pump_chunks bc lk save 1 q = (p', sent')" "new = Begin meta # sent'"
        using assms(4) tr False by (auto simp: pump_def Let_def q_def split: prod.splits)
      have out: "outstanding p = []" "offset p = 0" "receive_memory p = 0" "unat (received p) = 0"
        using d(1,5,9) False by auto
      have "peer_inv save q"
        using out assms(1) tr
        by (intro peer_invI)
          (auto simp: q_def push_outstanding_def begin_fits_def unsigned_eq_0_iff)
      moreover have "began q" "transfer q = Transferring" "offset q = 0"
        using tr out by (simp_all add: q_def push_outstanding_def)
      ultimately have "peer_inv save p' \<and> began p' \<and> (\<exists>chunks. sent' = map Chunk chunks \<and>
          chunks_ok chunks \<and> concat chunks = take (offset p') save)"
        using pump_chunks_inv [OF _ _ _ s(1)] by simp
      then show ?thesis using s(2) sent by (auto simp: fresh_transfer_def)
    qed
  qed
qed

text \<open>What the release loop leaves.\<close>

lemma release_inv:
  "sorted (map fst os) \<Longrightarrow> mem = sum_list (map snd os) \<Longrightarrow> release got os mem = (rest, mem') \<Longrightarrow>
     mem' = sum_list (map snd rest) \<and> mem' \<le> mem \<and> sorted (map fst rest) \<and> set rest \<subseteq> set os \<and>
     (got \<noteq> 0 \<longrightarrow> (\<forall>e \<in> fst ` set rest. unat got < e))"
proof (induction got os mem rule: release.induct)
  case (2 got end_at memory rest' mem)
  show ?case
  proof (cases "got = 0 \<or> \<not> end_at \<le> unat got")
    case True
    then show ?thesis using 2(2-4) by force
  next
    case False
    then have r: "release got rest' (mem - memory) = (rest, mem')" using 2(4) by simp
    have "sorted (map fst rest')" "mem - memory = sum_list (map snd rest')" using 2(2,3) by simp_all
    from 2(1) [OF False this r] show ?thesis using 2(3) by auto
  qed
qed auto

lemma receive_startup_inv:
  assumes "peer_inv save p" "fresh_transfer meta save p sent"
    "receive_startup msg meta now p = (p', res)"
  shows "peer_inv save p' \<and> fresh_transfer meta save p' sent"
proof (cases "\<exists>got t rest mem. msg = Progress got t \<and> (got > received p \<or> t > replayed p) \<and>
    (got = received p \<or> (\<exists>m. (unat got, m) \<in> set (outstanding p))) \<and>
    release got (outstanding p) (receive_memory p) = (rest, mem) \<and>
    p' = p\<lparr>received := got, outstanding := rest, receive_memory := mem, replayed := t, last_progress := now\<rparr>")
  case True
  then obtain got t rest mem where
    got: "got = received p \<or> (\<exists>m. (unat got, m) \<in> set (outstanding p))"
    and rel: "release got (outstanding p) (receive_memory p) = (rest, mem)"
    and p': "p' = p\<lparr>received := got, outstanding := rest, receive_memory := mem, replayed := t,
      last_progress := now\<rparr>" by blast
  note d = peer_invD [OF assms(1)]
  note r = release_inv [OF d(6,1) rel]
  have got_le: "unat got \<le> offset p" using got d(7,9) by force
  have "e \<le> offset p" if "e \<in> fst ` set rest" for e
    using that d(7) r by blast
  then have "peer_inv save p'"
    using d(1-6) r got_le unfolding p' by (intro peer_invI) auto
  then show ?thesis using assms(2) by (simp add: p' fresh_transfer_def)
next
  case False
  then have "p' = p \<or> p' = p\<lparr>transfer := Ready_Phase, last_progress := now\<rparr> \<and> transfer p = AwaitingReadiness"
    using assms(3)
    by (auto simp: receive_startup_def Let_def list_ex_iff split: client_message.splits if_splits prod.splits)
  then show ?thesis
    using assms(1,2) unfolding peer_inv_def fresh_transfer_def by (elim disjE conjE) simp_all
qed

section \<open>Runs of the server side\<close>

text \<open>
  Any interleaving of pumping against any link and receiving any message at any time.
  The last argument collects what was handed to the transport.
\<close>

inductive startup_run ::
  "bincode \<Rightarrow> byte list \<Rightarrow> save_metadata \<Rightarrow> startup_peer \<Rightarrow> save_message list \<Rightarrow> bool"
  for bc save meta where
  new: "startup_run bc save meta (startup_peer_new now) []"
| pumped: "startup_run bc save meta p sent \<Longrightarrow> pump bc lk save meta p = (p', emitted) \<Longrightarrow>
    startup_run bc save meta p' (sent @ emitted)"
| heard: "startup_run bc save meta p sent \<Longrightarrow> receive_startup msg meta now p = (p', res) \<Longrightarrow>
    startup_run bc save meta p' sent"

lemma startup_run_inv:
  assumes "startup_run bc save meta p sent" "begin_fits bc meta"
  shows "peer_inv save p \<and> fresh_transfer meta save p sent"
  using assms(1)
proof induction
  case (new now)
  have "fresh_transfer meta save (startup_peer_new now) []"
    by (simp add: fresh_transfer_def startup_peer_new_def)
  then show ?case by (simp add: peer_inv_new)
next
  case (pumped p sent lk p' emitted)
  then show ?case using pump_inv [OF assms(2)] by blast
next
  case (heard p sent msg now p' res)
  then show ?case using receive_startup_inv by blast
qed

section \<open>The books name the messages\<close>

text \<open>Each message with the save offset at which it ends; \<open>Begin\<close> carries no save bytes.\<close>

fun message_ends :: "nat \<Rightarrow> save_message list \<Rightarrow> (nat \<times> save_message) list" where
  "message_ends at [] = []"
| "message_ends at (Begin meta # msgs) = (at, Begin meta) # message_ends at msgs"
| "message_ends at (Chunk chunk # msgs) =
     (at + length chunk, Chunk chunk) # message_ends (at + length chunk) msgs"

text \<open>The messages a client that acknowledged \<open>got\<close> bytes may still hold.\<close>

definition unconsumed :: "u64 \<Rightarrow> save_message list \<Rightarrow> (nat \<times> save_message) list" where
  "unconsumed got sent = filter (\<lambda>(at_end, _). got = 0 \<or> unat got < at_end) (message_ends 0 sent)"

text \<open>A message's slices of 1200 bytes, the last one padded.\<close>

definition slice_memory :: "bincode \<Rightarrow> save_message \<Rightarrow> nat" where
  "slice_memory bc msg = (length (enc_save bc msg) + 1199) div 1200 * 1200"

lemma slice_memory_covers: "length (enc_save bc msg) \<le> slice_memory bc msg"
  using div_mult_mod_eq [of "length (enc_save bc msg) + 1199" 1200]
    mod_less_divisor [of 1200 "length (enc_save bc msg) + 1199"]
  by (simp add: slice_memory_def)

lemma receive_memory_slices: "receive_memory_of (length (enc_save bc msg)) = slice_memory bc msg"
  by (simp add: receive_memory_of_def slice_memory_def renet_slice_bytes_def)

definition booked :: "bincode \<Rightarrow> (nat \<times> save_message) list \<Rightarrow> (nat \<times> nat) list" where
  "booked bc = map (\<lambda>(at_end, msg). (at_end, slice_memory bc msg))"

lemma booked_simps [simp]:
  "booked bc [] = []" "booked bc ((e, m) # es) = (e, slice_memory bc m) # booked bc es"
  "booked bc (es @ fs) = booked bc es @ booked bc fs"
  by (simp_all add: booked_def)

lemma filter_booked: "filter (\<lambda>(at_end, _). P at_end) (booked bc es) = booked bc (filter (\<lambda>(at_end, _). P at_end) es)"
  by (induction es) (auto simp: booked_def)

lemma pump_chunks_booked:
  "pump_chunks bc lk save k p = (p', sent) \<Longrightarrow>
     outstanding p' = outstanding p @ booked bc (message_ends (offset p) sent) \<and> received p' = received p \<and>
     (\<forall>(at_end, _) \<in> set (message_ends (offset p) sent). offset p < at_end)"
proof (induction bc lk save k p arbitrary: p' sent rule: pump_chunks.induct)
  case (1 bc lk save k p)
  define end_at where "end_at = min (offset p + max_save_chunk_bytes) (length save)"
  define chunk where "chunk = take (end_at - offset p) (drop (offset p) save)"
  define memory where "memory = slice_memory bc (Chunk chunk)"
  define q where "q = (push_outstanding end_at memory p)\<lparr>offset := end_at\<rparr>"
  show ?case
  proof (cases "offset p < length save \<and> \<not> (available_memory lk k < end_at - offset p \<or>
        memory > channel_save_max_mem - receive_memory p \<or>
        \<not> can_send lk k (length (enc_save bc (Chunk chunk))))")
    case False
    then have "p' \<in> {p, p\<lparr>transfer := AwaitingReadiness\<rparr>} \<and> sent = []"
      using 1(2) by (subst (asm) pump_chunks.simps)
        (auto simp: Let_def receive_memory_slices simp flip: end_at_def chunk_def memory_def split: if_splits)
    then show ?thesis by auto
  next
    case True
    then have rec: "pump_chunks bc lk save k p =
        (let (p, sent) = pump_chunks bc lk save (Suc k) q in (p, Chunk chunk # sent))"
      by (subst pump_chunks.simps) (simp add: Let_def q_def receive_memory_slices flip: end_at_def chunk_def memory_def)
    obtain sent' where s: "pump_chunks bc lk save (Suc k) q = (p', sent')" "sent = Chunk chunk # sent'"
      using 1(2) by (auto simp: rec split: prod.splits)
    have IH: "outstanding r = outstanding q @ booked bc (message_ends (offset q) sent) \<and> received r = received q \<and>
          (\<forall>(at_end, _) \<in> set (message_ends (offset q) sent). offset q < at_end)"
      if "pump_chunks bc lk save (Suc k) q = (r, sent)" for r sent
      using 1(1) [OF _ end_at_def _ refl refl refl, of r sent] that True
      by (simp add: q_def memory_def chunk_def receive_memory_slices)
    have e: "offset p < end_at" "end_at \<le> length save"
      using True chunk_end(1) [of "offset p" "length save"] by (simp_all add: end_at_def)
    then have len: "offset p + length chunk = end_at" by (simp add: chunk_def)
    have q: "offset q = end_at" "received q = received p"
      "outstanding q = outstanding p @ [(end_at, slice_memory bc (Chunk chunk))]"
      by (simp_all add: q_def push_outstanding_def memory_def)
    show ?thesis
      using IH [OF s(1)] e(1) by (auto simp: s(2) len q)
  qed
qed

lemma pump_booked:
  assumes "pump bc lk save meta p = (p', new)" "\<not> began p \<longrightarrow> offset p = 0"
  shows "outstanding p' = outstanding p @ booked bc (message_ends (offset p) new) \<and> received p' = received p \<and>
    (\<forall>(at_end, _) \<in> set (message_ends (offset p) new). offset p < at_end \<or> \<not> began p)"
proof (cases "transfer p = Transferring")
  case False
  then show ?thesis using assms(1) by (simp add: pump_def)
next
  case tr: True
  show ?thesis
  proof (cases "began p")
    case True
    then show ?thesis using assms(1) tr pump_chunks_booked by (fastforce simp: pump_def)
  next
    case False
    let ?q = "(push_outstanding 0 (slice_memory bc (Begin meta)) p)\<lparr>began := True\<rparr>"
    from False assms(1) tr consider "p' = p" "new = []" |
      sent where "pump_chunks bc lk save 1 ?q = (p', sent)" "new = Begin meta # sent"
      by (auto simp: pump_def Let_def receive_memory_slices split: prod.splits if_splits)
    then show ?thesis
    proof cases
      case 2
      from pump_chunks_booked [OF 2(1)] show ?thesis
        using False assms(2) by (simp add: 2(2) push_outstanding_def)
    qed simp
  qed
qed

lemma release_filters:
  "sorted (map fst os) \<Longrightarrow> fst (release got os mem) = filter (\<lambda>(at_end, _). got = 0 \<or> unat got < at_end) os"
proof (induction got os mem rule: release.induct)
  case (2 got end_at memory rest mem)
  show ?case
  proof (cases "got = 0 \<or> \<not> end_at \<le> unat got")
    case True
    then have "filter (\<lambda>(at_end, _). got = 0 \<or> unat got < at_end) rest = rest"
      using 2(2) by (intro filter_True) force
    then show ?thesis using True by auto
  next
    case False
    then show ?thesis using 2 by auto
  qed
qed simp

definition bytes_sent :: "save_message list \<Rightarrow> nat" where
  "bytes_sent msgs = sum_list (map (\<lambda>msg. case msg of Begin _ \<Rightarrow> 0 | Chunk chunk \<Rightarrow> length chunk) msgs)"

lemma bytes_sent_simps [simp]:
  "bytes_sent [] = 0" "bytes_sent (Begin meta # msgs) = bytes_sent msgs"
  "bytes_sent (Chunk chunk # msgs) = length chunk + bytes_sent msgs"
  by (simp_all add: bytes_sent_def)

lemma bytes_sent_chunks: "bytes_sent (map Chunk chunks) = length (concat chunks)"
  by (induction chunks) simp_all

lemma message_ends_append:
  "message_ends at (xs @ ys) = message_ends at xs @ message_ends (at + bytes_sent xs) ys"
  by (induction at xs rule: message_ends.induct) (simp_all add: add.assoc)

lemma fresh_transfer_offset:
  assumes "fresh_transfer meta save p sent" "peer_inv save p"
  shows "bytes_sent sent = offset p"
  using assms peer_invD(3,5) [OF assms(2)]
  by (auto simp: fresh_transfer_def bytes_sent_chunks split: if_splits)

lemma unconsumed_unconsumed:
  assumes "old \<le> got"
  shows "filter (\<lambda>(at_end, _). got = 0 \<or> unat got < at_end) (unconsumed old sent) = unconsumed got sent"
proof -
  have "old = 0 \<or> unat old < e" if "got = 0 \<or> unat got < e" for e
    using assms that by (auto simp: word_le_nat_alt unsigned_eq_0_iff)
  then show ?thesis unfolding unconsumed_def filter_filter by (intro filter_cong) auto
qed

lemma startup_run_booked:
  assumes "startup_run bc save meta p sent" "begin_fits bc meta"
  shows "outstanding p = booked bc (unconsumed (received p) sent)"
  using assms(1)
proof induction
  case (new now)
  show ?case by (simp add: startup_peer_new_def unconsumed_def)
next
  case (pumped p sent lk p' emitted)
  have inv: "peer_inv save p" "fresh_transfer meta save p sent"
    using startup_run_inv [OF pumped.hyps(1) assms(2)] by simp_all
  note d = peer_invD [OF inv(1)]
  have "received p = 0 \<or> unat (received p) < e" if "offset p < e \<or> \<not> began p" for e
    using that d(5,9) by (auto simp: unsigned_eq_0_iff)
  with pump_booked [OF pumped.hyps(2)] d(5)
  have new: "outstanding p' = outstanding p @ booked bc (message_ends (offset p) emitted)" "received p' = received p"
    "\<forall>(at_end, _) \<in> set (message_ends (offset p) emitted). received p = 0 \<or> unat (received p) < at_end"
    by auto
  have "unconsumed (received p) (sent @ emitted) = unconsumed (received p) sent @ message_ends (offset p) emitted"
    using new(3) fresh_transfer_offset [OF inv(2,1)]
    by (simp add: unconsumed_def message_ends_append filter_id_conv)
  then show ?case using new(1,2) pumped.IH by simp
next
  case (heard p sent msg now p' res)
  have inv: "peer_inv save p" using startup_run_inv [OF heard.hyps(1) assms(2)] by simp
  from heard.hyps(2) have "(received p' = received p \<and> outstanding p' = outstanding p) \<or>
      (received p \<le> received p' \<and> outstanding p' = fst (release (received p') (outstanding p) (receive_memory p)))"
    by (auto simp: receive_startup_def Let_def split: client_message.splits if_splits prod.splits)
  then show ?case
  proof (elim disjE conjE)
    assume le: "received p \<le> received p'"
      and o: "outstanding p' = fst (release (received p') (outstanding p) (receive_memory p))"
    have "outstanding p' = booked bc (filter (\<lambda>(at_end, _). received p' = 0 \<or> unat (received p') < at_end)
        (unconsumed (received p) sent))"
      using release_filters [OF peer_invD(6) [OF inv], of "received p'" "receive_memory p"]
      by (simp add: o heard.IH filter_booked)
    then show ?case by (simp add: unconsumed_unconsumed [OF le])
  qed (simp add: heard.IH)
qed

text \<open>Only a matching report makes a peer ready, and only after the whole save was sent.\<close>

lemma ready_run:
  assumes "startup_run bc save meta p sent" "begin_fits bc meta" "transfer p \<noteq> Transferring"
  obtains chunks where "sent = Begin meta # map Chunk chunks" "chunks_ok chunks" "concat chunks = save"
proof -
  have "peer_inv save p" "fresh_transfer meta save p sent"
    using startup_run_inv [OF assms(1,2)] by simp_all
  then show ?thesis
    using that assms(3) peer_invD(4) [of save p] by (auto simp: fresh_transfer_def)
qed

lemma becomes_ready:
  "receive_startup msg meta now p = (p', res) \<Longrightarrow> transfer p \<noteq> Ready_Phase \<Longrightarrow>
     transfer p' = Ready_Phase \<longleftrightarrow>
       transfer p = AwaitingReadiness \<and> msg = Ready (meta_tick meta) (meta_hash meta)"
  by (auto simp: receive_startup_def Let_def split: client_message.splits if_splits prod.splits)

section \<open>The client reassembles the save\<close>

fun deliver ::
  "bincode \<Rightarrow> (nat \<Rightarrow> bool) \<Rightarrow> save_message list \<Rightarrow> client_startup \<Rightarrow> client_startup \<times> unit session_result" where
  "deliver bc al [] c = (c, Inr ())"
| "deliver bc al (m # ms) c =
     (case receive_save bc al m c of
        (c, Inl e) \<Rightarrow> (c, Inl e) | (c, Inr _) \<Rightarrow> deliver bc al ms c)"

lemma receive_chunk:
  assumes "cphase c = Receiving (Some meta) bytes" "unat (creceived c) = length bytes"
    "ch \<noteq> []" "length ch \<le> max_save_chunk_bytes"
    "length bytes + length ch \<le> unat (total_bytes meta)"
  shows "receive_save bc infallible (Chunk ch) c =
    finish_transfer bc infallible (Some meta) (bytes @ ch)
      (c\<lparr>creceived := creceived c + word_of_nat (length ch)\<rparr>)"
    "unat (creceived c + word_of_nat (length ch)) = length bytes + length ch"
proof -
  have small: "unat (word_of_nat (length ch) :: u64) = length ch"
    using assms(4) by (simp add: unat_of_nat max_save_chunk_bytes_def)
  have "unat (total_bytes meta) < 2 ^ 64" using unsigned_less [of "total_bytes meta"] by simp
  then have lt: "unat (creceived c) + unat (word_of_nat (length ch) :: u64) < 2 ^ LENGTH(64)"
    using assms(2,5) small by simp
  then show u: "unat (creceived c + word_of_nat (length ch)) = length bytes + length ch"
    using assms(2) small by (simp add: unat_word_ariths)
  have add: "checked_add (creceived c) (word_of_nat (length ch)) = Some (creceived c + word_of_nat (length ch))"
    using u small assms(2) by (simp add: checked_add_Some)
  have "\<not> creceived c + word_of_nat (length ch) > total_bytes meta"
    using u assms(5) by (simp add: word_less_nat_alt)
  then show "receive_save bc infallible (Chunk ch) c =
    finish_transfer bc infallible (Some meta) (bytes @ ch)
      (c\<lparr>creceived := creceived c + word_of_nat (length ch)\<rparr>)"
    using assms(1,3,4) add by (simp add: receive_save_def Let_def infallible_def)
qed

lemma deliver_chunks:
  assumes "from_reader bc infallible (memory_source save) = Inr rd"
    "length save = unat (total_bytes meta)"
  shows "chunks_ok chunks \<Longrightarrow> bytes @ concat chunks = save \<Longrightarrow> chunks \<noteq> [] \<Longrightarrow>
     cphase c = Receiving (Some meta) bytes \<Longrightarrow> unat (creceived c) = length bytes \<Longrightarrow>
     deliver bc infallible (map Chunk chunks) c =
       (c\<lparr>cphase := Replaying meta rd, creceived := total_bytes meta\<rparr>, Inr ())"
proof (induction chunks arbitrary: bytes c)
  case (Cons ch chunks)
  have ch: "ch \<noteq> []" "length ch \<le> max_save_chunk_bytes" "chunks_ok chunks"
    using Cons.prems(1) by (simp_all add: chunks_ok_def)
  have len: "length bytes + length ch + length (concat chunks) = unat (total_bytes meta)"
    using Cons.prems(2) assms(2) by (metis add.assoc concat.simps(2) length_append)
  note rc = receive_chunk(1) [OF Cons.prems(4,5) ch(1,2), where bc = bc]
    receive_chunk(2) [OF Cons.prems(4,5) ch(1,2)]
  let ?got = "creceived c + word_of_nat (length ch)"
  have u: "unat ?got = length bytes + length ch" using rc len by simp
  show ?case
  proof (cases "chunks = []")
    case True
    then have "?got = total_bytes meta" using u len by (simp add: word_unat_eq_iff)
    then show ?thesis
      using rc len True Cons.prems(2) assms(1) by (simp add: finish_transfer_def)
  next
    case False
    then have "concat chunks \<noteq> []" using ch(3) by (cases chunks) (auto simp: chunks_ok_def)
    then have "?got \<noteq> total_bytes meta" using u len by (metis add_cancel_right_right length_0_conv)
    then have "receive_save bc infallible (Chunk ch) c =
        (c\<lparr>creceived := ?got, cphase := Receiving (Some meta) (bytes @ ch)\<rparr>, Inr ())"
      using rc len by (simp add: finish_transfer_def Let_def)
    moreover have "deliver bc infallible (map Chunk chunks)
        (c\<lparr>creceived := ?got, cphase := Receiving (Some meta) (bytes @ ch)\<rparr>) =
        (c\<lparr>creceived := ?got, cphase := Receiving (Some meta) (bytes @ ch)\<rparr>
          \<lparr>cphase := Replaying meta rd, creceived := total_bytes meta\<rparr>, Inr ())"
      using False ch(3) Cons.prems(2) u by (intro Cons.IH [of "bytes @ ch"]) simp_all
    ultimately show ?thesis by simp
  qed
qed simp

lemma deliver_transfer:
  assumes "from_reader bc infallible (memory_source save) = Inr rd"
    "length save = unat (total_bytes meta)" "save \<noteq> []" "chunks_ok chunks" "concat chunks = save"
  shows "deliver bc infallible (Begin meta # map Chunk chunks) client_startup_default =
    (client_startup_default\<lparr>cphase := Replaying meta rd, creceived := total_bytes meta\<rparr>, Inr ())"
proof -
  have "total_bytes meta > 0" using assms(2,3) by (metis length_0_conv unsigned_0 word_neq_0_conv)
  moreover from this have "total_bytes meta \<noteq> 0" by simp
  moreover have "chunks \<noteq> []" using assms(3,5) by auto
  ultimately show ?thesis
    using assms deliver_chunks [OF assms(1,2,4), of "[]"
        "client_startup_default\<lparr>cphase := Receiving (Some meta) []\<rparr>"]
    by (simp add: receive_save_def client_startup_default_def finish_transfer_def Let_def)
qed

section \<open>The client replays to readiness\<close>

text \<open>The client's loop calls \<open>step\<close> once per round, with what the clock shows in each.\<close>

fun startup_steps ::
  "bincode \<Rightarrow> (nat \<Rightarrow> bool) \<Rightarrow> 's session_sim \<Rightarrow> observation list list \<Rightarrow> client_startup \<Rightarrow> 's \<Rightarrow>
   client_startup \<times> 's \<times> client_message option session_result" where
  "startup_steps bc al sim [] c s = (c, s, Inr None)"
| "startup_steps bc al sim (os # rounds) c s =
     (case startup_step bc al sim os c s of
        (c, s, Inr None) \<Rightarrow> startup_steps bc al sim rounds c s
      | done \<Rightarrow> done)"

lemma log_prefix_tick:
  assumes "deterministic_sim sim det" "advance_all sim Replay (as @ bs) s = (s', Inr ())"
  shows "sim_current_tick sim (fst (advance_all sim Replay as s)) \<le> sim_current_tick sim s'"
proof -
  note final = deterministic_sim.advance_all_final [OF assms(1)]
  have "advance_all sim Replay bs (fst (advance_all sim Replay as s)) = (s', Inr ())"
    using assms(2) by (auto simp: advance_all_append split: prod.splits sum.splits)
  from final [OF this] show ?thesis by (simp add: word_le_nat_alt)
qed

context bincode_format
begin

lemma startup_step_plays:
  assumes det: "deterministic_sim sim det"
    and c: "cphase c = Replaying meta rd"
    and init: "(if initialized c then (s, Inr ()) else sim_initialize sim (header rd) s) = (s0, Inr ())"
    and src: "faultless (inner rd)" "held (inner rd) = log_bytes bc advs" "list_all (recordable bc) advs"
    and run: "advance_all sim Replay advs s0 = (s', Inr ())"
    and meta: "meta_tick meta = sim_current_tick sim s'" "sim_state_hash sim s' = Inr (meta_hash meta)"
  shows "startup_step bc infallible sim os c s =
    (let m = batch_room 128 os in
     if length advs < m
     then (c\<lparr>initialized := True, creplayed := meta_tick meta, cphase := AwaitingStart meta\<rparr>, s',
           Inr (Some (Ready (meta_tick meta) (meta_hash meta))))
     else let mid = fst (advance_all sim Replay (take m advs) s0) in
       (c\<lparr>initialized := True, creplayed := sim_current_tick sim mid,
          cphase := Replaying meta (rd\<lparr>inner := (inner rd)\<lparr>held := log_bytes bc (drop m advs)\<rparr>\<rparr>)\<rparr>,
        mid, Inr None))"
proof -
  define m where "m = batch_room 128 os"
  let ?mid = "fst (advance_all sim Replay (take m advs) s0)"
  let ?run = "\<lparr>run_state = s0, run_source = inner rd, run_mirror = None\<rparr>"
  have batch: "replay_batch bc infallible sim os ?run =
      (after_records bc sim (take m advs) (log_bytes bc (drop m advs)) ?run,
       Inr \<lparr>records = of_nat (length (take m advs)), finished = length advs < m\<rparr>)"
    using batch_loop_plays [of ?run advs sim s' 128 os 0] src run
    by (simp add: replay_batch_def m_def Let_def mirror_ok_def)
  have split: "advance_all sim Replay (take m advs @ drop m advs) s0 = (s', Inr ())"
    using run by simp
  have le: "\<not> sim_current_tick sim ?mid > meta_tick meta"
    using log_prefix_tick [OF det split] meta(1) by (simp add: linorder_not_less)
  have last: "?mid = s'" if "length advs < m" using run that by simp
  show ?thesis
  proof (cases "length advs < m")
    case True
    then show ?thesis
      using c init batch le last [OF True] meta
      by (simp add: startup_step_def Let_def after_records_def flip: m_def)
  next
    case False
    then show ?thesis
      using c init batch le
      by (simp add: startup_step_def Let_def after_records_def flip: m_def)
  qed
qed

lemma startup_steps_ready:
  "deterministic_sim sim det \<Longrightarrow> cphase c = Replaying meta rd \<Longrightarrow>
   (if initialized c then (s, Inr ()) else sim_initialize sim (header rd) s) = (s0, Inr ()) \<Longrightarrow>
   faultless (inner rd) \<Longrightarrow> held (inner rd) = log_bytes bc advs \<Longrightarrow> list_all (recordable bc) advs \<Longrightarrow>
   advance_all sim Replay advs s0 = (s', Inr ()) \<Longrightarrow>
   meta_tick meta = sim_current_tick sim s' \<Longrightarrow> sim_state_hash sim s' = Inr (meta_hash meta) \<Longrightarrow>
   list_all (\<lambda>os. batch_room 128 os > 0) rounds \<Longrightarrow> length advs < length rounds \<Longrightarrow>
   startup_steps bc infallible sim rounds c s =
     (c\<lparr>initialized := True, creplayed := meta_tick meta, cphase := AwaitingStart meta\<rparr>, s',
      Inr (Some (Ready (meta_tick meta) (meta_hash meta))))"
proof (induction rounds arbitrary: c s s0 advs rd)
  case (Cons os rounds)
  define m where "m = batch_room 128 os"
  note step = startup_step_plays [OF Cons.prems(1-9), of os]
  show ?case
  proof (cases "length advs < m")
    case True
    then show ?thesis using step by (simp add: m_def Let_def)
  next
    case False
    let ?mid = "fst (advance_all sim Replay (take m advs) s0)"
    let ?rd = "rd\<lparr>inner := (inner rd)\<lparr>held := log_bytes bc (drop m advs)\<rparr>\<rparr>"
    let ?c = "c\<lparr>initialized := True, creplayed := sim_current_tick sim ?mid, cphase := Replaying meta ?rd\<rparr>"
    have split: "advance_all sim Replay (take m advs @ drop m advs) s0 = (s', Inr ())"
      using Cons.prems(7) by simp
    have "startup_steps bc infallible sim rounds ?c ?mid =
       (?c\<lparr>initialized := True, creplayed := meta_tick meta, cphase := AwaitingStart meta\<rparr>, s',
        Inr (Some (Ready (meta_tick meta) (meta_hash meta))))"
    proof (rule Cons.IH [of _ ?rd])
      show "list_all (recordable bc) (drop m advs)"
        using Cons.prems(6) by (simp add: list_all_iff) (meson in_set_dropD)
      show "advance_all sim Replay (drop m advs) ?mid = (s', Inr ())"
        by (rule advance_all_split [OF split])
    qed (use Cons.prems False in \<open>auto simp: m_def\<close>)
    then show ?thesis using step False by (simp add: m_def Let_def)
  qed
qed simp

end

section \<open>The client's buffer\<close>

definition receiving_ok :: "client_startup \<Rightarrow> bool" where
  "receiving_ok c \<longleftrightarrow>
     (case cphase c of
        Receiving None bytes \<Rightarrow> bytes = [] \<and> creceived c = 0
      | Receiving (Some meta) bytes \<Rightarrow>
          length bytes = unat (creceived c) \<and> length bytes < unat (total_bytes meta)
      | _ \<Rightarrow> True)"

lemma receiving_ok_default: "receiving_ok client_startup_default"
  by (simp add: receiving_ok_def client_startup_default_def)

lemma finish_transfer_ok:
  assumes "length bytes = unat (creceived c)" "creceived c \<le> total_bytes meta"
  shows "receiving_ok (fst (finish_transfer bc al (Some meta) bytes c))"
proof (cases "creceived c = total_bytes meta")
  case True
  then show ?thesis by (simp add: finish_transfer_def receiving_ok_def Let_def split: sum.splits)
next
  case False
  then have "unat (creceived c) < unat (total_bytes meta)"
    using assms(2) by (simp add: word_le_nat_alt word_unat_eq_iff)
  then show ?thesis using False assms(1) by (simp add: finish_transfer_def receiving_ok_def Let_def)
qed

lemma receive_save_ok:
  assumes "receiving_ok c"
  shows "receiving_ok (fst (receive_save bc al msg c))"
proof (cases "\<exists>meta bytes. cphase c = Receiving meta bytes")
  case True
  then obtain m bytes where c: "cphase c = Receiving m bytes" by blast
  show ?thesis
  proof (cases msg)
    case (Begin meta)
    show ?thesis
    proof (cases "m = None \<and> total_bytes meta > 0")
      case True
      then have "length bytes = unat (creceived c)" "creceived c \<le> total_bytes meta"
        using assms c by (simp_all add: receiving_ok_def)
      then show ?thesis using True c Begin finish_transfer_ok by (simp add: receive_save_def)
    qed (use assms c Begin in \<open>auto simp: receive_save_def\<close>)
  next
    case (Chunk ch)
    show ?thesis
    proof (cases m)
      case (Some meta)
      let ?size = "word_of_nat (length ch) :: u64"
      show ?thesis
      proof (cases "(ch = [] \<or> length ch > max_save_chunk_bytes \<or>
          (case checked_add (creceived c) ?size of None \<Rightarrow> True | Some n \<Rightarrow> n > total_bytes meta)) \<or> \<not> al (length ch)")
        case True
        then show ?thesis using assms c Chunk Some by (auto simp: receive_save_def Let_def)
      next
        case False
        then obtain n where n: "checked_add (creceived c) ?size = Some n" "n \<le> total_bytes meta"
          and len: "length ch \<le> max_save_chunk_bytes"
          by (auto split: option.splits)
        have "unat ?size = length ch" using len by (simp add: unat_of_nat max_save_chunk_bytes_def)
        then have "unat n = unat (creceived c) + length ch"
          using n(1) by (simp add: checked_add_Some)
        moreover have e: "n = creceived c + ?size"
          using n(1) by (auto simp: checked_add_def split: if_splits)
        ultimately have "length (bytes @ ch) = unat (creceived c + ?size)"
          using assms c Some by (simp add: receiving_ok_def)
        then show ?thesis
          using False c Chunk Some n(2) e
            finish_transfer_ok [of "bytes @ ch" "c\<lparr>creceived := creceived c + ?size\<rparr>" meta]
          by (simp add: receive_save_def Let_def)
      qed
    qed (use assms c Chunk in \<open>simp add: receive_save_def\<close>)
  qed
qed (use assms in \<open>simp add: receive_save_def split: client_phase.splits\<close>)

lemma deliver_receiving_ok: "receiving_ok c \<Longrightarrow> receiving_ok (fst (deliver bc al msgs c))"
proof (induction msgs arbitrary: c)
  case (Cons m msgs)
  then show ?case
    using receive_save_ok [OF Cons.prems, of bc al m] by (auto split: prod.splits sum.splits)
qed simp

section \<open>Properties\<close>

text \<open>C14. When the \<open>Begin\<close> message by itself fits the save channel, then however the transport
  answers and whatever a client reports, in any order, the memory accounted for a peer is that
  of the sent messages its client has not acknowledged as consumed, each in slices of 1200
  bytes: all of them as long as it acknowledged nothing, then those that end beyond the save
  offset it acknowledged.  So the bytes of the messages the client may still hold in its
  receive queue never exceed the save channel's 4 MiB.  The acknowledged offset never exceeds
  the save bytes sent.\<close>

theorem startup_memory_bounded:
  assumes "startup_run bc save meta p sent" "begin_fits bc meta"
  shows "receive_memory p = sum_list (map (\<lambda>(_, msg). (length (enc_save bc msg) + 1199) div 1200 * 1200)
      (unconsumed (received p) sent)) \<and>
    sum_list (map (\<lambda>(_, msg). length (enc_save bc msg)) (unconsumed (received p) sent)) \<le> receive_memory p \<and>
    receive_memory p \<le> 4 * 1024 * 1024 \<and> unat (received p) \<le> bytes_sent sent \<and> bytes_sent sent \<le> length save"
proof -
  have inv: "peer_inv save p" "fresh_transfer meta save p sent"
    using startup_run_inv [OF assms] by simp_all
  note d = peer_invD [OF inv(1)]
  have mem: "receive_memory p = sum_list (map (\<lambda>(_, msg). slice_memory bc msg) (unconsumed (received p) sent))"
    by (simp add: d(1) startup_run_booked [OF assms] booked_def case_prod_unfold comp_def)
  have "sum_list (map (\<lambda>(_, msg). length (enc_save bc msg)) (unconsumed (received p) sent)) \<le> receive_memory p"
    unfolding mem by (intro sum_list_mono) (auto simp: slice_memory_covers)
  then show ?thesis
    using mem d(2,3,9) fresh_transfer_offset [OF inv(2,1)]
    by (simp add: slice_memory_def channel_save_max_mem_def)
qed

text \<open>A transfer of a one-record log over a link that takes everything.\<close>

definition small_save :: "byte list" where
  "small_save = enc_header standard_bincode small_header @ record_bytes standard_bincode small_record"

definition small_meta :: save_metadata where
  "small_meta = \<lparr>total_bytes = 45, meta_tick = 1, meta_hash = 1\<rparr>"

definition open_link :: link where
  "open_link = \<lparr>available_memory = (\<lambda>_. 1000), can_send = (\<lambda>_ _. True)\<rparr>"

lemma small_sizes:
  "length small_save = 45" "length (enc_save standard_bincode (Begin small_meta)) = 4"
  "length (enc_save standard_bincode (Chunk small_save)) = 47"
proof -
  have "length (record_bytes standard_bincode small_record) = 9" by code_simp
  then show save: "length small_save = 45"
    by (simp add: small_save_def small_header_def replay_header_new_def standard_bincode_def
        std_enc_u64_def std_enc_u32_def std_enc_bytes_def varint_def magic_const_def
        protocol_id_const_def format_version_const_def)
  show "length (enc_save standard_bincode (Begin small_meta)) = 4"
    by (simp add: small_meta_def standard_bincode_def std_enc_u64_def std_enc_u32_def varint_def)
  show "length (enc_save standard_bincode (Chunk small_save)) = 47"
    by (simp add: save standard_bincode_def std_enc_u64_def std_enc_u32_def std_enc_bytes_def varint_def)
qed

lemma receive_memory_small: "0 < n \<Longrightarrow> n \<le> 1200 \<Longrightarrow> receive_memory_of n = 1200"
  using div_nat_eqI [of 1200 "n + 1200 - 1" 1] by (simp add: receive_memory_of_def renet_slice_bytes_def)

lemma small_begin_fits: "begin_fits standard_bincode small_meta"
  by (simp add: begin_fits_def small_sizes receive_memory_small channel_save_max_mem_def)

definition small_peer :: startup_peer where
  "small_peer =
     (startup_peer_new 0)\<lparr>transfer := AwaitingReadiness, began := True, offset := 45,
       outstanding := [(0, 1200), (45, 1200)], receive_memory := 2400\<rparr>"

lemma small_pump:
  "pump standard_bincode open_link small_save small_meta (startup_peer_new 0) =
    (small_peer, [Begin small_meta, Chunk small_save])"
proof -
  define p1 where "p1 = (push_outstanding 0 1200 (startup_peer_new 0))\<lparr>began := True\<rparr>"
  define p2 where "p2 = (push_outstanding 45 1200 p1)\<lparr>offset := 45\<rparr>"
  have 2: "pump_chunks standard_bincode open_link small_save 2 p2 = (small_peer, [])"
    by (subst pump_chunks.simps)
      (simp add: p2_def p1_def small_sizes small_peer_def push_outstanding_def startup_peer_new_def)
  have "min (0 + max_save_chunk_bytes) 45 = 45" by (simp add: max_save_chunk_bytes_def)
  then have "pump_chunks standard_bincode open_link small_save 1 p1 = (small_peer, [Chunk small_save])"
    using 2 by (subst pump_chunks.simps)
      (simp add: p1_def [unfolded push_outstanding_def startup_peer_new_def] small_sizes open_link_def
        receive_memory_small channel_save_max_mem_def Let_def numeral_2_eq_2 p2_def)
  then show ?thesis
    by (simp add: pump_def small_sizes receive_memory_small open_link_def p1_def startup_peer_new_def Let_def)
qed

lemma small_run: "startup_run standard_bincode small_save small_meta small_peer
    [Begin small_meta, Chunk small_save]"
  using startup_run.pumped [OF startup_run.new small_pump] by simp

theorem startup_memory_bounded_witness:
  "receive_memory small_peer = sum_list (map (\<lambda>(_, msg). (length (enc_save standard_bincode msg) + 1199) div 1200 * 1200)
      [(0, Begin small_meta), (45, Chunk small_save)]) \<and> receive_memory small_peer = 2400"
  using startup_memory_bounded [OF small_run small_begin_fits]
  by (simp add: small_peer_def startup_peer_new_def unconsumed_def small_sizes)

text \<open>C16. Only a \<open>Ready\<close> report that carries the authority's tick and fingerprint makes a peer
  ready, and only once the whole save was handed to the transport.\<close>

theorem ready_needs_matching_report:
  assumes "startup_run bc save meta p sent" "begin_fits bc meta" "\<not> is_ready p"
    and "receive_startup msg meta now p = (p', res)"
  shows "(is_ready p' \<longleftrightarrow> transfer p = AwaitingReadiness \<and> msg = Ready (meta_tick meta) (meta_hash meta)) \<and>
    (is_ready p' \<longrightarrow> offset p = length save)"
  using becomes_ready [OF assms(4)] assms(3) peer_invD(4) [of save p] startup_run_inv [OF assms(1,2)]
  by (auto simp: is_ready_def)

lemma small_not_ready: "\<not> is_ready small_peer"
  by (simp add: small_peer_def is_ready_def)

theorem ready_needs_matching_report_witness:
  "is_ready (fst (receive_startup (Ready 1 1) small_meta 7 small_peer)) \<and>
   \<not> is_ready (fst (receive_startup (Ready 1 2) small_meta 7 small_peer))"
  using ready_needs_matching_report [OF small_run small_begin_fits small_not_ready, of "Ready 1 1" 7
      "fst (receive_startup (Ready 1 1) small_meta 7 small_peer)"]
    ready_needs_matching_report [OF small_run small_begin_fits small_not_ready, of "Ready 1 2" 7
      "fst (receive_startup (Ready 1 2) small_meta 7 small_peer)"]
  by (simp add: small_meta_def small_peer_def prod_eq_iff)

text \<open>C15. The messages of a completed transfer, delivered in order, bring a fresh client to
  replaying exactly the authority's save, however the transport split it over time.\<close>

theorem transfer_delivers_the_save:
  assumes "startup_run bc save meta p sent" "begin_fits bc meta" "transfer p \<noteq> Transferring"
    and "length save = unat (total_bytes meta)" "save \<noteq> []"
    and "from_reader bc infallible (memory_source save) = Inr rd"
  shows "deliver bc infallible sent client_startup_default =
    (\<lparr>cphase = Replaying meta rd, creceived = total_bytes meta, creplayed = 0, initialized = False\<rparr>, Inr ())"
proof -
  obtain chunks where c: "sent = Begin meta # map Chunk chunks" "chunks_ok chunks" "concat chunks = save"
    using assms(3) by (rule ready_run [OF assms(1,2)])
  show ?thesis
    unfolding c(1) using deliver_transfer [OF assms(6,4,5) c(2,3)] by (simp add: client_startup_default_def)
qed

theorem transfer_delivers_the_save_witness:
  "\<exists>rd. header rd = small_header \<and>
     deliver standard_bincode infallible [Begin small_meta, Chunk small_save] client_startup_default =
     (\<lparr>cphase = Replaying small_meta rd, creceived = 45, creplayed = 0, initialized = False\<rparr>, Inr ())"
proof -
  have "faultless (memory_source small_save)"
    "held (memory_source small_save) = enc_header standard_bincode small_header @ record_bytes standard_bincode small_record"
    by (simp_all add: memory_source_def faultless_def small_save_def)
  note r = std.from_reader_enc [OF this small_header_current]
  let ?rd = "\<lparr>inner = (memory_source small_save)\<lparr>held := record_bytes standard_bincode small_record\<rparr>,
    header = small_header\<rparr>"
  have "deliver standard_bincode infallible [Begin small_meta, Chunk small_save] client_startup_default =
     (\<lparr>cphase = Replaying small_meta ?rd, creceived = total_bytes small_meta, creplayed = 0,
       initialized = False\<rparr>, Inr ())"
    by (rule transfer_delivers_the_save [OF small_run small_begin_fits _ _ _ r])
      (use small_sizes(1) in \<open>auto simp: small_peer_def small_meta_def\<close>)
  moreover have "total_bytes small_meta = 45" by (simp add: small_meta_def)
  ultimately show ?thesis by (intro exI [of _ ?rd]) simp
qed

text \<open>A client that is still receiving never holds more bytes than it counted, nor as many
  as the announced total: whatever the server sends, the buffer is bounded by the announcement.\<close>

theorem receive_buffer_bounded:
  assumes "deliver bc al msgs client_startup_default = (c, res)"
    and "cphase c = Receiving (Some meta) bytes"
  shows "length bytes = unat (creceived c) \<and> length bytes < unat (total_bytes meta)"
proof -
  have "receiving_ok c"
    using deliver_receiving_ok [OF receiving_ok_default, of bc al msgs] assms(1) by simp
  then show ?thesis using assms(2) by (auto simp: receiving_ok_def)
qed

theorem receive_buffer_bounded_witness:
  "length ([1, 2] :: byte list) = unat (2 :: u64) \<and> length ([1, 2] :: byte list) < unat (total_bytes small_meta)"
proof -
  have "deliver standard_bincode infallible [Begin small_meta, Chunk [1, 2]] client_startup_default =
      (\<lparr>cphase = Receiving (Some small_meta) [1, 2], creceived = 2, creplayed = 0, initialized = False\<rparr>, Inr ())"
    by (simp add: receive_save_def finish_transfer_def client_startup_default_def small_meta_def
        max_save_chunk_bytes_def checked_add_def infallible_def)
  from receive_buffer_bounded [OF this] show ?thesis by simp
qed

end
