(* ===== verification/Pacer.thy ===== *)
theory Pacer
  imports Prelude
begin

text \<open>
  \<^verbatim>\<open>crates/synctick/src/pacer.rs\<close>: the deadline-based pacer of the server loop.  An
  \<open>Instant\<close> is a number of nanoseconds on the monotonic clock; the clock reading of a
  call is its argument \<open>now\<close>, and the result says how long the thread sleeps.
\<close>

record pacer =
  next_deadline :: nat
  tick_duration :: nat

definition pacer_new :: "nat \<Rightarrow> nat \<Rightarrow> pacer" where
  "pacer_new now duration = \<lparr>next_deadline = now + duration, tick_duration = duration\<rparr>"

definition sleep_until_next :: "nat \<Rightarrow> pacer \<Rightarrow> nat \<times> pacer" where
  "sleep_until_next now p =
     (if next_deadline p > now
      then (next_deadline p - now, p\<lparr>next_deadline := next_deadline p + tick_duration p\<rparr>)
      else
        let lag = now - next_deadline p in
        if lag > tick_duration p * 10
        then (0, p\<lparr>next_deadline := now + tick_duration p\<rparr>)
        else (0, p\<lparr>next_deadline := next_deadline p + tick_duration p\<rparr>))"

text \<open>Successive calls at the given clock readings: the sleeps they ask for.\<close>

fun pace :: "nat list \<Rightarrow> pacer \<Rightarrow> nat list \<times> pacer" where
  "pace [] p = ([], p)"
| "pace (now # nows) p =
     (let (d, p) = sleep_until_next now p; (ds, p) = pace nows p in (d # ds, p))"

lemma tick_duration_const [simp]: "tick_duration (snd (sleep_until_next now p)) = tick_duration p"
  by (simp add: sleep_until_next_def Let_def)

lemma deadline_advances:
  "next_deadline p + tick_duration p \<le> next_deadline (snd (sleep_until_next now p))"
  by (auto simp: sleep_until_next_def Let_def)

text \<open>After a call the deadline lags the clock by at most ten ticks.\<close>

lemma lag_bounded: "now \<le> next_deadline (snd (sleep_until_next now p)) + 10 * tick_duration p"
  by (auto simp: sleep_until_next_def Let_def)

text \<open>Without a reset the deadlines form an arithmetic progression: no drift accumulates.\<close>

definition keeps_up :: "nat list \<Rightarrow> pacer \<Rightarrow> bool" where
  "keeps_up nows p \<longleftrightarrow>
     (\<forall>i < length nows. nows ! i \<le> next_deadline p + i * tick_duration p + 10 * tick_duration p)"

lemma no_drift:
  "keeps_up nows p \<Longrightarrow>
     next_deadline (snd (pace nows p)) = next_deadline p + length nows * tick_duration p"
proof (induction nows arbitrary: p)
  case (Cons now nows)
  define p1 where "p1 = snd (sleep_until_next now p)"
  have "now \<le> next_deadline p + 10 * tick_duration p"
    using Cons.prems by (auto simp: keeps_up_def dest: spec [of _ 0])
  then have d: "next_deadline p1 = next_deadline p + tick_duration p"
    by (auto simp: p1_def sleep_until_next_def Let_def)
  have t: "tick_duration p1 = tick_duration p" by (simp add: p1_def)
  have "keeps_up nows p1"
    unfolding keeps_up_def d t
  proof (intro allI impI)
    fix i assume "i < length nows"
    then show "nows ! i \<le> next_deadline p + tick_duration p + i * tick_duration p + 10 * tick_duration p"
      using Cons.prems by (auto simp: keeps_up_def dest!: spec [of _ "Suc i"])
  qed
  from Cons.IH [OF this] show ?case
    by (simp add: d t p1_def [symmetric] split_beta Let_def)
qed simp

section \<open>Properties\<close>

text \<open>After any call of the pacer the next deadline lags the clock by at most ten ticks,
  and it advanced by at least one tick.\<close>

theorem pacer_lag_bounded:
  "now \<le> next_deadline (snd (sleep_until_next now p)) + 10 * tick_duration p \<and>
   next_deadline p + tick_duration p \<le> next_deadline (snd (sleep_until_next now p))"
  using lag_bounded deadline_advances by blast

text \<open>While the loop is never more than ten ticks late, deadlines are the exact multiples
  of the tick duration: late and early calls do not accumulate drift.\<close>

theorem pacer_no_drift:
  assumes "keeps_up nows (pacer_new start duration)"
  shows "next_deadline (snd (pace nows (pacer_new start duration))) = start + Suc (length nows) * duration"
  using no_drift [OF assms] by (simp add: pacer_new_def)

theorem pacer_no_drift_witness:
  "next_deadline (snd (pace [3, 25, 30] (pacer_new 0 10))) = 40"
  using pacer_no_drift [of "[3, 25, 30]" 0 10] by (simp add: keeps_up_def pacer_new_def less_Suc_eq)

end
