(* ===== verification/Run_Server.thy ===== *)
theory Run_Server
  imports Startup Pacer Api
begin

text \<open>
  \<^verbatim>\<open>crates/synctick/src/run_server.rs\<close>: the authority, from loading a save over the
  startup barrier to the tick loop.

  The transport is third-party (\<^verbatim>\<open>renet\<close>): each iteration of a loop takes, as an explicit
  record, what the transport, the local queue and the clock return in it, in the order the
  code asks, and yields the transport calls it makes as a list of actions.  A message list
  is what \<^verbatim>\<open>receive_message\<close> returns until it returns \<^verbatim>\<open>None\<close>; a list of iterations that
  ends before the loop does yields \<open>None\<close>.  Log lines are left out.
\<close>

section \<open>Transport interface\<close>

datatype server_event = Client_Connected u64 | Client_Disconnected u64

datatype server_action =
    Disconnect u64
  | Send u64 u8 "byte list"
  | Broadcast u8 "byte list"
  | Send_Packets
  | Disconnect_All

datatype recv = Received "byte list" | Empty | Recv_Disconnected

section \<open>Local input and the byte budget of a tick\<close>

text \<open>At most 256 receptions; a list that ends stands for an empty queue.\<close>

fun drain_loop :: "nat \<Rightarrow> recv list \<Rightarrow> bool \<Rightarrow> byte list list session_result" where
  "drain_loop (Suc n) (Received bs # rs) live =
     and_then (drain_loop n rs live) (\<lambda>events. Inr (if live then bs # events else events))"
| "drain_loop (Suc n) (Recv_Disconnected # rs) live = Inl InputDisconnected"
| "drain_loop n rs live = Inr []"

definition drain_local :: "recv list option \<Rightarrow> bool \<Rightarrow> byte list list session_result" where
  "drain_local receiver live =
     (case receiver of None \<Rightarrow> Inr [] | Some rs \<Rightarrow> drain_loop 256 rs live)"

definition account_input :: "nat \<Rightarrow> nat \<Rightarrow> nat session_result" where
  "account_input acc bytes =
     and_then (ok_or (Protocol ''tick byte budget exceeded'')
       (Option.bind (usize_checked_add acc bytes) (\<lambda>n. usize_checked_add n 32))) (\<lambda>n.
     if n > max_replay_record_bytes then Inl (Protocol ''tick byte budget exceeded'') else Inr n)"

section \<open>Startup barrier\<close>

record peer_round =
  pr_link :: link
  pr_messages :: "byte list list"
  pr_desync :: bool
  pr_now :: nat

record wait_env =
  we_transport :: "string option"
  we_events :: "server_event list"
  we_connect_now :: nat
  we_local :: "recv list option"
  we_peer :: "u64 \<Rightarrow> peer_round"
  we_connected :: "u64 \<Rightarrow> bool"

definition update_network :: "string option \<Rightarrow> unit session_result" where
  "update_network err = (case err of None \<Rightarrow> Inr () | Some msg \<Rightarrow> Inl (Transport msg))"

type_synonym peers = "(u64 \<times> startup_peer) list"

definition startup_event ::
  "u32 \<Rightarrow> nat \<Rightarrow> server_event \<Rightarrow> peers \<Rightarrow> peers \<times> server_action list" where
  "startup_event expected now ev peers =
     (case ev of
        Client_Connected cid \<Rightarrow>
          if length peers < unat expected then (bt_insert cid (startup_peer_new now) peers, [])
          else (peers, [Disconnect cid])
      | Client_Disconnected cid \<Rightarrow> (bt_remove cid peers, []))"

fun startup_events ::
  "u32 \<Rightarrow> nat \<Rightarrow> server_event list \<Rightarrow> peers \<Rightarrow> peers \<times> server_action list" where
  "startup_events expected now [] peers = (peers, [])"
| "startup_events expected now (ev # evs) peers =
     (let (peers, acts) = startup_event expected now ev peers;
          (peers, rest) = startup_events expected now evs peers
      in (peers, acts @ rest))"

text \<open>The messages of one peer; the flag tells that one of them was invalid.\<close>

fun startup_messages ::
  "bincode \<Rightarrow> (nat \<Rightarrow> bool) \<Rightarrow> save_metadata \<Rightarrow> nat \<Rightarrow> byte list list \<Rightarrow> startup_peer \<Rightarrow> startup_peer \<times> bool" where
  "startup_messages bc al meta now [] p = (p, False)"
| "startup_messages bc al meta now (bs # msgs) p =
     (case decode_client_message bc al bs of
        Inl _ \<Rightarrow> (p, True)
      | Inr msg \<Rightarrow>
          (case receive_startup msg meta now p of
             (p, Inl _) \<Rightarrow> (p, True)
           | (p, Inr _) \<Rightarrow> startup_messages bc al meta now msgs p))"

definition startup_peer_round ::
  "bincode \<Rightarrow> (nat \<Rightarrow> bool) \<Rightarrow> byte list \<Rightarrow> save_metadata \<Rightarrow> peer_round \<Rightarrow> u64 \<Rightarrow> startup_peer \<Rightarrow>
   startup_peer \<times> server_action list" where
  "startup_peer_round bc al save meta pr cid p =
     (let (p, sent) = pump bc (pr_link pr) save meta p;
          (p, bad) = startup_messages bc al meta (pr_now pr) (pr_messages pr) p;
          invalid = (bad \<or> pr_desync pr)
      in (p, map (\<lambda>m. Send cid channel_save (enc_save bc m)) sent @
             (if invalid \<or> timed_out (pr_now pr) p then [Disconnect cid] else [])))"

fun startup_peers ::
  "bincode \<Rightarrow> (nat \<Rightarrow> bool) \<Rightarrow> byte list \<Rightarrow> save_metadata \<Rightarrow> (u64 \<Rightarrow> peer_round) \<Rightarrow> peers \<Rightarrow>
   peers \<times> server_action list" where
  "startup_peers bc al save meta prs [] = ([], [])"
| "startup_peers bc al save meta prs ((cid, p) # peers) =
     (let (p, acts) = startup_peer_round bc al save meta (prs cid) cid p;
          (peers, rest) = startup_peers bc al save meta prs peers
      in ((cid, p) # peers, acts @ rest))"

record waiting =
  w_peers :: peers
  w_published :: "nat option"
  w_control :: session_control

datatype wait_outcome = Wait_More | Wait_Started "(u64 \<times> u64) list"

definition ready_count :: "peers \<Rightarrow> nat" where
  "ready_count peers = length (filter (\<lambda>(_, p). is_ready p) peers)"

definition wait_round ::
  "bincode \<Rightarrow> (nat \<Rightarrow> bool) \<Rightarrow> u32 \<Rightarrow> byte list \<Rightarrow> save_metadata \<Rightarrow> wait_env \<Rightarrow> waiting \<Rightarrow>
   waiting \<times> server_action list \<times> wait_outcome session_result" where
  "wait_round bc al expected save meta env w =
     (case update_network (we_transport env) of
        Inl e \<Rightarrow> (w, [], Inl e)
      | Inr _ \<Rightarrow>
          (let (peers, acts1) = startup_events expected (we_connect_now env) (we_events env) (w_peers w) in
           case drain_local (we_local env) False of
             Inl e \<Rightarrow> (w\<lparr>w_peers := peers\<rparr>, acts1, Inl e)
           | Inr _ \<Rightarrow>
               let (peers, acts2) = startup_peers bc al save meta (we_peer env) peers;
                   peers = filter (\<lambda>(cid, _). we_connected env cid) peers;
                   ready = ready_count peers;
                   w = (if w_published w \<noteq> Some ready
                        then w\<lparr>w_peers := peers, w_published := Some ready,
                               w_control := publish_status (Waiting ready (unat expected)) (w_control w)\<rparr>
                        else w\<lparr>w_peers := peers\<rparr>)
               in if ready = unat expected
                  then (w, acts1 @ acts2 @
                          [Broadcast channel_lockstep (enc_server bc (Start (meta_tick meta) (meta_hash meta))),
                           Send_Packets],
                        Inr (Wait_Started (map (\<lambda>(cid, _). (cid, meta_tick meta)) peers)))
                  else (w, acts1 @ acts2 @ [Send_Packets], Inr Wait_More)))"

text \<open>The loop: per iteration, whether it was cancelled before and what it sees.\<close>

fun wait_for_clients ::
  "bincode \<Rightarrow> (nat \<Rightarrow> bool) \<Rightarrow> u32 \<Rightarrow> byte list \<Rightarrow> save_metadata \<Rightarrow> (bool \<times> wait_env) list \<Rightarrow> waiting \<Rightarrow>
   (waiting \<times> server_action list \<times> (u64 \<times> u64) list session_result) option" where
  "wait_for_clients bc al expected save meta [] w = None"
| "wait_for_clients bc al expected save meta ((stop, env) # rounds) w =
     (if stop then Some (w, [], Inr [])
      else case wait_round bc al expected save meta env w of
        (w, acts, Inl e) \<Rightarrow> Some (w, acts, Inl e)
      | (w, acts, Inr (Wait_Started vs)) \<Rightarrow> Some (w, acts, Inr vs)
      | (w, acts, Inr Wait_More) \<Rightarrow>
          map_option (\<lambda>(w, rest, res). (w, acts @ rest, res))
            (wait_for_clients bc al expected save meta rounds w))"

section \<open>Verification of reported fingerprints\<close>

definition verify_hash ::
  "desync_hash \<Rightarrow> u64 \<Rightarrow> u64 \<Rightarrow> (u64 \<times> u64) list \<Rightarrow> u64 \<Rightarrow> u64 session_result" where
  "verify_hash report current verified hashes interval =
     (if report_tick report \<le> verified \<or> report_tick report > current
         \<or> report_tick report mod interval \<noteq> 0
      then Inl (Protocol ''invalid hash tick'')
      else and_then (ok_or (Protocol ''hash outside retained history'')
             (map_of hashes (report_tick report))) (\<lambda>expected.
           if expected \<noteq> report_hash report then Inl (Desync ''client'')
           else Inr (report_tick report)))"

definition is_desync :: "session_error \<Rightarrow> bool" where
  "is_desync e = (case e of Desync _ \<Rightarrow> True | _ \<Rightarrow> False)"

text \<open>The result carries the new verified tick and the transport calls.\<close>

definition handle_hash_report ::
  "bincode \<Rightarrow> (nat \<Rightarrow> bool) \<Rightarrow> u64 \<Rightarrow> byte list \<Rightarrow> u64 \<Rightarrow> u64 \<Rightarrow> (u64 \<times> u64) list \<Rightarrow> desync_policy \<Rightarrow> u64 \<Rightarrow>
   (u64 \<times> server_action list) session_result" where
  "handle_hash_report bc al cid bytes current verified hashes policy interval =
     (case and_then (map_err (\<lambda>_. Protocol ''hash report'') (decode_desync_hash bc al bytes))
             (\<lambda>report. verify_hash report current verified hashes interval) of
        Inl e \<Rightarrow>
          if policy = FailFast \<and> is_desync e then Inl e else Inr (verified, [Disconnect cid])
      | Inr v \<Rightarrow> Inr (v, []))"

definition enforce_verification_deadline :: "u64 \<Rightarrow> u64 \<Rightarrow> u64 \<Rightarrow> u64 \<Rightarrow> server_action list" where
  "enforce_verification_deadline cid current verified history_window =
     (if saturating_sub current verified > history_window then [Disconnect cid] else [])"

section \<open>The tick loop\<close>

record client_round =
  cr_id :: u64
  cr_lockstep :: "byte list list"
  cr_desync :: "byte list list"

record tick_env =
  te_transport :: "string option"
  te_events :: "server_event list"
  te_clients :: "client_round list"
  te_local :: "recv list option"

record 's authority =
  au_sim :: 's
  au_writer :: "replay_writer option"
  au_verified :: "(u64 \<times> u64) list"
  au_hashes :: "(u64 \<times> u64) list"

text \<open>
  A round's inputs so far: the byte account and the commands.  An error while gathering
  ends the session; the transport calls made before it in the round are not kept.
\<close>

type_synonym gathered = "nat \<times> command list"

definition live_event ::
  "server_event \<Rightarrow> (u64 \<times> u64) list \<Rightarrow> (u64 \<times> u64) list \<times> server_action list" where
  "live_event ev verified =
     (case ev of
        Client_Connected cid \<Rightarrow> (verified, [Disconnect cid])
      | Client_Disconnected cid \<Rightarrow> (bt_remove cid verified, []))"

fun live_events ::
  "server_event list \<Rightarrow> (u64 \<times> u64) list \<Rightarrow> (u64 \<times> u64) list \<times> server_action list" where
  "live_events [] verified = (verified, [])"
| "live_events (ev # evs) verified =
     (let (verified, acts) = live_event ev verified;
          (verified, rest) = live_events evs verified
      in (verified, acts @ rest))"

fun live_messages ::
  "bincode \<Rightarrow> (nat \<Rightarrow> bool) \<Rightarrow> 's session_sim \<Rightarrow> 's \<Rightarrow> u64 \<Rightarrow> byte list list \<Rightarrow> gathered \<Rightarrow>
   (gathered \<times> server_action list) session_result" where
  "live_messages bc al sim s cid [] g = Inr (g, [])"
| "live_messages bc al sim s cid (bs # msgs) (acc, cs) =
     (case decode_client_message bc al bs of
        Inr (Input event) \<Rightarrow>
          (case sim_validate_command sim s event of
             Inl _ \<Rightarrow> Inr ((acc, cs), [Disconnect cid])
           | Inr _ \<Rightarrow>
               and_then (account_input acc (length event)) (\<lambda>acc.
               live_messages bc al sim s cid msgs
                 (acc, cs @ [\<lparr>participant = Remote cid, payload = event\<rparr>])))
      | _ \<Rightarrow> Inr ((acc, cs), [Disconnect cid]))"

fun hash_reports ::
  "bincode \<Rightarrow> (nat \<Rightarrow> bool) \<Rightarrow> u64 \<Rightarrow> byte list list \<Rightarrow> u64 \<Rightarrow> u64 \<Rightarrow> (u64 \<times> u64) list \<Rightarrow> desync_policy \<Rightarrow> u64 \<Rightarrow>
   (u64 \<times> server_action list) session_result" where
  "hash_reports bc al cid [] current verified hashes policy interval = Inr (verified, [])"
| "hash_reports bc al cid (bs # msgs) current verified hashes policy interval =
     and_then (handle_hash_report bc al cid bs current verified hashes policy interval) (\<lambda>(verified, acts).
     and_then (hash_reports bc al cid msgs current verified hashes policy interval) (\<lambda>(verified, rest).
     Inr (verified, acts @ rest)))"

definition process_client ::
  "bincode \<Rightarrow> (nat \<Rightarrow> bool) \<Rightarrow> 's session_sim \<Rightarrow> 's \<Rightarrow> desync_policy \<Rightarrow> (u64 \<times> u64) list \<Rightarrow> client_round \<Rightarrow>
   (u64 \<times> u64) list \<times> gathered \<Rightarrow> ((u64 \<times> u64) list \<times> gathered \<times> server_action list) session_result" where
  "process_client bc al sim s policy hashes cr vg =
     (let (verified, g) = vg; cid = cr_id cr; current = sim_current_tick sim s in
      case map_of verified cid of
        None \<Rightarrow> Inr (verified, g, [])
      | Some seen \<Rightarrow>
          and_then (live_messages bc al sim s cid (cr_lockstep cr) g) (\<lambda>(g, acts1).
          and_then (hash_reports bc al cid (cr_desync cr) current seen hashes policy
                      (sim_hash_interval sim s)) (\<lambda>(seen, acts2).
          Inr (bt_insert cid seen verified, g,
               acts1 @ acts2 @
               enforce_verification_deadline cid current seen (sim_hash_interval sim s * 10)))))"

fun process_clients ::
  "bincode \<Rightarrow> (nat \<Rightarrow> bool) \<Rightarrow> 's session_sim \<Rightarrow> 's \<Rightarrow> desync_policy \<Rightarrow> (u64 \<times> u64) list \<Rightarrow> client_round list \<Rightarrow>
   (u64 \<times> u64) list \<times> gathered \<Rightarrow> ((u64 \<times> u64) list \<times> gathered \<times> server_action list) session_result" where
  "process_clients bc al sim s policy hashes [] (verified, g) = Inr (verified, g, [])"
| "process_clients bc al sim s policy hashes (cr # crs) vg =
     and_then (process_client bc al sim s policy hashes cr vg) (\<lambda>(verified, g, acts).
     and_then (process_clients bc al sim s policy hashes crs (verified, g)) (\<lambda>(verified, g, rest).
     Inr (verified, g, acts @ rest)))"

fun host_inputs :: "'s session_sim \<Rightarrow> 's \<Rightarrow> byte list list \<Rightarrow> gathered \<Rightarrow> gathered session_result" where
  "host_inputs sim s [] g = Inr g"
| "host_inputs sim s (bs # rest) (acc, cs) =
     and_then (sim_validate_command sim s bs) (\<lambda>_.
     and_then (account_input acc (length bs)) (\<lambda>acc.
     host_inputs sim s rest (acc, cs @ [\<lparr>participant = Host, payload = bs\<rparr>])))"

text \<open>Everything after the inputs are gathered: record, broadcast, advance, fingerprint.\<close>

definition keep_hash :: "u64 \<Rightarrow> u64 \<Rightarrow> u64 \<times> u64 \<Rightarrow> bool" where
  "keep_hash now span e \<longleftrightarrow> saturating_sub now (fst e) \<le> span"

definition flush_writer :: "replay_writer option \<Rightarrow> replay_writer option \<times> (io_error + unit)" where
  "flush_writer w =
     (case w of None \<Rightarrow> (None, Inr ()) | Some w \<Rightarrow> (let (w, res) = flush w in (Some w, res)))"

definition fingerprint_tick ::
  "'s session_sim \<Rightarrow> u64 \<Rightarrow> 's authority \<Rightarrow> 's authority \<times> unit session_result" where
  "fingerprint_tick sim t a =
     (let interval = sim_hash_interval sim (au_sim a) in
      if t mod interval \<noteq> 0 then (a, Inr ())
      else case sim_state_hash sim (au_sim a) of
        Inl e \<Rightarrow> (a, Inl e)
      | Inr h \<Rightarrow>
          let a = a\<lparr>au_hashes := filter (keep_hash t (interval * 10)) (bt_insert t h (au_hashes a))\<rparr>;
              (w, res) = flush_writer (au_writer a)
          in (a\<lparr>au_writer := w\<rparr>, map_err Io res))"

definition append_writer ::
  "bincode \<Rightarrow> tick_advance \<Rightarrow> replay_writer option \<Rightarrow> replay_writer option \<times> (io_error + unit)" where
  "append_writer bc adv w =
     (case w of
        None \<Rightarrow> (None, Inr ())
      | Some w \<Rightarrow> (let (w, res) = append_record bc adv w in (Some w, res)))"

definition commit_tick ::
  "bincode \<Rightarrow> 's session_sim \<Rightarrow> tick_advance \<Rightarrow> 's authority \<Rightarrow>
   's authority \<times> server_action list \<times> unit session_result" where
  "commit_tick bc sim adv a =
     (let encoded = enc_server bc (Tick adv) in
      if length encoded > max_replay_record_bytes
      then (a, [], Inl (Protocol ''tick byte budget exceeded''))
      else case append_writer bc adv (au_writer a) of
        (w, Inl e) \<Rightarrow> (a\<lparr>au_writer := w\<rparr>, [], Inl (Io e))
      | (w, Inr _) \<Rightarrow>
          (let (s, res) = advance_tick sim adv Live (au_sim a);
               a = a\<lparr>au_sim := s, au_writer := w\<rparr>
           in case res of
                Inl e \<Rightarrow> (a, [Broadcast channel_lockstep encoded], Inl e)
              | Inr _ \<Rightarrow>
                  (case fingerprint_tick sim (tick adv) a of
                     (a, Inl e) \<Rightarrow> (a, [Broadcast channel_lockstep encoded], Inl e)
                   | (a, Inr _) \<Rightarrow> (a, [Broadcast channel_lockstep encoded, Send_Packets], Inr ()))))"

definition gather_inputs ::
  "bincode \<Rightarrow> (nat \<Rightarrow> bool) \<Rightarrow> 's session_sim \<Rightarrow> desync_policy \<Rightarrow> tick_env \<Rightarrow> 's authority \<Rightarrow>
   ((u64 \<times> u64) list \<times> command list \<times> server_action list) session_result" where
  "gather_inputs bc al sim policy env a =
     and_then (update_network (te_transport env)) (\<lambda>_.
     let (verified, acts1) = live_events (te_events env) (au_verified a) in
     and_then (process_clients bc al sim (au_sim a) policy (au_hashes a) (te_clients env) (verified, (0, [])))
       (\<lambda>(verified, g, acts2).
     and_then (drain_local (te_local env) True) (\<lambda>events.
     and_then (host_inputs sim (au_sim a) events g) (\<lambda>(acc, cs).
     Inr (verified, cs, acts1 @ acts2)))))"

definition tick_round ::
  "bincode \<Rightarrow> (nat \<Rightarrow> bool) \<Rightarrow> 's session_sim \<Rightarrow> desync_policy \<Rightarrow> tick_env \<Rightarrow> 's authority \<Rightarrow>
   's authority \<times> server_action list \<times> unit session_result" where
  "tick_round bc al sim policy env a =
     (case gather_inputs bc al sim policy env a of
        Inl e \<Rightarrow> (a, [], Inl e)
      | Inr (verified, cs, acts) \<Rightarrow>
          let a = a\<lparr>au_verified := verified\<rparr> in
          case checked_add (sim_current_tick sim (au_sim a)) 1 of
            None \<Rightarrow> (a, acts, Inl (Protocol ''tick exhausted''))
          | Some t \<Rightarrow>
              let (a, rest, res) = commit_tick bc sim \<lparr>tick = t, inputs = cs\<rparr> a
              in (a, acts @ rest, res))"

fun tick_loop ::
  "bincode \<Rightarrow> (nat \<Rightarrow> bool) \<Rightarrow> 's session_sim \<Rightarrow> desync_policy \<Rightarrow> (bool \<times> tick_env) list \<Rightarrow> 's authority \<Rightarrow>
   ('s authority \<times> server_action list \<times> unit session_result) option" where
  "tick_loop bc al sim policy [] a = None"
| "tick_loop bc al sim policy ((stop, env) # rounds) a =
     (if stop then Some (a, [], Inr ())
      else case tick_round bc al sim policy env a of
        (a, acts, Inl e) \<Rightarrow> Some (a, acts, Inl e)
      | (a, acts, Inr _) \<Rightarrow>
          map_option (\<lambda>(a, rest, res). (a, acts @ rest, res)) (tick_loop bc al sim policy rounds a))"

section \<open>The session\<close>

record server_cfg =
  cfg_tick_duration :: nat
  cfg_expected :: u32
  cfg_load_path :: "string option"
  cfg_record_path :: "string option"
  cfg_desync_policy :: desync_policy

text \<open>One iteration of the loading loop; \<open>le_elapsed\<close> tells that a second has passed.\<close>

record load_env =
  le_stop :: bool
  le_local :: "recv list option"
  le_batch :: "observation list"
  le_elapsed :: bool

record 's loading =
  ld_run :: "'s replay_run"
  ld_control :: session_control

definition loading_status :: "u64 \<Rightarrow> session_status" where
  "loading_status t = Loading LoadingSave t"

text \<open>The loop's result tells whether it was cancelled.\<close>

fun load_loop ::
  "bincode \<Rightarrow> (nat \<Rightarrow> bool) \<Rightarrow> 's session_sim \<Rightarrow> load_env list \<Rightarrow> 's loading \<Rightarrow>
   ('s loading \<times> bool session_result) option" where
  "load_loop bc al sim [] l = None"
| "load_loop bc al sim (env # rounds) l =
     (if le_stop env then Some (l, Inr True)
      else case drain_local (le_local env) False of
        Inl e \<Rightarrow> Some (l, Inl e)
      | Inr _ \<Rightarrow>
          (let (r, res) = replay_batch bc al sim (le_batch env) (ld_run l);
               l = l\<lparr>ld_run := r\<rparr>
           in case res of
                Inl e \<Rightarrow> Some (l, Inl e)
              | Inr batch \<Rightarrow>
                  let l = (if le_elapsed env
                           then l\<lparr>ld_control := publish_status
                                  (loading_status (sim_current_tick sim (run_state r))) (ld_control l)\<rparr>
                           else l)
                  in if finished batch then Some (l, Inr False) else load_loop bc al sim rounds l))"

text \<open>
  What a session sees: its loading rounds, whether it was cancelled after them, the
  bytes of the save file, the bound socket, its barrier rounds, whether it was cancelled
  after them, and its ticks.
\<close>

record session_env =
  se_load :: "load_env list"
  se_stop_loaded :: bool
  se_read :: "string \<Rightarrow> io_error + byte list"
  se_bind :: "unit session_result"
  se_wait :: "(bool \<times> wait_env) list"
  se_stop_ready :: bool
  se_ticks :: "(bool \<times> tick_env) list"

record 's session_state =
  ss_sim :: 's
  ss_writer :: "replay_writer option"
  ss_control :: session_control

type_synonym 's session_run = "'s session_state \<times> server_action list \<times> unit session_result"

definition save_bytes ::
  "bincode \<Rightarrow> 's session_sim \<Rightarrow> server_cfg \<Rightarrow> session_env \<Rightarrow> 's \<Rightarrow> byte list session_result" where
  "save_bytes bc sim cfg env s =
     (case (case cfg_record_path cfg of Some path \<Rightarrow> Some path | None \<Rightarrow> cfg_load_path cfg) of
        Some path \<Rightarrow> map_err Io (se_read env path)
      | None \<Rightarrow> Inr (enc_header bc (sim_header sim s)))"

definition session_metadata ::
  "'s session_sim \<Rightarrow> byte list \<Rightarrow> 's \<Rightarrow> save_metadata session_result" where
  "session_metadata sim save s =
     (if length save \<ge> 2 ^ 64 then Inl (Protocol ''save length exceeds u64'')
      else and_then (sim_state_hash sim s) (\<lambda>h.
        Inr \<lparr>total_bytes = word_of_nat (length save), meta_tick = sim_current_tick sim s, meta_hash = h\<rparr>))"

text \<open>The closure that waits for the clients and runs the ticks; every exit disconnects all.\<close>

definition serve ::
  "bincode \<Rightarrow> (nat \<Rightarrow> bool) \<Rightarrow> 's session_sim \<Rightarrow> server_cfg \<Rightarrow> session_env \<Rightarrow> byte list \<Rightarrow> save_metadata \<Rightarrow>
   's session_state \<Rightarrow> 's session_run option" where
  "serve bc al sim cfg env save meta st =
     (case wait_for_clients bc al (cfg_expected cfg) save meta (se_wait env)
             \<lparr>w_peers = [], w_published = None, w_control = ss_control st\<rparr> of
        None \<Rightarrow> None
      | Some (w, acts, res) \<Rightarrow>
          (let st = st\<lparr>ss_control := w_control w\<rparr> in
           case res of
             Inl e \<Rightarrow> Some (st, acts, Inl e)
           | Inr participants \<Rightarrow>
               if se_stop_ready env then Some (st, acts, Inr ())
               else
                 let (s, res) = sim_publish sim (ss_sim st); st = st\<lparr>ss_sim := s\<rparr> in
                 case res of
                   Inl e \<Rightarrow> Some (st, acts, Inl e)
                 | Inr _ \<Rightarrow>
                     let st = st\<lparr>ss_control := publish_status Live_Status (ss_control st)\<rparr> in
                     map_option (\<lambda>(a, rest, res).
                         (st\<lparr>ss_sim := au_sim a, ss_writer := au_writer a\<rparr>, acts @ rest, res))
                       (tick_loop bc al sim (cfg_desync_policy cfg) (se_ticks env)
                         \<lparr>au_sim = ss_sim st, au_writer = ss_writer st, au_verified = participants,
                          au_hashes = []\<rparr>)))"

definition after_load ::
  "bincode \<Rightarrow> (nat \<Rightarrow> bool) \<Rightarrow> 's session_sim \<Rightarrow> server_cfg \<Rightarrow> session_env \<Rightarrow> 's session_state \<Rightarrow>
   's session_run option" where
  "after_load bc al sim cfg env st =
     (if se_stop_loaded env then Some (st, [], Inr ())
      else
        let (w, res) = flush_writer (ss_writer st); st = st\<lparr>ss_writer := w\<rparr> in
        case and_then (map_err Io res) (\<lambda>_.
             and_then (save_bytes bc sim cfg env (ss_sim st)) (\<lambda>save.
             and_then (session_metadata sim save (ss_sim st)) (\<lambda>meta.
             and_then (se_bind env) (\<lambda>_. Inr (save, meta))))) of
          Inl e \<Rightarrow> Some (st, [], Inl e)
        | Inr (save, meta) \<Rightarrow>
            map_option (\<lambda>(st, acts, res). (st, acts @ [Disconnect_All], res))
              (serve bc al sim cfg env save meta st))"

definition run_session ::
  "bincode \<Rightarrow> (nat \<Rightarrow> bool) \<Rightarrow> 's session_sim \<Rightarrow> server_cfg \<Rightarrow> session_env \<Rightarrow> source option \<Rightarrow>
   's session_state \<Rightarrow> 's session_run option" where
  "run_session bc al sim cfg env src st =
     (case src of
        None \<Rightarrow> after_load bc al sim cfg env st
      | Some source \<Rightarrow>
          (case load_loop bc al sim (se_load env)
                  \<lparr>ld_run = \<lparr>run_state = ss_sim st, run_source = source, run_mirror = ss_writer st\<rparr>,
                   ld_control = publish_status (loading_status 0) (ss_control st)\<rparr> of
             None \<Rightarrow> None
           | Some (l, res) \<Rightarrow>
               (let st = \<lparr>ss_sim = run_state (ld_run l), ss_writer = run_mirror (ld_run l),
                          ss_control = ld_control l\<rparr>
                in case res of
                     Inl e \<Rightarrow> Some (st, [], Inl e)
                   | Inr True \<Rightarrow> Some (st, [], Inr ())
                   | Inr False \<Rightarrow> after_load bc al sim cfg env st)))"

text \<open>
  \<open>run_server\<close>: validation, the header, initialization, the recording, the session, and
  the final flush, whose failure replaces the session's result.
\<close>

definition final_flush :: "'s session_run \<Rightarrow> 's session_run" where
  "final_flush run =
     (case run of (st, acts, res) \<Rightarrow>
        (case flush_writer (ss_writer st) of
           (w, Inl e) \<Rightarrow> (st\<lparr>ss_writer := w\<rparr>, acts, Inl (Io e))
         | (w, Inr _) \<Rightarrow> (st\<lparr>ss_writer := w\<rparr>, acts, res)))"

definition run_server ::
  "bincode \<Rightarrow> (nat \<Rightarrow> bool) \<Rightarrow> (string \<rightharpoonup> byte list) \<Rightarrow> source \<Rightarrow> replay_writer \<Rightarrow> 's session_sim \<Rightarrow>
   server_cfg \<Rightarrow> session_env \<Rightarrow> 's \<Rightarrow> session_control \<Rightarrow> 's session_run option" where
  "run_server bc al fs file blank sim cfg env s ctl =
     (let st = \<lparr>ss_sim = s, ss_writer = None, ss_control = ctl\<rparr> in
      case and_then (validate_tick_duration (cfg_tick_duration cfg)) (\<lambda>_.
           if cfg_expected cfg > 1024 then Inl (Configuration ''Renet supports at most 1024 clients'')
           else case cfg_load_path cfg of
             None \<Rightarrow> Inr (None, sim_header sim s)
           | Some path \<Rightarrow> and_then (map_err Io (open_log bc al fs file path)) (\<lambda>reader.
               Inr (Some (inner reader), header reader))) of
        Inl e \<Rightarrow> Some (st, [], Inl e)
      | Inr (src, h) \<Rightarrow>
          (let cfg = cfg\<lparr>cfg_tick_duration := unat (tick_nanos h)\<rparr>;
               (s, res) = sim_initialize sim h s;
               st = st\<lparr>ss_sim := s\<rparr>
           in case and_then res (\<lambda>_.
                case cfg_record_path cfg of
                  None \<Rightarrow> Inr None
                | Some path \<Rightarrow> map_err Io (and_then (create bc fs blank path h) (\<lambda>w. Inr (Some w)))) of
                Inl e \<Rightarrow> Some (st, [], Inl e)
              | Inr w \<Rightarrow>
                  map_option final_flush
                    (run_session bc al sim cfg env src (st\<lparr>ss_writer := w\<rparr>))))"

end
