(* ===== verification/Authority.thy ===== *)
theory Authority
  imports Run_Server
begin

text \<open>
  What the authority of \<^verbatim>\<open>run_server.rs\<close> guarantees: the budget and the origin of a tick's
  inputs, the startup barrier, and, for whole runs of the tick loop, that recording and
  broadcasts carry the executed records and that the retained fingerprints are exactly the
  ones an on-time replica can be asked for.
\<close>

section \<open>Inputs of a tick\<close>

definition accounted :: "gathered \<Rightarrow> bool" where
  "accounted g \<longleftrightarrow>
     fst g = sum_list (map (\<lambda>c. length (payload c) + 32) (snd g)) \<and> fst g \<le> max_replay_record_bytes"

lemma account_input_Inr [res_simps]:
  "account_input acc n = Inr acc' \<longleftrightarrow> acc' = acc + n + 32 \<and> acc + n + 32 \<le> max_replay_record_bytes"
proof -
  have "max_replay_record_bytes \<le> usize_max"
    by (simp add: max_replay_record_bytes_def usize_max_def)
  then show ?thesis
    by (auto simp: account_input_def res_simps usize_checked_add_def bind_eq_Some_conv split: if_splits)
qed

lemma accounted_Nil [simp]: "accounted (0, [])"
  by (simp add: accounted_def)

lemma accounted_snoc:
  "accounted (acc, cs) \<Longrightarrow> account_input acc (length (payload c)) = Inr acc' \<Longrightarrow> accounted (acc', cs @ [c])"
  by (simp add: accounted_def res_simps)

text \<open>A remote command is one its own connection sent; the simulation accepted it.\<close>

definition remote_input ::
  "bincode \<Rightarrow> (nat \<Rightarrow> bool) \<Rightarrow> 's session_sim \<Rightarrow> 's \<Rightarrow> client_round list \<Rightarrow> command \<Rightarrow> bool" where
  "remote_input bc al sim s crs c \<longleftrightarrow>
     (\<exists>cr \<in> set crs. participant c = Remote (cr_id cr) \<and>
        (\<exists>bs \<in> set (cr_lockstep cr). decode_client_message bc al bs = Inr (Input (payload c)))) \<and>
     sim_validate_command sim s (payload c) = Inr ()"

lemma live_messages_Inr:
  "live_messages bc al sim s (cr_id cr) msgs (acc, cs) = Inr ((acc', cs'), acts) \<Longrightarrow>
     accounted (acc, cs) \<Longrightarrow> set msgs \<subseteq> set (cr_lockstep cr) \<Longrightarrow>
     accounted (acc', cs') \<and>
     (\<exists>new. cs' = cs @ new \<and> (\<forall>c \<in> set new. remote_input bc al sim s [cr] c))"
proof (induction bc al sim s "cr_id cr" msgs "(acc, cs)" arbitrary: acc cs acts
    rule: live_messages.induct)
  case (2 bc al sim s bs msgs acc cs)
  show ?case
  proof (cases "\<exists>event. decode_client_message bc al bs = Inr (Input event) \<and>
      sim_validate_command sim s event = Inr ()")
    case True
    then obtain event where e: "decode_client_message bc al bs = Inr (Input event)"
      "sim_validate_command sim s event = Inr ()" by blast
    then obtain acc1 where a: "account_input acc (length event) = Inr acc1"
      and rest: "live_messages bc al sim s (cr_id cr) msgs
        (acc1, cs @ [\<lparr>participant = Remote (cr_id cr), payload = event\<rparr>]) = Inr ((acc', cs'), acts)"
      using 2(2) by (auto simp: and_then_Inr)
    let ?c = "\<lparr>participant = Remote (cr_id cr), payload = event\<rparr>"
    have "accounted (acc1, cs @ [?c])" using 2(3) a by (intro accounted_snoc) simp_all
    then obtain new where "accounted (acc', cs')" "cs' = (cs @ [?c]) @ new"
      "\<forall>c \<in> set new. remote_input bc al sim s [cr] c"
      using 2(1) [OF e(1) refl e(2) a rest] 2(4) by auto
    moreover have "remote_input bc al sim s [cr] ?c"
      using e 2(4) by (auto simp: remote_input_def)
    ultimately show ?thesis by (intro conjI exI [of _ "?c # new"]) auto
  next
    case False
    then show ?thesis
      using 2(2,3) by (auto split: sum.splits client_message.splits)
  qed
qed auto

lemma remote_input_mono:
  "remote_input bc al sim s crs c \<Longrightarrow> set crs \<subseteq> set crs' \<Longrightarrow> remote_input bc al sim s crs' c"
  unfolding remote_input_def by blast

lemma process_client_Inr:
  assumes "process_client bc al sim s policy hashes cr (verified, acc, cs) =
      Inr (verified', (acc', cs'), acts)" "accounted (acc, cs)"
  shows "accounted (acc', cs') \<and>
    (\<exists>new. cs' = cs @ new \<and>
       (\<forall>c \<in> set new. remote_input bc al sim s [cr] c \<and> cr_id cr \<in> fst ` set verified))"
proof (cases "map_of verified (cr_id cr)")
  case None
  then show ?thesis using assms by (simp add: process_client_def)
next
  case (Some seen)
  then obtain acts1 where
    "live_messages bc al sim s (cr_id cr) (cr_lockstep cr) (acc, cs) = Inr ((acc', cs'), acts1)"
    using assms by (auto simp: process_client_def res_simps Let_def)
  from live_messages_Inr [OF this assms(2) subset_refl]
  show ?thesis using Some by (force dest: map_of_SomeD)
qed

lemma keys_process_client:
  assumes "process_client bc al sim s policy hashes cr (verified, g) = Inr (verified', g', acts)"
  shows "fst ` set verified' = fst ` set verified"
proof (cases "map_of verified (cr_id cr)")
  case None
  then show ?thesis using assms by (simp add: process_client_def)
next
  case (Some seen)
  then have "cr_id cr \<in> fst ` set verified" by (force dest: map_of_SomeD)
  moreover have "\<exists>v. verified' = bt_insert (cr_id cr) v verified"
    using assms Some by (auto simp: process_client_def Let_def res_simps)
  ultimately show ?thesis by (elim exE) (simp add: insert_absorb)
qed

lemma process_clients_Inr:
  "process_clients bc al sim s policy hashes crs (verified, acc, cs) =
      Inr (verified', (acc', cs'), acts) \<Longrightarrow> accounted (acc, cs) \<Longrightarrow>
   accounted (acc', cs') \<and>
     (\<exists>new. cs' = cs @ new \<and>
       (\<forall>c \<in> set new. remote_input bc al sim s crs c \<and>
          (\<exists>cid \<in> fst ` set verified. participant c = Remote cid)))"
proof (induction crs arbitrary: verified acc cs acts)
  case (Cons cr crs)
  obtain v1 acc1 cs1 acts1 acts2 where
    one: "process_client bc al sim s policy hashes cr (verified, acc, cs) = Inr (v1, (acc1, cs1), acts1)"
    and rest: "process_clients bc al sim s policy hashes crs (v1, acc1, cs1) =
      Inr (verified', (acc', cs'), acts2)"
    using Cons.prems(1) by (auto simp: res_simps)
  obtain new1 where n1: "accounted (acc1, cs1)" "cs1 = cs @ new1"
    "\<forall>c \<in> set new1. remote_input bc al sim s [cr] c \<and> cr_id cr \<in> fst ` set verified"
    using process_client_Inr [OF one Cons.prems(2)] by blast
  obtain new2 where n2: "accounted (acc', cs')" "cs' = cs1 @ new2"
    "\<forall>c \<in> set new2. remote_input bc al sim s crs c \<and> (\<exists>cid \<in> fst ` set v1. participant c = Remote cid)"
    using Cons.IH [OF rest n1(1)] by blast
  have "remote_input bc al sim s (cr # crs) c \<and> (\<exists>cid \<in> fst ` set verified. participant c = Remote cid)"
    if "c \<in> set (new1 @ new2)" for c
  proof (cases "c \<in> set new1")
    case True
    then have r: "remote_input bc al sim s [cr] c" "cr_id cr \<in> fst ` set verified" using n1(3) by auto
    then have "participant c = Remote (cr_id cr)" by (auto simp: remote_input_def)
    with r show ?thesis by (auto intro: remote_input_mono)
  next
    case False
    then have "remote_input bc al sim s crs c" "\<exists>cid \<in> fst ` set verified. participant c = Remote cid"
      using that n2(3) keys_process_client [OF one] by auto
    then show ?thesis by (auto intro: remote_input_mono)
  qed
  then show ?case using n1(2) n2(1,2) by (intro conjI exI [of _ "new1 @ new2"]) auto
qed auto

definition host_input :: "'s session_sim \<Rightarrow> 's \<Rightarrow> byte list list \<Rightarrow> command \<Rightarrow> bool" where
  "host_input sim s events c \<longleftrightarrow>
     participant c = Host \<and> payload c \<in> set events \<and> sim_validate_command sim s (payload c) = Inr ()"

lemma host_inputs_Inr:
  "host_inputs sim s events (acc, cs) = Inr (acc', cs') \<Longrightarrow> accounted (acc, cs) \<Longrightarrow>
     accounted (acc', cs') \<and> (\<exists>new. cs' = cs @ new \<and> (\<forall>c \<in> set new. host_input sim s events c))"
proof (induction events arbitrary: acc cs)
  case (Cons bs events)
  let ?c = "\<lparr>participant = Host, payload = bs\<rparr>"
  obtain acc1 where v: "sim_validate_command sim s bs = Inr ()" "account_input acc (length bs) = Inr acc1"
    and rest: "host_inputs sim s events (acc1, cs @ [?c]) = Inr (acc', cs')"
    using Cons.prems(1) by (auto simp: and_then_Inr)
  have "accounted (acc1, cs @ [?c])"
    using Cons.prems(2) v by (intro accounted_snoc) simp_all
  from Cons.IH [OF rest this] obtain new where
    n: "accounted (acc', cs')" "cs' = (cs @ [?c]) @ new" "\<forall>c \<in> set new. host_input sim s events c"
    by blast
  then show ?case
    using v by (intro conjI exI [of _ "?c # new"]) (auto simp: host_input_def)
qed auto

text \<open>The local queue is emptied in order, up to 256 commands a round.\<close>

lemma drain_loop_Inr:
  "drain_loop n rs live = Inr events \<Longrightarrow> length events \<le> n \<and> (\<forall>bs \<in> set events. live \<and> Received bs \<in> set rs)"
proof (induction n rs live arbitrary: events rule: drain_loop.induct)
  case (1 n bs rs live)
  then obtain es where "drain_loop n rs live = Inr es" "events = (if live then bs # es else es)"
    by (auto simp: res_simps)
  with 1(1) [OF this(1)] show ?case by auto
qed auto

lemma drain_local_Inr:
  "drain_local receiver live = Inr events \<Longrightarrow>
     length events \<le> 256 \<and> (\<forall>bs \<in> set events. live \<and> (\<exists>rs. receiver = Some rs \<and> Received bs \<in> set rs))"
  by (auto simp: drain_local_def dest: drain_loop_Inr split: option.splits)

text \<open>Where a command of a tick comes from.\<close>

definition legitimate ::
  "bincode \<Rightarrow> (nat \<Rightarrow> bool) \<Rightarrow> 's session_sim \<Rightarrow> tick_env \<Rightarrow> 's authority \<Rightarrow> command \<Rightarrow> bool" where
  "legitimate bc al sim env a c \<longleftrightarrow>
     sim_validate_command sim (au_sim a) (payload c) = Inr () \<and>
     (case participant c of
        Host \<Rightarrow> \<exists>rs. te_local env = Some rs \<and> Received (payload c) \<in> set rs
      | Remote cid \<Rightarrow> cid \<in> fst ` set (au_verified a) \<and>
          (\<exists>cr \<in> set (te_clients env). cr_id cr = cid \<and>
             (\<exists>bs \<in> set (cr_lockstep cr). decode_client_message bc al bs = Inr (Input (payload c)))))"

lemma keys_live_events: "live_events evs verified = (verified', acts) \<Longrightarrow> fst ` set verified' \<subseteq> fst ` set verified"
proof (induction evs arbitrary: verified acts)
  case (Cons ev evs)
  obtain v1 acts1 acts2 where v: "live_event ev verified = (v1, acts1)" "live_events evs v1 = (verified', acts2)"
    using Cons.prems by (auto simp: Let_def split: prod.splits)
  have "fst ` set v1 \<subseteq> fst ` set verified"
    using v(1) by (auto simp: live_event_def bt_remove_def split: server_event.splits)
  then show ?case using Cons.IH [OF v(2)] by blast
qed auto

lemma gather_inputs_Inr:
  assumes "gather_inputs bc al sim policy env a = Inr (verified', cs, acts)"
  shows "sum_list (map (\<lambda>c. length (payload c) + 32) cs) \<le> max_replay_record_bytes"
    and "\<forall>c \<in> set cs. legitimate bc al sim env a c"
proof -
  obtain v0 acts1 v1 acc1 cs1 acts2 events acc where
    ev: "live_events (te_events env) (au_verified a) = (v0, acts1)"
    and pc: "process_clients bc al sim (au_sim a) policy (au_hashes a) (te_clients env) (v0, (0, [])) =
      Inr (v1, (acc1, cs1), acts2)"
    and dl: "drain_local (te_local env) True = Inr events"
    and hi: "host_inputs sim (au_sim a) events (acc1, cs1) = Inr (acc, cs)"
    using assms by (auto simp: gather_inputs_def Let_def res_simps split: prod.splits)
  obtain new1 where n1: "accounted (acc1, cs1)" "cs1 = new1"
    "\<forall>c \<in> set new1. remote_input bc al sim (au_sim a) (te_clients env) c \<and>
       (\<exists>cid \<in> fst ` set v0. participant c = Remote cid)"
    using process_clients_Inr [OF pc] by auto
  obtain new2 where n2: "accounted (acc, cs)" "cs = cs1 @ new2"
    "\<forall>c \<in> set new2. host_input sim (au_sim a) events c"
    using host_inputs_Inr [OF hi n1(1)] by blast
  show "sum_list (map (\<lambda>c. length (payload c) + 32) cs) \<le> max_replay_record_bytes"
    using n2(1) by (simp add: accounted_def)
  have "legitimate bc al sim env a c" if "c \<in> set new1" for c
  proof -
    note c = bspec [OF n1(3) that]
    then obtain cid where cid: "participant c = Remote cid" "cid \<in> fst ` set v0" by (elim conjE bexE)
    have "cid \<in> fst ` set (au_verified a)"
      using cid(2) by (rule subsetD [OF keys_live_events [OF ev]])
    with cid(1) c show ?thesis by (auto simp: legitimate_def remote_input_def)
  qed
  moreover have "legitimate bc al sim env a c" if "c \<in> set new2" for c
    using that n2(3) drain_local_Inr [OF dl] by (auto simp: legitimate_def host_input_def)
  ultimately show "\<forall>c \<in> set cs. legitimate bc al sim env a c"
    using n1(2) n2(2) by auto
qed

section \<open>One committed tick\<close>

text \<open>The record a round executes, when it gets that far.\<close>

definition tick_record ::
  "bincode \<Rightarrow> (nat \<Rightarrow> bool) \<Rightarrow> 's session_sim \<Rightarrow> desync_policy \<Rightarrow> tick_env \<Rightarrow> 's authority \<Rightarrow> tick_advance option" where
  "tick_record bc al sim policy env a =
     (case gather_inputs bc al sim policy env a of
        Inl _ \<Rightarrow> None
      | Inr (verified, cs, acts) \<Rightarrow>
          map_option (\<lambda>t. \<lparr>tick = t, inputs = cs\<rparr>) (checked_add (sim_current_tick sim (au_sim a)) 1))"

lemma fingerprint_tick_Inr:
  assumes "fingerprint_tick sim t a = (a', Inr ())"
  shows "au_sim a' = au_sim a" "au_verified a' = au_verified a"
    "map_option written (au_writer a') = map_option written (au_writer a)"
    "mirror_ok (au_writer a') = mirror_ok (au_writer a)"
    "if t mod sim_hash_interval sim (au_sim a) = 0
     then \<exists>h. sim_state_hash sim (au_sim a) = Inr h \<and> au_hashes a' =
            filter (keep_hash t (sim_hash_interval sim (au_sim a) * 10)) (bt_insert t h (au_hashes a))
     else au_hashes a' = au_hashes a"
  using assms
  by (auto simp: fingerprint_tick_def flush_writer_def flush_def Let_def mirror_ok_def reliable_def
      split: if_splits sum.splits option.splits prod.splits)

lemma commit_tick_Inr:
  assumes "commit_tick bc sim adv a = (a', acts, Inr ())"
  shows "advance_tick sim adv Live (au_sim a) = (au_sim a', Inr ())"
    "acts = [Broadcast channel_lockstep (enc_server bc (Tick adv)), Send_Packets]"
    "length (enc_server bc (Tick adv)) \<le> max_replay_record_bytes"
    "au_verified a' = au_verified a"
    "\<exists>w. append_writer bc adv (au_writer a) = (w, Inr ()) \<and>
       fingerprint_tick sim (tick adv) (a\<lparr>au_sim := au_sim a', au_writer := w\<rparr>) = (a', Inr ())"
proof -
  let ?enc = "enc_server bc (Tick adv)"
  have len: "length ?enc \<le> max_replay_record_bytes"
    using assms by (auto simp: commit_tick_def Let_def split: if_splits)
  then show "length ?enc \<le> max_replay_record_bytes" .
  obtain w where w: "append_writer bc adv (au_writer a) = (w, Inr ())"
    using assms len by (auto simp: commit_tick_def Let_def split: prod.splits sum.splits)
  obtain s where s: "advance_tick sim adv Live (au_sim a) = (s, Inr ())"
    using assms len w by (auto simp: commit_tick_def Let_def split: prod.splits sum.splits)
  have f: "fingerprint_tick sim (tick adv) (a\<lparr>au_sim := s, au_writer := w\<rparr>) = (a', Inr ()) \<and>
      acts = [Broadcast channel_lockstep ?enc, Send_Packets]"
    using assms len w s by (auto simp: commit_tick_def Let_def split: prod.splits sum.splits)
  then have "au_sim a' = s" "au_verified a' = au_verified a"
    using fingerprint_tick_Inr(1,2) by fastforce+
  then show "advance_tick sim adv Live (au_sim a) = (au_sim a', Inr ())"
    "au_verified a' = au_verified a"
    "acts = [Broadcast channel_lockstep ?enc, Send_Packets]"
    "\<exists>w. append_writer bc adv (au_writer a) = (w, Inr ()) \<and>
       fingerprint_tick sim (tick adv) (a\<lparr>au_sim := au_sim a', au_writer := w\<rparr>) = (a', Inr ())"
    using s w f by auto
qed

lemma fingerprint_tick_frame:
  assumes "fingerprint_tick sim t a = (a', res)"
  shows "au_sim a' = au_sim a" "map_option written (au_writer a') = map_option written (au_writer a)"
  using assms
  by (auto simp: fingerprint_tick_def flush_writer_def flush_def Let_def
      split: if_splits sum.splits option.splits prod.splits)

text \<open>The wire messages broadcast by a list of actions.\<close>

definition broadcasts :: "server_action list \<Rightarrow> byte list list" where
  "broadcasts acts = concat (map (\<lambda>act. case act of Broadcast ch bs \<Rightarrow> [bs] | _ \<Rightarrow> []) acts)"

lemma broadcasts_simps [simp]:
  "broadcasts [] = []" "broadcasts (as @ bs) = broadcasts as @ broadcasts bs"
  "broadcasts (Broadcast ch b # as) = b # broadcasts as"
  "broadcasts (Disconnect cid # as) = broadcasts as" "broadcasts (Send_Packets # as) = broadcasts as"
  by (simp_all add: broadcasts_def)

text \<open>A commit that fails early executes nothing; any other broadcasts the record it executes.\<close>

lemma commit_tick_cases:
  assumes "commit_tick bc sim adv a = (a', acts, res)"
  shows "(broadcasts acts = [] \<and> au_sim a' = au_sim a \<and> (\<exists>e. res = Inl e)) \<or>
    (broadcasts acts = [enc_server bc (Tick adv)] \<and>
     length (enc_server bc (Tick adv)) \<le> max_replay_record_bytes \<and>
     au_sim a' = fst (advance_tick sim adv Live (au_sim a)) \<and>
     (\<exists>w. append_writer bc adv (au_writer a) = (w, Inr ()) \<and>
        map_option written (au_writer a') = map_option written w) \<and>
     (res = Inr () \<longrightarrow> snd (advance_tick sim adv Live (au_sim a)) = Inr ()))"
proof (cases "length (enc_server bc (Tick adv)) > max_replay_record_bytes")
  case True
  then show ?thesis using assms by (auto simp: commit_tick_def)
next
  case False
  obtain w wr where w: "append_writer bc adv (au_writer a) = (w, wr)" by (cases "append_writer bc adv (au_writer a)")
  obtain s sr where s: "advance_tick sim adv Live (au_sim a) = (s, sr)" by (cases "advance_tick sim adv Live (au_sim a)")
  obtain a2 fr where f: "fingerprint_tick sim (tick adv) (a\<lparr>au_sim := s, au_writer := w\<rparr>) = (a2, fr)"
    by (cases "fingerprint_tick sim (tick adv) (a\<lparr>au_sim := s, au_writer := w\<rparr>)")
  note frame = fingerprint_tick_frame [OF f]
  show ?thesis
    using assms False w s f frame by (auto simp: commit_tick_def Let_def split: sum.splits)
qed

lemma append_writer_reliable:
  assumes "mirror_ok w" "append_writer bc adv w = (w', Inr ())" 
  shows "mirror_ok w'" "map_option written w' = map_option (\<lambda>r. written r @ record_bytes bc adv) w"
    "w \<noteq> None \<Longrightarrow> length (enc_tick bc adv) \<le> max_replay_record_bytes"
proof -
  show "mirror_ok w'" "w \<noteq> None \<Longrightarrow> length (enc_tick bc adv) \<le> max_replay_record_bytes"
    "map_option written w' = map_option (\<lambda>r. written r @ record_bytes bc adv) w"
    using assms
    by (auto simp: append_writer_def append_record_def mirror_ok_def Let_def write_all_reliable
        record_bytes_def split: option.splits if_splits prod.splits sum.splits)
qed

lemma tick_round_Inr:
  assumes "tick_round bc al sim policy env a = (a', acts, Inr ())"
  obtains adv verified gathered where "tick_record bc al sim policy env a = Some adv"
    "gather_inputs bc al sim policy env a = Inr (verified, inputs adv, gathered)"
    "checked_add (sim_current_tick sim (au_sim a)) 1 = Some (tick adv)"
    "commit_tick bc sim adv (a\<lparr>au_verified := verified\<rparr>) =
      (a', [Broadcast channel_lockstep (enc_server bc (Tick adv)), Send_Packets], Inr ())"
    "acts = gathered @ [Broadcast channel_lockstep (enc_server bc (Tick adv)), Send_Packets]"
proof -
  obtain verified cs gathered where g: "gather_inputs bc al sim policy env a = Inr (verified, cs, gathered)"
    using assms by (auto simp: tick_round_def split: sum.splits)
  obtain t where t: "checked_add (sim_current_tick sim (au_sim a)) 1 = Some t"
    using assms g by (auto simp: tick_round_def Let_def split: option.splits)
  let ?adv = "\<lparr>tick = t, inputs = cs\<rparr>"
  obtain rest where c: "commit_tick bc sim ?adv (a\<lparr>au_verified := verified\<rparr>) = (a', rest, Inr ())"
    "acts = gathered @ rest"
    using assms g t by (auto simp: tick_round_def Let_def split: prod.splits)
  show ?thesis
    using that [of ?adv verified gathered] g t c commit_tick_Inr(2) [OF c(1)]
    by (simp add: tick_record_def)
qed

text \<open>Gathering broadcasts nothing.\<close>

lemma broadcasts_live_messages:
  "live_messages bc al sim s cid msgs g = Inr (g', acts) \<Longrightarrow> broadcasts acts = []"
  by (induction bc al sim s cid msgs g arbitrary: g' acts rule: live_messages.induct)
    (auto simp: res_simps split: sum.splits client_message.splits)

lemma broadcasts_hash_reports:
  "hash_reports bc al cid msgs current verified hashes policy interval = Inr (v, acts) \<Longrightarrow> broadcasts acts = []"
proof (induction msgs arbitrary: verified acts)
  case (Cons bs msgs)
  obtain v1 acts1 acts2 where
    h: "handle_hash_report bc al cid bs current verified hashes policy interval = Inr (v1, acts1)"
    and r: "hash_reports bc al cid msgs current v1 hashes policy interval = Inr (v, acts2)"
    and a: "acts = acts1 @ acts2"
    using Cons.prems by (auto simp: res_simps)
  have "broadcasts acts1 = []" using h by (auto simp: handle_hash_report_def split: sum.splits if_splits)
  then show ?case using Cons.IH [OF r] a by simp
qed simp

lemma broadcasts_process_client:
  "process_client bc al sim s policy hashes cr vg = Inr (v, g, acts) \<Longrightarrow> broadcasts acts = []"
  by (auto simp: process_client_def Let_def res_simps enforce_verification_deadline_def
      broadcasts_live_messages broadcasts_hash_reports split: prod.splits option.splits)

lemma broadcasts_process_clients:
  "process_clients bc al sim s policy hashes crs vg = Inr (v, g, acts) \<Longrightarrow> broadcasts acts = []"
proof (induction crs arbitrary: vg acts)
  case Nil
  then show ?case by (cases vg) auto
next
  case (Cons cr crs)
  then show ?case by (auto simp: res_simps dest: broadcasts_process_client)
qed

lemma broadcasts_live_events: "live_events evs v = (v', acts) \<Longrightarrow> broadcasts acts = []"
proof (induction evs arbitrary: v acts)
  case (Cons ev evs)
  obtain v1 acts1 acts2 where e: "live_event ev v = (v1, acts1)" "live_events evs v1 = (v', acts2)"
    "acts = acts1 @ acts2"
    using Cons.prems by (auto simp: Let_def split: prod.splits)
  have "broadcasts acts1 = []" using e(1) by (auto simp: live_event_def split: server_event.splits)
  then show ?case using Cons.IH [OF e(2)] e(3) by simp
qed simp

lemma broadcasts_gather:
  assumes "gather_inputs bc al sim policy env a = Inr (v, cs, acts)"
  shows "broadcasts acts = []"
  using assms
  by (auto simp: gather_inputs_def Let_def res_simps
      dest: broadcasts_live_events broadcasts_process_clients split: prod.splits)

section \<open>Runs of the tick loop\<close>

text \<open>
  \<open>authority_run a0 a advs hist sent\<close>: from \<open>a0\<close> the loop reached \<open>a\<close>, having executed
  the records \<open>advs\<close>; \<open>hist\<close> pairs each tick with the fingerprint of the state after it and
  \<open>sent\<close> are the broadcast messages.
\<close>

inductive authority_run ::
  "bincode \<Rightarrow> (nat \<Rightarrow> bool) \<Rightarrow> 's session_sim \<Rightarrow> desync_policy \<Rightarrow> 's authority \<Rightarrow> 's authority \<Rightarrow>
   tick_advance list \<Rightarrow> (u64 \<times> u64 session_result) list \<Rightarrow> byte list list \<Rightarrow> bool"
  for bc al sim policy a0 where
  started: "authority_run bc al sim policy a0 a0 [] [] []"
| ticked: "authority_run bc al sim policy a0 a advs hist sent \<Longrightarrow>
    tick_round bc al sim policy env a = (a', acts, Inr ()) \<Longrightarrow>
    tick_record bc al sim policy env a = Some adv \<Longrightarrow>
    authority_run bc al sim policy a0 a' (advs @ [adv])
      (hist @ [(tick adv, sim_state_hash sim (au_sim a'))]) (sent @ broadcasts acts)"

lemma authority_run_Cons:
  assumes "authority_run bc al sim policy a1 a advs hist sent"
    "tick_round bc al sim policy env a0 = (a1, acts, Inr ())"
    "tick_record bc al sim policy env a0 = Some adv"
  shows "authority_run bc al sim policy a0 a (adv # advs)
    ((tick adv, sim_state_hash sim (au_sim a1)) # hist) (broadcasts acts @ sent)"
  using assms(1)
proof induction
  case started
  show ?case using authority_run.ticked [OF authority_run.started assms(2,3)] by simp
next
  case (ticked a advs hist sent env' a' acts' adv')
  from authority_run.ticked [OF ticked.IH ticked.hyps(2,3)] show ?case by simp
qed

text \<open>Every loop that ends normally is such a run.\<close>

lemma tick_loop_run:
  "tick_loop bc al sim policy rounds a = Some (a', acts, Inr ()) \<Longrightarrow>
     \<exists>advs hist. authority_run bc al sim policy a a' advs hist (broadcasts acts)"
proof (induction rounds arbitrary: a acts)
  case (Cons round rounds)
  obtain stop env where round: "round = (stop, env)" by (cases round)
  show ?case
  proof (cases stop)
    case True
    then show ?thesis using Cons.prems round authority_run.started by fastforce
  next
    case False
    obtain a1 acts1 where r: "tick_round bc al sim policy env a = (a1, acts1, Inr ())"
      using Cons.prems round False by (auto split: prod.splits sum.splits)
    obtain acts2 where l: "tick_loop bc al sim policy rounds a1 = Some (a', acts2, Inr ())"
      "acts = acts1 @ acts2"
      using Cons.prems round False r by auto
    obtain adv where adv: "tick_record bc al sim policy env a = Some adv"
      using r by (rule tick_round_Inr)
    obtain advs hist where "authority_run bc al sim policy a1 a' advs hist (broadcasts acts2)"
      using Cons.IH [OF l(1)] by blast
    from authority_run_Cons [OF this r adv] show ?thesis using l(2) by auto
  qed
qed simp

lemma authority_run_executes:
  assumes "authority_run bc al sim policy a0 a advs hist sent"
  shows "advance_all sim Live advs (au_sim a0) = (au_sim a, Inr ())"
    and "sent = map (\<lambda>adv. enc_server bc (Tick adv)) advs"
    and "map fst hist = map tick advs"
  using assms
proof induction
  case (ticked a advs hist sent env a' acts adv)
  obtain verified g where t: "tick_record bc al sim policy env a = Some adv"
    "gather_inputs bc al sim policy env a = Inr (verified, inputs adv, g)"
    "commit_tick bc sim adv (a\<lparr>au_verified := verified\<rparr>) =
      (a', [Broadcast channel_lockstep (enc_server bc (Tick adv)), Send_Packets], Inr ())"
    "acts = g @ [Broadcast channel_lockstep (enc_server bc (Tick adv)), Send_Packets]"
    using ticked.hyps(2,3) by (elim tick_round_Inr) auto
  {
    case 1
    then show ?case
      using ticked.IH(1) commit_tick_Inr(1) [OF t(3)] by (simp add: advance_all_append)
  next
    case 2
    then show ?case using ticked.IH(2) t(4) broadcasts_gather [OF t(2)] by simp
  next
    case 3
    then show ?case using ticked.IH(3) by simp
  }
qed simp_all

text \<open>The recording holds exactly the executed records.\<close>

lemma authority_run_records:
  assumes "authority_run bc al sim policy a0 a advs hist sent" "mirror_ok (au_writer a0)"
  shows "mirror_ok (au_writer a)"
    and "map_option written (au_writer a) = map_option (\<lambda>w. written w @ log_bytes bc advs) (au_writer a0)"
    and "au_writer a0 \<noteq> None \<Longrightarrow>
      list_all (\<lambda>adv. length (enc_tick bc adv) \<le> max_replay_record_bytes) advs"
  using assms(1)
proof induction
  case started
  {
    case 1 show ?case by (rule assms(2))
  next
    case 2 show ?case by (cases "au_writer a0") (simp_all add: log_bytes_def)
  next
    case 3 show ?case by simp
  }
next
  case (ticked a advs hist sent env a' acts adv)
  obtain verified g where
    c: "commit_tick bc sim adv (a\<lparr>au_verified := verified\<rparr>) =
      (a', [Broadcast channel_lockstep (enc_server bc (Tick adv)), Send_Packets], Inr ())"
    using ticked.hyps(2,3) by (elim tick_round_Inr) auto
  obtain w where w: "append_writer bc adv (au_writer a) = (w, Inr ())"
    and f: "fingerprint_tick sim (tick adv)
      (a\<lparr>au_verified := verified, au_sim := au_sim a', au_writer := w\<rparr>) = (a', Inr ())"
    using commit_tick_Inr(5) [OF c] by auto
  have "mirror_ok w" using append_writer_reliable(1) [OF ticked.IH(1) w] .
  moreover have w': "map_option written w = map_option (\<lambda>r. written r @ record_bytes bc adv) (au_writer a)"
    by (rule append_writer_reliable(2) [OF ticked.IH(1) w])
  moreover note fingerprint_tick_Inr(3,4) [OF f]
  ultimately have eq: "mirror_ok (au_writer a')"
    "map_option written (au_writer a') = map_option (\<lambda>r. written r @ record_bytes bc adv) (au_writer a)"
    by simp_all
  {
    case 1 show ?case by (rule eq(1))
  next
    case 2
    show ?case
    proof (cases "au_writer a0")
      case None
      then show ?thesis using eq(2) ticked.IH(2) by simp
    next
      case (Some w0)
      then obtain w1 where "au_writer a = Some w1" "written w1 = written w0 @ log_bytes bc advs"
        using ticked.IH(2) by auto
      then show ?thesis using eq(2) Some by (simp add: log_bytes_def)
    qed
  next
    case 3
    then have "au_writer a \<noteq> None" using ticked.IH(2) by auto
    then show ?case
      using 3 ticked.IH(3) append_writer_reliable(3) [OF ticked.IH(1) w] by simp
  }
qed

section \<open>The retained fingerprints\<close>

text \<open>
  What the map of retained fingerprints promises about the history of the run: ascending
  keys up to the current tick, only true fingerprints of sampled ticks, and all of them
  that lie within ten intervals of the current tick.
\<close>

definition history_kept ::
  "u64 \<Rightarrow> u64 \<Rightarrow> (u64 \<times> u64 session_result) list \<Rightarrow> (u64 \<times> u64) list \<Rightarrow> bool" where
  "history_kept interval now hist hashes \<longleftrightarrow>
     bt_ok hashes \<and> (\<forall>t h. (t, h) \<in> set hashes \<longrightarrow> t \<le> now) \<and>
     (\<forall>t r. (t, r) \<in> set hist \<longrightarrow> t \<le> now) \<and>
     (\<forall>t h. (t, h) \<in> set hashes \<longrightarrow> t mod interval = 0 \<and> (t, Inr h) \<in> set hist) \<and>
     (\<forall>t r. (t, r) \<in> set hist \<longrightarrow> t mod interval = 0 \<longrightarrow> unat now - unat t \<le> unat interval * 10 \<longrightarrow>
        (\<exists>h. r = Inr h \<and> (t, h) \<in> set hashes))"

lemma history_keptD:
  assumes "history_kept interval now hist hashes"
  shows "bt_ok hashes" "(t, h) \<in> set hashes \<Longrightarrow> t \<le> now" "(t, r) \<in> set hist \<Longrightarrow> t \<le> now"
    "(t, h) \<in> set hashes \<Longrightarrow> t mod interval = 0 \<and> (t, Inr h) \<in> set hist"
    "(t, r) \<in> set hist \<Longrightarrow> t mod interval = 0 \<Longrightarrow> unat now - unat t \<le> unat interval * 10 \<Longrightarrow>
       \<exists>h. r = Inr h \<and> (t, h) \<in> set hashes"
  using assms unfolding history_kept_def by metis+

lemma history_keptI:
  assumes "bt_ok hashes" "\<And>t h. (t, h) \<in> set hashes \<Longrightarrow> t \<le> now"
    "\<And>t r. (t, r) \<in> set hist \<Longrightarrow> t \<le> now"
    "\<And>t h. (t, h) \<in> set hashes \<Longrightarrow> t mod interval = 0 \<and> (t, Inr h) \<in> set hist"
    "\<And>t r. (t, r) \<in> set hist \<Longrightarrow> t mod interval = 0 \<Longrightarrow> unat now - unat t \<le> unat interval * 10 \<Longrightarrow>
       \<exists>h. r = Inr h \<and> (t, h) \<in> set hashes"
  shows "history_kept interval now hist hashes"
  using assms unfolding history_kept_def by blast

lemma older_in_window:
  "now < (t :: u64) \<Longrightarrow> unat t - unat u \<le> n \<Longrightarrow> unat now - unat u \<le> n"
  by (simp add: word_less_nat_alt)

lemma history_kept_skip:
  assumes "history_kept interval now hist hashes" "now < t" "t mod interval \<noteq> 0"
  shows "history_kept interval t (hist @ [(t, r)]) hashes"
proof (rule history_keptI)
  note k = history_keptD [OF assms(1)]
  show "bt_ok hashes" by (rule k(1))
  show "u \<le> t" if "(u, h) \<in> set hashes" for u h using k(2) [OF that] assms(2) by simp
  show "u \<le> t" if "(u, q) \<in> set (hist @ [(t, r)])" for u q using that k(3) assms(2) by fastforce
  show "u mod interval = 0 \<and> (u, Inr h) \<in> set (hist @ [(t, r)])" if "(u, h) \<in> set hashes" for u h
    using k(4) [OF that] by simp
  show "\<exists>h. q = Inr h \<and> (u, h) \<in> set hashes"
    if "(u, q) \<in> set (hist @ [(t, r)])" "u mod interval = 0" "unat t - unat u \<le> unat interval * 10" for u q
  proof -
    have "u \<noteq> t" using that(2) assms(3) by metis
    then have "(u, q) \<in> set hist" using that(1) by simp
    then show ?thesis by (rule k(5) [OF _ that(2) older_in_window [OF assms(2) that(3)]])
  qed
qed

lemma history_kept_sample:
  assumes k: "history_kept interval now hist hashes" and "now < t" "t mod interval = 0"
    and w: "unat interval * 10 < 2 ^ 64"
  shows "history_kept interval t (hist @ [(t, Inr h)])
    (filter (keep_hash t (interval * 10)) (bt_insert t h hashes))"
proof -
  have window: "unat (interval * 10) = unat interval * 10"
    using w by (simp add: unat_word_ariths)
  have last: "bt_insert t h hashes = hashes @ [(t, h)]"
    using history_keptD(2) [OF k] assms(2) by (intro bt_insert_last) force
  have keep: "keep_hash t (interval * 10) (u, g) \<longleftrightarrow> unat t - unat u \<le> unat interval * 10" for u g
    by (simp add: keep_hash_def word_le_nat_alt unat_saturating_sub window)
  have ok: "bt_ok (bt_insert t h hashes)" using history_keptD(1) [OF k] by simp
  note d = history_keptD [OF k]
  show ?thesis
  proof (rule history_keptI)
    show "bt_ok (filter (keep_hash t (interval * 10)) (bt_insert t h hashes))" using ok by simp
    show "u \<le> t" if "(u, g) \<in> set (filter (keep_hash t (interval * 10)) (bt_insert t h hashes))" for u g
      using that d(2) [of u g] assms(2) by (auto simp: last split: if_splits)
    show "u \<le> t" if "(u, q) \<in> set (hist @ [(t, Inr h)])" for u q
      using that d(3) [of u q] assms(2) by auto
    show "u mod interval = 0 \<and> (u, Inr g) \<in> set (hist @ [(t, Inr h)])"
      if "(u, g) \<in> set (filter (keep_hash t (interval * 10)) (bt_insert t h hashes))" for u g
    proof -
      from that consider "(u, g) \<in> set hashes" | "u = t" "g = h"
        by (auto simp: last split: if_splits)
      then show ?thesis
      proof cases
        case 1
        then show ?thesis using d(4) by simp
      next
        case 2
        then show ?thesis using assms(3) by (metis in_set_conv_decomp)
      qed
    qed
    show "\<exists>g. q = Inr g \<and> (u, g) \<in> set (filter (keep_hash t (interval * 10)) (bt_insert t h hashes))"
      if "(u, q) \<in> set (hist @ [(t, Inr h)])" "u mod interval = 0"
        "unat t - unat u \<le> unat interval * 10" for u q
      using that d(5) [of u q, OF _ that(2) older_in_window [OF assms(2) that(3)]]
      by (auto simp: last keep)
  qed
qed

context fingerprinted_sim
begin

lemma authority_history:
  assumes "authority_run bc al sim policy a0 a advs hist sent" "au_hashes a0 = []"
    and "interval = sim_hash_interval sim (au_sim a0)" "unat interval * 10 < 2 ^ 64"
  shows "history_kept interval (sim_current_tick sim (au_sim a)) hist (au_hashes a)"
    "sim_hash_interval sim (au_sim a) = interval"
  using assms(1)
proof induction
  case started
  {
    case 1 show ?case using assms(2) by (simp add: history_kept_def)
  next
    case 2 show ?case by (simp add: assms(3))
  }
next
  case (ticked a advs hist sent env a' acts adv)
  obtain verified g where
    c: "commit_tick bc sim adv (a\<lparr>au_verified := verified\<rparr>) =
      (a', [Broadcast channel_lockstep (enc_server bc (Tick adv)), Send_Packets], Inr ())"
    using ticked.hyps(2,3) by (elim tick_round_Inr) auto
  have adv: "advance_tick sim adv Live (au_sim a) = (au_sim a', Inr ())"
    using commit_tick_Inr(1) [OF c] by simp
  have t: "sim_current_tick sim (au_sim a') = tick adv" by (rule advance_tick_tick [OF adv])
  have interval: "sim_hash_interval sim (au_sim a') = interval"
    using interval_advance_tick [OF adv] ticked.IH(2) by simp
  have next_tick: "unat (tick adv) = Suc (unat (sim_current_tick sim (au_sim a)))"
    using adv by (simp add: advance_tick_Inr)
  have lt: "sim_current_tick sim (au_sim a) < tick adv"
    using next_tick by (simp add: word_less_nat_alt)
  obtain w where
    f: "fingerprint_tick sim (tick adv)
      (a\<lparr>au_verified := verified, au_sim := au_sim a', au_writer := w\<rparr>) = (a', Inr ())"
    using commit_tick_Inr(5) [OF c] by auto
  {
    case 1
    show ?case
    proof (cases "tick adv mod interval = 0")
      case True
      then obtain h where h: "sim_state_hash sim (au_sim a') = Inr h"
        "au_hashes a' = filter (keep_hash (tick adv) (interval * 10)) (bt_insert (tick adv) h (au_hashes a))"
        using fingerprint_tick_Inr(5) [OF f] interval by auto
      show ?thesis
        using history_kept_sample [OF ticked.IH(1) lt True assms(4), of h] by (simp add: t h)
    next
      case False
      then have "au_hashes a' = au_hashes a"
        using fingerprint_tick_Inr(5) [OF f] interval by simp
      then show ?thesis using history_kept_skip [OF ticked.IH(1) lt False] by (simp add: t)
    qed
  next
    case 2
    show ?case by (rule interval)
  }
qed

text \<open>Accepted reports are true; true reports that are on time are accepted.\<close>

lemma verify_hash_sound:
  assumes "history_kept interval now hist hashes" "verify_hash report current verified hashes interval = Inr v"
  shows "v = report_tick report \<and> (v, Inr (report_hash report)) \<in> set hist"
proof -
  have "v = report_tick report \<and> map_of hashes v = Some (report_hash report)"
    using assms(2) by (auto simp: verify_hash_def res_simps split: if_splits)
  then show ?thesis
    using history_keptD(4) [OF assms(1) map_of_SomeD] by blast
qed

lemma verify_hash_complete:
  assumes k: "history_kept interval now hist hashes" and "(t, Inr h) \<in> set hist"
    and "t mod interval = 0" "verified < t"
    and "unat now \<le> Suc (unat verified + unat interval * 10)"
  shows "verify_hash \<lparr>report_tick = t, report_hash = h\<rparr> now verified hashes interval = Inr t"
proof -
  have "unat now - unat t \<le> unat interval * 10"
    using assms(4,5) by (simp add: word_less_nat_alt)
  then have "(t, h) \<in> set hashes" using history_keptD(5) [OF k assms(2,3)] by simp
  moreover have "t \<le> now" by (rule history_keptD(3) [OF k assms(2)])
  moreover have "distinct (map fst hashes)" by (rule bt_ok_distinct [OF history_keptD(1) [OF k]])
  ultimately have "map_of hashes t = Some h" by (simp add: map_of_eq_Some_iff)
  then show ?thesis
    using assms(3,4) \<open>t \<le> now\<close> by (auto simp: verify_hash_def)
qed

end

section \<open>The startup barrier\<close>

lemma length_bt_insert: "length (bt_insert k v m) \<le> Suc (length m)"
  by (induction k v m rule: bt_insert.induct) auto

lemma set_bt_insert: "set (bt_insert k v m) \<subseteq> insert (k, v) (set m)"
  by (induction k v m rule: bt_insert.induct) auto

lemma bt_insert_member: "(k, v) \<in> set (bt_insert k v m)"
  by (induction k v m rule: bt_insert.induct) auto

text \<open>The messages a list of actions puts on the save channel of one client.\<close>

definition saves_to :: "u64 \<Rightarrow> server_action list \<Rightarrow> byte list list" where
  "saves_to cid acts = concat (map (\<lambda>act.
     case act of Send c ch bs \<Rightarrow> if c = cid \<and> ch = channel_save then [bs] else [] | _ \<Rightarrow> []) acts)"

lemma saves_to_simps [simp]:
  "saves_to cid [] = []" "saves_to cid (as @ bs) = saves_to cid as @ saves_to cid bs"
  "saves_to cid (Disconnect c # as) = saves_to cid as" "saves_to cid (Send_Packets # as) = saves_to cid as"
  "saves_to cid (Broadcast ch b # as) = saves_to cid as"
  "saves_to cid (Send c channel_save b # as) = (if c = cid then b # saves_to cid as else saves_to cid as)"
  by (simp_all add: saves_to_def)

lemma saves_to_sends [simp]:
  "saves_to cid (map (\<lambda>m. Send c channel_save (f m)) msgs) = (if c = cid then map f msgs else [])"
  by (induction msgs) auto

text \<open>
  What is known of a waiting peer after the rounds \<open>envs\<close> and the actions \<open>acts\<close>: its client
  connected, the save messages sent to it since then are those of its transfer, and if it is
  ready its client reported the tick and fingerprint of the save.
\<close>

definition connected_in :: "wait_env list \<Rightarrow> u64 \<Rightarrow> bool" where
  "connected_in envs cid \<longleftrightarrow> (\<exists>env \<in> set envs. Client_Connected cid \<in> set (we_events env))"

definition reported_ready ::
  "bincode \<Rightarrow> (nat \<Rightarrow> bool) \<Rightarrow> save_metadata \<Rightarrow> wait_env list \<Rightarrow> u64 \<Rightarrow> bool" where
  "reported_ready bc al meta envs cid \<longleftrightarrow>
     (\<exists>env \<in> set envs. \<exists>bs \<in> set (pr_messages (we_peer env cid)).
        decode_client_message bc al bs = Inr (Ready (meta_tick meta) (meta_hash meta)))"

definition served ::
  "bincode \<Rightarrow> (nat \<Rightarrow> bool) \<Rightarrow> byte list \<Rightarrow> save_metadata \<Rightarrow> wait_env list \<Rightarrow> server_action list \<Rightarrow>
   u64 \<times> startup_peer \<Rightarrow> bool" where
  "served bc al save meta envs acts e \<longleftrightarrow>
     connected_in envs (fst e) \<and>
     (\<exists>earlier sent. saves_to (fst e) acts = earlier @ map (enc_save bc) sent \<and>
        startup_run bc save meta (snd e) sent) \<and>
     (is_ready (snd e) \<longrightarrow> reported_ready bc al meta envs (fst e))"

lemma served_mono:
  assumes "served bc al save meta envs acts e" "set envs \<subseteq> set envs'" "saves_to (fst e) acts' = saves_to (fst e) acts"
  shows "served bc al save meta envs' acts' e"
  using assms unfolding served_def connected_in_def reported_ready_def by fastforce

definition peers_ok ::
  "bincode \<Rightarrow> (nat \<Rightarrow> bool) \<Rightarrow> u32 \<Rightarrow> byte list \<Rightarrow> save_metadata \<Rightarrow> wait_env list \<Rightarrow> server_action list \<Rightarrow>
   peers \<Rightarrow> bool" where
  "peers_ok bc al expected save meta envs acts peers \<longleftrightarrow>
     length peers \<le> unat expected \<and> bt_ok peers \<and> (\<forall>e \<in> set peers. served bc al save meta envs acts e)"

lemma peers_ok_Nil [simp]: "peers_ok bc al expected save meta envs acts []"
  by (simp add: peers_ok_def)

lemma peers_ok_filter:
  assumes "peers_ok bc al expected save meta envs acts peers"
  shows "peers_ok bc al expected save meta envs acts (filter P peers)"
  using assms by (auto simp: peers_ok_def intro: order_trans [OF length_filter_le])

lemma startup_event_ok:
  assumes "peers_ok bc al expected save meta envs acts peers" "ev \<in> set (we_events env)" "env \<in> set envs"
    "startup_event expected now ev peers = (peers', acts')"
  shows "peers_ok bc al expected save meta envs (acts @ acts') peers'"
proof -
  have quiet: "saves_to cid acts' = []" for cid
    using assms(4) by (auto simp: startup_event_def split: server_event.splits if_splits)
  have ok: "peers_ok bc al expected save meta envs (acts @ acts') peers"
    using assms(1) by (auto simp: peers_ok_def quiet intro: served_mono)
  show ?thesis
  proof (cases ev)
    case (Client_Connected cid)
    have "startup_run bc save meta (startup_peer_new now) []" by (rule startup_run.new)
    then have "served bc al save meta envs (acts @ acts') (cid, startup_peer_new now)"
      using assms(2,3) Client_Connected
      by (auto simp: served_def connected_in_def is_ready_def startup_peer_new_def)
    then show ?thesis
      using ok assms(4) Client_Connected set_bt_insert [of cid "startup_peer_new now" peers]
        length_bt_insert [of cid "startup_peer_new now" peers]
      by (auto simp: peers_ok_def startup_event_def split: if_splits)
  next
    case (Client_Disconnected cid)
    then show ?thesis
      using peers_ok_filter [OF ok] assms(4) by (auto simp: startup_event_def bt_remove_def)
  qed
qed

lemma startup_events_ok:
  "peers_ok bc al expected save meta envs acts peers \<Longrightarrow> set evs \<subseteq> set (we_events env) \<Longrightarrow> env \<in> set envs \<Longrightarrow>
     startup_events expected now evs peers = (peers', acts') \<Longrightarrow>
     peers_ok bc al expected save meta envs (acts @ acts') peers'"
proof (induction evs arbitrary: peers acts acts')
  case (Cons ev evs)
  obtain ps acts1 acts2 where e: "startup_event expected now ev peers = (ps, acts1)"
    "startup_events expected now evs ps = (peers', acts2)" "acts' = acts1 @ acts2"
    using Cons.prems(4) by (auto simp: Let_def split: prod.splits)
  from startup_event_ok [OF Cons.prems(1) _ Cons.prems(3) e(1)] Cons.prems(2)
  have "peers_ok bc al expected save meta envs (acts @ acts1) ps" by simp
  from Cons.IH [OF this _ Cons.prems(3) e(2)] Cons.prems(2) show ?case by (simp add: e(3))
qed simp

text \<open>A peer becomes ready only by one of the messages of its own connection.\<close>

lemma pump_chunks_not_ready:
  "transfer p = Transferring \<Longrightarrow> transfer (fst (pump_chunks bc lk save k p)) \<noteq> Ready_Phase"
proof (induction bc lk save k p rule: pump_chunks.induct)
  case (1 bc lk save k p)
  show ?case
    using 1(1) [OF _ refl _ refl refl refl] 1(2)
    by (subst pump_chunks.simps) (auto simp: Let_def push_outstanding_def split: prod.splits)
qed

lemma pump_not_ready: "is_ready (fst (pump bc lk save meta p)) \<Longrightarrow> is_ready p"
  by (auto simp: is_ready_def pump_def Let_def push_outstanding_def split: prod.splits if_splits
      dest!: arg_cong [of _ _ fst]) (use pump_chunks_not_ready in force)+

lemma startup_messages_run:
  "startup_run bc save meta p sent \<Longrightarrow> startup_run bc save meta (fst (startup_messages bc al meta now msgs p)) sent"
proof (induction msgs arbitrary: p)
  case (Cons bs msgs)
  then show ?case
    by (auto split: sum.splits prod.splits dest: startup_run.heard)
qed simp

lemma startup_messages_ready:
  "is_ready (fst (startup_messages bc al meta now msgs p)) \<Longrightarrow> \<not> is_ready p \<Longrightarrow>
     \<exists>bs \<in> set msgs. decode_client_message bc al bs = Inr (Ready (meta_tick meta) (meta_hash meta))"
proof (induction msgs arbitrary: p)
  case (Cons bs msgs)
  show ?case
  proof (cases "decode_client_message bc al bs")
    case (Inr msg)
    obtain q res where q: "receive_startup msg meta now p = (q, res)" by (cases "receive_startup msg meta now p")
    show ?thesis
    proof (cases "is_ready q")
      case True
      then show ?thesis using becomes_ready [OF q] Cons.prems(2) Inr by (simp add: is_ready_def)
    next
      case False
      then show ?thesis using Cons.prems(1) Cons.IH [of q] Inr q by (auto split: sum.splits)
    qed
  qed (use Cons.prems in simp)
qed simp

lemma startup_peer_round_ok:
  assumes "served bc al save meta envs acts (cid, p)" "env \<in> set envs"
    "startup_peer_round bc al save meta (we_peer env cid) cid p = (p', acts')"
  shows "served bc al save meta envs (acts @ acts') (cid, p')" "c \<noteq> cid \<Longrightarrow> saves_to c acts' = []"
proof -
  let ?pr = "we_peer env cid"
  obtain p1 emitted where p1: "pump bc (pr_link ?pr) save meta p = (p1, emitted)" by (cases "pump bc (pr_link ?pr) save meta p")
  obtain rest where a: "acts' = map (\<lambda>m. Send cid channel_save (enc_save bc m)) emitted @ rest"
    "rest \<in> {[], [Disconnect cid]}"
    and p': "p' = fst (startup_messages bc al meta (pr_now ?pr) (pr_messages ?pr) p1)"
    using assms(3) p1 by (auto simp: startup_peer_round_def Let_def split: prod.splits if_splits)
  obtain earlier sent where s: "saves_to cid acts = earlier @ map (enc_save bc) sent" "startup_run bc save meta p sent"
    using assms(1) by (auto simp: served_def)
  have "startup_run bc save meta p' (sent @ emitted)"
    unfolding p' by (rule startup_messages_run [OF startup_run.pumped [OF s(2) p1]])
  moreover have "saves_to cid rest = []" for cid using a(2) by auto
  then have "saves_to cid (acts @ acts') = earlier @ map (enc_save bc) (sent @ emitted)"
    and quiet: "c \<noteq> cid \<Longrightarrow> saves_to c acts' = []"
    by (simp_all add: a(1) s(1))
  moreover have "reported_ready bc al meta envs cid" if "is_ready p'"
  proof (cases "is_ready p")
    case True
    then show ?thesis using assms(1) by (simp add: served_def)
  next
    case False
    then have "\<not> is_ready p1" using pump_not_ready [of bc "pr_link ?pr" save meta p] by (auto simp: p1)
    from startup_messages_ready [OF _ this, of bc al meta "pr_now ?pr" "pr_messages ?pr"] that assms(2)
    show ?thesis by (auto simp: p' reported_ready_def)
  qed
  ultimately show "served bc al save meta envs (acts @ acts') (cid, p')"
    using assms(1) unfolding served_def fst_conv snd_conv by blast
  show "c \<noteq> cid \<Longrightarrow> saves_to c acts' = []" by (rule quiet)
qed

lemma keys_startup_peers: "map fst (fst (startup_peers bc al save meta prs peers)) = map fst peers"
  by (induction peers) (auto simp: Let_def split: prod.splits)

lemma startup_peers_saves:
  "startup_peers bc al save meta (we_peer env) peers = (peers', acts') \<Longrightarrow> c \<notin> fst ` set peers \<Longrightarrow> saves_to c acts' = []"
proof (induction peers arbitrary: peers' acts')
  case (Cons e peers)
  obtain cid p where e: "e = (cid, p)" by (cases e)
  obtain p1 ps acts1 acts2 where s: "startup_peer_round bc al save meta (we_peer env cid) cid p = (p1, acts1)"
    "startup_peers bc al save meta (we_peer env) peers = (ps, acts2)" "acts' = acts1 @ acts2"
    using Cons.prems(1) e by (auto simp: Let_def split: prod.splits)
  have "saves_to c acts1 = []"
    using s(1) Cons.prems(2) e by (auto simp: startup_peer_round_def Let_def split: prod.splits if_splits)
  then show ?case using Cons.IH [OF s(2)] Cons.prems(2) s(3) by simp
qed simp

lemma startup_peers_served:
  "startup_peers bc al save meta (we_peer env) peers = (peers', acts') \<Longrightarrow> distinct (map fst peers) \<Longrightarrow>
     env \<in> set envs \<Longrightarrow> \<forall>e \<in> set peers. served bc al save meta envs acts e \<Longrightarrow>
     \<forall>e \<in> set peers'. served bc al save meta envs (acts @ acts') e"
proof (induction peers arbitrary: peers' acts acts')
  case (Cons e peers)
  obtain cid p where e: "e = (cid, p)" by (cases e)
  obtain p1 ps acts1 acts2 where s: "startup_peer_round bc al save meta (we_peer env cid) cid p = (p1, acts1)"
    "startup_peers bc al save meta (we_peer env) peers = (ps, acts2)" "acts' = acts1 @ acts2" "peers' = (cid, p1) # ps"
    using Cons.prems(1) e by (auto simp: Let_def split: prod.splits)
  have new: "cid \<notin> fst ` set peers" using Cons.prems(2) e by simp
  have p: "served bc al save meta envs acts (cid, p)" using Cons.prems(4) e by simp
  have "served bc al save meta envs (acts @ acts1) q" if "q \<in> set peers" for q
  proof -
    have "fst q \<noteq> cid" using new that by force
    from startup_peer_round_ok(2) [OF p Cons.prems(3) s(1) this] Cons.prems(4) that
    show ?thesis by (auto intro: served_mono)
  qed
  then have "\<forall>e \<in> set ps. served bc al save meta envs ((acts @ acts1) @ acts2) e"
    using Cons.IH [OF s(2) _ Cons.prems(3), of "acts @ acts1"] Cons.prems(2) e by simp
  moreover have "served bc al save meta envs ((acts @ acts1) @ acts2) (cid, p1)"
    using startup_peers_saves [OF s(2) new]
    by (intro served_mono [OF startup_peer_round_ok(1) [OF p Cons.prems(3) s(1)]]) simp_all
  ultimately show ?case by (simp add: s(3,4))
qed simp

lemma startup_peers_ok:
  assumes "peers_ok bc al expected save meta envs acts peers" "env \<in> set envs"
    "startup_peers bc al save meta (we_peer env) peers = (peers', acts')"
  shows "peers_ok bc al expected save meta envs (acts @ acts') peers'"
proof -
  have "map fst peers' = map fst peers"
    using keys_startup_peers [of bc al save meta "we_peer env" peers] assms(3) by simp
  then have "bt_ok peers' = bt_ok peers" "length peers' = length peers"
    by (simp add: bt_ok_def, metis length_map)
  then show ?thesis
    using assms(1) startup_peers_served [OF assms(3) _ assms(2)] by (simp add: peers_ok_def bt_ok_distinct)
qed

lemma wait_round_ok:
  assumes "peers_ok bc al expected save meta envs acts (w_peers w)"
    "wait_round bc al expected save meta env w = (w', acts', Inr out)"
  shows "peers_ok bc al expected save meta (envs @ [env]) (acts @ acts') (w_peers w')"
    and "out = Wait_Started vs \<Longrightarrow>
      ready_count (w_peers w') = unat expected \<and> vs = map (\<lambda>(cid, _). (cid, meta_tick meta)) (w_peers w')"
proof -
  obtain ps1 a1 where e: "startup_events expected (we_connect_now env) (we_events env) (w_peers w) = (ps1, a1)"
    by (cases "startup_events expected (we_connect_now env) (we_events env) (w_peers w)")
  obtain ps2 a2 where p: "startup_peers bc al save meta (we_peer env) ps1 = (ps2, a2)"
    by (cases "startup_peers bc al save meta (we_peer env) ps1")
  have "peers_ok bc al expected save meta (envs @ [env]) acts (w_peers w)"
    using assms(1) by (auto simp: peers_ok_def intro: served_mono)
  from startup_events_ok [OF this subset_refl _ e]
  have "peers_ok bc al expected save meta (envs @ [env]) (acts @ a1) ps1" by simp
  from startup_peers_ok [OF this _ p]
  have ok: "peers_ok bc al expected save meta (envs @ [env]) (acts @ a1 @ a2)
      (filter (\<lambda>(cid, _). we_connected env cid) ps2)"
    by (intro peers_ok_filter) simp
  obtain rest where "w_peers w' = filter (\<lambda>(cid, _). we_connected env cid) ps2" "acts' = a1 @ a2 @ rest"
    "\<forall>cid. saves_to cid rest = []"
    using assms(2) by (auto simp: wait_round_def e p Let_def split: sum.splits if_splits)
  then have "saves_to cid (acts @ acts') = saves_to cid (acts @ a1 @ a2)" for cid by simp
  then have "served bc al save meta (envs @ [env]) (acts @ acts') e"
    if "served bc al save meta (envs @ [env]) (acts @ a1 @ a2) e" for e
    by (intro served_mono [OF that]) simp_all
  with ok \<open>w_peers w' = _\<close> show "peers_ok bc al expected save meta (envs @ [env]) (acts @ acts') (w_peers w')"
    by (simp add: peers_ok_def)
  show "ready_count (w_peers w') = unat expected \<and> vs = map (\<lambda>(cid, _). (cid, meta_tick meta)) (w_peers w')"
    if "out = Wait_Started vs"
    using assms(2) that by (auto simp: wait_round_def e p Let_def split: sum.splits if_splits)
qed

lemma all_ready:
  assumes "length peers \<le> n" "ready_count peers = n"
  shows "length peers = n \<and> (\<forall>e \<in> set peers. is_ready (snd e))"
proof -
  have "length (filter (\<lambda>e. is_ready (snd e)) peers) = n"
    using assms(2) by (simp add: ready_count_def case_prod_unfold)
  then have "length (filter (\<lambda>e. is_ready (snd e)) peers) = length peers"
    using assms(1) length_filter_le [of "\<lambda>e. is_ready (snd e)" peers] by simp
  then have "\<forall>e \<in> set peers. is_ready (snd e)"
    by (metis length_filter_less less_irrefl)
  then show ?thesis using \<open>length (filter _ peers) = n\<close> \<open>length (filter _ peers) = length peers\<close> by simp
qed

text \<open>
  When the barrier opens after the rounds \<open>envs\<close> and the actions \<open>acts\<close>: every participant is a
  client that connected, whose connection was sent the whole save, and that reported the
  save's tick and fingerprint.
\<close>

definition admitted ::
  "bincode \<Rightarrow> (nat \<Rightarrow> bool) \<Rightarrow> byte list \<Rightarrow> save_metadata \<Rightarrow> wait_env list \<Rightarrow> server_action list \<Rightarrow> u64 \<Rightarrow> bool" where
  "admitted bc al save meta envs acts cid \<longleftrightarrow>
     connected_in envs cid \<and> reported_ready bc al meta envs cid \<and>
     (\<exists>earlier chunks. saves_to cid acts = earlier @ map (enc_save bc) (Begin meta # map Chunk chunks) \<and>
        chunks_ok chunks \<and> concat chunks = save)"

lemma admitted_mono:
  "admitted bc al save meta envs acts cid \<Longrightarrow> set envs \<subseteq> set envs' \<Longrightarrow> admitted bc al save meta envs' acts cid"
  unfolding admitted_def connected_in_def reported_ready_def by fast

definition opened ::
  "bincode \<Rightarrow> (nat \<Rightarrow> bool) \<Rightarrow> u32 \<Rightarrow> byte list \<Rightarrow> save_metadata \<Rightarrow> wait_env list \<Rightarrow> server_action list \<Rightarrow>
   (u64 \<times> u64) list \<Rightarrow> bool" where
  "opened bc al expected save meta envs acts participants \<longleftrightarrow>
     length participants = unat expected \<and> bt_ok participants \<and> distinct (map fst participants) \<and>
     (\<forall>(cid, v) \<in> set participants. v = meta_tick meta \<and> admitted bc al save meta envs acts cid)"

lemma wait_round_opens:
  assumes "peers_ok bc al expected save meta envs acts (w_peers w)" "begin_fits bc meta"
    "wait_round bc al expected save meta env w = (w', acts', Inr (Wait_Started vs))"
  shows "opened bc al expected save meta (envs @ [env]) (acts @ acts') vs"
proof -
  note r = wait_round_ok [OF assms(1,3)]
  have vs: "ready_count (w_peers w') = unat expected" "vs = map (\<lambda>(cid, _). (cid, meta_tick meta)) (w_peers w')"
    using r(2) by simp_all
  have ready: "length (w_peers w') = unat expected \<and> (\<forall>e \<in> set (w_peers w'). is_ready (snd e))"
    using r(1) vs(1) by (intro all_ready) (auto simp: peers_ok_def)
  have keys: "map fst vs = map fst (w_peers w')" by (simp add: vs(2) case_prod_unfold)
  have "admitted bc al save meta (envs @ [env]) (acts @ acts') cid" if e: "(cid, p) \<in> set (w_peers w')" for cid p
  proof -
    have s: "served bc al save meta (envs @ [env]) (acts @ acts') (cid, p)" "is_ready p"
      using e r(1) ready by (auto simp: peers_ok_def)
    then obtain earlier sent where run: "saves_to cid (acts @ acts') = earlier @ map (enc_save bc) sent"
      "startup_run bc save meta p sent" by (auto simp: served_def)
    have "transfer p \<noteq> Transferring" using s(2) by (simp add: is_ready_def)
    then obtain chunks where "sent = Begin meta # map Chunk chunks" "chunks_ok chunks" "concat chunks = save"
      by (rule ready_run [OF run(2) assms(2)])
    then show ?thesis using s run(1) unfolding served_def admitted_def by auto
  qed
  moreover have "bt_ok vs" using r(1) by (simp add: peers_ok_def bt_ok_def keys)
  ultimately show ?thesis
    using ready bt_ok_distinct [of vs] by (auto simp: opened_def vs(2))
qed

lemma wait_opens:
  "wait_for_clients bc al expected save meta rounds w = Some (w', acts', Inr vs) \<Longrightarrow>
     peers_ok bc al expected save meta envs acts (w_peers w) \<Longrightarrow> begin_fits bc meta \<Longrightarrow>
     list_all (\<lambda>(stop, _). \<not> stop) rounds \<Longrightarrow>
     opened bc al expected save meta (envs @ map snd rounds) (acts @ acts') vs"
proof (induction rounds arbitrary: w envs acts acts')
  case (Cons round rounds)
  obtain env where round: "round = (False, env)" using Cons.prems(4) by (cases round) auto
  obtain w1 acts1 out where r: "wait_round bc al expected save meta env w = (w1, acts1, Inr out)"
    using Cons.prems(1) round by (auto split: prod.splits sum.splits wait_outcome.splits)
  show ?case
  proof (cases out)
    case Wait_More
    then obtain acts2 where w: "wait_for_clients bc al expected save meta rounds w1 = Some (w', acts2, Inr vs)"
      "acts' = acts1 @ acts2"
      using Cons.prems(1) round r by auto
    from Cons.IH [OF w(1) wait_round_ok(1) [OF Cons.prems(2) r] Cons.prems(3)] Cons.prems(4)
    show ?thesis by (simp add: round w(2))
  next
    case (Wait_Started us)
    then have "us = vs" "acts' = acts1" using Cons.prems(1) round r by simp_all
    then have "opened bc al expected save meta (envs @ [env]) (acts @ acts') vs"
      using wait_round_opens [OF Cons.prems(2,3)] r Wait_Started by blast
    then show ?thesis by (auto simp: opened_def round intro: admitted_mono)
  qed
qed simp

section \<open>The history of a run\<close>

text \<open>Ticks and fingerprints a simulation goes through, live.\<close>

fun history ::
  "'s session_sim \<Rightarrow> tick_advance list \<Rightarrow> 's \<Rightarrow> (u64 \<times> u64 session_result) list" where
  "history sim [] s = []"
| "history sim (a # as) s =
     (let s = fst (advance_tick sim a Live s) in (tick a, sim_state_hash sim s) # history sim as s)"

lemma history_append:
  "advance_all sim Live as s = (s1, Inr ()) \<Longrightarrow> history sim (as @ bs) s = history sim as s @ history sim bs s1"
  by (induction as arbitrary: s) (auto simp: Let_def split: prod.splits sum.splits)

lemma authority_run_history:
  assumes "authority_run bc al sim policy a0 a advs hist sent"
  shows "hist = history sim advs (au_sim a0)"
  using assms
proof induction
  case (ticked a advs hist sent env a' acts adv)
  obtain verified where
    c: "commit_tick bc sim adv (a\<lparr>au_verified := verified\<rparr>) =
      (a', [Broadcast channel_lockstep (enc_server bc (Tick adv)), Send_Packets], Inr ())"
    using ticked.hyps(2,3) by (elim tick_round_Inr) auto
  have "advance_tick sim adv Live (au_sim a) = (au_sim a', Inr ())"
    using commit_tick_Inr(1) [OF c] by simp
  then show ?case
    using ticked.IH history_append [OF authority_run_executes(1) [OF ticked.hyps(1)], of "[adv]"]
    by simp
qed simp

text \<open>A simulation that bounds commands as the payload budget does only sees records it can encode.\<close>

definition bounded_commands :: "'s session_sim \<Rightarrow> bool" where
  "bounded_commands sim \<longleftrightarrow>
     (\<forall>s bs. sim_validate_command sim s bs = Inr () \<longrightarrow> length bs \<le> max_payload_bytes)"

lemma gathered_carries:
  assumes "gather_inputs bc al sim policy env a = Inr (verified, cs, acts)" "bounded_commands sim"
  shows "carries \<lparr>tick = t, inputs = cs\<rparr>"
proof -
  note g = gather_inputs_Inr [OF assms(1)]
  have "length cs * 32 \<le> sum_list (map (\<lambda>c. length (payload c) + 32) cs)"
    by (induction cs) simp_all
  then have "length cs < 2 ^ 64"
    using g(1) by (simp add: max_replay_record_bytes_def)
  moreover have "\<forall>c \<in> set cs. length (payload c) \<le> max_payload_bytes"
    using g(2) assms(2) by (auto simp: legitimate_def bounded_commands_def)
  ultimately show ?thesis by (simp add: carries_def list_all_iff)
qed

lemma authority_run_carries:
  assumes "authority_run bc al sim policy a0 a advs hist sent" "bounded_commands sim"
  shows "list_all (\<lambda>adv. carries adv \<and> length (enc_server bc (Tick adv)) \<le> max_replay_record_bytes) advs"
  using assms(1)
proof induction
  case (ticked a advs hist sent env a' acts adv)
  obtain verified g where t:
    "gather_inputs bc al sim policy env a = Inr (verified, inputs adv, g)"
    "commit_tick bc sim adv (a\<lparr>au_verified := verified\<rparr>) =
      (a', [Broadcast channel_lockstep (enc_server bc (Tick adv)), Send_Packets], Inr ())"
    using ticked.hyps(2,3) by (elim tick_round_Inr) auto
  have "carries adv" using gathered_carries [OF t(1) assms(2), of "tick adv"] by (cases adv) simp
  then show ?case using ticked.IH commit_tick_Inr(3) [OF t(2)] by simp
qed simp

context fingerprinted_sim
begin

lemma authority_sampled:
  assumes "authority_run bc al sim policy a0 a advs hist sent"
    and "(t, r) \<in> set hist" "t mod sim_hash_interval sim (au_sim a0) = 0"
  shows "\<exists>h. r = Inr h"
  using assms
proof induction
  case (ticked a advs hist sent env a' acts adv)
  obtain verified where
    c: "commit_tick bc sim adv (a\<lparr>au_verified := verified\<rparr>) =
      (a', [Broadcast channel_lockstep (enc_server bc (Tick adv)), Send_Packets], Inr ())"
    using ticked.hyps(2,3) by (elim tick_round_Inr) auto
  have "advance_all sim Live (advs @ [adv]) (au_sim a0) = (au_sim a', Inr ())"
    by (rule authority_run_executes(1) [OF authority_run.ticked [OF ticked.hyps(1-3)]])
  then have i: "sim_hash_interval sim (au_sim a') = sim_hash_interval sim (au_sim a0)"
    by (rule interval_advance_all)
  obtain w where
    f: "fingerprint_tick sim (tick adv)
      (a\<lparr>au_verified := verified, au_sim := au_sim a', au_writer := w\<rparr>) = (a', Inr ())"
    using commit_tick_Inr(5) [OF c] by auto
  show ?case
  proof (cases "(t, r) \<in> set hist")
    case True
    then show ?thesis using ticked.IH ticked.prems by blast
  next
    case False
    then have "t = tick adv" "r = sim_state_hash sim (au_sim a')" using ticked.prems by auto
    then show ?thesis using fingerprint_tick_Inr(5) [OF f] i ticked.prems(2) by auto
  qed
qed simp

end

section \<open>Properties\<close>

text \<open>C10. The inputs of a tick are legitimate and bounded: a round of the tick loop either
  executes and broadcasts nothing and fails, or broadcasts exactly one \<open>Tick\<close>
  message, of the record the simulation's next state is the execution of and the recording
  was given.  Every command of that record passed the simulation's check and was sent by the
  connection it is attributed to, a connection past the startup barrier, or by the local
  queue; their payloads with 32 bytes each stay within the record budget, and the tick
  follows the current one.\<close>

theorem tick_inputs_legitimate:
  assumes "tick_round bc al sim policy env a = (a', acts, res)"
  shows "(broadcasts acts = [] \<and> au_sim a' = au_sim a \<and> (\<exists>e. res = Inl e)) \<or>
    (\<exists>adv w. broadcasts acts = [enc_server bc (Tick adv)] \<and>
       au_sim a' = fst (advance_tick sim adv Live (au_sim a)) \<and>
       append_writer bc adv (au_writer a) = (w, Inr ()) \<and>
       map_option written (au_writer a') = map_option written w \<and>
       (res = Inr () \<longrightarrow> snd (advance_tick sim adv Live (au_sim a)) = Inr ()) \<and>
       (\<forall>c \<in> set (inputs adv). legitimate bc al sim env a c) \<and>
       sum_list (map (\<lambda>c. length (payload c) + 32) (inputs adv)) \<le> max_replay_record_bytes \<and>
       length (enc_server bc (Tick adv)) \<le> max_replay_record_bytes \<and>
       unat (tick adv) = Suc (unat (sim_current_tick sim (au_sim a))))"
proof (cases "gather_inputs bc al sim policy env a")
  case (Inl e)
  then show ?thesis using assms by (auto simp: tick_round_def)
next
  case (Inr g)
  obtain verified cs gathered where g: "gather_inputs bc al sim policy env a = Inr (verified, cs, gathered)"
    using Inr by (cases g) auto
  note quiet = broadcasts_gather [OF g]
  show ?thesis
  proof (cases "checked_add (sim_current_tick sim (au_sim a)) 1")
    case None
    then show ?thesis using assms quiet by (auto simp: tick_round_def g Let_def)
  next
    case (Some t)
    let ?adv = "\<lparr>tick = t, inputs = cs\<rparr>"
    obtain rest where c: "commit_tick bc sim ?adv (a\<lparr>au_verified := verified\<rparr>) = (a', rest, res)"
      "acts = gathered @ rest"
      using assms Some by (auto simp: tick_round_def g Let_def split: prod.splits)
    from Some have "unat t = Suc (unat (sim_current_tick sim (au_sim a)))" by (simp add: checked_add_Some)
    with commit_tick_cases [OF c(1)] gather_inputs_Inr [OF g] c(2) quiet show ?thesis by fastforce
  qed
qed

text \<open>C9. Lockstep: a tick loop that ends normally has broadcast exactly the records it executed,
  in order, each encoded as a \<open>Tick\<close> message, over consecutive ticks.\<close>

theorem broadcasts_are_executed:
  assumes "tick_loop bc al sim policy rounds a = Some (a', acts, Inr ())"
  shows "\<exists>advs. broadcasts acts = map (\<lambda>adv. enc_server bc (Tick adv)) advs \<and>
    advance_all sim Live advs (au_sim a) = (au_sim a', Inr ())"
proof -
  obtain advs hist where "authority_run bc al sim policy a a' advs hist (broadcasts acts)"
    using tick_loop_run [OF assms] by blast
  from authority_run_executes [OF this] show ?thesis by blast
qed

text \<open>C11. The startup barrier: when an uncancelled wait ends, exactly the expected number of
  distinct clients take part, all verified at the save's tick.  Each of them connected in one
  of the rounds, was sent on its save channel, last, the messages of one transfer of the whole
  save, and answered, over its own connection, with the save's tick and fingerprint.  The hypothesis
  on \<open>Begin\<close> says that this one small message fits the save channel.\<close>

theorem barrier_opens_for_ready_clients:
  assumes "wait_for_clients bc al expected save meta rounds
      \<lparr>w_peers = [], w_published = None, w_control = ctl\<rparr> = Some (w, acts, Inr participants)"
    and "list_all (\<lambda>(stop, _). \<not> stop) rounds" "begin_fits bc meta"
  shows "length participants = unat expected \<and> distinct (map fst participants) \<and>
    (\<forall>(cid, verified) \<in> set participants. verified = meta_tick meta \<and>
       (\<exists>(_, env) \<in> set rounds. Client_Connected cid \<in> set (we_events env)) \<and>
       (\<exists>earlier chunks. saves_to cid acts = earlier @ map (enc_save bc) (Begin meta # map Chunk chunks) \<and>
          chunks_ok chunks \<and> concat chunks = save) \<and>
       (\<exists>(_, env) \<in> set rounds. \<exists>bs \<in> set (pr_messages (we_peer env cid)).
          decode_client_message bc al bs = Inr (Ready (meta_tick meta) (meta_hash meta))))"
proof -
  have "opened bc al expected save meta (map snd rounds) acts participants"
    using wait_opens [OF assms(1) _ assms(3,2), of "[]" "[]"] by simp
  then show ?thesis
    unfolding opened_def admitted_def connected_in_def reported_ready_def by fastforce
qed

text \<open>C8. The fingerprints an authority accepts are its own: after any number of ticks, a report
  that moves a client's verified tick names a tick of the session at which the authority's
  state had exactly the reported fingerprint.\<close>

theorem accepted_report_is_true:
  assumes "fingerprinted_sim sim det"
    and "authority_run bc al sim policy a0 a advs hist sent" "au_hashes a0 = []"
    and "unat (sim_hash_interval sim (au_sim a0)) * 10 < 2 ^ 64"
    and "handle_hash_report bc al cid bytes (sim_current_tick sim (au_sim a)) verified (au_hashes a)
      policy' (sim_hash_interval sim (au_sim a0)) = Inr (v, acts)" "v \<noteq> verified"
  shows "\<exists>report. decode_desync_hash bc al bytes = Inr report \<and> report_tick report = v \<and> acts = [] \<and>
    (v, Inr (report_hash report)) \<in> set (history sim advs (au_sim a0))"
proof -
  note kept = fingerprinted_sim.authority_history(1) [OF assms(1,2,3) refl assms(4)]
  obtain report where r: "decode_desync_hash bc al bytes = Inr report"
    "verify_hash report (sim_current_tick sim (au_sim a)) verified (au_hashes a)
      (sim_hash_interval sim (au_sim a0)) = Inr v" "acts = []"
    using assms(5,6) by (auto simp: handle_hash_report_def res_simps split: sum.splits if_splits)
  from fingerprinted_sim.verify_hash_sound [OF assms(1) kept r(2)] authority_run_history [OF assms(2)]
  show ?thesis using r by auto
qed

lemma hash_reports_Inr:
  "hash_reports bc al cid msgs now seen hashes policy interval = Inr (seen', acts) \<Longrightarrow> seen' = seen \<or>
     (\<exists>bs \<in> set msgs. \<exists>report. decode_desync_hash bc al bs = Inr report \<and> report_tick report = seen' \<and>
        seen' \<le> now \<and> map_of hashes seen' = Some (report_hash report))"
proof (induction msgs arbitrary: seen acts)
  case (Cons bs msgs)
  obtain v acts1 acts2 where
    h: "handle_hash_report bc al cid bs now seen hashes policy interval = Inr (v, acts1)"
    and r: "hash_reports bc al cid msgs now v hashes policy interval = Inr (seen', acts2)"
    using Cons.prems by (auto simp: res_simps)
  have "v = seen \<or> (\<exists>report. decode_desync_hash bc al bs = Inr report \<and> report_tick report = v \<and>
      v \<le> now \<and> map_of hashes v = Some (report_hash report))"
    using h by (auto simp: handle_hash_report_def verify_hash_def res_simps split: sum.splits if_splits)
  then show ?case using Cons.IH [OF r] by auto
qed simp

text \<open>C13. A client whose last verified tick is more than ten fingerprint intervals old is
  disconnected in the same round, unless one of the reports it delivered in that round is
  accepted for a tick that is no longer overdue.\<close>

theorem overdue_client_is_disconnected:
  assumes "process_client bc al sim s policy hashes cr (verified, g) = Inr (verified', g', acts)"
    and "map_of verified (cr_id cr) = Some seen"
    and "unat (sim_current_tick sim s) > unat seen + unat (sim_hash_interval sim s) * 10"
    and "unat (sim_hash_interval sim s) * 10 < 2 ^ 64"
  shows "Disconnect (cr_id cr) \<in> set acts \<or>
    (\<exists>bs \<in> set (cr_desync cr). \<exists>report. decode_desync_hash bc al bs = Inr report \<and>
       report_tick report \<le> sim_current_tick sim s \<and>
       map_of hashes (report_tick report) = Some (report_hash report) \<and>
       (cr_id cr, report_tick report) \<in> set verified' \<and>
       unat (sim_current_tick sim s) \<le> unat (report_tick report) + unat (sim_hash_interval sim s) * 10)"
proof -
  let ?now = "sim_current_tick sim s" and ?i = "sim_hash_interval sim s"
  obtain seen' acts1 acts2 where
    h: "hash_reports bc al (cr_id cr) (cr_desync cr) ?now seen hashes policy ?i = Inr (seen', acts2)"
    and v: "verified' = bt_insert (cr_id cr) seen' verified"
    and a: "acts = acts1 @ acts2 @ enforce_verification_deadline (cr_id cr) ?now seen' (?i * 10)"
    using assms(1,2) by (auto simp: process_client_def Let_def res_simps)
  have window: "unat (?i * 10) = unat ?i * 10" using assms(4) by (simp add: unat_word_ariths)
  have "Disconnect (cr_id cr) \<in> set acts" if "unat ?now > unat seen' + unat ?i * 10"
    using that a window
    by (simp add: enforce_verification_deadline_def word_less_nat_alt unat_saturating_sub less_diff_conv)
  moreover have "(cr_id cr, seen') \<in> set verified'" by (simp add: v bt_insert_member)
  ultimately show ?thesis using hash_reports_Inr [OF h] assms(3) by (metis not_le)
qed

text \<open>C12. A report ends the session exactly when the policy is fail-fast and the report is one
  the authority can judge and finds false: it decodes, names a sampled tick that is newer than
  the client's verified tick, not in the future and still retained, and its fingerprint
  differs from the retained one.  Any other report is either accepted, because it names such
  a tick with the retained fingerprint, or costs its sender the connection and nothing else.\<close>

theorem only_desync_ends_the_session:
  "((\<exists>e. handle_hash_report bc al cid bytes now verified hashes policy interval = Inl e) \<longleftrightarrow>
     policy = FailFast \<and> (\<exists>report h. decode_desync_hash bc al bytes = Inr report \<and>
       verified < report_tick report \<and> report_tick report \<le> now \<and> report_tick report mod interval = 0 \<and>
       map_of hashes (report_tick report) = Some h \<and> h \<noteq> report_hash report)) \<and>
   (case handle_hash_report bc al cid bytes now verified hashes policy interval of
      Inl _ \<Rightarrow> True
    | Inr (v, acts) \<Rightarrow>
        (v = verified \<and> acts = [Disconnect cid]) \<or>
        (acts = [] \<and> (\<exists>report. decode_desync_hash bc al bytes = Inr report \<and> v = report_tick report \<and>
           verified < v \<and> v \<le> now \<and> v mod interval = 0 \<and> map_of hashes v = Some (report_hash report))))"
  by (cases "decode_desync_hash bc al bytes")
    (auto simp: handle_hash_report_def verify_hash_def is_desync_def ok_or_def not_le
      split: option.splits)

end
