(* ===== verification/Derive_Wire.thy ===== *)
theory Derive_Wire
  imports Codec
begin

text \<open>
  \<^verbatim>\<open>crates/synctick-derive/src/shared.rs\<close> and \<^verbatim>\<open>wire.rs\<close>: the \<open>Wire\<close> derive.  The
  first part is the macro's own program: it reads the declaration of a type (here a
  \<open>derive_input\<close>, the fragment of \<open>syn\<close>'s syntax tree the macro looks at) and accepts or
  rejects its attributes and tags.  The second part is the code it generates: a struct is
  the sequence of its fields, an enum a tag byte followed by the fields of the variant.
  The theorems connect the two: a schema the macro accepts generates a codec that meets
  the \<open>wire_codec\<close> interface whenever its field types do.

  \<open>core_path\<close> asks the build for the name of the \<open>synctick\<close> crate; its answer is the
  parameter \<open>core\<close>.
\<close>

section \<open>Declarations and attributes\<close>

datatype meta_value = NoValue | Arguments | Literal nat | Malformed

datatype attribute = Attribute (attr_path: string) (attr_metas: "(string \<times> meta_value) list")

record field_decl =
  field_attrs :: "attribute list"

record variant_decl =
  variant_attrs :: "attribute list"
  discriminant :: bool
  variant_fields :: "field_decl list"

datatype type_data =
    StructData "field_decl list"
  | EnumData "variant_decl list"
  | UnionData

record derive_input =
  input_attrs :: "attribute list"
  input_data :: type_data

datatype syn_error = SynError string

definition reject_attributes :: "attribute list \<Rightarrow> string list \<Rightarrow> syn_error + unit" where
  "reject_attributes attrs names =
     (if list_ex (\<lambda>a. attr_path a \<in> set names) attrs
      then Inl (SynError ''tag attributes belong on enum variants'') else Inr ())"

text \<open>The closure \<open>parse_nested_meta\<close> runs on each entry of a tag attribute.\<close>

fun tag_metas :: "(string \<times> meta_value) list \<Rightarrow> u8 option \<Rightarrow> syn_error + u8 option" where
  "tag_metas [] tag = Inr tag"
| "tag_metas ((path, val) # metas) tag =
     (if path \<noteq> ''tag'' then Inl (SynError ''expected tag = N'')
      else if tag \<noteq> None then Inl (SynError ''duplicate wire tag attribute'')
      else case val of
        Literal n \<Rightarrow>
          (if n < 256 then tag_metas metas (Some (word_of_nat n))
           else Inl (SynError ''wire tag out of range; expected 0..=255''))
      | _ \<Rightarrow> Inl (SynError ''expected an integer literal''))"

fun tag_attrs ::
  "attribute list \<Rightarrow> string list \<Rightarrow> bool \<Rightarrow> u8 option \<Rightarrow> syn_error + u8 option" where
  "tag_attrs [] names seen tag = Inr tag"
| "tag_attrs (a # attrs) names seen tag =
     (if attr_path a \<in> set names then
        if seen
        then Inl (SynError ''duplicate wire tag attribute; use exactly one tag attribute'')
        else and_then (tag_metas (attr_metas a) tag) (tag_attrs attrs names True)
      else tag_attrs attrs names seen tag)"

definition variant_tag :: "variant_decl \<Rightarrow> string list \<Rightarrow> syn_error + u8" where
  "variant_tag v names =
     (if discriminant v then Inl (SynError ''use a tag attribute instead of Rust discriminants'')
      else and_then (tag_attrs (variant_attrs v) names False None)
        (ok_or (SynError ''every variant requires a tag in 0..=255'')))"

fun reject_fields :: "field_decl list \<Rightarrow> string list \<Rightarrow> syn_error + unit" where
  "reject_fields [] names = Inr ()"
| "reject_fields (f # fs) names =
     and_then (reject_attributes (field_attrs f) names) (\<lambda>_. reject_fields fs names)"

fun enum_tags :: "variant_decl list \<Rightarrow> u8 list \<Rightarrow> syn_error + u8 list" where
  "enum_tags [] tags = Inr tags"
| "enum_tags (v # vs) tags =
     and_then (variant_tag v [''wire'']) (\<lambda>tag.
     if tag \<in> set tags then Inl (SynError ''duplicate wire tag'')
     else and_then (reject_fields (variant_fields v) [''wire'']) (\<lambda>_.
       enum_tags vs (tags @ [tag])))"

text \<open>What the macro generates: the sequence of fields, or the tags of the variants.\<close>

datatype wire_impl = StructImpl nat | EnumImpl "u8 list"

definition expand_enum ::
  "syn_error + unit \<Rightarrow> variant_decl list \<Rightarrow> syn_error + wire_impl" where
  "expand_enum core vs =
     (if vs = [] then Inl (SynError ''Wire requires at least one enum variant'')
      else and_then (enum_tags vs []) (\<lambda>tags. and_then core (\<lambda>_. Inr (EnumImpl tags))))"

definition expand_struct ::
  "syn_error + unit \<Rightarrow> field_decl list \<Rightarrow> syn_error + wire_impl" where
  "expand_struct core fs =
     (if fs = [] then Inl (SynError ''Wire requires a nonempty struct'')
      else and_then core (\<lambda>_. Inr (StructImpl (length fs))))"

definition expand :: "syn_error + unit \<Rightarrow> derive_input \<Rightarrow> syn_error + wire_impl" where
  "expand core input =
     and_then (reject_attributes (input_attrs input) [''wire'']) (\<lambda>_.
     case input_data input of
       EnumData vs \<Rightarrow> expand_enum core vs
     | StructData fs \<Rightarrow> and_then (reject_fields fs [''wire'']) (\<lambda>_. expand_struct core fs)
     | UnionData \<Rightarrow> Inl (SynError ''Wire cannot be derived for unions; implement Wire manually''))"

section \<open>The generated implementations\<close>

definition no_fields :: "unit wire" where
  "no_fields =
     \<lparr>min_size = 0, mem_size = 0, wvalidate = Inr, wdecode = (\<lambda>r. Inr ((), r)),
      wencode = (\<lambda>_ w. Inr w)\<rparr>"

definition and_field :: "'a wire \<Rightarrow> 'b wire \<Rightarrow> ('a \<times> 'b) wire" where
  "and_field A B =
     \<lparr>min_size = min_size A + min_size B, mem_size = mem_size A + mem_size B,
      wvalidate = (\<lambda>r. and_then (wvalidate A r) (wvalidate B)),
      wdecode = (\<lambda>r. and_then (wdecode A r) (\<lambda>(a, r).
        and_then (wdecode B r) (\<lambda>(b, r). Inr ((a, b), r)))),
      wencode = (\<lambda>(a, b) w. and_then (wencode A a w) (wencode B b))\<rparr>"

text \<open>The constructor around the decoded fields, and the pattern that takes them apart.\<close>

definition construct_wire :: "nat \<Rightarrow> ('a \<Rightarrow> 'b) \<Rightarrow> ('b \<Rightarrow> 'a) \<Rightarrow> 'a wire \<Rightarrow> 'b wire" where
  "construct_wire sz mk un A =
     \<lparr>min_size = min_size A, mem_size = sz,
      wvalidate = wvalidate A,
      wdecode = (\<lambda>r. and_then (wdecode A r) (\<lambda>(a, r). Inr (mk a, r))),
      wencode = (\<lambda>b w. wencode A (un b) w)\<rparr>"

text \<open>
  The enum: \<open>which\<close> is the index of the match arm a value takes, \<open>arms\<close> are the tags with
  the field sequence of each variant.
\<close>

definition smallest_size :: "('a wire) list \<Rightarrow> nat" where
  "smallest_size Ws =
     fold (\<lambda>W smallest. if 1 + min_size W < smallest then 1 + min_size W else smallest) Ws usize_max"

definition enum_wire :: "nat \<Rightarrow> ('a \<Rightarrow> nat) \<Rightarrow> (u8 \<times> 'a wire) list \<Rightarrow> 'a wire" where
  "enum_wire sz which arms =
     \<lparr>min_size = smallest_size (map snd arms), mem_size = sz,
      wvalidate = (\<lambda>r. and_then (wdecode u8_wire r) (\<lambda>(tag, r).
        case map_of arms tag of Some W \<Rightarrow> wvalidate W r
        | None \<Rightarrow> Inl (CodecError ''unknown enum tag''))),
      wdecode = (\<lambda>r. and_then (wdecode u8_wire r) (\<lambda>(tag, r).
        case map_of arms tag of Some W \<Rightarrow> wdecode W r
        | None \<Rightarrow> Inl (CodecError ''unknown enum tag''))),
      wencode = (\<lambda>v w.
        and_then (wencode u8_wire (fst (arms ! which v)) w) (wencode (snd (arms ! which v)) v))\<rparr>"

section \<open>The generated code meets the codec interface\<close>

definition no_fields_shape :: "unit shape" where
  "no_fields_shape =
     \<lparr>sendable = (\<lambda>_. True), canon = (\<lambda>_. []), heap_cost = (\<lambda>_. 0), nesting = (\<lambda>_. 0)\<rparr>"

definition and_field_shape :: "'a shape \<Rightarrow> 'b shape \<Rightarrow> ('a \<times> 'b) shape" where
  "and_field_shape A B =
     \<lparr>sendable = (\<lambda>(a, b). sendable A a \<and> sendable B b),
      canon = (\<lambda>(a, b). canon A a @ canon B b),
      heap_cost = (\<lambda>(a, b). heap_cost A a + heap_cost B b),
      nesting = (\<lambda>(a, b). max (nesting A a) (nesting B b))\<rparr>"

definition construct_shape :: "('a \<Rightarrow> 'b) \<Rightarrow> ('b \<Rightarrow> 'a) \<Rightarrow> 'a shape \<Rightarrow> 'b shape" where
  "construct_shape mk un A =
     \<lparr>sendable = (\<lambda>b. sendable A (un b) \<and> mk (un b) = b),
      canon = (\<lambda>b. canon A (un b)), heap_cost = (\<lambda>b. heap_cost A (un b)),
      nesting = (\<lambda>b. nesting A (un b))\<rparr>"

definition enum_shape :: "('a \<Rightarrow> nat) \<Rightarrow> (u8 \<times> 'a shape) list \<Rightarrow> 'a shape" where
  "enum_shape which arms =
     \<lparr>sendable = (\<lambda>v. sendable (snd (arms ! which v)) v),
      canon = (\<lambda>v. fst (arms ! which v) # canon (snd (arms ! which v)) v),
      heap_cost = (\<lambda>v. heap_cost (snd (arms ! which v)) v),
      nesting = (\<lambda>v. nesting (snd (arms ! which v)) v)\<rparr>"

interpretation none: wire_fields no_fields no_fields_shape
  by unfold_locales (simp_all add: no_fields_def no_fields_shape_def consumed_def)

lemma and_field_fields:
  assumes "wire_fields A SA" and "wire_fields B SB"
  shows "wire_fields (and_field A B) (and_field_shape SA SB)"
proof (unfold_locales, goal_cases)
  case (1 r v r')
  then obtain a b r1 where v: "v = (a, b)" and a: "wdecode A r = Inr (a, r1)"
    and b: "wdecode B r1 = Inr (b, r')"
    by (auto simp: and_field_def res_simps)
  note sa = wire_fields.decode_sound [OF assms(1) a] and sb = wire_fields.decode_sound [OF assms(2) b]
  have "r' = consumed SB b (consumed SA a r (remaining r1)) (remaining r')"
    using sa sb by metis
  then have "r' = consumed (and_field_shape SA SB) v r (remaining r')"
    by (simp add: v consumed_def and_field_shape_def add.assoc)
  then show ?case using sa sb by (simp add: v and_field_shape_def)
next
  case (2 r v r')
  then obtain a b r1 where v: "v = (a, b)" and a: "wdecode A r = Inr (a, r1)"
    and b: "wdecode B r1 = Inr (b, r')"
    by (auto simp: and_field_def res_simps)
  have "allocation r1 \<le> max_allocation_bytes \<and> depth r + nesting SA a \<le> max_depth"
    using 2 by (intro wire_fields.decode_budget [OF assms(1) a]) auto
  moreover have "depth r1 = depth r" by (rule wire_fields.decode_remaining(2) [OF assms(1) a])
  ultimately show ?case
    using wire_fields.decode_budget [OF assms(2) b] 2 by (auto simp: v and_field_shape_def max_def)
next
  case (3 v r rest)
  obtain a b where v: "v = (a, b)" by (cases v)
  define r1 where "r1 = consumed SA a r (canon SB b @ rest)"
  have "wdecode A r = Inr (a, r1)"
    unfolding r1_def using 3 by (intro wire_fields.decode_complete [OF assms(1)])
      (simp_all add: v and_field_shape_def)
  moreover have "wdecode B r1 = Inr (b, consumed SB b r1 rest)"
    using 3 by (intro wire_fields.decode_complete [OF assms(2)])
      (simp_all add: v and_field_shape_def r1_def)
  moreover have "consumed SB b r1 rest = consumed (and_field_shape SA SB) v r rest"
    by (simp add: r1_def consumed_def and_field_shape_def v add.assoc)
  ultimately show ?case by (simp add: and_field_def v)
next
  case (4 r v r')
  then show ?case
    by (auto simp: and_field_def res_simps dest!: wire_fields.decode_validates [OF assms(1)]
        wire_fields.decode_validates [OF assms(2)])
next
  case (5 r)
  show ?case
  proof (cases "wdecode A r")
    case (Inr p)
    then obtain a r1 where a: "wdecode A r = Inr (a, r1)" by (cases p) auto
    have "allocator r1 n" for n
      using 5 wire_fields.decode_remaining(3) [OF assms(1) a] by simp
    then have "wvalidate B r1 = and_then (wdecode B r1) (\<lambda>(_, r'). Inr r')"
      by (rule wire_fields.validate_agrees [OF assms(2)])
    then show ?thesis
      using a wire_fields.decode_validates [OF assms(1) a]
      by (cases "wdecode B r1") (auto simp: and_field_def)
  qed (simp add: and_field_def wire_fields.validate_agrees [OF assms(1) 5])
next
  case (6 v)
  then show ?case
    using wire_fields.canon_length [OF assms(1)] wire_fields.canon_length [OF assms(2)]
    by (cases v) (auto simp: and_field_def and_field_shape_def add_mono)
next
  case (7 v v' xs ys)
  obtain a b a' b' where v: "v = (a, b)" "v' = (a', b')" by (cases v; cases v')
  have eq: "canon SA a @ (canon SB b @ xs) = canon SA a' @ (canon SB b' @ ys)"
    using 7 by (simp add: v and_field_shape_def)
  have "a = a'"
    using 7 by (intro wire_fields.canon_prefix [OF assms(1) _ _ eq]) (auto simp: v and_field_shape_def)
  moreover have "b = b'"
    using 7 eq \<open>a = a'\<close>
    by (intro wire_fields.canon_prefix [OF assms(2)]) (auto simp: v and_field_shape_def)
  ultimately show ?case by (simp add: v)
next
  case (8 v w w')
  then obtain a b w1 where v: "v = (a, b)" and a: "wencode A a w = Inr w1"
    and b: "wencode B b w1 = Inr w'"
    by (cases v) (auto simp: and_field_def res_simps)
  show ?case
    using wire_fields.encode_sound [OF assms(1) a] wire_fields.encode_sound [OF assms(2) b]
    by (simp add: v and_field_shape_def)
next
  case (9 v w w')
  then show ?case
    by (cases v) (auto simp: and_field_def res_simps dest!: wire_fields.encode_budget [OF assms(1)]
        wire_fields.encode_budget [OF assms(2)])
next
  case (10 v w)
  obtain a b where v: "v = (a, b)" by (cases v)
  define w1 where "w1 = w\<lparr>buf := buf w @ canon SA a\<rparr>"
  have "wencode A a w = Inr w1"
    unfolding w1_def using 10
    by (intro wire_fields.encode_complete [OF assms(1)]) (simp_all add: v and_field_shape_def)
  moreover have "wencode B b w1 = Inr (w1\<lparr>buf := buf w1 @ canon SB b\<rparr>)"
    using 10
    by (intro wire_fields.encode_complete [OF assms(2)]) (simp_all add: v and_field_shape_def w1_def)
  ultimately show ?case by (simp add: v and_field_def and_field_shape_def w1_def)
qed

lemma construct_fields:
  assumes A: "wire_fields A S" and inv: "\<And>a. un (mk a) = a"
  shows "wire_fields (construct_wire sz mk un A) (construct_shape mk un S)"
proof (unfold_locales, goal_cases)
  case (1 r v r')
  then obtain a where v: "v = mk a" and a: "wdecode A r = Inr (a, r')"
    by (auto simp: construct_wire_def res_simps)
  show ?case
    using wire_fields.decode_sound [OF A a] by (simp add: v construct_shape_def consumed_def inv)
next
  case (2 r v r')
  then obtain a where v: "v = mk a" and a: "wdecode A r = Inr (a, r')"
    by (auto simp: construct_wire_def res_simps)
  show ?case
    using wire_fields.decode_budget [OF A a] 2 by (simp add: v construct_shape_def inv)
next
  case (3 v r rest)
  then have "wdecode A r = Inr (un v, consumed S (un v) r rest)"
    by (intro wire_fields.decode_complete [OF A]) (simp_all add: construct_shape_def)
  then show ?case
    using 3 by (simp add: construct_wire_def construct_shape_def consumed_def)
next
  case (4 r v r')
  then show ?case
    by (auto simp: construct_wire_def res_simps dest: wire_fields.decode_validates [OF A])
next
  case (5 r)
  then show ?case
    by (cases "wdecode A r") (auto simp: construct_wire_def wire_fields.validate_agrees [OF A])
next
  case (6 v)
  then show ?case
    by (auto simp: construct_wire_def construct_shape_def dest: wire_fields.canon_length [OF A])
next
  case (7 v v' xs ys)
  then have "un v = un v'"
    by (intro wire_fields.canon_prefix [OF A, of "un v" "un v'" xs ys])
      (simp_all add: construct_shape_def)
  moreover have "mk (un v) = v" "mk (un v') = v'" using 7 by (simp_all add: construct_shape_def)
  ultimately show ?case by metis
next
  case (8 v w w')
  then show ?case
    by (auto simp: construct_wire_def construct_shape_def dest: wire_fields.encode_sound [OF A])
next
  case (9 v w w')
  then show ?case
    by (auto simp: construct_wire_def dest: wire_fields.encode_budget [OF A])
next
  case (10 v w)
  then show ?case
    by (auto simp: construct_wire_def construct_shape_def wire_fields.encode_complete [OF A])
qed

section \<open>Generated enums\<close>

text \<open>What the generated match relies on: distinct tags, one arm per variant, and every
  payload codec producing values of its own variant.\<close>

definition enum_arms_ok ::
  "('a \<Rightarrow> nat) \<Rightarrow> (u8 \<times> 'a wire) list \<Rightarrow> (u8 \<times> 'a shape) list \<Rightarrow> bool" where
  "enum_arms_ok which arms shapes \<longleftrightarrow>
     distinct (map fst arms) \<and> map fst shapes = map fst arms \<and> arms \<noteq> [] \<and>
     (\<forall>v. which v < length arms) \<and>
     (\<forall>i < length arms. wire_fields (snd (arms ! i)) (snd (shapes ! i)) \<and>
        (\<forall>v. sendable (snd (shapes ! i)) v \<longrightarrow> which v = i))"

lemma smallest_fold_le:
  "fold (\<lambda>W s. if 1 + min_size W < s then 1 + min_size W else s) Ws x \<le> x" for x :: nat
  by (induction Ws arbitrary: x) (auto intro: order_trans less_imp_le)

lemma smallest_size_le: "W \<in> set Ws \<Longrightarrow> smallest_size Ws \<le> 1 + min_size W"
proof -
  have "W \<in> set Ws \<Longrightarrow>
      fold (\<lambda>W s. if 1 + min_size W < s then 1 + min_size W else s) Ws x \<le> 1 + min_size W"
    for x
  proof (induction Ws arbitrary: x)
    case (Cons V Ws)
    show ?case
    proof (cases "W = V")
      case True
      then show ?thesis
        using smallest_fold_le [of Ws "if 1 + min_size V < x then 1 + min_size V else x"]
        by (auto split: if_splits)
    qed (use Cons in auto)
  qed simp
  then show "W \<in> set Ws \<Longrightarrow> smallest_size Ws \<le> 1 + min_size W"
    by (simp add: smallest_size_def)
qed

lemma smallest_size_pos: "0 < smallest_size Ws"
proof -
  have "0 < x \<Longrightarrow> 0 < fold (\<lambda>W s. if 1 + min_size W < s then 1 + min_size W else s) Ws x"
    for x :: nat
    by (induction Ws arbitrary: x) auto
  then show ?thesis by (simp add: smallest_size_def usize_max_def)
qed

lemma map_of_arm:
  assumes "distinct (map fst arms)" "i < length arms"
  shows "map_of arms (fst (arms ! i)) = Some (snd (arms ! i))"
  using assms by (simp add: map_of_eq_Some_iff)

lemma enum_decode_Inr:
  assumes "distinct (map fst arms)"
  shows "wdecode (enum_wire sz which arms) r = Inr (v, r') \<longleftrightarrow>
    (\<exists>i r1. i < length arms \<and> remaining r = fst (arms ! i) # remaining r1 \<and>
       r1 = r\<lparr>remaining := remaining r1\<rparr> \<and> wdecode (snd (arms ! i)) r1 = Inr (v, r'))"
    (is "?L \<longleftrightarrow> ?R")
proof
  assume ?L
  then obtain tag r1 W where t: "wdecode u8_wire r = Inr (tag, r1)" and m: "map_of arms tag = Some W"
    and d: "wdecode W r1 = Inr (v, r')"
    by (auto simp: enum_wire_def res_simps split: option.splits)
  from m have "(tag, W) \<in> set arms" by (rule map_of_SomeD)
  then obtain i where "i < length arms" "arms ! i = (tag, W)" by (auto simp: in_set_conv_nth)
  then show ?R
    using t d by (intro exI [of _ i] exI [of _ r1]) (simp add: scalar_decode_Inr)
next
  assume ?R
  then obtain i r1 where "i < length arms" "remaining r = fst (arms ! i) # remaining r1"
    "r1 = r\<lparr>remaining := remaining r1\<rparr>" "wdecode (snd (arms ! i)) r1 = Inr (v, r')"
    by blast
  moreover from this have "wdecode u8_wire r = Inr (fst (arms ! i), r1)"
    by (simp add: scalar_decode_Inr)
  ultimately show ?L using map_of_arm [OF assms] by (simp add: enum_wire_def)
qed

lemma enum_codec:
  assumes ok: "enum_arms_ok which arms shapes"
  shows "wire_codec (enum_wire sz which arms) (enum_shape which shapes)"
proof -
  have dist: "distinct (map fst arms)" and fsts: "map fst shapes = map fst arms"
    and which: "\<And>v. which v < length arms"
    and arm: "\<And>i. i < length arms \<Longrightarrow> wire_fields (snd (arms ! i)) (snd (shapes ! i))"
    and own: "\<And>i v. i < length arms \<Longrightarrow> sendable (snd (shapes ! i)) v \<Longrightarrow> which v = i"
    using ok by (auto simp: enum_arms_ok_def)
  have len: "length shapes = length arms" using fsts by (metis length_map)
  have tag: "fst (shapes ! i) = fst (arms ! i)" if "i < length arms" for i
    using fsts that len by (metis nth_map)
  have tag_eq: "i = j" if "fst (arms ! i) = fst (arms ! j)" "i < length arms" "j < length arms" for i j
    using dist that by (metis distinct_conv_nth length_map nth_map)
  note dec = enum_decode_Inr [OF dist]
  show ?thesis
  proof (unfold_locales, goal_cases)
    case (1 r v r')
    then obtain i r1 where i: "i < length arms" "remaining r = fst (arms ! i) # remaining r1"
      "r1 = r\<lparr>remaining := remaining r1\<rparr>" and d: "wdecode (snd (arms ! i)) r1 = Inr (v, r')"
      by (auto simp: dec)
    note s = wire_fields.decode_sound [OF arm [OF i(1)] d]
    have "which v = i" using own i s by blast
    moreover have "consumed (snd (shapes ! i)) v r1 (remaining r') =
        consumed (snd (shapes ! i)) v r (remaining r')"
      by (subst i(3)) (simp add: consumed_def)
    ultimately show ?case using s i tag by (simp add: enum_shape_def consumed_def)
  next
    case (2 r v r')
    then obtain i r1 where i: "i < length arms" "r1 = r\<lparr>remaining := remaining r1\<rparr>"
      and d: "wdecode (snd (arms ! i)) r1 = Inr (v, r')"
      by (auto simp: dec)
    have "which v = i"
      using own i(1) wire_fields.decode_sound [OF arm [OF i(1)] d] by blast
    moreover have "allocation r1 = allocation r" "depth r1 = depth r"
      using i(2) by (metis decoder.select_convs decoder.surjective decoder.update_convs(1))+
    ultimately show ?case
      using wire_fields.decode_budget [OF arm [OF i(1)] d] 2 by (simp add: enum_shape_def)
  next
    case (3 v r rest)
    define r1 where "r1 = r\<lparr>remaining := canon (snd (shapes ! which v)) v @ rest\<rparr>"
    have "wdecode (snd (arms ! which v)) r1 = Inr (v, consumed (snd (shapes ! which v)) v r1 rest)"
      using 3 by (intro wire_fields.decode_complete [OF arm [OF which]])
        (simp_all add: r1_def enum_shape_def)
    moreover have "consumed (snd (shapes ! which v)) v r1 rest = consumed (enum_shape which shapes) v r rest"
      by (simp add: r1_def consumed_def enum_shape_def)
    ultimately show ?case
      using 3 which [of v] tag [OF which]
      unfolding dec by (intro exI [of _ "which v"] exI [of _ r1]) (simp add: r1_def enum_shape_def)
  next
    case (4 r v r')
    then obtain tag r1 W where t: "wdecode u8_wire r = Inr (tag, r1)" and m: "map_of arms tag = Some W"
      and d: "wdecode W r1 = Inr (v, r')"
      by (auto simp: enum_wire_def res_simps split: option.splits)
    from m obtain i where "i < length arms" "arms ! i = (tag, W)"
      by (metis in_set_conv_nth map_of_SomeD)
    then have "wvalidate W r1 = Inr r'"
      using wire_fields.decode_validates [OF arm, of i r1 v r'] d by simp
    then show ?case using t m by (simp add: enum_wire_def)
  next
    case (5 r)
    show ?case
    proof (cases "wdecode u8_wire r")
      case (Inr p)
      then obtain tag r1 where t: "wdecode u8_wire r = Inr (tag, r1)" by (cases p) auto
      have al: "allocator r1 n" for n using 5 w8.decode_remaining(3) [OF t] by simp
      show ?thesis
      proof (cases "map_of arms tag")
        case (Some W)
        then obtain i where "i < length arms" "arms ! i = (tag, W)"
          by (metis in_set_conv_nth map_of_SomeD)
        then have "wvalidate W r1 = and_then (wdecode W r1) (\<lambda>(_, r'). Inr r')"
          using wire_fields.validate_agrees [OF arm, of i r1] al by simp
        with t Some show ?thesis by (simp add: enum_wire_def)
      qed (use t in \<open>simp add: enum_wire_def\<close>)
    qed (simp add: enum_wire_def)
  next
    case (6 v)
    have "snd (arms ! which v) \<in> set (map snd arms)" using which [of v] by force
    then have "smallest_size (map snd arms) \<le> 1 + min_size (snd (arms ! which v))"
      by (rule smallest_size_le)
    then show ?case
      using 6 wire_fields.canon_length [OF arm [OF which [of v]], of v]
      by (simp add: enum_wire_def enum_shape_def)
  next
    case (7 v v' xs ys)
    then have "fst (arms ! which v) = fst (arms ! which v')"
      using tag [OF which] by (simp add: enum_shape_def)
    then have w: "which v = which v'" using tag_eq which by blast
    show ?case
      by (rule wire_fields.canon_prefix [OF arm [OF which [of v]], of v v' xs ys])
        (use 7 w in \<open>simp_all add: enum_shape_def\<close>)
  next
    case (8 v w w')
    then obtain w1 where "w1 = w\<lparr>buf := buf w @ [fst (arms ! which v)]\<rparr>"
      and e: "wencode (snd (arms ! which v)) v w1 = Inr w'"
      by (auto simp: enum_wire_def res_simps encoder_write_Inr)
    then show ?case
      using wire_fields.encode_sound [OF arm [OF which] e] tag [OF which, of v]
      by (simp add: enum_shape_def)
  next
    case (9 v w w')
    then obtain w1 where "encoder_write [fst (arms ! which v)] w = Inr w1"
      and e: "wencode (snd (arms ! which v)) v w1 = Inr w'"
      by (auto simp: enum_wire_def res_simps)
    then show ?case
      using wire_fields.encode_budget [OF arm [OF which] e] 9 by (auto simp: encoder_write_Inr)
  next
    case (10 v w)
    define w1 where "w1 = w\<lparr>buf := buf w @ [fst (arms ! which v)]\<rparr>"
    have "encoder_write [fst (arms ! which v)] w = Inr w1"
      using 10 by (simp add: encoder_write_Inr w1_def enum_shape_def)
    moreover have "wencode (snd (arms ! which v)) v w1 =
        Inr (w1\<lparr>buf := buf w1 @ canon (snd (shapes ! which v)) v\<rparr>)"
      using 10 by (intro wire_fields.encode_complete [OF arm [OF which]])
        (simp_all add: w1_def enum_shape_def)
    ultimately show ?case using tag [OF which, of v] by (simp add: enum_wire_def enum_shape_def w1_def)
  qed (simp add: enum_wire_def smallest_size_pos)
qed

section \<open>Accepted schemas\<close>

lemma enum_tags_sound:
  "enum_tags vs tags = Inr tags' \<Longrightarrow> distinct tags \<Longrightarrow>
     distinct tags' \<and> length tags' = length tags + length vs"
  by (induction vs tags rule: enum_tags.induct) (auto simp: res_simps split: if_splits)

lemma expand_enum_tags:
  assumes "expand core input = Inr (EnumImpl tags)"
  shows "distinct tags \<and> tags \<noteq> []"
proof -
  obtain vs where "vs \<noteq> []" "enum_tags vs [] = Inr tags"
    using assms
    by (auto simp: expand_def expand_enum_def expand_struct_def res_simps
        split: type_data.splits if_splits)
  then show ?thesis using enum_tags_sound by fastforce
qed

section \<open>Properties\<close>

text \<open>C27. The code derived for an enum meets the codec interface whenever its arms do: the
  one-byte tag selects the payload codec of its own variant, the smallest size is positive,
  and every budget is respected.\<close>

theorem derived_enum_codec:
  assumes "enum_arms_ok which arms shapes"
  shows "wire_codec (enum_wire sz which arms) (enum_shape which shapes)"
  using assms by (rule enum_codec)

text \<open>The smallest enum: two field-less variants, decoded through \<open>construct_wire\<close>.\<close>

definition flag_arms :: "(u8 \<times> bool wire) list" where
  "flag_arms =
     [(0, construct_wire 1 (\<lambda>_. False) (\<lambda>_. ()) no_fields), (7, construct_wire 1 (\<lambda>_. True) (\<lambda>_. ()) no_fields)]"

definition flag_shapes :: "(u8 \<times> bool shape) list" where
  "flag_shapes =
     [(0, construct_shape (\<lambda>_. False) (\<lambda>_. ()) no_fields_shape),
      (7, construct_shape (\<lambda>_. True) (\<lambda>_. ()) no_fields_shape)]"

lemma flag_arm_fields:
  "wire_fields (construct_wire n (\<lambda>_. b) (\<lambda>_. ()) no_fields) (construct_shape (\<lambda>_. b) (\<lambda>_. ()) no_fields_shape)"
  by (rule construct_fields [OF none.wire_fields_axioms]) simp

lemma flag_arm_sendable:
  "sendable (construct_shape (\<lambda>_. b) (\<lambda>_. ()) no_fields_shape) v \<longleftrightarrow> v = b"
  by (auto simp: construct_shape_def no_fields_shape_def)

lemma flag_arms_ok: "enum_arms_ok (\<lambda>b. if b then 1 else 0) flag_arms flag_shapes"
  by (auto simp: enum_arms_ok_def flag_arms_def flag_shapes_def less_Suc_eq flag_arm_fields
      flag_arm_sendable)

theorem derived_enum_codec_witness:
  "wire_codec (enum_wire 1 (\<lambda>b. if b then 1 else 0) flag_arms)
     (enum_shape (\<lambda>b. if b then 1 else 0) flag_shapes)"
  by (rule derived_enum_codec [OF flag_arms_ok])

text \<open>An enum schema the derive accepts has one tag per variant, all different, and at
  least one; otherwise the derive reports an error.\<close>

theorem accepted_enum_tags:
  assumes "expand core \<lparr>input_attrs = attrs, input_data = EnumData vs\<rparr> = Inr impl"
  shows "\<exists>tags. impl = EnumImpl tags \<and> distinct tags \<and> length tags = length vs \<and> tags \<noteq> []"
proof -
  obtain tags where t: "impl = EnumImpl tags" "vs \<noteq> []" "enum_tags vs [] = Inr tags"
    using assms by (auto simp: expand_def expand_enum_def res_simps split: if_splits)
  with enum_tags_sound [OF t(3)] show ?thesis by auto
qed

definition tagged :: "nat \<Rightarrow> variant_decl" where
  "tagged n =
     \<lparr>variant_attrs = [Attribute ''wire'' [(''tag'', Literal n)]], discriminant = False,
      variant_fields = []\<rparr>"

theorem accepted_enum_tags_witness:
  "\<exists>tags. EnumImpl [0, 7] = EnumImpl tags \<and> distinct tags \<and> length tags = 2"
proof -
  have "expand (Inr ()) \<lparr>input_attrs = [], input_data = EnumData [tagged 0, tagged 7]\<rparr> =
      Inr (EnumImpl [0, 7])"
    by code_simp
  from accepted_enum_tags [OF this] show ?thesis by simp
qed

end
