(* ===== verification/Hashing.thy ===== *)
theory Hashing
  imports Prelude
begin

unbundle bit_operations_syntax

text \<open>
  \<^verbatim>\<open>crates/synctick/src/hashing.rs\<close>: the streaming FNV-1a 64-bit fingerprint and the
  \<open>StableHash\<close> implementations.  A \<open>StateHasher\<close> is its 64-bit state and
  \<open>hash_into(&self, &mut hasher)\<close> a function from the value and the old hasher to the new
  one.  Floats are their IEEE bit patterns (\<open>to_bits\<close>), strings their UTF-8 bytes.

  The interface is the locale \<open>streaming_hash\<close>: an implementation streams a canonical
  representation, which determines the value and its own end.
\<close>

section \<open>The hasher\<close>

type_synonym hasher = u64
type_synonym 'a hash = "'a \<Rightarrow> hasher \<Rightarrow> hasher"

definition hasher_new :: hasher where
  "hasher_new = 0xcbf29ce484222325"

definition fnv_prime :: u64 where
  "fnv_prime = 0x100000001b3"

definition write_byte :: "byte \<Rightarrow> hasher \<Rightarrow> hasher" where
  "write_byte b h = (h XOR ucast b) * fnv_prime"

definition write_bytes :: "byte list \<Rightarrow> hasher \<Rightarrow> hasher" where
  "write_bytes bs h = fold write_byte bs h"

definition field :: "'a hash \<Rightarrow> 'a hash" where
  "field hf v h = hf v h"

definition stable_hash :: "'a hash \<Rightarrow> 'a \<Rightarrow> u64" where
  "stable_hash hf v = field hf v hasher_new"

section \<open>StableHash implementations\<close>

definition hash_int :: "('a::len word) hash" where
  "hash_int v h = write_bytes (to_le_bytes v) h"

definition hash_bool :: "bool hash" where
  "hash_bool b h = field hash_int (if b then 1 else 0 :: u8) h"

definition hash_f32 :: "u32 hash" where
  "hash_f32 bits h = field hash_int bits h"

definition hash_f64 :: "u64 hash" where
  "hash_f64 bits h = field hash_int bits h"

definition hash_unit :: "unit hash" where
  "hash_unit _ h = h"

definition hash_ref :: "'a hash \<Rightarrow> 'a hash" where
  "hash_ref hf v h = hf v h"

definition hash_str :: "byte list hash" where
  "hash_str s h = write_bytes s (field hash_int (word_of_nat (length s) :: u64) h)"

definition hash_slice :: "'a hash \<Rightarrow> 'a list hash" where
  "hash_slice hf vs h = fold (field hf) vs (field hash_int (word_of_nat (length vs) :: u64) h)"

definition hash_vec :: "'a hash \<Rightarrow> 'a list hash" where
  "hash_vec hf vs h = hash_slice hf vs h"

definition hash_array :: "'a hash \<Rightarrow> 'a list hash" where
  "hash_array hf vs h = hash_slice hf vs h"

definition hash_option :: "'a hash \<Rightarrow> 'a option hash" where
  "hash_option hf v h =
     (case v of None \<Rightarrow> field hash_int (0::u8) h
      | Some x \<Rightarrow> field hf x (field hash_int (1::u8) h))"

definition hash_pair :: "'a hash \<Rightarrow> 'b hash \<Rightarrow> ('a \<times> 'b) hash" where
  "hash_pair ha hb v h = field hb (snd v) (field ha (fst v) h)"

section \<open>The mixing step loses nothing\<close>

text \<open>The FNV prime is odd, so multiplication by it is a bijection on 64-bit words.\<close>

definition fnv_inverse :: u64 where
  "fnv_inverse = 0xce965057aff6957b"

lemma fnv_prime_inverse: "fnv_prime * fnv_inverse = 1"
  by (simp add: fnv_prime_def fnv_inverse_def)

lemma fnv_mult_cancel: "a * fnv_prime = b * fnv_prime \<longleftrightarrow> a = b"
proof
  assume "a * fnv_prime = b * fnv_prime"
  then have "a * (fnv_prime * fnv_inverse) = b * (fnv_prime * fnv_inverse)"
    by (simp flip: mult.assoc)
  then show "a = b" by (simp add: fnv_prime_inverse)
qed simp

lemma xor_cancel: "h XOR (a::'a::len word) = h XOR b \<longleftrightarrow> a = b"
  by (metis xor.left_commute xor.right_neutral xor_self_eq)

lemma ucast_byte_inj: "(ucast (a::byte) :: u64) = ucast b \<longleftrightarrow> a = b"
proof
  assume "(ucast a :: u64) = ucast b"
  then have "unat (ucast a :: u64) = unat (ucast b :: u64)" by simp
  moreover have "unat (ucast x :: u64) = unat x" for x :: byte
  proof -
    have "unat x < 256" using unsigned_less [of x] by simp
    then show ?thesis by (simp add: unsigned_ucast_eq take_bit_nat_eq_self)
  qed
  ultimately show "a = b" by (simp add: word_unat_eq_iff)
qed simp

lemma write_byte_state: "write_byte b h = write_byte b h' \<longleftrightarrow> h = h'"
  unfolding write_byte_def fnv_mult_cancel
  by (metis xor.commute xor_cancel)

lemma write_byte_byte: "write_byte a h = write_byte b h \<longleftrightarrow> a = b"
  by (simp add: write_byte_def fnv_mult_cancel xor_cancel ucast_byte_inj)

lemma write_bytes_simps [simp]:
  "write_bytes [] h = h"
  "write_bytes (b # bs) h = write_bytes bs (write_byte b h)"
  "write_bytes (as @ bs) h = write_bytes bs (write_bytes as h)"
  by (simp_all add: write_bytes_def)

lemma write_bytes_state: "write_bytes bs h = write_bytes bs h' \<longleftrightarrow> h = h'"
  by (induction bs arbitrary: h h') (simp_all add: write_byte_state)

lemma write_bytes_one_byte:
  "write_bytes (as @ a # bs) h = write_bytes (as @ b # bs) h \<longleftrightarrow> a = b"
  by (simp add: write_bytes_state write_byte_byte)

section \<open>The hash interface\<close>

locale streaming_hash =
  fixes hf :: "'a hash" and rep :: "'a \<Rightarrow> byte list" and valid :: "'a \<Rightarrow> bool"
  assumes streams: "hf v h = write_bytes (rep v) h"
    and rep_prefix: "valid v \<Longrightarrow> valid v' \<Longrightarrow> rep v @ xs = rep v' @ ys \<Longrightarrow> v = v'"
begin

lemma field_streams: "field hf v h = write_bytes (rep v) h"
  by (simp add: field_def streams)

lemma stable_hash_rep: "stable_hash hf v = write_bytes (rep v) hasher_new"
  by (simp add: stable_hash_def field_streams)

lemma fold_streams: "fold (field hf) vs h = write_bytes (concat (map rep vs)) h"
  by (induction vs arbitrary: h) (simp_all add: field_streams)

lemma concat_prefix:
  "list_all valid vs \<Longrightarrow> list_all valid vs' \<Longrightarrow> length vs = length vs' \<Longrightarrow>
     concat (map rep vs) @ xs = concat (map rep vs') @ ys \<Longrightarrow> vs = vs' \<and> xs = ys"
proof (induction vs vs' rule: list_induct2')
  case (4 v vs v' vs')
  have eq: "rep v @ (concat (map rep vs) @ xs) = rep v' @ (concat (map rep vs') @ ys)"
    using 4 by simp
  have "v = v'" using 4 by (intro rep_prefix [OF _ _ eq]) simp_all
  with eq 4 show ?case by simp
qed simp_all

text \<open>Two values whose representations differ in exactly one byte have different hashes.\<close>

lemma one_byte_detected:
  assumes "rep v = as @ a # bs" "rep v' = as @ b # bs" "a \<noteq> b"
  shows "stable_hash hf v \<noteq> stable_hash hf v'"
  using assms write_bytes_one_byte [of as a bs hasher_new b] by (simp add: stable_hash_rep)

end

lemma int_stable:
  assumes "8 dvd LENGTH('a::len)"
  shows "streaming_hash (hash_int :: ('a word) hash) to_le_bytes (\<lambda>_. True)"
proof (unfold_locales, goal_cases)
  case (2 v v' xs ys)
  then have "to_le_bytes v = to_le_bytes v'" by (simp add: append_eq_append_conv)
  then show ?case using to_le_bytes_inj assms by blast
qed (simp add: hash_int_def)

interpretation h8: streaming_hash "hash_int :: u8 hash" to_le_bytes "\<lambda>_. True"
  by (rule int_stable) simp
interpretation h32: streaming_hash "hash_int :: u32 hash" to_le_bytes "\<lambda>_. True"
  by (rule int_stable) simp
interpretation h64: streaming_hash "hash_int :: u64 hash" to_le_bytes "\<lambda>_. True"
  by (rule int_stable) simp

definition bool_rep :: "bool \<Rightarrow> byte list" where
  "bool_rep b = [if b then 1 else 0]"

lemma to_le_byte: "to_le_bytes (b::u8) = [b]"
proof -
  have "unat b < 256" using unsigned_less [of b] by simp
  then show ?thesis by (simp add: to_le_bytes_def)
qed

interpretation hbool: streaming_hash hash_bool bool_rep "\<lambda>_. True"
  by unfold_locales
    (auto simp: hash_bool_def bool_rep_def field_def hash_int_def to_le_byte split: if_splits)

interpretation hunit: streaming_hash hash_unit "\<lambda>_. []" "\<lambda>_. True"
  by unfold_locales (auto simp: hash_unit_def)

definition count_rep :: "nat \<Rightarrow> byte list" where
  "count_rep n = to_le_bytes (word_of_nat n :: u64)"

lemma count_rep_prefix:
  assumes "count_rep m @ xs = count_rep n @ ys" "m < 2 ^ 64" "n < 2 ^ 64"
  shows "m = n \<and> xs = ys"
proof -
  have "to_le_bytes (word_of_nat m :: u64) = to_le_bytes (word_of_nat n :: u64)" and xy: "xs = ys"
    using assms(1) by (simp_all add: count_rep_def append_eq_append_conv)
  then have "(word_of_nat m :: u64) = word_of_nat n"
    by (auto intro: to_le_bytes_inj [rotated])
  then have "unat (word_of_nat m :: u64) = unat (word_of_nat n :: u64)" by simp
  then show ?thesis using assms xy by (simp add: unat_of_nat)
qed

interpretation hstr: streaming_hash hash_str "\<lambda>s. count_rep (length s) @ s" "\<lambda>s. length s < 2 ^ 64"
proof (unfold_locales, goal_cases)
  case (2 v v' xs ys)
  then have "length v = length v' \<and> v @ xs = v' @ ys"
    by (intro count_rep_prefix) simp_all
  then show ?case by (metis append_eq_append_conv)
qed (simp add: hash_str_def h64.field_streams count_rep_def)

context streaming_hash
begin

lemma slice_stable:
  "streaming_hash (hash_slice hf) (\<lambda>vs. count_rep (length vs) @ concat (map rep vs))
     (\<lambda>vs. length vs < 2 ^ 64 \<and> list_all valid vs)"
proof (unfold_locales, goal_cases)
  case (2 vs vs' xs ys)
  then have "length vs = length vs' \<and> concat (map rep vs) @ xs = concat (map rep vs') @ ys"
    by (intro count_rep_prefix) simp_all
  then show ?case using 2 by (blast dest: concat_prefix)
qed (simp add: hash_slice_def fold_streams h64.field_streams count_rep_def)

lemma option_stable:
  "streaming_hash (hash_option hf) (\<lambda>v. case v of None \<Rightarrow> [0] | Some x \<Rightarrow> 1 # rep x) (pred_option valid)"
proof (unfold_locales, goal_cases)
  case (2 v v' xs ys)
  then show ?case using rep_prefix by (auto split: option.splits)
qed (auto simp: hash_option_def field_streams h8.field_streams to_le_byte split: option.splits)

lemma pair_stable:
  assumes "streaming_hash hg rep' valid'"
  shows "streaming_hash (hash_pair hf hg) (\<lambda>v. rep (fst v) @ rep' (snd v))
    (\<lambda>v. valid (fst v) \<and> valid' (snd v))"
proof (unfold_locales, goal_cases)
  case (1 v h)
  then show ?case
    by (simp add: hash_pair_def field_streams streaming_hash.field_streams [OF assms])
next
  case (2 v v' xs ys)
  have "fst v = fst v'"
    by (rule rep_prefix [of _ _ "rep' (snd v) @ xs" "rep' (snd v') @ ys"]) (use 2 in auto)
  moreover have "snd v = snd v'"
    by (rule streaming_hash.rep_prefix [OF assms, of _ _ xs ys]) (use 2 calculation in auto)
  ultimately show ?case by (simp add: prod_eq_iff)
qed

end

interpretation hslice64: streaming_hash "hash_slice (hash_int :: u64 hash)"
  "\<lambda>vs. count_rep (length vs) @ concat (map to_le_bytes vs)"
  "\<lambda>vs. length vs < 2 ^ 64 \<and> list_all (\<lambda>_. True) vs"
  by (rule h64.slice_stable)

section \<open>Properties\<close>

text \<open>The hasher never loses a difference: two streams that differ in exactly one byte
  leave it in different states, whatever surrounds the byte.\<close>

theorem one_byte_changes_hash:
  assumes "a \<noteq> b"
  shows "write_bytes (xs @ a # ys) h \<noteq> write_bytes (xs @ b # ys) h"
  using assms write_bytes_one_byte [of xs a ys h b] by simp

theorem one_byte_changes_hash_witness:
  "write_bytes ([1] @ 2 # [3]) hasher_new \<noteq> write_bytes ([1] @ 4 # [3]) hasher_new"
  by (rule one_byte_changes_hash) simp

text \<open>The hasher is reversible: equal streams from different states stay different, so
  a difference in an earlier field is not masked by equal later fields.\<close>

theorem hasher_keeps_difference: "write_bytes bs h = write_bytes bs h' \<longleftrightarrow> h = h'"
  by (rule write_bytes_state)

end
