(* ===== verification/Derive_Hash.thy ===== *)
theory Derive_Hash
  imports Derive_Wire Hashing
begin

text \<open>
  \<^verbatim>\<open>crates/synctick-derive/src/hashing.rs\<close>: the \<open>StableHash\<close> derive.  First the macro's
  validation of attributes and tags, then the traversal it generates: the fields of a
  struct in declaration order without the skipped ones, for an enum the tag byte and the
  fields of the variant.  A field is given with its declaration (which says whether it is
  skipped) and the action \<open>hasher.field(&self.member)\<close> on the whole value.
\<close>

section \<open>Validation\<close>

fun skip_metas :: "(string \<times> meta_value) list \<Rightarrow> bool \<Rightarrow> syn_error + bool" where
  "skip_metas [] skip = Inr skip"
| "skip_metas ((path, val) # metas) skip =
     (if path \<noteq> ''skip'' then Inl (SynError ''expected skip on a field'')
      else if skip then Inl (SynError ''duplicate stable_hash skip attribute'')
      else if val \<noteq> NoValue then Inl (SynError ''skip takes no arguments'')
      else skip_metas metas True)"

fun skip_attrs :: "attribute list \<Rightarrow> bool \<Rightarrow> syn_error + unit" where
  "skip_attrs [] skip = Inr ()"
| "skip_attrs (a # attrs) skip =
     (if attr_path a \<noteq> ''stable_hash'' then skip_attrs attrs skip
      else if skip then Inl (SynError ''duplicate stable_hash skip attribute'')
      else and_then (skip_metas (attr_metas a) skip) (\<lambda>skip.
        if \<not> skip then Inl (SynError ''expected #[stable_hash(skip)]'')
        else skip_attrs attrs skip))"

definition validate_field :: "field_decl \<Rightarrow> syn_error + unit" where
  "validate_field f =
     and_then (reject_attributes (field_attrs f) [''wire'']) (\<lambda>_. skip_attrs (field_attrs f) False)"

fun validate_fields :: "field_decl list \<Rightarrow> syn_error + unit" where
  "validate_fields [] = Inr ()"
| "validate_fields (f # fs) = and_then (validate_field f) (\<lambda>_. validate_fields fs)"

definition hash_attributes :: "string list" where
  "hash_attributes = [''stable_hash'', ''wire'']"

fun hash_tags :: "variant_decl list \<Rightarrow> u8 list \<Rightarrow> syn_error + u8 list" where
  "hash_tags [] tags = Inr tags"
| "hash_tags (v # vs) tags =
     and_then (variant_tag v hash_attributes) (\<lambda>tag.
     if tag \<in> set tags then Inl (SynError ''duplicate enum hash tag'')
     else and_then (validate_fields (variant_fields v)) (\<lambda>_. hash_tags vs (tags @ [tag])))"

definition validate_schema :: "derive_input \<Rightarrow> syn_error + u8 list" where
  "validate_schema input =
     and_then (reject_attributes (input_attrs input) hash_attributes) (\<lambda>_.
     case input_data input of
       StructData fs \<Rightarrow> and_then (validate_fields fs) (\<lambda>_. Inr [])
     | EnumData vs \<Rightarrow>
         (if vs = [] then Inl (SynError ''StableHash requires at least one enum variant'')
          else hash_tags vs [])
     | UnionData \<Rightarrow> Inl (SynError ''StableHash cannot be derived for unions''))"

definition is_skipped :: "field_decl \<Rightarrow> bool" where
  "is_skipped f = list_ex (\<lambda>a. attr_path a = ''stable_hash'') (field_attrs f)"

definition expand_hash :: "syn_error + unit \<Rightarrow> derive_input \<Rightarrow> syn_error + u8 list" where
  "expand_hash core input =
     and_then (validate_schema input) (\<lambda>tags. and_then core (\<lambda>_. Inr tags))"

section \<open>The generated traversal\<close>

text \<open>A field without attributes.\<close>

definition plain_field :: field_decl where
  "plain_field = \<lparr>field_attrs = []\<rparr>"

definition hashed_fields :: "(field_decl \<times> 'a hash) list \<Rightarrow> 'a hash list" where
  "hashed_fields fs = map snd (filter (\<lambda>(f, _). \<not> is_skipped f) fs)"

definition struct_hash :: "(field_decl \<times> 'a hash) list \<Rightarrow> 'a hash" where
  "struct_hash fs v h = fold (\<lambda>f h. f v h) (hashed_fields fs) h"

definition enum_hash ::
  "('a \<Rightarrow> nat) \<Rightarrow> (u8 \<times> (field_decl \<times> 'a hash) list) list \<Rightarrow> 'a hash" where
  "enum_hash which arms v h =
     (let (tag, fs) = arms ! which v in
      fold (\<lambda>f h. f v h) (hashed_fields fs) (field hash_int tag h))"

section \<open>What the derive guarantees\<close>

lemma skip_metas_sound: "skip_metas metas skip = Inr True \<Longrightarrow> skip \<or> (''skip'', NoValue) \<in> set metas"
  by (induction metas skip rule: skip_metas.induct) (auto split: if_splits)

lemma skip_attrs_sound:
  "skip_attrs attrs skip = Inr () \<Longrightarrow> a \<in> set attrs \<Longrightarrow> attr_path a = ''stable_hash'' \<Longrightarrow>
     (''skip'', NoValue) \<in> set (attr_metas a) \<and> \<not> skip"
  by (induction attrs skip rule: skip_attrs.induct)
    (auto simp: res_simps split: if_splits dest: skip_metas_sound)

text \<open>An accepted field is skipped exactly when it carries \<open>#[stable_hash(skip)]\<close>.\<close>

lemma accepted_skip:
  assumes "validate_field f = Inr ()"
  shows "is_skipped f \<longleftrightarrow>
    (\<exists>a \<in> set (field_attrs f). attr_path a = ''stable_hash'' \<and> (''skip'', NoValue) \<in> set (attr_metas a))"
  using assms skip_attrs_sound
  by (fastforce simp: validate_field_def is_skipped_def res_simps list_ex_iff)

lemma hash_tags_sound:
  "hash_tags vs tags = Inr tags' \<Longrightarrow> distinct tags \<Longrightarrow>
     distinct tags' \<and> length tags' = length tags + length vs"
  by (induction vs tags rule: hash_tags.induct) (auto simp: res_simps split: if_splits)

lemma expand_hash_tags: "expand_hash core input = Inr tags \<Longrightarrow> distinct tags"
  by (auto simp: expand_hash_def validate_schema_def res_simps
      split: type_data.splits if_splits dest: hash_tags_sound)

lemma fold_actions_cong:
  "(\<And>g h. g \<in> set gs \<Longrightarrow> g v h = g v' h) \<Longrightarrow>
     fold (\<lambda>f h. f v h) gs h = fold (\<lambda>f h. f v' h) gs h" for gs :: "'a hash list"
proof (induction gs arbitrary: h)
  case (Cons g gs)
  have g: "g v h = g v' h" by (rule Cons.prems) simp
  have "fold (\<lambda>f h. f v h) gs h' = fold (\<lambda>f h. f v' h) gs h'" for h'
    by (rule Cons.IH, rule Cons.prems) simp
  then show ?case by (simp add: g del: fold_simps(1))
qed simp

lemma struct_hash_cong:
  assumes "\<And>f hf h. (f, hf) \<in> set fs \<Longrightarrow> \<not> is_skipped f \<Longrightarrow> hf v h = hf v' h"
  shows "struct_hash fs v h = struct_hash fs v' h"
  unfolding struct_hash_def
proof (rule fold_actions_cong)
  fix g h assume "g \<in> set (hashed_fields fs)"
  then obtain f where "(f, g) \<in> set fs" "\<not> is_skipped f" by (auto simp: hashed_fields_def)
  then show "g v h = g v' h" by (rule assms)
qed

lemma struct_hash_Nil [simp]: "struct_hash [] v h = h"
  by (simp add: struct_hash_def hashed_fields_def)

lemma struct_hash_Cons [simp]:
  "struct_hash ((f, hf) # fs) v h = struct_hash fs v (if is_skipped f then h else hf v h)"
  by (simp add: struct_hash_def hashed_fields_def)

lemma enum_hash_payload:
  "which v < length arms \<Longrightarrow>
     enum_hash which arms v h =
       struct_hash (snd (arms ! which v)) v (write_byte (fst (arms ! which v)) h)"
  by (cases "arms ! which v")
    (simp add: enum_hash_def struct_hash_def h8.field_streams to_le_byte)

end
