(* ===== verification/Recording.thy ===== *)
theory Recording
  imports Authority
begin

text \<open>
  The recording of a session (\<^verbatim>\<open>run_server.rs\<close> with \<^verbatim>\<open>replay.rs\<close>): whatever a server loads,
  waits for and plays, a session that ends normally leaves a log whose records are the ones
  it executed, in order, so replaying the file reaches the authority's state.
\<close>

section \<open>Loading\<close>

lemma decoded_tick_carries:
  assumes "decode_tick_advance bc al bytes = Inr adv"
  shows "carries adv"
proof -
  have len: "length bytes \<le> max_replay_record_bytes"
    and v: "validated al (read_tick bc) bytes = Inr adv"
    using assms by (auto simp: decode_tick_advance_def split: if_splits)
  obtain c where "read_tick bc \<lparr>unread = bytes, materialize = True, reserves = al\<rparr> = Inr (adv, c)"
    using v by (rule validated_Inr)
  from read_tick_Inr [OF this] len show ?thesis
    by (simp add: carries_def max_replay_record_bytes_def)
qed

lemma next_record_carries:
  "next_record bc al s = Inr (Some adv, s') \<Longrightarrow> carries adv"
  by (auto simp: next_record_def res_simps Let_def dest: decoded_tick_carries split: if_splits)

lemma append_record_Inr:
  assumes "append_record bc adv w = (w', Inr ())" "reliable w" "carries adv"
  shows "w' = w\<lparr>written := written w @ record_bytes bc adv\<rparr> \<and> recordable bc adv"
proof -
  have "length (enc_tick bc adv) \<le> max_replay_record_bytes"
    using assms(1) by (auto simp: append_record_def Let_def split: if_splits)
  then have r: "recordable bc adv" using assms(3) by (simp add: recordable_def)
  show ?thesis using append_record_reliable [OF assms(2) r] assms(1) r by simp
qed

lemma replay_step_Inr:
  assumes "replay_step bc sim adv r = (r', Inr ())" "mirror_ok (run_mirror r)" "run_mirror r \<noteq> None"
    "carries adv"
  shows "run_mirror r' = mirror_after bc [adv] (run_mirror r)" "recordable bc adv"
    "advance_tick sim adv Replay (run_state r) = (run_state r', Inr ())"
proof -
  obtain w where w: "run_mirror r = Some w" using assms(3) by blast
  have v: "validate_tick sim (run_state r) (tick adv) = Inr ()"
    using assms(1) by (auto simp: replay_step_def split: sum.splits)
  obtain w' where a: "append_record bc adv w = (w', Inr ())"
    using assms(1) w v by (auto simp: replay_step_def Let_def split: prod.splits sum.splits)
  obtain s where s: "advance_tick sim adv Replay (run_state r) = (s, Inr ())"
    "r' = r\<lparr>run_mirror := Some w', run_state := s\<rparr>"
    using assms(1) w v a by (auto simp: replay_step_def Let_def split: prod.splits)
  show "run_mirror r' = mirror_after bc [adv] (run_mirror r)" "recordable bc adv"
    "advance_tick sim adv Replay (run_state r) = (run_state r', Inr ())"
    using append_record_Inr [OF a _ assms(4)] assms(2) w s
    by (simp_all add: mirror_ok_def mirror_after_def)
qed

text \<open>What a piece of loading did: the records it executed are the ones it mirrored.\<close>

definition loaded ::
  "bincode \<Rightarrow> 's session_sim \<Rightarrow> 's replay_run \<Rightarrow> tick_advance list \<Rightarrow> 's replay_run \<Rightarrow> bool" where
  "loaded bc sim r advs r' \<longleftrightarrow>
     advance_all sim Replay advs (run_state r) = (run_state r', Inr ()) \<and>
     run_mirror r' = mirror_after bc advs (run_mirror r) \<and> list_all (recordable bc) advs"

lemma loaded_Nil: "loaded bc sim r [] (r\<lparr>run_source := src\<rparr>)"
  by (simp add: loaded_def)

lemma loaded_refl: "\<exists>advs. loaded bc sim r advs r"
  by (rule exI [of _ "[]"]) (simp add: loaded_def)

lemma loaded_append:
  "loaded bc sim r as r1 \<Longrightarrow> loaded bc sim r1 bs r2 \<Longrightarrow> loaded bc sim r (as @ bs) r2"
  by (auto simp: loaded_def advance_all_append)

lemma loaded_mirror: "loaded bc sim r as r1 \<Longrightarrow> mirror_ok (run_mirror r1) = mirror_ok (run_mirror r)"
  "loaded bc sim r as r1 \<Longrightarrow> (run_mirror r1 = None) = (run_mirror r = None)"
  by (auto simp: loaded_def mirror_after_def mirror_ok_def split: option.splits)

lemma batch_loop_loaded:
  "batch_loop bc al sim n os k r = (r', Inr b) \<Longrightarrow> mirror_ok (run_mirror r) \<Longrightarrow> run_mirror r \<noteq> None \<Longrightarrow>
     \<exists>advs. loaded bc sim r advs r'"
proof (induction bc al sim n os k r arbitrary: b rule: batch_loop.induct)
  case (1 bc al sim n os k r)
  show ?case
  proof (cases "next_record bc al (run_source r)")
    case (Inl e)
    then show ?thesis using 1(2) by simp
  next
    case (Inr p)
    then obtain m src where p: "next_record bc al (run_source r) = Inr (m, src)" by (cases p) auto
    show ?thesis
    proof (cases m)
      case None
      then show ?thesis using 1(2) p loaded_Nil by fastforce
    next
      case (Some adv)
      obtain r1 where r1: "replay_step bc sim adv (r\<lparr>run_source := src\<rparr>) = (r1, Inr ())"
        and rest: "batch_loop bc al sim n os (k + 1) r1 = (r', Inr b)"
        using 1(2) p Some by (auto split: prod.splits sum.splits)
      have c: "carries adv" using p Some by (auto dest: next_record_carries)
      have l: "loaded bc sim r [adv] r1"
        using replay_step_Inr [OF r1 _ _ c] 1(3,4) by (simp add: loaded_def)
      then obtain advs where "loaded bc sim r1 advs r'"
        using 1(1) [OF p refl Some r1 [symmetric] refl rest] loaded_mirror [OF l] 1(3,4) by auto
      then show ?thesis using loaded_append [OF l] by blast
    qed
  qed
qed (use loaded_refl in \<open>auto\<close>)

lemma load_loop_loaded:
  "load_loop bc al sim rounds l = Some (l', Inr stopped) \<Longrightarrow> mirror_ok (run_mirror (ld_run l)) \<Longrightarrow>
     run_mirror (ld_run l) \<noteq> None \<Longrightarrow> \<exists>advs. loaded bc sim (ld_run l) advs (ld_run l')"
proof (induction rounds arbitrary: l)
  case (Cons env rounds)
  show ?case
  proof (cases "le_stop env")
    case True
    then show ?thesis using Cons.prems(1) loaded_refl by fastforce
  next
    case False
    obtain r b where b: "replay_batch bc al sim (le_batch env) (ld_run l) = (r, Inr b)"
      using Cons.prems(1) False by (auto simp: Let_def split: sum.splits prod.splits)
    obtain as where as: "loaded bc sim (ld_run l) as r"
      using batch_loop_loaded [OF b [unfolded replay_batch_def] Cons.prems(2,3)] by blast
    show ?thesis
    proof (cases "finished b")
      case True
      then have "ld_run l' = r"
        using Cons.prems(1) False b by (auto simp: Let_def split: sum.splits if_splits)
      then show ?thesis using as by blast
    next
      case fin: False
      define l1 where "l1 = (if le_elapsed env
        then l\<lparr>ld_run := r, ld_control := publish_status
          (loading_status (sim_current_tick sim (run_state r))) (ld_control l)\<rparr>
        else l\<lparr>ld_run := r\<rparr>)"
      have l1: "ld_run l1 = r" by (simp add: l1_def)
      have "load_loop bc al sim rounds l1 = Some (l', Inr stopped)"
        using Cons.prems(1) False b fin by (auto simp: Let_def l1_def split: sum.splits if_splits)
      then obtain bs where "loaded bc sim r bs (ld_run l')"
        using Cons.IH [of l1] loaded_mirror [OF as] Cons.prems(2,3) l1 by auto
      then show ?thesis using loaded_append [OF as] by blast
    qed
  qed
qed simp


section \<open>The session\<close>

text \<open>
  \<open>recorded sim det bc s0 base advs st\<close>: the recording is \<open>base\<close> followed by the records
  \<open>advs\<close>, and executing them from \<open>s0\<close> gives the authoritative state of the session.
\<close>

definition recorded ::
  "'s session_sim \<Rightarrow> ('s \<Rightarrow> 'd) \<Rightarrow> bincode \<Rightarrow> 's \<Rightarrow> byte list \<Rightarrow> 's session_state \<Rightarrow> bool" where
  "recorded sim det bc s0 base st \<longleftrightarrow>
     (\<exists>w advs s. ss_writer st = Some w \<and> reliable w \<and> written w = base @ log_bytes bc advs \<and>
        list_all (recordable bc) advs \<and>
        advance_all sim Replay advs s0 = (s, Inr ()) \<and> det s = det (ss_sim st))"

text \<open>
  What a reader gets from a log, whatever buffering it reads with: the header \<open>h\<close>, and from
  \<open>s0\<close>, in more than \<open>n\<close> batches that each see time for a record, \<open>n\<close> records that end in
  the authoritative state, the tick and the fingerprint of \<open>s\<close>.
\<close>

definition replays_to ::
  "bincode \<Rightarrow> 's session_sim \<Rightarrow> ('s \<Rightarrow> 'd) \<Rightarrow> 's \<Rightarrow> replay_header \<Rightarrow> nat \<Rightarrow> 's \<Rightarrow> source \<Rightarrow> bool" where
  "replays_to bc sim det s0 h n s src \<longleftrightarrow>
     (\<exists>rd. from_reader bc infallible src = Inr rd \<and> header rd = h \<and>
        (\<forall>rounds. n < length rounds \<longrightarrow> list_all (\<lambda>(stop, os). \<not> stop \<and> batch_room 128 os > 0) rounds \<longrightarrow>
          (\<exists>r. replay_into bc infallible sim rounds 0
                 \<lparr>run_state = s0, run_source = inner rd, run_mirror = None\<rparr> = Some (r, Inr (of_nat n)) \<and>
             det (run_state r) = det s \<and>
             sim_current_tick sim (run_state r) = sim_current_tick sim s \<and>
             sim_state_hash sim (run_state r) = sim_state_hash sim s)))"

lemma flush_writer_Some:
  "flush_writer (Some w) = (w', res) \<Longrightarrow> \<exists>v. w' = Some v \<and> written v = written w \<and> reliable v = reliable w"
  by (auto simp: flush_writer_def flush_def reliable_def Let_def split: option.splits)

lemma recorded_cong:
  "recorded sim det bc s0 base st \<Longrightarrow> ss_writer st' = Some w' \<Longrightarrow>
     map_option written (ss_writer st) = Some (written w') \<Longrightarrow>
     reliable w' \<Longrightarrow> det (ss_sim st') = det (ss_sim st) \<Longrightarrow> recorded sim det bc s0 base st'"
  by (fastforce simp: recorded_def)

lemma recorded_flush:
  assumes "recorded sim det bc s0 base st" "flush_writer (ss_writer st) = (w, res)"
  shows "recorded sim det bc s0 base (st\<lparr>ss_writer := w\<rparr>)"
proof -
  obtain v where v: "ss_writer st = Some v" "reliable v" using assms(1) by (auto simp: recorded_def)
  then obtain v' where v': "w = Some v'" "written v' = written v" "reliable v'"
    using flush_writer_Some [of v w res] assms(2) by auto
  show ?thesis
    by (rule recorded_cong [OF assms(1), of _ v']) (use v v' in simp_all)
qed

context deterministic_sim
begin

lemma recorded_load:
  assumes "loaded bc sim \<lparr>run_state = s0, run_source = src, run_mirror = Some w\<rparr> advs r" "reliable w"
    "ss_sim st = run_state r" "ss_writer st = run_mirror r"
  shows "recorded sim det bc s0 (written w) st"
  using assms by (auto simp: recorded_def loaded_def mirror_after_def)

lemma recorded_ticks:
  assumes rec: "recorded sim det bc s0 base st"
    and run: "tick_loop bc al sim policy rounds
      \<lparr>au_sim = ss_sim st, au_writer = ss_writer st, au_verified = vs, au_hashes = []\<rparr> = Some (a, acts, Inr ())"
    and "bounded_commands sim"
  shows "recorded sim det bc s0 base (st'\<lparr>ss_sim := au_sim a, ss_writer := au_writer a\<rparr>)"
proof -
  obtain w as s where w: "ss_writer st = Some w" "reliable w" "written w = base @ log_bytes bc as"
    and as: "list_all (recordable bc) as" "advance_all sim Replay as s0 = (s, Inr ())" "det s = det (ss_sim st)"
    using rec by (auto simp: recorded_def)
  obtain bs hist where r: "authority_run bc al sim policy
      \<lparr>au_sim = ss_sim st, au_writer = ss_writer st, au_verified = vs, au_hashes = []\<rparr> a bs hist (broadcasts acts)"
    using tick_loop_run [OF run] by blast
  note written = authority_run_records [OF r] and live = authority_run_executes(1) [OF r]
  obtain t where t: "advance_all sim Replay bs s = (t, Inr ())" "det (au_sim a) = det t"
    using advance_all_replays [of Live bs "ss_sim st" "au_sim a" s] live as(3) by auto
  have rb: "list_all (recordable bc) bs"
    using authority_run_carries [OF r assms(3)] written(3) w(1,2)
    by (simp add: list_all_iff recordable_def mirror_ok_def)
  obtain v where v: "au_writer a = Some v" "written v = written w @ log_bytes bc bs" "reliable v"
    using written(1,2) w(1,2) by (auto simp: mirror_ok_def)
  have "advance_all sim Replay (as @ bs) s0 = (t, Inr ())"
    using as(2) t(1) by (simp add: advance_all_append)
  moreover have "written v = base @ log_bytes bc (as @ bs)"
    using v(2) w(3) by (simp add: log_bytes_def)
  ultimately show ?thesis
    using v rb as(1) t(2) unfolding recorded_def by fastforce
qed

lemma recorded_serve:
  assumes rec: "recorded sim det bc s0 base st" and "bounded_commands sim"
    and run: "serve bc al sim cfg env save meta st = Some (st', acts, Inr ())"
  shows "recorded sim det bc s0 base st'"
proof -
  obtain w acts1 participants where wait:
    "wait_for_clients bc al (cfg_expected cfg) save meta (se_wait env)
       \<lparr>w_peers = [], w_published = None, w_control = ss_control st\<rparr> = Some (w, acts1, Inr participants)"
    using run by (auto simp: serve_def Let_def split: option.splits sum.splits)
  let ?st = "st\<lparr>ss_control := w_control w\<rparr>"
  have rec1: "recorded sim det bc s0 base ?st" using rec by (simp add: recorded_def)
  show ?thesis
  proof (cases "se_stop_ready env")
    case True
    then have "st' = ?st" using run wait by (simp add: serve_def Let_def)
    then show ?thesis using rec1 by simp
  next
    case False
    obtain s where s: "sim_publish sim (ss_sim st) = (s, Inr ())"
      using run wait False by (auto simp: serve_def Let_def split: prod.splits sum.splits)
    let ?st2 = "st\<lparr>ss_control := publish_status Live_Status (w_control w), ss_sim := s\<rparr>"
    have "det s = det (ss_sim st)" using publish_det [of "ss_sim st"] s by simp
    then have rec2: "recorded sim det bc s0 base ?st2" using rec by (simp add: recorded_def)
    obtain a acts2 where t: "tick_loop bc al sim (cfg_desync_policy cfg) (se_ticks env)
        \<lparr>au_sim = s, au_writer = ss_writer st, au_verified = participants, au_hashes = []\<rparr> =
          Some (a, acts2, Inr ())" "st' = ?st2\<lparr>ss_sim := au_sim a, ss_writer := au_writer a\<rparr>"
      using run wait False s by (auto simp: serve_def Let_def)
    show ?thesis
      unfolding t(2) by (rule recorded_ticks [OF rec2 _ assms(2)]) (use t(1) in simp)
  qed
qed

lemma recorded_after_load:
  assumes rec: "recorded sim det bc s0 base st" and "bounded_commands sim"
    and run: "after_load bc al sim cfg env st = Some (st', acts, Inr ())"
  shows "recorded sim det bc s0 base st'"
proof (cases "se_stop_loaded env")
  case True
  then show ?thesis using run rec by (simp add: after_load_def)
next
  case False
  obtain w res where w: "flush_writer (ss_writer st) = (w, res)" by (cases "flush_writer (ss_writer st)")
  obtain save meta acts1 where "serve bc al sim cfg env save meta (st\<lparr>ss_writer := w\<rparr>) = Some (st', acts1, Inr ())"
    using run False w by (auto simp: after_load_def Let_def split: sum.splits)
  then show ?thesis by (rule recorded_serve [OF recorded_flush [OF rec w] assms(2)])
qed

lemma recorded_session:
  assumes "run_session bc al sim cfg env src st = Some (st', acts, Inr ())"
    and w: "ss_writer st = Some w" "reliable w" and "bounded_commands sim"
  shows "recorded sim det bc (ss_sim st) (written w) st'"
proof (cases src)
  case None
  have rec: "recorded sim det bc (ss_sim st) (written w) st"
    unfolding recorded_def using w
    by (intro exI [of _ w] exI [of _ "[]"] exI [of _ "ss_sim st"]) simp
  have "after_load bc al sim cfg env st = Some (st', acts, Inr ())"
    using assms(1) None by (simp add: run_session_def)
  then show ?thesis by (rule recorded_after_load [OF rec assms(4)])
next
  case (Some source)
  let ?r = "\<lparr>run_state = ss_sim st, run_source = source, run_mirror = Some w\<rparr>"
  obtain l stopped where l: "load_loop bc al sim (se_load env)
      \<lparr>ld_run = ?r, ld_control = publish_status (loading_status 0) (ss_control st)\<rparr> = Some (l, Inr stopped)"
    using assms(1) Some w(1)
    by (cases "load_loop bc al sim (se_load env)
          \<lparr>ld_run = ?r, ld_control = publish_status (loading_status 0) (ss_control st)\<rparr>")
      (auto simp: run_session_def Let_def split: sum.splits)
  let ?st = "\<lparr>ss_sim = run_state (ld_run l), ss_writer = run_mirror (ld_run l), ss_control = ld_control l\<rparr>"
  obtain advs where "loaded bc sim ?r advs (ld_run l)"
    using load_loop_loaded [OF l] w(2) by (auto simp: mirror_ok_def)
  then have rec: "recorded sim det bc (ss_sim st) (written w) ?st"
    by (rule recorded_load) (simp_all add: w)
  show ?thesis
  proof (cases stopped)
    case True
    then have "st' = ?st" using assms(1) Some w(1) l by (simp add: run_session_def Let_def)
    then show ?thesis using rec by simp
  next
    case False
    then have "after_load bc al sim cfg env ?st = Some (st', acts, Inr ())"
      using assms(1) Some w(1) l by (simp add: run_session_def Let_def)
    then show ?thesis by (rule recorded_after_load [OF rec assms(4)])
  qed
qed

text \<open>The header a session starts from: read from the loaded log, or the simulation's own.\<close>

lemma run_server_recorded:
  assumes run: "run_server bc al fs file blank sim cfg env s ctl = Some (st, acts, Inr ())"
    and "cfg_record_path cfg = Some path" "reliable blank" "bounded_commands sim"
  obtains h s0 where "sim_initialize sim h s = (s0, Inr ())"
    "recorded sim det bc s0 (enc_header bc h) st"
    "case cfg_load_path cfg of None \<Rightarrow> h = sim_header sim s
     | Some from \<Rightarrow> \<exists>rd. open_log bc al fs file from = Inr rd \<and> h = header rd"
proof -
  obtain src h where h: "case cfg_load_path cfg of None \<Rightarrow> src = None \<and> h = sim_header sim s
     | Some from \<Rightarrow> \<exists>rd. open_log bc al fs file from = Inr rd \<and> src = Some (inner rd) \<and> h = header rd"
    and pre: "and_then (validate_tick_duration (cfg_tick_duration cfg)) (\<lambda>_.
           if cfg_expected cfg > 1024 then Inl (Configuration ''Renet supports at most 1024 clients'')
           else case cfg_load_path cfg of
             None \<Rightarrow> Inr (None, sim_header sim s)
           | Some path \<Rightarrow> and_then (map_err Io (open_log bc al fs file path)) (\<lambda>reader.
               Inr (Some (inner reader), header reader))) = Inr (src, h)"
    using run unfolding run_server_def Let_def
    by (auto simp: res_simps split: sum.splits option.splits if_splits)
  obtain s0 where s0: "sim_initialize sim h s = (s0, Inr ())"
    using run unfolding run_server_def Let_def pre
    by (auto simp: res_simps split: sum.splits prod.splits)
  let ?cfg = "cfg\<lparr>cfg_tick_duration := unat (tick_nanos h)\<rparr>"
  obtain w where w: "create bc fs blank path h = Inr w"
    using run assms(2) s0 unfolding run_server_def Let_def pre
    by (auto simp: res_simps split: sum.splits)
  have w': "reliable w" "written w = enc_header bc h"
    using w assms(3) write_all_reliable [of "blank\<lparr>written := [], flushed := 0\<rparr>" "enc_header bc h"]
    by (auto simp: create_def reliable_def split: if_splits)
  obtain st1 acts1 res1 where sess: "run_session bc al sim ?cfg env src
      \<lparr>ss_sim = s0, ss_writer = Some w, ss_control = ctl\<rparr> = Some (st1, acts1, res1)"
    "final_flush (st1, acts1, res1) = (st, acts, Inr ())"
    using run assms(2) s0 w unfolding run_server_def Let_def pre
    by (auto simp: map_option_case split: option.splits)
  obtain w1 where fl: "flush_writer (ss_writer st1) = (w1, Inr ())" "st = st1\<lparr>ss_writer := w1\<rparr>" "res1 = Inr ()"
    using sess(2) by (auto simp: final_flush_def split: prod.splits sum.splits)
  have "recorded sim det bc s0 (enc_header bc h) st1"
    using recorded_session [OF sess(1) [unfolded fl(3)] _ w'(1) assms(4)] w'(2) by simp
  then have "recorded sim det bc s0 (enc_header bc h) st"
    unfolding fl(2) by (rule recorded_flush [OF _ fl(1)])
  then show ?thesis using that [OF s0] h by (auto split: option.splits)
qed

lemma recorded_replays:
  assumes "bincode_format bc" "recorded sim det bc s0 (enc_header bc h) st" "header_current h"
  shows "\<exists>w n. ss_writer st = Some w \<and>
    (\<forall>src. faultless src \<longrightarrow> held src = written w \<longrightarrow> replays_to bc sim det s0 h n (ss_sim st) src)"
proof -
  obtain w advs s where w: "ss_writer st = Some w" "written w = enc_header bc h @ log_bytes bc advs"
    "list_all (recordable bc) advs" "advance_all sim Replay advs s0 = (s, Inr ())" "det s = det (ss_sim st)"
    using assms(2) by (auto simp: recorded_def)
  have "replays_to bc sim det s0 h (length advs) (ss_sim st) src"
    if src: "faultless src" "held src = written w" for src
  proof -
    let ?rd = "\<lparr>inner = src\<lparr>held := log_bytes bc advs\<rparr>, header = h\<rparr>"
    let ?r = "\<lparr>run_state = s0, run_source = inner ?rd, run_mirror = None\<rparr>"
    have "from_reader bc infallible src = Inr ?rd"
      using bincode_format.from_reader_enc [OF assms(1) src(1) _ assms(3)] src(2) w(2) by simp
    moreover have "replay_into bc infallible sim rounds 0 ?r =
        Some (after_records bc sim advs [] ?r, Inr (of_nat (length advs)))"
      if "length advs < length rounds" "list_all (\<lambda>(stop, os). \<not> stop \<and> batch_room 128 os > 0) rounds" for rounds
      using bincode_format.replay_into_plays [OF assms(1), of ?r advs sim s rounds 0] src w that
      by (simp add: mirror_ok_def)
    moreover have "run_state (after_records bc sim advs [] ?r) = s"
      using w(4) by (simp add: after_records_def)
    ultimately show ?thesis
      using w(5) tick_det [OF w(5)] hash_det [OF w(5)]
      unfolding replays_to_def by (intro exI [of _ ?rd] conjI allI impI) auto
  qed
  then show ?thesis using w(1) by blast
qed

end

text \<open>The header of an opened log is current: the reader checked it.\<close>

lemma read_exact_length: "collect eof oom al n s = Inr (bs, s') \<Longrightarrow> length bs = n"
proof (induction eof oom al n s arbitrary: bs s' rule: collect.induct)
  case (1 eof oom al n s)
  show ?case
  proof (cases "n = 0")
    case False
    then obtain a where a: "fill_buf s = Inr a" "a \<noteq> []"
      using 1(2) by (subst (asm) collect.simps) (auto split: sum.splits if_splits)
    define k where "k = min (length a) n"
    obtain cs where cs: "collect eof oom al (n - k) (consume k s) = Inr (cs, s')" "bs = take k a @ cs"
      and al: "al k"
      using 1(2) False a by (subst (asm) collect.simps) (auto simp: k_def res_simps Let_def split: if_splits)
    have "length cs = n - k" using 1(1) [OF False a k_def] al cs(1) by auto
    then show ?thesis using cs(2) by (simp add: k_def min_def)
  qed (use 1(2) in \<open>simp add: collect.simps\<close>)
qed

lemma read_blocks_length: "read_blocks al n s = Inr (bs, s') \<Longrightarrow> length bs = n"
proof (induction al n s arbitrary: bs s' rule: read_blocks.induct)
  case (1 al n s)
  show ?case
  proof (cases "n = 0")
    case False
    define k where "k = min 4096 n"
    obtain b s1 cs where b: "read_exact k s = Inr (b, s1)" "al k" "read_blocks al (n - k) s1 = Inr (cs, s')"
      "bs = b @ cs"
      using 1(2) False by (subst (asm) read_blocks.simps) (auto simp: k_def res_simps Let_def split: if_splits)
    have "length cs = n - k" using 1(1) [OF False k_def b(1) refl] b by auto
    moreover have "length b = k" using b(1) by (auto simp: read_exact_def dest: read_exact_length)
    ultimately show ?thesis using b(4) by (simp add: k_def)
  qed (use 1(2) in \<open>simp add: read_blocks.simps\<close>)
qed


context bincode_format
begin

lemma read_scalar_array_length:
  "read_scalar (dec_array bc n) s = Inr (bs, s') \<Longrightarrow> length bs = n"
  by (auto simp: read_scalar_def res_simps dest: array_consumes split: option.splits)

lemma from_reader_current:
  assumes "from_reader bc al src = Inr rd"
  shows "header_current (header rd)"
  using assms
  by (auto simp: from_reader_def read_header_def res_simps Let_def header_current_def
      dest: read_scalar_array_length read_blocks_length split: if_splits)

end

end
