(* ===== verification/Run_Client.thy ===== *)
theory Run_Client
  imports Authority
begin

text \<open>
  \<^verbatim>\<open>crates/synctick/src/run_client.rs\<close>: the remote replica.  As for the server, an
  iteration of the loop takes what the transport, the queue and the clock return in it
  and yields the transport calls it makes.
\<close>

datatype client_action =
    Client_Send u8 "byte list"
  | Client_Send_Packets
  | Client_Disconnect

record 's replica =
  rp_startup :: client_startup
  rp_sim :: 's
  rp_reported :: "u64 \<times> u64"
  rp_control :: session_control

type_synonym 's replica_step = "'s replica \<times> client_action list \<times> unit session_result"

text \<open>Sequencing of two parts of an iteration; an error ends it.\<close>

definition then_do :: "'s replica_step \<Rightarrow> ('s replica \<Rightarrow> 's replica_step) \<Rightarrow> 's replica_step" where
  "then_do m f =
     (case m of
        (c, acts, Inl e) \<Rightarrow> (c, acts, Inl e)
      | (c, acts, Inr _) \<Rightarrow> (let (c, rest, res) = f c in (c, acts @ rest, res)))"

definition fail_with :: "session_error \<Rightarrow> 's replica \<Rightarrow> 's replica_step" where
  "fail_with e c = (c, [], Inl e)"

definition do_nothing :: "'s replica \<Rightarrow> 's replica_step" where
  "do_nothing c = (c, [], Inr ())"

definition client_send :: "u8 \<Rightarrow> byte list \<Rightarrow> 's replica \<Rightarrow> 's replica_step" where
  "client_send ch bs c = (c, [Client_Send ch bs], Inr ())"

section \<open>Handlers\<close>

fun forward_loop :: "bincode \<Rightarrow> nat \<Rightarrow> recv list \<Rightarrow> bool \<Rightarrow> client_action list session_result" where
  "forward_loop bc (Suc n) (Received bs # rs) live =
     and_then (forward_loop bc n rs live) (\<lambda>acts.
     Inr (if live then Client_Send channel_lockstep (enc_client bc (Input bs)) # acts else acts))"
| "forward_loop bc (Suc n) (Recv_Disconnected # rs) live = Inl InputDisconnected"
| "forward_loop bc n rs live = Inr []"

definition forward_inputs :: "bincode \<Rightarrow> recv list \<Rightarrow> 's replica \<Rightarrow> 's replica_step" where
  "forward_inputs bc rs c =
     (case forward_loop bc 256 rs (is_live (rp_startup c)) of
        Inl e \<Rightarrow> (c, [], Inl e)
      | Inr acts \<Rightarrow> (c, acts, Inr ()))"

definition start_live :: "'s session_sim \<Rightarrow> u64 \<Rightarrow> u64 \<Rightarrow> 's replica \<Rightarrow> 's replica_step" where
  "start_live sim t h c =
     (let (st, res) = start t h (rp_startup c); c = c\<lparr>rp_startup := st\<rparr> in
      case res of
        Inl e \<Rightarrow> fail_with e c
      | Inr _ \<Rightarrow>
          let (s, res) = sim_publish sim (rp_sim c); c = c\<lparr>rp_sim := s\<rparr> in
          case res of
            Inl e \<Rightarrow> fail_with e c
          | Inr _ \<Rightarrow> do_nothing (c\<lparr>rp_control := publish_status Live_Status (rp_control c)\<rparr>))"

definition apply_tick :: "bincode \<Rightarrow> 's session_sim \<Rightarrow> tick_advance \<Rightarrow> 's replica \<Rightarrow> 's replica_step" where
  "apply_tick bc sim adv c =
     (let (s, res) = advance_tick sim adv Live (rp_sim c); c = c\<lparr>rp_sim := s\<rparr> in
      case res of
        Inl e \<Rightarrow> fail_with e c
      | Inr _ \<Rightarrow>
          if tick adv mod sim_hash_interval sim s = 0 then
            case sim_state_hash sim s of
              Inl e \<Rightarrow> fail_with e c
            | Inr h \<Rightarrow>
                client_send channel_desync (enc_desync bc \<lparr>report_tick = tick adv, report_hash = h\<rparr>) c
          else do_nothing c)"

fun receive_saves ::
  "bincode \<Rightarrow> (nat \<Rightarrow> bool) \<Rightarrow> byte list list \<Rightarrow> 's replica \<Rightarrow> 's replica_step" where
  "receive_saves bc al [] c = do_nothing c"
| "receive_saves bc al (bs # msgs) c =
     (case map_err (\<lambda>_. Protocol ''save message'') (decode_save_message bc al bs) of
        Inl e \<Rightarrow> fail_with e c
      | Inr msg \<Rightarrow>
          (let (st, res) = receive_save bc al msg (rp_startup c); c = c\<lparr>rp_startup := st\<rparr> in
           case res of Inl e \<Rightarrow> fail_with e c | Inr _ \<Rightarrow> receive_saves bc al msgs c))"

definition handle_lockstep ::
  "bincode \<Rightarrow> (nat \<Rightarrow> bool) \<Rightarrow> 's session_sim \<Rightarrow> byte list \<Rightarrow> 's replica \<Rightarrow> 's replica_step" where
  "handle_lockstep bc al sim bs c =
     (case map_err (\<lambda>_. Protocol ''server message'') (decode_server_message bc al bs) of
        Inl e \<Rightarrow> fail_with e c
      | Inr (Start t h) \<Rightarrow> start_live sim t h c
      | Inr (Tick adv) \<Rightarrow>
          if is_live (rp_startup c) then apply_tick bc sim adv c
          else fail_with (Protocol ''tick before Start'') c)"

text \<open>
  The receive loop; it ends at the first missing message, an expired clock or a
  cancellation, so its input is the messages received before, at most 128.
\<close>

fun lockstep_loop ::
  "bincode \<Rightarrow> (nat \<Rightarrow> bool) \<Rightarrow> 's session_sim \<Rightarrow> byte list list \<Rightarrow> 's replica \<Rightarrow> 's replica_step" where
  "lockstep_loop bc al sim [] c = do_nothing c"
| "lockstep_loop bc al sim (bs # msgs) c =
     then_do (handle_lockstep bc al sim bs c) (lockstep_loop bc al sim msgs)"

section \<open>One iteration\<close>

record client_env =
  ce_transport :: "string option"
  ce_disconnected :: "string option"
  ce_local :: "recv list"
  ce_saves :: "byte list list"
  ce_batch :: "observation list"
  ce_elapsed :: bool
  ce_lockstep :: "byte list list"
  ce_desync :: bool
  ce_sent :: "string option"

definition progress_message :: "bincode \<Rightarrow> client_startup \<Rightarrow> byte list" where
  "progress_message bc st = enc_client bc (Progress (fst (progress st)) (snd (progress st)))"

definition acknowledge_progress :: "bincode \<Rightarrow> 's replica \<Rightarrow> 's replica_step" where
  "acknowledge_progress bc c =
     (if fst (progress (rp_startup c)) \<noteq> fst (rp_reported c)
      then (c\<lparr>rp_reported := progress (rp_startup c)\<rparr>,
            [Client_Send channel_lockstep (progress_message bc (rp_startup c))], Inr ())
      else do_nothing c)"

definition step_startup ::
  "bincode \<Rightarrow> (nat \<Rightarrow> bool) \<Rightarrow> 's session_sim \<Rightarrow> observation list \<Rightarrow> 's replica \<Rightarrow> 's replica_step" where
  "step_startup bc al sim os c =
     (let (st, s, res) = startup_step bc al sim os (rp_startup c) (rp_sim c);
          c = c\<lparr>rp_startup := st, rp_sim := s\<rparr>
      in case res of
           Inl e \<Rightarrow> fail_with e c
         | Inr None \<Rightarrow> do_nothing c
         | Inr (Some ready) \<Rightarrow>
             client_send channel_lockstep (enc_client bc ready)
               (c\<lparr>rp_control := publish_status AwaitingStart_Status (rp_control c)\<rparr>))"

definition loading_progress :: "client_startup \<Rightarrow> session_status" where
  "loading_progress st =
     (let p = progress st in
      Loading (if snd p = 0 then ReceivingSave else ReplayingSave) (if snd p = 0 then fst p else snd p))"

definition report_loading :: "bincode \<Rightarrow> bool \<Rightarrow> 's replica \<Rightarrow> 's replica_step" where
  "report_loading bc elapsed c =
     (if is_loading (rp_startup c) \<and> elapsed then
        let sending = progress (rp_startup c) \<noteq> rp_reported c;
            acts = (if sending then [Client_Send channel_lockstep (progress_message bc (rp_startup c))] else []);
            c = (if sending then c\<lparr>rp_reported := progress (rp_startup c)\<rparr> else c)
        in (c\<lparr>rp_control := publish_status (loading_progress (rp_startup c)) (rp_control c)\<rparr>, acts, Inr ())
      else do_nothing c)"

definition transport_check :: "string option \<Rightarrow> 's replica \<Rightarrow> 's replica_step" where
  "transport_check err c =
     (case err of None \<Rightarrow> do_nothing c | Some msg \<Rightarrow> fail_with (Transport msg) c)"

definition client_round ::
  "bincode \<Rightarrow> (nat \<Rightarrow> bool) \<Rightarrow> 's session_sim \<Rightarrow> client_env \<Rightarrow> 's replica \<Rightarrow> 's replica_step" where
  "client_round bc al sim env c =
     then_do (transport_check (ce_transport env) c) (\<lambda>c.
     then_do (transport_check (ce_disconnected env) c) (\<lambda>c.
     then_do (forward_inputs bc (ce_local env) c) (\<lambda>c.
     then_do (receive_saves bc al (ce_saves env) c) (\<lambda>c.
     then_do (acknowledge_progress bc c) (\<lambda>c.
     then_do (step_startup bc al sim (ce_batch env) c) (\<lambda>c.
     then_do (report_loading bc (ce_elapsed env) c) (\<lambda>c.
     then_do (lockstep_loop bc al sim (take 128 (ce_lockstep env)) c) (\<lambda>c.
     then_do (if ce_desync env then fail_with (Protocol ''unexpected server desync message'') c
              else do_nothing c) (\<lambda>c.
     case ce_sent env of
       None \<Rightarrow> (c, [Client_Send_Packets], Inr ())
     | Some msg \<Rightarrow> fail_with (Transport msg) c)))))))))"

fun client_loop ::
  "bincode \<Rightarrow> (nat \<Rightarrow> bool) \<Rightarrow> 's session_sim \<Rightarrow> (bool \<times> client_env) list \<Rightarrow> 's replica \<Rightarrow>
   's replica_step option" where
  "client_loop bc al sim [] c = None"
| "client_loop bc al sim ((stop, env) # rounds) c =
     (if stop then Some (do_nothing c)
      else case client_round bc al sim env c of
        (c, acts, Inl e) \<Rightarrow> Some (c, acts, Inl e)
      | (c, acts, Inr _) \<Rightarrow>
          map_option (\<lambda>(c, rest, res). (c, acts @ rest, res)) (client_loop bc al sim rounds c))"

definition replica_new :: "'s \<Rightarrow> session_control \<Rightarrow> 's replica" where
  "replica_new s ctl =
     \<lparr>rp_startup = client_startup_default, rp_sim = s, rp_reported = (0, 0), rp_control = ctl\<rparr>"

definition run_client ::
  "bincode \<Rightarrow> (nat \<Rightarrow> bool) \<Rightarrow> 's session_sim \<Rightarrow> unit session_result \<Rightarrow> (bool \<times> client_env) list \<Rightarrow> 's \<Rightarrow>
   session_control \<Rightarrow> 's replica_step option" where
  "run_client bc al sim bound rounds s ctl =
     (case bound of
        Inl e \<Rightarrow> Some (fail_with e (replica_new s ctl))
      | Inr _ \<Rightarrow>
          map_option (\<lambda>(c, acts, res). (c, acts @ [Client_Disconnect], res))
            (client_loop bc al sim rounds (replica_new s ctl)))"

section \<open>A live replica follows the authority\<close>

lemma then_do_Inr:
  "then_do (c, acts, Inr x) f = (let (c, rest, res) = f c in (c, acts @ rest, res))"
  by (simp add: then_do_def)

definition report_of :: "bincode \<Rightarrow> u64 \<Rightarrow> u64 \<times> u64 session_result \<Rightarrow> client_action list" where
  "report_of bc interval e =
     (case e of
        (t, Inr h) \<Rightarrow>
          if t mod interval = 0
          then [Client_Send channel_desync (enc_desync bc \<lparr>report_tick = t, report_hash = h\<rparr>)] else []
      | (t, Inl _) \<Rightarrow> [])"

text \<open>Publication does not fail after a tick that succeeded.\<close>

definition publishes :: "'s session_sim \<Rightarrow> bool" where
  "publishes sim \<longleftrightarrow>
     (\<forall>a s s'. sim_advance sim a s = (s', Inr ()) \<longrightarrow> snd (sim_publish sim s') = Inr ())"

context fingerprinted_sim
begin

lemma advance_tick_live:
  assumes "advance_tick sim a p s = (s', Inr ())" "det s = det t" "publishes sim"
  shows "\<exists>t'. advance_tick sim a Live t = (t', Inr ()) \<and> det s' = det t'"
proof -
  obtain t1 where t1: "advance_tick sim a Replay t = (t1, Inr ())"
    using advance_tick_replays [OF assms(1,2)] by blast
  then obtain t0 where t0: "sim_advance sim a t = (t0, Inr ())" "sim_current_tick sim t0 = tick a"
    "unat (tick a) = Suc (unat (sim_current_tick sim t))"
    by (auto simp: advance_tick_Inr)
  obtain t2 where "sim_publish sim t0 = (t2, Inr ())"
    using assms(3) t0(1) by (metis publishes_def prod.collapse)
  then have "advance_tick sim a Live t = (sim_finish_tick sim t2, Inr ())"
    using t0 by (simp add: advance_tick_Inr)
  then show ?thesis using advance_tick_det [OF assms(1) _ assms(2)] by blast
qed

lemma lockstep_follows:
  assumes "bincode_format bc" "publishes sim" "interval = sim_hash_interval sim (rp_sim c)"
  shows "advance_all sim Live advs s = (s', Inr ()) \<Longrightarrow> det s = det (rp_sim c) \<Longrightarrow>
     is_live (rp_startup c) \<Longrightarrow>
     list_all (\<lambda>adv. carries adv \<and> length (enc_server bc (Tick adv)) \<le> max_replay_record_bytes) advs \<Longrightarrow>
     \<forall>(t, r) \<in> set (history sim advs s). t mod interval = 0 \<longrightarrow> (\<exists>h. r = Inr h) \<Longrightarrow>
     \<exists>c'. lockstep_loop bc infallible sim (map (\<lambda>adv. enc_server bc (Tick adv)) advs) c =
         (c', concat (map (report_of bc interval) (history sim advs s)), Inr ()) \<and>
       det (rp_sim c') = det s' \<and> rp_startup c' = rp_startup c"
  using assms(3)
proof (induction advs arbitrary: c s)
  case Nil
  then show ?case by (simp add: do_nothing_def)
next
  case (Cons adv advs)
  obtain s1 where s1: "advance_tick sim adv Live s = (s1, Inr ())"
    and rest: "advance_all sim Live advs s1 = (s', Inr ())"
    using Cons.prems(1) by (auto simp: advance_all_Cons_Inr simp del: advance_all.simps)
  obtain r1 where r1: "advance_tick sim adv Live (rp_sim c) = (r1, Inr ())" "det s1 = det r1"
    using advance_tick_live [OF s1 Cons.prems(2) assms(2)] by blast
  have i: "sim_hash_interval sim r1 = interval"
    using interval_advance_tick [OF r1(1)] Cons.prems(6) by simp
  have hist: "history sim (adv # advs) s = (tick adv, sim_state_hash sim r1) # history sim advs s1"
    using s1 hash_det [OF r1(2)] by simp
  have dec: "decode_server_message bc infallible (enc_server bc (Tick adv)) = Inr (Tick adv)"
    using Cons.prems(4) by (intro bincode_format.decode_encode_server_tick [OF assms(1)]) simp_all
  let ?c1 = "c\<lparr>rp_sim := r1\<rparr>"
  have one: "handle_lockstep bc infallible sim (enc_server bc (Tick adv)) c =
      (?c1, report_of bc interval (tick adv, sim_state_hash sim r1), Inr ())"
    using dec Cons.prems(3,5) r1(1) i hist
    by (auto simp: handle_lockstep_def apply_tick_def report_of_def client_send_def do_nothing_def
          split: sum.splits)
  have "\<exists>c'. lockstep_loop bc infallible sim (map (\<lambda>adv. enc_server bc (Tick adv)) advs) ?c1 =
         (c', concat (map (report_of bc interval) (history sim advs s1)), Inr ()) \<and>
       det (rp_sim c') = det s' \<and> rp_startup c' = rp_startup ?c1"
  proof (rule Cons.IH [OF rest])
    show "\<forall>(t, r) \<in> set (history sim advs s1). t mod interval = 0 \<longrightarrow> (\<exists>h. r = Inr h)"
      using Cons.prems(5) hist by simp
  qed (use Cons.prems r1(2) i in simp_all)
  then obtain c' where c': "lockstep_loop bc infallible sim (map (\<lambda>adv. enc_server bc (Tick adv)) advs) ?c1 =
         (c', concat (map (report_of bc interval) (history sim advs s1)), Inr ())"
    "det (rp_sim c') = det s'" "rp_startup c' = rp_startup c" by auto
  then show ?case
    using one by (intro exI [of _ c']) (simp add: then_do_Inr hist del: history.simps)
qed

end

end
