(* ===== verification/Test_Simulation.thy ===== *)
theory Test_Simulation
  imports Replay_Log
begin

text \<open>
  \<^verbatim>\<open>crates/synctick/src/test_simulation.rs\<close>: the counting simulation the crate's own tests
  drive sessions with.  It satisfies the contract of \<open>deterministic_sim\<close>; its deterministic
  part is the tick and the command count.  The optional atomic that tests observe mirrors
  the command count and is left out.
\<close>

record test_simulation =
  ts_tick :: u64
  ts_commands :: u64
  ts_starts :: nat
  ts_live_ticks :: nat

text \<open>\<open>ReplayHeader::current\<close>: the bytes of \<open>session-testgame\<close>, version 1, 30 ticks a second.\<close>

definition replay_header_current :: replay_header where
  "replay_header_current =
     replay_header_new
       [0x73, 0x65, 0x73, 0x73, 0x69, 0x6F, 0x6E, 0x2D, 0x74, 0x65, 0x73, 0x74, 0x67, 0x61, 0x6D, 0x65]
       1 33333333 [0]"

definition ts_advance :: "tick_advance \<Rightarrow> test_simulation \<Rightarrow> test_simulation \<times> unit session_result" where
  "ts_advance adv s =
     (s\<lparr>ts_tick := tick adv, ts_commands := ts_commands s + of_nat (length (inputs adv))\<rparr>, Inr ())"

definition ts_publish :: "test_simulation \<Rightarrow> test_simulation \<times> unit session_result" where
  "ts_publish s =
     (if ts_starts s = 0 then s\<lparr>ts_starts := 1\<rparr> else s\<lparr>ts_live_ticks := Suc (ts_live_ticks s)\<rparr>, Inr ())"

definition test_sim :: "test_simulation session_sim" where
  "test_sim =
     \<lparr>sim_header = (\<lambda>_. replay_header_current),
      sim_initialize = default_initialize,
      sim_validate_command = default_validate_command,
      sim_hash_interval = (\<lambda>_. hash_interval (tick_nanos replay_header_current)),
      sim_current_tick = ts_tick,
      sim_state_hash = (\<lambda>s. Inr (ts_tick s * 31 + ts_commands s)),
      sim_advance = ts_advance,
      sim_publish = ts_publish,
      sim_finish_tick = default_finish_tick\<rparr>"

definition test_simulation_default :: test_simulation where
  "test_simulation_default = \<lparr>ts_tick = 0, ts_commands = 0, ts_starts = 0, ts_live_ticks = 0\<rparr>"

interpretation test: fingerprinted_sim test_sim "\<lambda>s. (ts_tick s, ts_commands s)"
  by unfold_locales
    (auto simp: test_sim_def ts_advance_def ts_publish_def default_finish_tick_def)

section \<open>Live and replayed runs\<close>

text \<open>A recorded run replays: records that a simulation executed live are executed in replay
  from any state with the same authoritative part, and end in the same authoritative part,
  tick and fingerprint.\<close>

theorem live_run_replays:
  assumes "deterministic_sim sim det" "advance_all sim Live as s = (s', Inr ())" "det s = det t"
  shows "\<exists>t'. advance_all sim Replay as t = (t', Inr ()) \<and> det s' = det t' \<and>
    sim_current_tick sim t' = sim_current_tick sim s' \<and> sim_state_hash sim t' = sim_state_hash sim s'"
  using deterministic_sim.advance_all_replays [OF assms] deterministic_sim.tick_det [OF assms(1)]
    deterministic_sim.hash_det [OF assms(1)] by metis

text \<open>Ticks are executed consecutively: the records of a successful run carry the ticks right
  after the one it started from, without gap, repetition or wrap-around, and the run ends at
  the last of them.\<close>

theorem ticks_are_consecutive:
  assumes "deterministic_sim sim det" "advance_all sim phase as s = (s', Inr ())"
  shows "(\<forall>i < length as. unat (tick (as ! i)) = unat (sim_current_tick sim s) + Suc i) \<and>
    unat (sim_current_tick sim s') = unat (sim_current_tick sim s) + length as"
  using deterministic_sim.advance_all_ticks [OF assms] deterministic_sim.advance_all_final [OF assms] by blast

definition three_ticks :: "tick_advance list" where
  "three_ticks = map (\<lambda>t. \<lparr>tick = t, inputs = [\<lparr>participant = Host, payload = []\<rparr>]\<rparr>) [1, 2, 3]"

lemma three_ticks_run:
  "advance_all test_sim Live three_ticks test_simulation_default =
     (\<lparr>ts_tick = 3, ts_commands = 3, ts_starts = 1, ts_live_ticks = 2\<rparr>, Inr ())"
  by (simp add: three_ticks_def advance_tick_def validate_tick_def checked_add_def advance_checked_def
      test_sim_def ts_advance_def ts_publish_def default_finish_tick_def test_simulation_default_def)

theorem live_run_replays_witness:
  "\<exists>t'. advance_all test_sim Replay three_ticks test_simulation_default = (t', Inr ()) \<and>
     ts_tick t' = 3 \<and> ts_commands t' = 3 \<and> sim_state_hash test_sim t' = Inr 96"
  using live_run_replays [OF test.deterministic_sim_axioms three_ticks_run refl]
  by (auto simp: test_sim_def)

theorem ticks_are_consecutive_witness:
  "tick (three_ticks ! 2) = 3 \<and> length three_ticks = 3"
proof -
  have "unat (tick (three_ticks ! 2)) = unat (3 :: u64)" "length three_ticks = 3"
    using ticks_are_consecutive [OF test.deterministic_sim_axioms three_ticks_run]
    by (auto simp: three_ticks_def test_sim_def test_simulation_default_def)
  then show ?thesis by (simp add: word_unat_eq_iff)
qed

end
