(* ===== verification/Wallet.thy ===== *)
theory Wallet
  imports Derive_Hash Api
begin

text \<open>
  \<^verbatim>\<open>examples/wallet/src\<close>: the wallet game.  \<open>model.rs\<close> gives the state and the transfer
  rules, \<open>simulation.rs\<close> the adapter to the framework, \<open>cli.rs\<close> its configuration.
  Indices are \<^verbatim>\<open>usize\<close> of 64 bits, so converting a \<^verbatim>\<open>u64\<close> to one never fails.
\<close>

section \<open>Data\<close>

record wallet_initialization =
  init_seed :: u64
  init_balances :: "u64 list"

record transfer =
  recipient :: u64
  amounts :: "u64 list"

record wallet_state =
  wtick :: u64
  seed :: u64
  balances :: "u64 list"
  rejected :: u64

definition wallet_state_default :: wallet_state where
  "wallet_state_default = \<lparr>wtick = 0, seed = 0, balances = [], rejected = 0\<rparr>"

datatype rejection =
    UnknownSender
  | UnknownRecipient
  | AmountOverflow
  | InsufficientFunds
  | RecipientOverflow

section \<open>Derived codecs and hash\<close>

definition initialization_fields :: "(u64 \<times> u64 list \<times> unit) wire" where
  "initialization_fields = and_field u64_wire (and_field (vec_wire u64_wire) no_fields)"

definition wallet_initialization_wire :: "wallet_initialization wire" where
  "wallet_initialization_wire =
     construct_wire 32 (\<lambda>(s, bs, _). \<lparr>init_seed = s, init_balances = bs\<rparr>)
       (\<lambda>i. (init_seed i, init_balances i, ())) initialization_fields"

definition transfer_wire :: "transfer wire" where
  "transfer_wire =
     construct_wire 32 (\<lambda>(r, as, _). \<lparr>recipient = r, amounts = as\<rparr>)
       (\<lambda>t. (recipient t, amounts t, ())) initialization_fields"

definition wallet_hash :: "wallet_state hash" where
  "wallet_hash = struct_hash
     [(plain_field, \<lambda>s. field hash_int (wtick s)),
      (plain_field, \<lambda>s. field hash_int (seed s)),
      (plain_field, \<lambda>s. field (hash_vec hash_int) (balances s)),
      (plain_field, \<lambda>s. field hash_int (rejected s))]"

definition wallet_state_hash :: "wallet_state \<Rightarrow> u64" where
  "wallet_state_hash s = stable_hash wallet_hash s"

section \<open>Transfers\<close>

fun sum_amounts :: "u64 \<Rightarrow> u64 list \<Rightarrow> rejection + u64" where
  "sum_amounts acc [] = Inr acc"
| "sum_amounts acc (a # as) = and_then (ok_or AmountOverflow (checked_add acc a)) (\<lambda>acc. sum_amounts acc as)"

definition get_balance :: "u64 list \<Rightarrow> nat \<Rightarrow> u64 option" where
  "get_balance bs i = (if i < length bs then Some (bs ! i) else None)"

definition transfer_checked :: "u64 \<Rightarrow> transfer \<Rightarrow> wallet_state \<Rightarrow> rejection + wallet_state" where
  "transfer_checked sender_id command s =
     (let sender = unat sender_id; receiver = unat (recipient command) in
      and_then (sum_amounts 0 (amounts command)) (\<lambda>amount.
      and_then (ok_or UnknownSender (get_balance (balances s) sender)) (\<lambda>balance.
      and_then (ok_or InsufficientFunds (checked_sub balance amount)) (\<lambda>left.
      if sender = receiver then Inr s
      else
      and_then (ok_or UnknownRecipient (get_balance (balances s) receiver)) (\<lambda>destination.
      and_then (ok_or RecipientOverflow (checked_add destination amount)) (\<lambda>got.
      Inr (s\<lparr>balances := (balances s)[sender := left, receiver := got]\<rparr>)))))))"

text \<open>A rejected transfer returns before either assignment.\<close>

definition transfer_to :: "u64 \<Rightarrow> transfer \<Rightarrow> wallet_state \<Rightarrow> wallet_state \<times> (rejection + unit)" where
  "transfer_to sender_id command s =
     (case transfer_checked sender_id command s of
        Inl e \<Rightarrow> (s, Inl e)
      | Inr s' \<Rightarrow> (s', Inr ()))"

section \<open>The simulation\<close>

text \<open>\<open>published\<close> is the shared snapshot cell.\<close>

record wallet_simulation =
  ws_state :: wallet_state
  published :: "wallet_state option"

definition wallet_create ::
  "wallet_initialization \<Rightarrow> nat \<Rightarrow> wallet_simulation session_result" where
  "wallet_create i nanos =
     (if init_balances i = [] then Inl (Simulation_Error ''at least one wallet is required'')
      else Inr \<lparr>ws_state = wallet_state_default\<lparr>seed := init_seed i, balances := init_balances i\<rparr>,
                published = None\<rparr>)"

definition wallet_input :: "participant_id \<Rightarrow> transfer \<Rightarrow> wallet_state \<Rightarrow> wallet_state \<times> (rejection + unit)" where
  "wallet_input p command s =
     (case p of
        Host \<Rightarrow> transfer_to 0 command s
      | Remote n \<Rightarrow> if n = 0 then (s, Inl UnknownSender) else transfer_to n command s)"

fun wallet_inputs :: "transfer game_input list \<Rightarrow> wallet_state \<Rightarrow> wallet_state \<times> unit session_result" where
  "wallet_inputs [] s = (s, Inr ())"
| "wallet_inputs (i # is) s =
     (case wallet_input (input_participant i) (input_command i) s of
        (s, Inr _) \<Rightarrow> wallet_inputs is s
      | (s, Inl _) \<Rightarrow>
          (case checked_add (rejected s) 1 of
             None \<Rightarrow> (s, Inl (Simulation_Error ''rejection counter exhausted''))
           | Some n \<Rightarrow> wallet_inputs is (s\<lparr>rejected := n\<rparr>)))"

definition wallet_advance ::
  "transfer game_tick \<Rightarrow> wallet_simulation \<Rightarrow> wallet_simulation \<times> unit session_result" where
  "wallet_advance t w =
     (let (s, res) = wallet_inputs (tick_inputs t) ((ws_state w)\<lparr>wtick := number t\<rparr>)
      in (w\<lparr>ws_state := s\<rparr>, res))"

definition wallet_publish :: "wallet_simulation \<Rightarrow> wallet_simulation \<times> unit session_result" where
  "wallet_publish w = (w\<lparr>published := Some (ws_state w)\<rparr>, Inr ())"

definition wallet_game :: "(transfer, wallet_initialization, wallet_simulation) game" where
  "wallet_game =
     \<lparr>ID = [0x77, 0x61, 0x6C, 0x6C, 0x65, 0x74, 0x2D, 0x67, 0x61, 0x6D, 0x65, 0x2D, 0x76, 0x30, 0x30, 0x31],
      VERSION = 2,
      command_wire = transfer_wire,
      initialization_wire = wallet_initialization_wire,
      create_simulation = wallet_create,
      g_current_tick = (\<lambda>w. wtick (ws_state w)),
      g_state_hash = (\<lambda>w. Inr (wallet_state_hash (ws_state w))),
      g_advance = wallet_advance,
      g_publish = wallet_publish,
      g_finish_tick = no_finish_tick\<rparr>"

text \<open>\<open>AuthorityOptions::into_config\<close> of the command line.\<close>

definition into_config :: "string option \<Rightarrow> string option \<Rightarrow> wallet_initialization server_config" where
  "into_config record_to load_from =
     (server_config_new \<lparr>init_seed = 42, init_balances = [100, 200]\<rparr>)
       \<lparr>expected_clients := 1, load_path := load_from, record_path := record_to\<rparr>"

section \<open>The wallet is a game of the framework\<close>

interpretation wallet: deterministic_game wallet_game infallible ws_state
  by unfold_locales
    (auto simp: wallet_game_def wallet_advance_def wallet_publish_def no_finish_tick_def Let_def split_beta)

definition initialization_fields_shape :: "(u64 \<times> u64 list \<times> unit) shape" where
  "initialization_fields_shape =
     and_field_shape scalar_shape (and_field_shape (vec_shape scalar_shape u64_wire) no_fields_shape)"

lemma initialization_fields_ok: "wire_fields initialization_fields initialization_fields_shape"
  unfolding initialization_fields_def initialization_fields_shape_def
  by (intro and_field_fields w64.wire_fields_axioms vec_u64.wire_fields_axioms none.wire_fields_axioms)

definition transfer_shape :: "transfer shape" where
  "transfer_shape =
     construct_shape (\<lambda>(r, as, _). \<lparr>recipient = r, amounts = as\<rparr>)
       (\<lambda>t. (recipient t, amounts t, ())) initialization_fields_shape"

definition wallet_initialization_shape :: "wallet_initialization shape" where
  "wallet_initialization_shape =
     construct_shape (\<lambda>(s, bs, _). \<lparr>init_seed = s, init_balances = bs\<rparr>)
       (\<lambda>i. (init_seed i, init_balances i, ())) initialization_fields_shape"

lemma initialization_fields_size: "0 < min_size initialization_fields"
  by (simp add: initialization_fields_def and_field_def)

interpretation transfer: wire_codec transfer_wire transfer_shape
proof -
  have "wire_fields transfer_wire transfer_shape"
    unfolding transfer_wire_def transfer_shape_def
    by (rule construct_fields [OF initialization_fields_ok]) auto
  then show "wire_codec transfer_wire transfer_shape"
    using initialization_fields_size
    by (intro wire_codec.intro wire_codec_axioms.intro) (simp_all add: transfer_wire_def construct_wire_def)
qed

interpretation wallet_init: wire_codec wallet_initialization_wire wallet_initialization_shape
proof -
  have "wire_fields wallet_initialization_wire wallet_initialization_shape"
    unfolding wallet_initialization_wire_def wallet_initialization_shape_def
    by (rule construct_fields [OF initialization_fields_ok]) auto
  then show "wire_codec wallet_initialization_wire wallet_initialization_shape"
    using initialization_fields_size
    by (intro wire_codec.intro wire_codec_axioms.intro)
      (simp_all add: wallet_initialization_wire_def construct_wire_def)
qed

section \<open>Transfers move money and neither create nor destroy it\<close>

definition total_supply :: "wallet_state \<Rightarrow> nat" where
  "total_supply s = sum_list (map unat (balances s))"

lemma sum_amounts_Inr:
  "sum_amounts acc as = Inr t \<longleftrightarrow> unat t = unat acc + sum_list (map unat as)"
proof (induction acc as rule: sum_amounts.induct)
  case (1 acc)
  then show ?case by (auto simp: word_unat_eq_iff)
next
  case (2 acc a as)
  show ?case
  proof (cases "checked_add acc a")
    case None
    then have "2 ^ 64 \<le> unat acc + unat a" by (simp add: checked_add_None)
    moreover have "unat t < 2 ^ 64" using unsigned_less [of t] by simp
    ultimately have "unat t \<noteq> unat acc + (unat a + sum_list (map unat as))" by simp
    then show ?thesis using None by simp
  next
    case (Some c)
    then have "unat c = unat acc + unat a" by (simp add: checked_add_Some)
    then show ?thesis using Some 2 [of c] by (simp add: add.assoc)
  qed
qed

lemma get_balance_Some [res_simps]:
  "get_balance bs i = Some b \<longleftrightarrow> i < length bs \<and> b = bs ! i"
  by (auto simp: get_balance_def)

lemma transfer_checked_Inr:
  "transfer_checked n c s = Inr s' \<longleftrightarrow>
     (let i = unat n; j = unat (recipient c); amount = sum_list (map unat (amounts c)) in
      i < length (balances s) \<and> amount \<le> unat (balances s ! i) \<and>
      (if i = j then s' = s
       else j < length (balances s) \<and> unat (balances s ! j) + amount < 2 ^ 64 \<and>
         s' = s\<lparr>balances := (balances s)[i := balances s ! i - word_of_nat amount,
                                        j := balances s ! j + word_of_nat amount]\<rparr>))"
  (is "?l = ?r")
proof -
  let ?i = "unat n" and ?j = "unat (recipient c)" and ?amount = "sum_list (map unat (amounts c))"
  let ?w = "word_of_nat ?amount :: u64"
  have sum: "sum_amounts 0 (amounts c) = Inr w \<longleftrightarrow> unat w = ?amount" for w
    by (simp add: sum_amounts_Inr)
  have word: "unat w = ?amount \<Longrightarrow> w = ?w" for w :: u64
    by (drule sym) simp
  have small: "unat ?w = ?amount" if "?amount \<le> unat b" for b :: u64
  proof -
    have "unat b < 2 ^ 64" using unsigned_less [of b] by simp
    with that show ?thesis by (simp add: unat_of_nat)
  qed
  have sub: "checked_sub b w = Some d \<longleftrightarrow> ?amount \<le> unat b \<and> d = b - ?w" if "unat w = ?amount" for b d w :: u64
  proof -
    have "w = ?w" by (rule word [OF that])
    then show ?thesis using that by (auto simp: checked_sub_def word_le_nat_alt)
  qed
  have add: "checked_add b w = Some d \<longleftrightarrow> unat b + ?amount < 2 ^ 64 \<and> d = b + ?w" if "unat w = ?amount" for b d w :: u64
  proof -
    have "w = ?w" by (rule word [OF that])
    then show ?thesis using that by (auto simp: checked_add_def)
  qed
  show ?thesis
  proof
    assume ?l
    then obtain w where w: "unat w = ?amount" and
      rest: "and_then (ok_or UnknownSender (get_balance (balances s) ?i)) (\<lambda>balance.
        and_then (ok_or InsufficientFunds (checked_sub balance w)) (\<lambda>left.
        if ?i = ?j then Inr s
        else and_then (ok_or UnknownRecipient (get_balance (balances s) ?j)) (\<lambda>destination.
        and_then (ok_or RecipientOverflow (checked_add destination w)) (\<lambda>got.
        Inr (s\<lparr>balances := (balances s)[?i := left, ?j := got]\<rparr>))))) = Inr s'"
      by (auto simp: transfer_checked_def Let_def and_then_Inr sum)
    then show ?r
      by (auto simp: Let_def res_simps sub add split: if_splits)
  next
    assume r: ?r
    then have w: "unat ?w = ?amount" using small by (auto simp: Let_def)
    then have "sum_amounts 0 (amounts c) = Inr ?w" by (simp add: sum)
    then show ?l
      using r w by (auto simp: transfer_checked_def Let_def get_balance_def checked_sub_def
          checked_add_def word_le_nat_alt split: if_splits)
  qed
qed

lemma transfer_checked_supply:
  assumes "transfer_checked n c s = Inr s'"
  shows "total_supply s' = total_supply s" "length (balances s') = length (balances s)"
    "wtick s' = wtick s" "seed s' = seed s" "rejected s' = rejected s"
proof -
  let ?i = "unat n" and ?j = "unat (recipient c)" and ?amount = "sum_list (map unat (amounts c))"
  note r = assms [unfolded transfer_checked_Inr Let_def]
  show "length (balances s') = length (balances s)" "wtick s' = wtick s" "seed s' = seed s"
    "rejected s' = rejected s"
    using r by (auto split: if_splits)
  show "total_supply s' = total_supply s"
  proof (cases "?i = ?j")
    case True
    then show ?thesis using r by simp
  next
    case False
    let ?b = "map unat (balances s)"
    have i: "?i < length ?b" and j: "?j < length ?b" and le: "?amount \<le> ?b ! ?i"
      and room: "?b ! ?j + ?amount < 2 ^ 64"
      and s': "balances s' = (balances s)[?i := balances s ! ?i - word_of_nat ?amount,
        ?j := balances s ! ?j + word_of_nat ?amount]"
      using r False by auto
    have w: "unat (word_of_nat ?amount :: u64) = ?amount" using room by (simp add: unat_of_nat)
    have left: "unat (balances s ! ?i - word_of_nat ?amount) = ?b ! ?i - ?amount"
      using i le w by (simp add: unat_sub word_le_nat_alt)
    have right: "unat (balances s ! ?j + word_of_nat ?amount) = ?b ! ?j + ?amount"
      using j room w by (simp add: unat_word_ariths)
    let ?mid = "?b[?i := ?b ! ?i - ?amount]"
    have "map unat (balances s') = ?mid[?j := ?b ! ?j + ?amount]"
      by (simp add: s' map_update left right)
    moreover have "sum_list ?mid + ?b ! ?i = sum_list ?b + (?b ! ?i - ?amount)"
      using i by (rule sum_list_update_nat)
    moreover have "sum_list (?mid[?j := ?b ! ?j + ?amount]) + ?mid ! ?j = sum_list ?mid + (?b ! ?j + ?amount)"
      using j by (intro sum_list_update_nat) simp
    moreover have "?mid ! ?j = ?b ! ?j" using False by simp
    ultimately show ?thesis using le by (simp add: total_supply_def)
  qed
qed

definition wallet_rest :: "wallet_state \<Rightarrow> nat \<times> nat \<times> u64 \<times> u64" where
  "wallet_rest s = (total_supply s, length (balances s), seed s, wtick s)"

lemma transfer_to_rest: "wallet_rest (fst (transfer_to n c s)) = wallet_rest s"
  by (auto simp: transfer_to_def wallet_rest_def transfer_checked_supply split: sum.splits)

lemma transfer_to_atomic: "transfer_to n c s = (s', Inl e) \<Longrightarrow> s' = s"
  by (auto simp: transfer_to_def split: sum.splits)

lemma wallet_input_rest: "wallet_rest (fst (wallet_input p c s)) = wallet_rest s"
  by (auto simp: wallet_input_def transfer_to_rest split: participant_id.splits)

lemma wallet_rest_rejected [simp]: "wallet_rest (s\<lparr>rejected := n\<rparr>) = wallet_rest s"
  by (simp add: wallet_rest_def total_supply_def)

lemma wallet_inputs_rest: "wallet_rest (fst (wallet_inputs is s)) = wallet_rest s"
proof (induction "is" arbitrary: s)
  case (Cons i "is")
  obtain s1 res where s1: "wallet_input (input_participant i) (input_command i) s = (s1, res)"
    by (cases "wallet_input (input_participant i) (input_command i) s")
  then have "wallet_rest s1 = wallet_rest s"
    using wallet_input_rest [of "input_participant i" "input_command i" s] by simp
  then show ?case
    using s1 Cons by (auto split: sum.splits option.splits)
qed simp

text \<open>Rejections are counted: the counter grows by the number of rejected commands.\<close>

fun rejections :: "transfer game_input list \<Rightarrow> wallet_state \<Rightarrow> nat" where
  "rejections [] s = 0"
| "rejections (i # is) s =
     (case wallet_input (input_participant i) (input_command i) s of
        (s, Inr _) \<Rightarrow> rejections is s
      | (s, Inl _) \<Rightarrow> Suc (rejections is (s\<lparr>rejected := rejected s + 1\<rparr>)))"

lemma wallet_input_rejected:
  "rejected (fst (wallet_input p c s)) = rejected s"
  by (auto simp: wallet_input_def transfer_to_def transfer_checked_supply
      split: participant_id.splits sum.splits)

lemma wallet_inputs_rejected:
  "wallet_inputs is s = (s', Inr ()) \<Longrightarrow> unat (rejected s') = unat (rejected s) + rejections is s"
proof (induction "is" arbitrary: s)
  case (Cons i "is")
  obtain s1 res where s1: "wallet_input (input_participant i) (input_command i) s = (s1, res)"
    by (cases "wallet_input (input_participant i) (input_command i) s")
  then have r: "rejected s1 = rejected s"
    using wallet_input_rejected [of "input_participant i" "input_command i" s] by simp
  show ?case
  proof (cases res)
    case (Inl e)
    then obtain n where n: "checked_add (rejected s1) 1 = Some n"
      and rest: "wallet_inputs is (s1\<lparr>rejected := n\<rparr>) = (s', Inr ())"
      using Cons.prems s1 by (auto split: option.splits)
    have "n = rejected s1 + 1" using n by (auto simp: checked_add_def split: if_splits)
    moreover have "unat n = Suc (unat (rejected s1))" using n by (simp add: checked_add_Some)
    ultimately show ?thesis using Cons.IH [OF rest] s1 Inl r by simp
  next
    case (Inr u)
    then show ?thesis using Cons s1 r by simp
  qed
qed simp

text \<open>A participant can only debit its own wallet: no other balance decreases.\<close>

definition own_wallet :: "participant_id \<Rightarrow> nat" where
  "own_wallet p = (case p of Host \<Rightarrow> 0 | Remote n \<Rightarrow> unat n)"

lemma transfer_debits_sender:
  assumes "transfer_checked n c s = Inr s'" "k \<noteq> unat n" "k < length (balances s)"
  shows "balances s ! k \<le> balances s' ! k"
proof -
  let ?i = "unat n" and ?j = "unat (recipient c)" and ?amount = "sum_list (map unat (amounts c))"
  note r = assms(1) [unfolded transfer_checked_Inr Let_def]
  show ?thesis
  proof (cases "?i = ?j \<or> k \<noteq> ?j")
    case True
    then show ?thesis using r assms(2) by (auto split: if_splits)
  next
    case False
    then have room: "unat (balances s ! k) + ?amount < 2 ^ 64"
      and s': "balances s' ! k = balances s ! k + word_of_nat ?amount"
      using r assms(2,3) by auto
    have "unat (balances s ! k + word_of_nat ?amount) = unat (balances s ! k) + ?amount"
      using room by (simp add: unat_word_ariths unat_of_nat)
    then show ?thesis by (simp add: s' word_le_nat_alt)
  qed
qed

lemma wallet_input_debits_own:
  assumes "k \<noteq> own_wallet p" "k < length (balances s)"
  shows "balances s ! k \<le> balances (fst (wallet_input p c s)) ! k"
  using assms
  by (auto simp: wallet_input_def own_wallet_def transfer_to_def
      split: participant_id.splits sum.splits intro: transfer_debits_sender)

section \<open>What a tick of the wallet guarantees\<close>

text \<open>C39. A transfer succeeds exactly when the sender has a wallet with at least the sum of the
  amounts, which itself does not overflow, and the recipient, unless it is the sender, has
  a wallet with room for it; then exactly this sum moves.\<close>

theorem transfer_moves_exactly:
  "transfer_checked n c s = Inr s' \<longleftrightarrow>
     (let i = unat n; j = unat (recipient c); amount = sum_list (map unat (amounts c)) in
      i < length (balances s) \<and> amount \<le> unat (balances s ! i) \<and>
      (if i = j then s' = s
       else j < length (balances s) \<and> unat (balances s ! j) + amount < 2 ^ 64 \<and>
         s' = s\<lparr>balances := (balances s)[i := balances s ! i - word_of_nat amount,
                                        j := balances s ! j + word_of_nat amount]\<rparr>))"
  by (rule transfer_checked_Inr)

lemma wallet_tick_state:
  assumes "wallet_advance t w = (w', res)"
  shows "wallet_inputs (tick_inputs t) ((ws_state w)\<lparr>wtick := number t\<rparr>) = (ws_state w', res)"
  using assms by (auto simp: wallet_advance_def Let_def split: prod.splits)

text \<open>A tick neither creates nor destroys money: whatever its commands and however it ends,
  the sum of all balances, the number of wallets and the seed stay, and the tick is the one
  the record names.\<close>

theorem wallet_conserves_money:
  "total_supply (ws_state (fst (wallet_advance t w))) = total_supply (ws_state w) \<and>
   length (balances (ws_state (fst (wallet_advance t w)))) = length (balances (ws_state w)) \<and>
   seed (ws_state (fst (wallet_advance t w))) = seed (ws_state w) \<and>
   wtick (ws_state (fst (wallet_advance t w))) = number t"
proof -
  obtain w' res where w: "wallet_advance t w = (w', res)" by (cases "wallet_advance t w")
  have "wallet_rest (ws_state w') = wallet_rest ((ws_state w)\<lparr>wtick := number t\<rparr>)"
    using wallet_inputs_rest [of "tick_inputs t" "(ws_state w)\<lparr>wtick := number t\<rparr>"]
    by (simp add: wallet_tick_state [OF w])
  then show ?thesis by (simp add: w wallet_rest_def total_supply_def)
qed

lemma wallet_input_length: "length (balances (fst (wallet_input p c s))) = length (balances s)"
  using wallet_input_rest [of p c s] by (simp add: wallet_rest_def)

lemma wallet_inputs_debit:
  assumes "\<forall>i \<in> set is. own_wallet (input_participant i) \<noteq> k" "k < length (balances s)"
  shows "balances s ! k \<le> balances (fst (wallet_inputs is s)) ! k"
  using assms
proof (induction "is" arbitrary: s)
  case (Cons i "is")
  obtain s1 res where s1: "wallet_input (input_participant i) (input_command i) s = (s1, res)"
    by (cases "wallet_input (input_participant i) (input_command i) s")
  have le: "balances s ! k \<le> balances s1 ! k"
    using wallet_input_debits_own [of k "input_participant i" s "input_command i"] Cons.prems s1 by auto
  have len: "k < length (balances s1)"
    using wallet_input_length [of "input_participant i" "input_command i" s] Cons.prems(2) s1 by simp
  have rest: "balances t ! k \<le> balances (fst (wallet_inputs is t)) ! k" if "balances t = balances s1" for t
    using Cons.IH [of t] Cons.prems(1) that len by simp
  have "balances s1 ! k \<le> balances (fst (wallet_inputs (i # is) s)) ! k"
    using rest [OF refl] rest [of "s1\<lparr>rejected := n\<rparr>" for n]
    by (auto simp: s1 split: sum.splits option.splits)
  then show ?case using le by simp
qed simp

text \<open>Nobody can spend another's money: in a tick, the balance of a wallet whose owner sent
  no command does not decrease.  The host owns wallet 0, the remote participant n wallet n.\<close>

theorem only_owners_spend:
  assumes "\<forall>i \<in> set (tick_inputs t). own_wallet (input_participant i) \<noteq> k"
    and "k < length (balances (ws_state w))"
  shows "balances (ws_state w) ! k \<le> balances (ws_state (fst (wallet_advance t w))) ! k"
proof -
  obtain w' res where w: "wallet_advance t w = (w', res)" by (cases "wallet_advance t w")
  show ?thesis
    using wallet_inputs_debit [OF assms(1), of "(ws_state w)\<lparr>wtick := number t\<rparr>"] assms(2)
    by (simp add: wallet_tick_state [OF w] w)
qed

definition two_wallets :: wallet_simulation where
  "two_wallets = \<lparr>ws_state = \<lparr>wtick = 0, seed = 42, balances = [100, 200], rejected = 0\<rparr>, published = None\<rparr>"

definition pay_tick :: "transfer game_tick" where
  "pay_tick = \<lparr>number = 1, tick_inputs =
     [\<lparr>input_participant = Host, input_command = \<lparr>recipient = 1, amounts = [30, 20]\<rparr>\<rparr>,
      \<lparr>input_participant = Host, input_command = \<lparr>recipient = 7, amounts = [1]\<rparr>\<rparr>]\<rparr>"

lemma pay_tick_result:
  "wallet_advance pay_tick two_wallets =
     (two_wallets\<lparr>ws_state := \<lparr>wtick = 1, seed = 42, balances = [50, 250], rejected = 1\<rparr>\<rparr>, Inr ())"
  by (simp add: pay_tick_def two_wallets_def wallet_advance_def wallet_input_def transfer_to_def
      transfer_checked_def get_balance_def checked_add_def checked_sub_def)

theorem only_owners_spend_witness:
  "balances (ws_state two_wallets) ! 1 \<le> balances (ws_state (fst (wallet_advance pay_tick two_wallets))) ! 1"
  by (rule only_owners_spend) (simp_all add: pay_tick_def own_wallet_def two_wallets_def)

text \<open>Rejections are counted: a tick that succeeds raises the counter by the number of its
  commands that were rejected, and those changed nothing else.\<close>

theorem rejections_are_counted:
  assumes "wallet_advance t w = (w', Inr ())"
  shows "unat (rejected (ws_state w')) =
    unat (rejected (ws_state w)) + rejections (tick_inputs t) ((ws_state w)\<lparr>wtick := number t\<rparr>)"
  using wallet_inputs_rejected [OF wallet_tick_state [OF assms]] by simp

theorem rejections_are_counted_witness:
  "rejections (tick_inputs pay_tick) ((ws_state two_wallets)\<lparr>wtick := 1\<rparr>) = 1"
  using rejections_are_counted [OF pay_tick_result] by (simp add: two_wallets_def pay_tick_def)

end
