(* ===== verification/Game_Session.thy ===== *)
theory Game_Session
  imports Recording Run_Client Wallet
begin

text \<open>
  A game behind the adapter of \<^verbatim>\<open>api.rs\<close>: it meets the contract the session theorems ask
  for, what a client submits is what the authority and every replica execute, and a server
  only starts from a header its recording can carry.  The wallet is the running example.
\<close>

section \<open>An adapted game\<close>

lemma validate_bounded: "validate W al bs = Inr () \<Longrightarrow> length bs \<le> max_payload_bytes"
  by (auto simp: validate_def res_simps split: if_splits)

lemma adapter_validate:
  "sim_validate_command (adapter_sim G al) a bs = codec_result (validate (command_wire G) al bs)"
  by (simp add: adapter_sim_def)

lemma adapter_bounded: "bounded_commands (adapter_sim G al)"
  by (auto simp: bounded_commands_def adapter_validate codec_result_def res_simps dest: validate_bounded)

lemma adapter_advance_game:
  assumes "adapter_advance G al adv a = (a', Inr ())"
  shows "\<exists>t g g'. g_advance G t g = (g', Inr ()) \<and> ad_simulation a' = Some g'"
proof -
  obtain cs g g' where "g_advance G \<lparr>number = tick adv, tick_inputs = cs\<rparr> g = (g', Inr ())"
    "a' = a\<lparr>ad_simulation := Some g'\<rparr>"
    using assms
    by (auto simp: adapter_advance_def uninitialized_def split: if_splits sum.splits option.splits prod.splits)
  then show ?thesis by force
qed

lemma adapter_publishes:
  assumes "\<And>t g g'. g_advance G t g = (g', Inr ()) \<Longrightarrow> snd (g_publish G g') = Inr ()"
  shows "publishes (adapter_sim G al)"
  using adapter_advance_game assms by (fastforce simp: publishes_def adapter_publish_def split_beta)

context deterministic_game
begin

lemma adapter_fingerprinted: "fingerprinted_sim (adapter_sim G al) (\<lambda>a. map_option gdet (ad_simulation a))"
  by (rule adapter.fingerprinted_sim_axioms)

end

text \<open>C24. Every deterministic game that publishes after each tick it executed without an error is,
  behind the adapter, a simulation the session theorems apply to: its advance depends on its
  authoritative state only, its fingerprint interval is constant, it only accepts commands
  within the payload budget, and it publishes after every tick.  Both games of the repository
  are such games.\<close>

theorem game_meets_the_contract:
  assumes "deterministic_game G gdet"
    and "\<forall>t g g'. g_advance G t g = (g', Inr ()) \<longrightarrow> snd (g_publish G g') = Inr ()"
  shows "fingerprinted_sim (adapter_sim G al) (\<lambda>a. map_option gdet (ad_simulation a)) \<and>
    bounded_commands (adapter_sim G al) \<and> publishes (adapter_sim G al)"
  using deterministic_game.adapter_fingerprinted [OF assms(1), of al] adapter_bounded adapter_publishes assms(2)
  by metis

text \<open>C23. A command a client submits is the command the authority executes: a submission that
  succeeds happened while the session was live, put into the queue bytes that fit a payload
  and that the authority's validation accepts, and every replica decodes them to the
  command submitted.\<close>

theorem submitted_command_is_executed:
  assumes "wire_codec (command_wire G) S" "sendable S c"
    and "submit (command_wire G) infallible try_send ctl c ch = (ch', Inr ())"
  shows "\<exists>bs. try_send bs ch = (ch', Inr ()) \<and> status ctl = Live_Status \<and> length bs \<le> max_payload_bytes \<and>
    sim_validate_command (adapter_sim G infallible) a bs = Inr () \<and>
    decode_inputs (command_wire G) infallible [\<lparr>participant = p, payload = bs\<rparr>] =
      Inr [\<lparr>input_participant = p, input_command = c\<rparr>]"
proof -
  obtain bs where bs: "encode (command_wire G) infallible c = Inr bs" "try_send bs ch = (ch', Inr ())"
    and live: "status ctl = Live_Status"
    using assms(3) by (auto simp: submit_Inr)
  note valid = encode_validates [OF bs(1)]
  have "decode (command_wire G) infallible bs = Inr c"
    using assms(1,2) bs(1) by (rule wire_codec.roundtrip)
  then show ?thesis
    using bs(2) live valid validate_bounded [OF valid]
    by (intro exI [of _ bs]) (simp add: adapter_validate codec_result_def res_simps)
qed

definition demo_transfer :: transfer where
  "demo_transfer = \<lparr>recipient = 1, amounts = [50]\<rparr>"

definition one_slot :: "byte list \<Rightarrow> byte list list \<Rightarrow> byte list list \<times> (try_send_error + unit)" where
  "one_slot bs q = (if q = [] then ([bs], Inr ()) else (q, Inl Full_Send))"

lemma demo_transfer_sendable: "sendable transfer_shape demo_transfer"
  by (simp add: demo_transfer_def transfer_shape_def construct_shape_def initialization_fields_shape_def
      and_field_shape_def no_fields_shape_def vec_shape_def scalar_shape_def max_payload_bytes_def)

lemma demo_transfer_bytes:
  "encode transfer_wire infallible demo_transfer = Inr (canon transfer_shape demo_transfer)"
  by (subst transfer.encode_Inr [OF demo_transfer_sendable])
    (simp add: within_budget_def demo_transfer_def transfer_shape_def construct_shape_def
      initialization_fields_shape_def and_field_shape_def no_fields_shape_def vec_shape_def
      scalar_shape_def max_payload_bytes_def max_allocation_bytes_def max_depth_def
      scalar_wire_def)

theorem submitted_command_is_executed_witness:
  "\<exists>bs. fst (submit transfer_wire infallible one_slot (session_control_default\<lparr>status := Live_Status\<rparr>)
      demo_transfer []) = [bs] \<and>
    sim_validate_command (adapter_sim wallet_game infallible) (adapter_new small_header) bs = Inr () \<and>
    decode_inputs transfer_wire infallible [\<lparr>participant = Remote 1, payload = bs\<rparr>] =
      Inr [\<lparr>input_participant = Remote 1, input_command = demo_transfer\<rparr>]"
proof -
  let ?bs = "canon transfer_shape demo_transfer"
  let ?ctl = "session_control_default\<lparr>status := Live_Status\<rparr>"
  have live: "\<not> is_cancelled ?ctl" "status ?ctl = Live_Status"
    by (simp_all add: session_control_default_def is_cancelled_def)
  have W: "command_wire wallet_game = transfer_wire" by (simp add: wallet_game_def)
  have slot: "one_slot ?bs [] = ([?bs], Inr ())" by (simp add: one_slot_def)
  have sub: "submit (command_wire wallet_game) infallible one_slot ?ctl demo_transfer [] = ([?bs], Inr ())"
    unfolding submit_Inr W using live demo_transfer_bytes slot by blast
  have wc: "wire_codec (command_wire wallet_game) transfer_shape"
    unfolding W by (rule transfer.wire_codec_axioms)
  from submitted_command_is_executed [OF wc demo_transfer_sendable sub,
      of "adapter_new small_header" "Remote 1"]
  obtain bs where bs: "one_slot bs [] = ([?bs], Inr ())"
    "sim_validate_command (adapter_sim wallet_game infallible) (adapter_new small_header) bs = Inr ()"
    "decode_inputs transfer_wire infallible [\<lparr>participant = Remote 1, payload = bs\<rparr>] =
      Inr [\<lparr>input_participant = Remote 1, input_command = demo_transfer\<rparr>]"
    unfolding W by blast
  then have "bs = ?bs" by (simp add: one_slot_def)
  with bs sub show ?thesis unfolding W by auto
qed

lemma started_header_current:
  assumes "bincode_format bc" "length (ID G) = 16"
    and "start_server bc al fs file G config local = Inr st"
  shows "header_current (start_header st)"
proof (cases "load_path config")
  case None
  have nanos: "unat (word_of_nat (tick_duration config) :: u64) = tick_duration config"
    if "tick_duration config \<le> 1000000000"
    using that by (simp add: unat_of_nat)
  show ?thesis
    using assms(2,3) None nanos
    by (auto simp: start_server_def res_simps codec_result_def replay_header_new_def header_current_def
        validate_tick_duration_def dest!: encode_validates validate_bounded split: if_splits)
next
  case (Some path)
  then show ?thesis
    using assms(3) bincode_format.from_reader_current [OF assms(1)]
    by (auto simp: start_server_def res_simps open_log_def split: if_splits option.splits)
qed

text \<open>A server only starts from a header its own recording could carry, new or loaded: the
  game, its version, the tick duration and the initialization pass the game's checks, the
  header reads back as current, the pacing is the header's, at most 1024 clients are
  expected, the command capacity is between 1 and 65536, and the adapter's fingerprint
  interval is between one tick and a million.\<close>

theorem started_server_is_runnable:
  assumes "bincode_format bc" "length (ID G) = 16"
    and "start_server bc al fs file G config local = Inr st"
  shows "header_current (start_header st) \<and> validate_header G al (start_header st) = Inr () \<and>
    start_tick_nanos st = unat (tick_nanos (start_header st)) \<and> expected_clients config \<le> 1024 \<and>
    0 < start_capacity st \<and> start_capacity st \<le> 65536 \<and>
    0 < sim_hash_interval (adapter_sim G al) (adapter_new (start_header st)) \<and>
    unat (sim_hash_interval (adapter_sim G al) (adapter_new (start_header st))) \<le> 1000000"
proof -
  note st = start_server_Inr [OF assms(3)]
  have cap: "0 < command_capacity config" "command_capacity config \<le> 65536"
    using assms(3) by (simp_all add: start_server_def res_simps)
  have "1000 \<le> unat (tick_nanos (start_header st))" "unat (tick_nanos (start_header st)) \<le> 1000000000"
    using st(1) by (simp_all add: validate_header_Inr)
  note i = hash_interval_pos [OF this]
  have "sim_hash_interval (adapter_sim G al) (adapter_new (start_header st)) =
      (1000000000 + tick_nanos (start_header st) div 2) div tick_nanos (start_header st)"
    by (simp add: adapter_sim_def adapter_new_def)
  then show ?thesis
    using started_header_current [OF assms] st cap i by simp
qed

lemma wallet_options_start:
  "\<exists>st. dedicated_server standard_bincode infallible (\<lambda>_. None) (byte_source []) wallet_game (into_config None None) =
     Inr st"
proof -
  have s: "sendable wallet_initialization_shape \<lparr>init_seed = 42, init_balances = [100, 200]\<rparr>"
    by (simp add: wallet_initialization_shape_def construct_shape_def initialization_fields_shape_def
        and_field_shape_def no_fields_shape_def vec_shape_def scalar_shape_def)
  have "within_budget wallet_initialization_shape \<lparr>init_seed = 42, init_balances = [100, 200]\<rparr>"
    by (simp add: within_budget_def wallet_initialization_shape_def construct_shape_def
        initialization_fields_shape_def and_field_shape_def no_fields_shape_def vec_shape_def
        scalar_shape_def max_payload_bytes_def max_allocation_bytes_def max_depth_def scalar_wire_def)
  then have "encode wallet_initialization_wire infallible \<lparr>init_seed = 42, init_balances = [100, 200]\<rparr> =
      Inr (canon wallet_initialization_shape \<lparr>init_seed = 42, init_balances = [100, 200]\<rparr>)"
    by (simp add: wallet_init.encode_Inr [OF s])
  then show ?thesis
    by (simp add: dedicated_server_def start_server_def into_config_def server_config_new_def
        validate_capacity_def validate_tick_duration_def wallet_game_def codec_result_def)
qed

theorem started_server_is_runnable_witness:
  "\<exists>st. dedicated_server standard_bincode infallible (\<lambda>_. None) (byte_source []) wallet_game (into_config None None) =
     Inr st \<and> header_current (start_header st) \<and> validate_header wallet_game infallible (start_header st) = Inr ()"
proof -
  obtain st where st: "start_server standard_bincode infallible (\<lambda>_. None) (byte_source []) wallet_game
      (into_config None None) False = Inr st"
    using wallet_options_start by (auto simp: dedicated_server_def)
  have "length (ID wallet_game) = 16" by (simp add: wallet_game_def)
  from started_server_is_runnable [OF std.bincode_format_axioms this st] st
  show ?thesis by (auto simp: dedicated_server_def)
qed

text \<open>Initialization either leaves the adapter as it was and fails, or builds the game once,
  from a compatible header, at tick zero, and keeps that header.\<close>

theorem initialization_is_atomic:
  assumes "sim_initialize (adapter_sim G al) h a = (a', res)"
  shows "(\<exists>e. res = Inl e \<and> a' = a) \<or>
    (\<exists>g initial. res = Inr () \<and> a' = \<lparr>ad_header = h, ad_simulation = Some g\<rparr> \<and> ad_simulation a = None \<and>
      validate_header G al h = Inr () \<and> decode (initialization_wire G) al (initialization h) = Inr initial \<and>
      create_simulation G initial (unat (tick_nanos h)) = Inr g \<and> sim_current_tick (adapter_sim G al) a' = 0)"
proof (cases res)
  case (Inl e)
  then show ?thesis using assms by (auto simp: adapter_initialize_def split: sum.splits)
next
  case (Inr u)
  then obtain g where g: "and_then (validate_header G al h) (\<lambda>_.
        if ad_simulation a \<noteq> None then Inl (Simulation_Error ''duplicate initialization'')
        else
        and_then (codec_result (decode (initialization_wire G) al (initialization h))) (\<lambda>initial.
        and_then (create_simulation G initial (unat (tick_nanos h))) (\<lambda>g.
        if g_current_tick G g \<noteq> 0
        then Inl (Simulation_Error ''new simulation must start at tick zero'') else Inr g))) = Inr g"
    "a' = \<lparr>ad_header = h, ad_simulation = Some g\<rparr>"
    using assms by (auto simp: adapter_initialize_def split: sum.splits)
  then show ?thesis
    using Inr by (auto simp: and_then_Inr codec_result_def map_err_Inr adapter_current_tick_def split: if_splits)
qed


theorem initialization_is_atomic_witness:
  "\<exists>a. ad_simulation a \<noteq> None \<and> fst (sim_initialize (adapter_sim wallet_game infallible) small_header a) = a \<and>
    snd (sim_initialize (adapter_sim wallet_game infallible) small_header a) = Inl (Compatibility ''different game'')"
proof -
  define a :: "wallet_simulation adapter" where
    "a = \<lparr>ad_header = small_header, ad_simulation = Some \<lparr>ws_state = wallet_state_default, published = None\<rparr>\<rparr>"
  have other: "game_id small_header \<noteq> ID wallet_game"
    by (rule notI, drule arg_cong [of _ _ hd]) (simp add: small_header_def replay_header_new_def wallet_game_def hd_replicate)
  have r: "snd (sim_initialize (adapter_sim wallet_game infallible) small_header a) =
      Inl (Compatibility ''different game'')"
    using other by (simp add: adapter_initialize_def validate_header_def)
  obtain a' where "sim_initialize (adapter_sim wallet_game infallible) small_header a =
      (a', Inl (Compatibility ''different game''))"
    using r by (metis prod.collapse)
  from this initialization_is_atomic [OF this] r show ?thesis
    by (intro exI [of _ a]) (simp add: a_def)
qed

section \<open>A concrete wallet session\<close>

definition wallet_setup :: wallet_initialization where
  "wallet_setup = \<lparr>init_seed = 42, init_balances = [100, 200]\<rparr>"

definition wallet_header :: replay_header where
  "wallet_header = replay_header_new (ID wallet_game) 2 33333333 (canon wallet_initialization_shape wallet_setup)"

definition wallet_record :: tick_advance where
  "wallet_record = \<lparr>tick = 1, inputs = [\<lparr>participant = Host, payload = canon transfer_shape demo_transfer\<rparr>]\<rparr>"

lemma wallet_setup_encodes:
  "sendable wallet_initialization_shape wallet_setup"
  "encode wallet_initialization_wire infallible wallet_setup = Inr (canon wallet_initialization_shape wallet_setup)"
proof -
  show s: "sendable wallet_initialization_shape wallet_setup"
    by (simp add: wallet_setup_def wallet_initialization_shape_def construct_shape_def initialization_fields_shape_def
        and_field_shape_def no_fields_shape_def vec_shape_def scalar_shape_def)
  have "within_budget wallet_initialization_shape wallet_setup"
    by (simp add: wallet_setup_def within_budget_def wallet_initialization_shape_def construct_shape_def
        initialization_fields_shape_def and_field_shape_def no_fields_shape_def vec_shape_def
        scalar_shape_def max_payload_bytes_def max_allocation_bytes_def max_depth_def scalar_wire_def)
  then show "encode wallet_initialization_wire infallible wallet_setup =
      Inr (canon wallet_initialization_shape wallet_setup)"
    by (simp add: wallet_init.encode_Inr [OF s])
qed

lemma wallet_setup_codec:
  "decode wallet_initialization_wire infallible (canon wallet_initialization_shape wallet_setup) = Inr wallet_setup"
  "validate wallet_initialization_wire infallible (canon wallet_initialization_shape wallet_setup) = Inr ()"
  using wallet_init.roundtrip [OF wallet_setup_encodes] encode_validates [OF wallet_setup_encodes(2)] by simp_all

definition wallet_started :: wallet_simulation where
  "wallet_started =
     \<lparr>ws_state = wallet_state_default\<lparr>seed := 42, balances := [100, 200]\<rparr>, published = None\<rparr>"

lemma wallet_starts:
  "adapter_initialize wallet_game infallible wallet_header (adapter_new wallet_header) =
     (\<lparr>ad_header = wallet_header, ad_simulation = Some wallet_started\<rparr>, Inr ())"
proof -
  have v: "validate_header wallet_game infallible wallet_header = Inr ()"
    using wallet_setup_codec(2)
    by (simp add: validate_header_def wallet_header_def replay_header_new_def wallet_game_def codec_result_def
        validate_tick_duration_def)
  have "initialization wallet_header = canon wallet_initialization_shape wallet_setup"
    by (simp add: wallet_header_def replay_header_new_def)
  moreover have "wallet_create wallet_setup n = Inr wallet_started" for n
    by (simp add: wallet_create_def wallet_setup_def wallet_started_def)
  moreover have "wtick (ws_state wallet_started) = 0" by (simp add: wallet_started_def wallet_state_default_def)
  ultimately show ?thesis
    using v wallet_setup_codec(1)
    by (simp add: adapter_initialize_def adapter_new_def codec_result_def wallet_game_def)
qed

definition wallet_paid :: wallet_simulation where
  "wallet_paid =
     wallet_started\<lparr>ws_state := \<lparr>wtick = 1, seed = 42, balances = [50, 250], rejected = 0\<rparr>\<rparr>"

lemma wallet_pays:
  "advance_all (adapter_sim wallet_game infallible) Replay [wallet_record]
     \<lparr>ad_header = wallet_header, ad_simulation = Some wallet_started\<rparr> =
   (\<lparr>ad_header = wallet_header, ad_simulation = Some wallet_paid\<rparr>, Inr ())"
proof -
  have "decode transfer_wire infallible (canon transfer_shape demo_transfer) = Inr demo_transfer"
    by (rule transfer.roundtrip [OF demo_transfer_sendable demo_transfer_bytes])
  then have d: "decode_inputs transfer_wire infallible (inputs wallet_record) =
      Inr [\<lparr>input_participant = Host, input_command = demo_transfer\<rparr>]"
    by (simp add: wallet_record_def codec_result_def)
  have "wallet_advance \<lparr>number = 1, tick_inputs = [\<lparr>input_participant = Host, input_command = demo_transfer\<rparr>]\<rparr>
      wallet_started = (wallet_paid, Inr ())"
    by (simp add: wallet_paid_def wallet_started_def wallet_state_default_def demo_transfer_def wallet_advance_def
        wallet_input_def transfer_to_def transfer_checked_def get_balance_def checked_add_def checked_sub_def)
  then have "sim_advance (adapter_sim wallet_game infallible) wallet_record
      \<lparr>ad_header = wallet_header, ad_simulation = Some wallet_started\<rparr> =
    (\<lparr>ad_header = wallet_header, ad_simulation = Some wallet_paid\<rparr>, Inr ())"
    using d by (simp add: adapter_advance_def wallet_game_def) (simp add: wallet_record_def infallible_def)
  moreover have "wtick (ws_state wallet_started) = 0" "wtick (ws_state wallet_paid) = 1" "tick wallet_record = 1"
    by (simp_all add: wallet_started_def wallet_state_default_def wallet_paid_def wallet_record_def)
  ultimately have "advance_tick (adapter_sim wallet_game infallible) wallet_record Replay
      \<lparr>ad_header = wallet_header, ad_simulation = Some wallet_started\<rparr> =
    (\<lparr>ad_header = wallet_header, ad_simulation = Some wallet_paid\<rparr>, Inr ())"
    unfolding advance_tick_Inr
    by (simp add: adapter_current_tick_def adapter_finish_tick_def) (simp add: wallet_game_def no_finish_tick_def)
  then show ?thesis by simp
qed

lemma demo_transfer_canon:
  "canon transfer_shape demo_transfer = [1, 0, 0, 0, 0, 0, 0, 0, 1, 0, 0, 0, 50, 0, 0, 0, 0, 0, 0, 0]"
proof -
  have "to_le_bytes (1 :: u64) = [1, 0, 0, 0, 0, 0, 0, 0]" "to_le_bytes (50 :: u64) = [50, 0, 0, 0, 0, 0, 0, 0]"
    "to_le_bytes (1 :: u32) = [1, 0, 0, 0]"
    by code_simp+
  then show ?thesis
    by (simp add: demo_transfer_def transfer_shape_def construct_shape_def initialization_fields_shape_def
        and_field_shape_def no_fields_shape_def vec_shape_def scalar_shape_def)
qed

lemma wallet_recordable: "recordable standard_bincode wallet_record"
proof -
  have "length (enc_tick standard_bincode \<lparr>tick = 1, inputs = [\<lparr>participant = Host,
      payload = [1, 0, 0, 0, 0, 0, 0, 0, 1, 0, 0, 0, 50, 0, 0, 0, 0, 0, 0, 0]\<rparr>]\<rparr>) = 24"
    by code_simp
  then have "length (enc_tick standard_bincode wallet_record) = 24"
    by (simp add: wallet_record_def demo_transfer_canon)
  moreover have "length (canon transfer_shape demo_transfer) \<le> max_payload_bytes"
    using demo_transfer_sendable demo_transfer_bytes by (auto dest!: encode_validates validate_bounded)
  ultimately show ?thesis
    by (simp add: recordable_def carries_def wallet_record_def max_replay_record_bytes_def)
qed

end
