(* ===== verification/Example_Session.thy ===== *)
theory Example_Session
  imports Run_Client Test_Simulation
begin

text \<open>
  Concrete sessions: one tick of an authority with a remote and a local command, a whole
  run of a dedicated recording, a client that joins, and the replica that follows.  They
  run the counting simulation of \<^verbatim>\<open>test_simulation.rs\<close> with the payload limit of a game.
\<close>

section \<open>One tick\<close>

definition limit_command :: "'s \<Rightarrow> byte list \<Rightarrow> unit session_result" where
  "limit_command s bytes =
     (if length bytes \<le> max_payload_bytes then Inr () else Inl (Protocol ''payload too large''))"

definition limited_sim :: "test_simulation session_sim" where
  "limited_sim = test_sim\<lparr>sim_validate_command := limit_command\<rparr>"

interpretation limited: fingerprinted_sim limited_sim "\<lambda>s. (ts_tick s, ts_commands s)"
  by unfold_locales
    (auto simp: limited_sim_def test_sim_def ts_advance_def ts_publish_def default_finish_tick_def)

lemma limited_bounds: "bounded_commands limited_sim"
  by (simp add: bounded_commands_def limited_sim_def limit_command_def)

lemma limited_publishes: "publishes limited_sim"
  by (simp add: publishes_def limited_sim_def test_sim_def ts_publish_def)

definition demo_writer :: replay_writer where
  "demo_writer = \<lparr>written = enc_header standard_bincode replay_header_current, flushed = 0, write_fault = (\<lambda>_ _. None), flush_fault = (\<lambda>_. None)\<rparr>"

definition demo_start :: "test_simulation authority" where
  "demo_start = \<lparr>au_sim = \<lparr>ts_tick = 29, ts_commands = 4, ts_starts = 1, ts_live_ticks = 29\<rparr>, au_writer = Some demo_writer, au_verified = [(5, 0)], au_hashes = []\<rparr>"

definition demo_env :: tick_env where
  "demo_env =
     \<lparr>te_transport = None, te_events = [],
      te_clients = [\<lparr>cr_id = 5, cr_lockstep = [enc_client standard_bincode (Input [7])], cr_desync = []\<rparr>],
      te_local = Some [Received [9]]\<rparr>"

definition demo_tick :: tick_advance where
  "demo_tick = \<lparr>tick = 30, inputs = [\<lparr>participant = Remote 5, payload = [7]\<rparr>, \<lparr>participant = Host, payload = [9]\<rparr>]\<rparr>"

definition demo_end :: "test_simulation authority" where
  "demo_end =
     demo_start\<lparr>au_sim := \<lparr>ts_tick = 30, ts_commands = 6, ts_starts = 1, ts_live_ticks = 30\<rparr>,
       au_writer := Some (demo_writer\<lparr>written := written demo_writer @ record_bytes standard_bincode demo_tick,
         flushed := length (written demo_writer @ record_bytes standard_bincode demo_tick)\<rparr>),
       au_hashes := [(30, 936)]\<rparr>"

lemma small_payload [simp]: "Suc 0 \<le> max_payload_bytes" by (simp add: max_payload_bytes_def)

lemma demo_sizes:
  "length (enc_tick standard_bincode demo_tick) \<le> max_replay_record_bytes"
  "length (enc_server standard_bincode (Tick demo_tick)) \<le> max_replay_record_bytes"
proof -
  have "length (enc_tick standard_bincode demo_tick) = 9" by code_simp
  then show "length (enc_tick standard_bincode demo_tick) \<le> max_replay_record_bytes"
    by (simp add: max_replay_record_bytes_def)
  have "length (enc_server standard_bincode (Tick demo_tick)) = 10" by code_simp
  then show "length (enc_server standard_bincode (Tick demo_tick)) \<le> max_replay_record_bytes"
    by (simp add: max_replay_record_bytes_def)
qed

lemma demo_interval [simp]: "hash_interval (tick_nanos replay_header_current) = 30"
  by code_simp

lemma demo_budget: "account_input 0 (Suc 0) = Inr 33" "account_input 33 (Suc 0) = Inr 66"
  by (simp_all add: account_input_Inr max_replay_record_bytes_def)

lemma demo_drain: "drain_local (Some [Received bs]) True = Inr [bs]"
  using drain_loop.simps(1) [of 255 bs "[]" True] by (simp add: drain_local_def drain_loop.simps(3))

lemma demo_gather:
  "gather_inputs standard_bincode infallible limited_sim FailFast demo_env demo_start =
    Inr ([(5, 0)], inputs demo_tick, [])"
  by (simp add: gather_inputs_def update_network_def demo_env_def demo_start_def process_client_def
     std.decode_encode_client limited_sim_def test_sim_def limit_command_def demo_budget demo_drain demo_tick_def
     enforce_verification_deadline_def saturating_sub_def test_simulation_default_def)

lemma demo_advance:
  "advance_tick limited_sim demo_tick Live (au_sim demo_start) = (au_sim demo_end, Inr ())"
  by (simp add: advance_tick_def validate_tick_def checked_add_def advance_checked_def demo_tick_def
      limited_sim_def test_sim_def ts_advance_def ts_publish_def default_finish_tick_def demo_start_def demo_end_def)

lemma demo_append:
  "append_writer standard_bincode demo_tick (au_writer demo_start) =
     (Some (demo_writer\<lparr>written := written demo_writer @ record_bytes standard_bincode demo_tick\<rparr>), Inr ())"
proof -
  have "reliable demo_writer" by (simp add: reliable_def demo_writer_def)
  moreover have "recordable standard_bincode demo_tick"
    using demo_sizes(1) by (simp add: recordable_def carries_def demo_tick_def)
  ultimately show ?thesis
    by (simp add: append_writer_def append_record_reliable demo_start_def)
qed

lemma demo_fingerprint:
  "fingerprint_tick limited_sim (tick demo_tick) (demo_start\<lparr>au_sim := au_sim demo_end,
     au_writer := Some (demo_writer\<lparr>written := written demo_writer @ record_bytes standard_bincode demo_tick\<rparr>)\<rparr>) =
   (demo_end, Inr ())"
  by (simp add: fingerprint_tick_def limited_sim_def test_sim_def demo_start_def demo_end_def keep_hash_def
      saturating_sub_def flush_writer_def flush_def demo_writer_def demo_tick_def)

lemma demo_commit:
  "commit_tick standard_bincode limited_sim demo_tick demo_start =
    (demo_end, [Broadcast channel_lockstep (enc_server standard_bincode (Tick demo_tick)), Send_Packets], Inr ())"
  using demo_sizes(2) by (simp add: commit_tick_def demo_append demo_advance demo_fingerprint Let_def)

lemma demo_round:
  "tick_round standard_bincode infallible limited_sim FailFast demo_env demo_start =
    (demo_end, [Broadcast channel_lockstep (enc_server standard_bincode (Tick demo_tick)), Send_Packets], Inr ())"
proof -
  have v: "demo_start\<lparr>au_verified := [(5, 0)]\<rparr> = demo_start" by (simp add: demo_start_def)
  have t: "checked_add (sim_current_tick limited_sim (au_sim demo_start)) 1 = Some (30 :: u64)"
    by (simp add: checked_add_def demo_start_def limited_sim_def test_sim_def)
  have d: "\<lparr>tick = 30, inputs = inputs demo_tick\<rparr> = demo_tick" by (simp add: demo_tick_def)
  show ?thesis by (simp add: tick_round_def demo_gather v t d demo_commit Let_def)
qed

section \<open>A whole session\<close>

text \<open>A dedicated recording of one tick with one host command, then a cancellation.\<close>

definition demo_blank :: replay_writer where
  "demo_blank = \<lparr>written = [], flushed = 0, write_fault = (\<lambda>_ _. None), flush_fault = (\<lambda>_. None)\<rparr>"

definition demo_cfg :: server_cfg where
  "demo_cfg =
     \<lparr>cfg_tick_duration = 33333333, cfg_expected = 0, cfg_load_path = None,
      cfg_record_path = Some ''log'', cfg_desync_policy = FailFast\<rparr>"

definition demo_wait :: wait_env where
  "demo_wait =
     \<lparr>we_transport = None, we_events = [], we_connect_now = 0, we_local = None,
      we_peer = (\<lambda>_. \<lparr>pr_link = \<lparr>available_memory = (\<lambda>_. 0), can_send = (\<lambda>_ _. False)\<rparr>,
        pr_messages = [], pr_desync = False, pr_now = 0\<rparr>),
      we_connected = (\<lambda>_. True)\<rparr>"

definition host_env :: tick_env where
  "host_env =
     \<lparr>te_transport = None, te_events = [], te_clients = [], te_local = Some [Received [9]]\<rparr>"

definition demo_session :: session_env where
  "demo_session =
     \<lparr>se_load = [], se_stop_loaded = False, se_read = (\<lambda>_. Inr []), se_bind = Inr (),
      se_wait = [(False, demo_wait)], se_stop_ready = False,
      se_ticks = [(False, host_env), (True, host_env)]\<rparr>"

definition host_tick :: tick_advance where
  "host_tick = \<lparr>tick = 1, inputs = [\<lparr>participant = Host, payload = [9]\<rparr>]\<rparr>"

definition host_start :: "test_simulation authority" where
  "host_start =
     \<lparr>au_sim = \<lparr>ts_tick = 0, ts_commands = 0, ts_starts = 1, ts_live_ticks = 0\<rparr>,
      au_writer = Some (demo_blank\<lparr>written := enc_header standard_bincode replay_header_current,
        flushed := length (enc_header standard_bincode replay_header_current)\<rparr>),
      au_verified = [], au_hashes = []\<rparr>"

definition host_end :: "test_simulation authority" where
  "host_end =
     host_start\<lparr>au_sim := \<lparr>ts_tick = 1, ts_commands = 1, ts_starts = 1, ts_live_ticks = 1\<rparr>,
       au_writer := map_option (\<lambda>w. w\<lparr>written := written w @ record_bytes standard_bincode host_tick\<rparr>)
         (au_writer host_start)\<rparr>"

lemma host_sizes:
  "length (enc_tick standard_bincode host_tick) \<le> max_replay_record_bytes"
  "length (enc_server standard_bincode (Tick host_tick)) \<le> max_replay_record_bytes"
proof -
  have "length (enc_tick standard_bincode host_tick) = 5" by code_simp
  then show "length (enc_tick standard_bincode host_tick) \<le> max_replay_record_bytes"
    by (simp add: max_replay_record_bytes_def)
  have "length (enc_server standard_bincode (Tick host_tick)) = 6" by code_simp
  then show "length (enc_server standard_bincode (Tick host_tick)) \<le> max_replay_record_bytes"
    by (simp add: max_replay_record_bytes_def)
qed

lemma host_commit:
  "commit_tick standard_bincode limited_sim host_tick host_start =
    (host_end, [Broadcast channel_lockstep (enc_server standard_bincode (Tick host_tick)), Send_Packets], Inr ())"
proof -
  have adv: "advance_tick limited_sim host_tick Live (au_sim host_start) = (au_sim host_end, Inr ())"
    by (simp add: advance_tick_def validate_tick_def checked_add_def advance_checked_def host_tick_def
        limited_sim_def test_sim_def ts_advance_def ts_publish_def default_finish_tick_def host_start_def host_end_def)
  have "recordable standard_bincode host_tick"
    using host_sizes(1) by (simp add: recordable_def carries_def host_tick_def)
  then have app: "append_writer standard_bincode host_tick (au_writer host_start) = (au_writer host_end, Inr ())"
    by (simp add: append_writer_def append_record_reliable host_start_def host_end_def reliable_def demo_blank_def)
  have fin: "fingerprint_tick limited_sim (tick host_tick) host_end = (host_end, Inr ())"
    by (simp add: fingerprint_tick_def limited_sim_def test_sim_def host_tick_def)
  have e: "host_start\<lparr>au_sim := au_sim host_end, au_writer := au_writer host_end\<rparr> = host_end"
    by (simp add: host_end_def)
  show ?thesis using host_sizes(2) by (simp add: commit_tick_def app adv fin e Let_def)
qed

lemma host_loop:
  "tick_loop standard_bincode infallible limited_sim FailFast (se_ticks demo_session) host_start =
    Some (host_end, [Broadcast channel_lockstep (enc_server standard_bincode (Tick host_tick)), Send_Packets], Inr ())"
proof -
  have g: "gather_inputs standard_bincode infallible limited_sim FailFast host_env host_start =
      Inr ([], inputs host_tick, [])"
    by (simp add: gather_inputs_def update_network_def host_env_def host_start_def limited_sim_def test_sim_def
        limit_command_def demo_budget demo_drain host_tick_def)
  have v: "host_start\<lparr>au_verified := []\<rparr> = host_start" by (simp add: host_start_def)
  have t: "checked_add (sim_current_tick limited_sim (au_sim host_start)) 1 = Some (1 :: u64)"
    by (simp add: checked_add_def host_start_def limited_sim_def test_sim_def)
  have d: "\<lparr>tick = 1, inputs = inputs host_tick\<rparr> = host_tick" by (simp add: host_tick_def)
  show ?thesis by (simp add: demo_session_def tick_round_def g v t d host_commit Let_def)
qed

lemma demo_server:
  "\<exists>st acts. run_server standard_bincode infallible (\<lambda>_. None) src demo_blank limited_sim demo_cfg demo_session
     test_simulation_default session_control_default = Some (st, acts, Inr ()) \<and>
     ss_sim st = au_sim host_end"
proof -
  have cr: "create standard_bincode (\<lambda>_. None) demo_blank ''log'' replay_header_current =
      Inr (demo_blank\<lparr>written := enc_header standard_bincode replay_header_current\<rparr>)"
    by (simp add: create_def write_all_def demo_blank_def)
  have w: "wait_for_clients standard_bincode infallible 0 save meta (se_wait demo_session)
      \<lparr>w_peers = [], w_published = None, w_control = ctl\<rparr> =
      Some (\<lparr>w_peers = [], w_published = Some 0, w_control = publish_status (Waiting 0 0) ctl\<rparr>,
        [Broadcast channel_lockstep (enc_server standard_bincode (Start (meta_tick meta) (meta_hash meta))),
         Send_Packets], Inr [])" for save meta ctl
    by (simp add: demo_session_def wait_round_def update_network_def demo_wait_def drain_local_def
        ready_count_def)
  let ?w = "demo_blank\<lparr>written := enc_header standard_bincode replay_header_current\<rparr>"
  let ?w' = "?w\<lparr>flushed := length (enc_header standard_bincode replay_header_current)\<rparr>"
  let ?cfg = "demo_cfg\<lparr>cfg_tick_duration := unat (tick_nanos replay_header_current)\<rparr>"
  let ?st = "\<lparr>ss_sim = test_simulation_default, ss_writer = Some ?w, ss_control = session_control_default\<rparr>"
  have fl: "flush_writer (Some ?w) = (Some ?w', Inr ())"
    by (simp add: flush_writer_def flush_def demo_blank_def)
  have st: "host_start = \<lparr>au_sim = \<lparr>ts_tick = 0, ts_commands = 0, ts_starts = 1, ts_live_ticks = 0\<rparr>,
      au_writer = Some ?w', au_verified = [], au_hashes = []\<rparr>"
    by (simp add: host_start_def)
  have pub: "sim_publish limited_sim test_simulation_default =
      (\<lparr>ts_tick = 0, ts_commands = 0, ts_starts = 1, ts_live_ticks = 0\<rparr>, Inr ())"
    by (simp add: limited_sim_def test_sim_def ts_publish_def test_simulation_default_def)
  have srv: "\<exists>st acts. serve standard_bincode infallible limited_sim ?cfg demo_session save meta
      (?st\<lparr>ss_writer := Some ?w'\<rparr>) = Some (st, acts, Inr ()) \<and> ss_sim st = au_sim host_end \<and>
      ss_writer st = au_writer host_end" for save meta
    using host_loop w [of save meta session_control_default] pub
    by (simp add: serve_def Let_def demo_cfg_def st) (simp add: demo_session_def)
  have env: "\<not> se_stop_loaded demo_session" "se_read demo_session path = Inr []" "se_bind demo_session = Inr ()"
    for path by (simp_all add: demo_session_def)
  have h: "sim_state_hash limited_sim test_simulation_default = Inr 0"
    by (simp add: limited_sim_def test_sim_def test_simulation_default_def)
  have meta: "\<exists>meta. session_metadata limited_sim [] test_simulation_default = Inr meta"
    by (simp add: session_metadata_def h)
  have path: "cfg_record_path ?cfg = Some ''log''" by (simp add: demo_cfg_def)
  have sess: "\<exists>st acts. run_session standard_bincode infallible limited_sim ?cfg demo_session None ?st =
      Some (st, acts, Inr ()) \<and> ss_sim st = au_sim host_end \<and> ss_writer st = au_writer host_end"
    using srv meta env path by (auto simp: run_session_def after_load_def fl save_bytes_def Let_def)
  have fin: "flush_writer (au_writer host_end) = (map_option (\<lambda>w. w\<lparr>flushed := length (written w)\<rparr>) (au_writer host_end), Inr ())"
    by (simp add: flush_writer_def flush_def host_end_def host_start_def demo_blank_def)
  have hdr: "sim_header limited_sim test_simulation_default = replay_header_current"
    and ini: "sim_initialize limited_sim replay_header_current test_simulation_default = (test_simulation_default, Inr ())"
    by (simp_all add: limited_sim_def test_sim_def default_initialize_def)
  have cfg: "validate_tick_duration (cfg_tick_duration demo_cfg) = Inr ()" "\<not> cfg_expected demo_cfg > 1024"
    "cfg_load_path demo_cfg = None"
    by (simp_all add: demo_cfg_def validate_tick_duration_def)
  obtain st acts where s: "run_session standard_bincode infallible limited_sim ?cfg demo_session None ?st =
      Some (st, acts, Inr ())" "ss_sim st = au_sim host_end" "ss_writer st = au_writer host_end"
    using sess by blast
  show ?thesis
    using s(1) path by (simp add: run_server_def Let_def cfg hdr ini cr final_flush_def s(2,3) fin)
qed

section \<open>Witnesses of the authority's properties\<close>

theorem tick_inputs_legitimate_witness:
  "\<exists>adv. enc_server standard_bincode (Tick demo_tick) = enc_server standard_bincode (Tick adv) \<and>
    au_sim demo_end = fst (advance_tick limited_sim adv Live (au_sim demo_start)) \<and>
    (\<forall>c \<in> set (inputs adv). legitimate standard_bincode infallible limited_sim demo_env demo_start c) \<and>
    unat (tick adv) = 30"
  using tick_inputs_legitimate [OF demo_round] by (auto simp: demo_start_def limited_sim_def test_sim_def)

lemma demo_record: "tick_record standard_bincode infallible limited_sim FailFast demo_env demo_start = Some demo_tick"
proof -
  have "checked_add (sim_current_tick limited_sim (au_sim demo_start)) 1 = Some (30 :: u64)"
    by (simp add: checked_add_def demo_start_def limited_sim_def test_sim_def)
  moreover have "\<lparr>tick = 30, inputs = inputs demo_tick\<rparr> = demo_tick" by (simp add: demo_tick_def)
  ultimately show ?thesis by (simp add: tick_record_def demo_gather)
qed

theorem broadcasts_are_executed_witness:
  "\<exists>advs. [enc_server standard_bincode (Tick host_tick)] = map (\<lambda>adv. enc_server standard_bincode (Tick adv)) advs \<and>
    advance_all limited_sim Live advs (au_sim host_start) = (au_sim host_end, Inr ())"
  using broadcasts_are_executed [OF host_loop] by simp

text \<open>One client connects, receives the small save and reports ready within one round.\<close>

definition join_env :: wait_env where
  "join_env =
     \<lparr>we_transport = None, we_events = [Client_Connected 5], we_connect_now = 0, we_local = None,
      we_peer = (\<lambda>_. \<lparr>pr_link = open_link, pr_messages = [enc_client standard_bincode (Ready 1 1)],
        pr_desync = False, pr_now = 0\<rparr>),
      we_connected = (\<lambda>_. True)\<rparr>"

lemma join_round:
  "\<exists>w acts. wait_for_clients standard_bincode infallible 1 small_save small_meta [(False, join_env)]
      \<lparr>w_peers = [], w_published = None, w_control = ctl\<rparr> = Some (w, acts, Inr [(5, 1)])"
proof -
  have dec: "decode_client_message standard_bincode infallible (enc_client standard_bincode (Ready 1 1)) =
      Inr (Ready 1 1)"
    by (rule std.decode_encode_client) simp
  define ready where "ready = small_peer\<lparr>transfer := Ready_Phase, last_progress := 0\<rparr>"
  have rec: "receive_startup (Ready 1 1) small_meta 0 small_peer = (ready, Inr ())"
    by (simp add: ready_def receive_startup_def small_peer_def small_meta_def)
  have r: "is_ready ready" by (simp add: ready_def is_ready_def)
  have "startup_peer_round standard_bincode infallible small_save small_meta (we_peer join_env 5) 5
      (startup_peer_new 0) =
    (ready, map (\<lambda>m. Send 5 channel_save (enc_save standard_bincode m)) [Begin small_meta, Chunk small_save])"
    using r by (simp add: startup_peer_round_def join_env_def small_pump dec rec timed_out_def)
  moreover have "meta_tick small_meta = 1" by (simp add: small_meta_def)
  moreover have "we_transport join_env = None" "we_events join_env = [Client_Connected 5]" "we_connect_now join_env = 0"
    "we_local join_env = None" "we_connected join_env 5" by (simp_all add: join_env_def)
  ultimately show ?thesis
    using r by (simp add: wait_round_def update_network_def drain_local_def startup_event_def
        ready_count_def)
qed

theorem barrier_opens_for_ready_clients_witness:
  "\<exists>w acts earlier chunks. wait_for_clients standard_bincode infallible 1 small_save small_meta [(False, join_env)]
      \<lparr>w_peers = [], w_published = None, w_control = session_control_default\<rparr> = Some (w, acts, Inr [(5, 1)]) \<and>
    saves_to 5 acts = earlier @ map (enc_save standard_bincode) (Begin small_meta # map Chunk chunks) \<and>
    concat chunks = small_save"
proof -
  obtain w acts where w: "wait_for_clients standard_bincode infallible 1 small_save small_meta [(False, join_env)]
      \<lparr>w_peers = [], w_published = None, w_control = session_control_default\<rparr> = Some (w, acts, Inr [(5, 1)])"
    using join_round by blast
  from barrier_opens_for_ready_clients [OF this _ small_begin_fits] obtain earlier chunks where
    "saves_to 5 acts = earlier @ map (enc_save standard_bincode) (Begin small_meta # map Chunk chunks)"
    "concat chunks = small_save" by fastforce
  with w show ?thesis by blast
qed

lemma demo_run:
  "authority_run standard_bincode infallible limited_sim FailFast demo_start demo_end [demo_tick]
     [(30, Inr 936)] [enc_server standard_bincode (Tick demo_tick)]"
proof -
  have "sim_state_hash limited_sim (au_sim demo_end) = Inr 936" "tick demo_tick = 30"
    by (simp_all add: limited_sim_def test_sim_def demo_end_def demo_start_def demo_tick_def)
  then show ?thesis
    using authority_run.ticked [OF authority_run.started demo_round demo_record] by simp
qed

lemma demo_ticks:
  "sim_hash_interval limited_sim s = 30" "sim_current_tick limited_sim (au_sim demo_end) = 30"
  "au_hashes demo_end = [(30, 936)]" "au_hashes demo_start = []"
  by (simp_all add: limited_sim_def test_sim_def demo_end_def demo_start_def)

lemma demo_report:
  "handle_hash_report standard_bincode infallible 5 (enc_desync standard_bincode \<lparr>report_tick = 30, report_hash = 936\<rparr>)
     30 0 [(30, 936)] FailFast 30 = Inr (30, [])"
  by (simp add: handle_hash_report_def std.decode_encode_desync verify_hash_def)

theorem accepted_report_is_true_witness:
  "(30, Inr 936) \<in> set (history limited_sim [demo_tick] (au_sim demo_start))"
proof -
  have "handle_hash_report standard_bincode infallible 5 (enc_desync standard_bincode \<lparr>report_tick = 30, report_hash = 936\<rparr>)
     (sim_current_tick limited_sim (au_sim demo_end)) 0 (au_hashes demo_end) FailFast
     (sim_hash_interval limited_sim (au_sim demo_start)) = Inr (30, [])"
    using demo_report by (simp add: demo_ticks)
  from accepted_report_is_true [OF limited.fingerprinted_sim_axioms demo_run _ _ this]
  show ?thesis by (auto simp: demo_ticks std.decode_encode_desync)
qed

theorem overdue_client_is_disconnected_witness:
  "\<exists>verified g acts. process_client standard_bincode infallible limited_sim
      \<lparr>ts_tick = 400, ts_commands = 0, ts_starts = 1, ts_live_ticks = 0\<rparr> FailFast []
      \<lparr>cr_id = 5, cr_lockstep = [], cr_desync = []\<rparr> ([(5, 0)], (0, [])) = Inr (verified, g, acts) \<and>
    Disconnect 5 \<in> set acts"
proof -
  let ?s = "\<lparr>ts_tick = 400, ts_commands = 0, ts_starts = 1, ts_live_ticks = 0\<rparr>"
  have run: "process_client standard_bincode infallible limited_sim ?s FailFast [] \<lparr>cr_id = 5, cr_lockstep = [], cr_desync = []\<rparr>
      ([(5, 0)], (0, [])) = Inr ([(5, 0)], (0, []), [Disconnect 5])"
    by (simp add: process_client_def enforce_verification_deadline_def saturating_sub_def limited_sim_def test_sim_def)
  have "Disconnect 5 \<in> set [Disconnect 5]"
    using overdue_client_is_disconnected [OF run, of 0] by (simp add: limited_sim_def test_sim_def)
  then show ?thesis using run by blast
qed

end
