(* ===== verification/Garden.thy ===== *)
theory Garden
  imports Derive_Hash Api
begin

unbundle bit_operations_syntax

text \<open>
  \<^verbatim>\<open>examples/power-garden/src/model\<close>: the rules of the power garden.  \<open>tile.rs\<close> gives the
  tiles and their rotated ports, \<open>connectivity.rs\<close> the traversal that finds the powered
  cells, \<open>initialization.rs\<close> the recorded setup and its validation, \<open>board.rs\<close> the running
  board with its connectivity cache.

  An index out of range, a failed \<^verbatim>\<open>expect\<close> and an overflowing \<^verbatim>\<open>u8\<close> addition panic: the
  operations that contain one return an \<open>option\<close>, with \<open>None\<close> for the panic.
\<close>

section \<open>Tiles\<close>

definition NORTH :: u8 where "NORTH = 1"

definition EAST :: u8 where "EAST = 2"

definition SOUTH :: u8 where "SOUTH = 4"

definition WEST :: u8 where "WEST = 8"

datatype kind = Empty | Wire | Source | Beacon

record tile =
  kind :: kind
  ports :: u8
  rotation :: u8

definition connections :: "tile \<Rightarrow> u8" where
  "connections t =
     (let r = rotation t mod 4 in
      (push_bit (unat r) (ports t) OR drop_bit (unat (4 - r)) (ports t)) AND 15)"

text \<open>The derived codec and hash of \<open>Kind\<close> and \<open>Tile\<close>.\<close>

definition kind_index :: "kind \<Rightarrow> nat" where
  "kind_index k = (case k of Empty \<Rightarrow> 0 | Wire \<Rightarrow> 1 | Source \<Rightarrow> 2 | Beacon \<Rightarrow> 3)"

definition kind_arm :: "kind \<Rightarrow> kind wire" where
  "kind_arm k = construct_wire 1 (\<lambda>_. k) (\<lambda>_. ()) no_fields"

definition kind_wire :: "kind wire" where
  "kind_wire =
     enum_wire 1 kind_index [(0, kind_arm Empty), (1, kind_arm Wire), (2, kind_arm Source), (3, kind_arm Beacon)]"

definition kind_hash :: "kind hash" where
  "kind_hash = enum_hash kind_index [(0, []), (1, []), (2, []), (3, [])]"

definition tile_wire :: "tile wire" where
  "tile_wire =
     construct_wire 3 (\<lambda>(k, p, r, _). \<lparr>kind = k, ports = p, rotation = r\<rparr>)
       (\<lambda>t. (kind t, ports t, rotation t, ()))
       (and_field kind_wire (and_field u8_wire (and_field u8_wire no_fields)))"

definition tile_hash :: "tile hash" where
  "tile_hash = struct_hash
     [(plain_field, \<lambda>t. field kind_hash (kind t)),
      (plain_field, \<lambda>t. field hash_int (ports t)),
      (plain_field, \<lambda>t. field hash_int (rotation t))]"

section \<open>Connectivity\<close>

definition at_index :: "'a list \<Rightarrow> nat \<Rightarrow> 'a option" where
  "at_index xs i = (if i < length xs then Some (xs ! i) else None)"

definition put_index :: "'a list \<Rightarrow> nat \<Rightarrow> 'a \<Rightarrow> 'a list option" where
  "put_index xs i v = (if i < length xs then Some (xs[i := v]) else None)"

record bfs =
  lit :: "bool list"
  cells :: "nat list"
  head :: nat
  fill :: nat

definition neighbors :: "nat \<Rightarrow> (u8 \<times> u8 \<times> nat option) list" where
  "neighbors i =
     [(NORTH, SOUTH, if 5 \<le> i then Some (i - 5) else None),
      (EAST, WEST, if i mod 5 < 4 then Some (i + 1) else None),
      (SOUTH, NORTH, if i < 20 then Some (i + 5) else None),
      (WEST, EAST, if i mod 5 > 0 then Some (i - 1) else None)]"

text \<open>One entry of the loop over the neighbours, its conditions in the order of the code.\<close>

definition visit ::
  "(tile \<Rightarrow> u8) \<Rightarrow> tile list \<Rightarrow> u8 \<Rightarrow> u8 \<times> u8 \<times> nat option \<Rightarrow> bfs \<Rightarrow> bfs option" where
  "visit pf ts out n b =
     (case n of
        (outgoing, incoming, None) \<Rightarrow> Some b
      | (outgoing, incoming, Some j) \<Rightarrow>
          if out AND outgoing = 0 then Some b
          else Option.bind (at_index ts j) (\<lambda>t.
            if pf t AND incoming = 0 then Some b
            else Option.bind (at_index (lit b) j) (\<lambda>on.
              if on then Some b
              else Option.bind (put_index (lit b) j True) (\<lambda>ls.
                Option.bind (put_index (cells b) (fill b) j) (\<lambda>cs.
                Some (b\<lparr>lit := ls, cells := cs, fill := Suc (fill b)\<rparr>))))))"

fun visit_all ::
  "(tile \<Rightarrow> u8) \<Rightarrow> tile list \<Rightarrow> u8 \<Rightarrow> (u8 \<times> u8 \<times> nat option) list \<Rightarrow> bfs \<Rightarrow> bfs option" where
  "visit_all pf ts out [] b = Some b"
| "visit_all pf ts out (n # ns) b = Option.bind (visit pf ts out n b) (visit_all pf ts out ns)"

lemma at_index_Some: "at_index xs i = Some x \<longleftrightarrow> i < length xs \<and> x = xs ! i"
  by (auto simp: at_index_def)

lemma put_index_Some: "put_index xs i v = Some ys \<longleftrightarrow> i < length xs \<and> ys = xs[i := v]"
  by (auto simp: put_index_def)

lemma visit_keeps:
  "visit pf ts out n b = Some b' \<Longrightarrow>
     head b' = head b \<and> length (cells b') = length (cells b) \<and> length (lit b') = length (lit b)"
  by (auto simp: visit_def put_index_Some bind_eq_Some_conv split: prod.splits option.splits if_splits)

lemma visit_all_keeps:
  "visit_all pf ts out ns b = Some b' \<Longrightarrow>
     head b' = head b \<and> length (cells b') = length (cells b) \<and> length (lit b') = length (lit b)"
  by (induction ns arbitrary: b) (fastforce simp: bind_eq_Some_conv dest: visit_keeps)+

text \<open>The \<^verbatim>\<open>while head < tail\<close> loop.\<close>

function traverse :: "(tile \<Rightarrow> u8) \<Rightarrow> tile list \<Rightarrow> bfs \<Rightarrow> bool list option" where
  "traverse pf ts b =
     (if head b < fill b then
        Option.bind (at_index (cells b) (head b)) (\<lambda>i.
        Option.bind (at_index ts i) (\<lambda>t.
        Option.bind (visit_all pf ts (pf t) (neighbors i) (b\<lparr>head := Suc (head b)\<rparr>))
          (traverse pf ts)))
      else Some (lit b))"
  by pat_completeness auto
termination
  by (relation "measure (\<lambda>(pf, ts, b). length (cells b) - head b)")
    (auto simp: at_index_Some dest: visit_all_keeps)

declare traverse.simps [simp del]

fun position :: "('a \<Rightarrow> bool) \<Rightarrow> 'a list \<Rightarrow> nat option" where
  "position p [] = None"
| "position p (x # xs) = (if p x then Some 0 else map_option Suc (position p xs))"

definition connectivity :: "(tile \<Rightarrow> u8) \<Rightarrow> tile list \<Rightarrow> bool list option" where
  "connectivity pf ts =
     Option.bind (position (\<lambda>t. kind t = Source) ts) (\<lambda>src.
     Option.bind (put_index (replicate 25 False) src True) (\<lambda>ls.
     traverse pf ts \<lparr>lit = ls, cells = replicate 25 src, head = 0, fill = 1\<rparr>))"

definition connected_beacons :: "tile list \<Rightarrow> bool list \<Rightarrow> nat" where
  "connected_beacons ts lights = length (filter (\<lambda>(t, on). kind t = Beacon \<and> on) (zip ts lights))"

section \<open>The recorded setup\<close>

record initialization =
  width :: u8
  height :: u8
  tiles :: "tile list"

definition empty_tile :: tile where
  "empty_tile = \<lparr>kind = Empty, ports = 0, rotation = 0\<rparr>"

definition default_row :: "nat \<Rightarrow> tile list \<Rightarrow> tile list" where
  "default_row row ts =
     (let ts = ts[row * 5 := \<lparr>kind = Beacon, ports = EAST, rotation = 0\<rparr>];
          ts = ts[row * 5 + 4 := \<lparr>kind = Beacon, ports = WEST, rotation = 0\<rparr>]
      in fold (\<lambda>column ts. ts[row * 5 + column :=
           \<lparr>kind = Wire,
            ports = EAST OR WEST OR (if column = 2 then if row = 0 then SOUTH else NORTH else 0),
            rotation = 1\<rparr>]) [1, 2, 3] ts)"

definition default_initialization :: initialization where
  "default_initialization =
     (let ts = replicate 25 empty_tile;
          ts = fold default_row [0, 4] ts;
          ts = fold (\<lambda>i ts. ts[i := \<lparr>kind = Wire, ports = NORTH OR SOUTH, rotation = 1\<rparr>]) [7, 17] ts;
          ts = ts[12 := \<lparr>kind = Source, ports = NORTH OR SOUTH, rotation = 0\<rparr>]
      in \<lparr>width = 5, height = 5, tiles = ts\<rparr>)"

datatype initialization_error = Dimensions | TileEncoding | TileRole | Endpoints | Unsolvable

definition count_ones :: "u8 \<Rightarrow> nat" where
  "count_ones w = length (filter (bit w) [0..<8])"

definition role_ok :: "tile \<Rightarrow> bool" where
  "role_ok t =
     (case kind t of
        Empty \<Rightarrow> count_ones (ports t) = 0
      | Wire \<Rightarrow> count_ones (ports t) = 2 \<or> count_ones (ports t) = 3
      | Source \<Rightarrow> count_ones (ports t) > 0
      | Beacon \<Rightarrow> count_ones (ports t) = 1)"

fun check_tiles :: "tile list \<Rightarrow> nat \<Rightarrow> nat \<Rightarrow> initialization_error + (nat \<times> nat)" where
  "check_tiles [] sources beacons = Inr (sources, beacons)"
| "check_tiles (t # ts) sources beacons =
     (if ports t > 15 \<or> rotation t > 3 then Inl TileEncoding
      else
        (let sources = (if kind t = Source then Suc sources else sources);
             beacons = (if kind t = Beacon then Suc beacons else beacons) in
         if \<not> role_ok t \<or> (kind t \<noteq> Wire \<and> rotation t \<noteq> 0) then Inl TileRole
         else check_tiles ts sources beacons))"

definition validate_initialization :: "initialization \<Rightarrow> (initialization_error + unit) option" where
  "validate_initialization i =
     (if width i \<noteq> 5 \<or> height i \<noteq> 5 \<or> length (tiles i) \<noteq> 25 then Some (Inl Dimensions)
      else case check_tiles (tiles i) 0 0 of
        Inl e \<Rightarrow> Some (Inl e)
      | Inr (sources, beacons) \<Rightarrow>
          if sources \<noteq> 1 \<or> beacons \<noteq> 4 then Some (Inl Endpoints)
          else Option.bind (connectivity ports (tiles i)) (\<lambda>solution.
            Some (if connected_beacons (tiles i) solution \<noteq> 4 then Inl Unsolvable else Inr ())))"

definition tile_list_wire :: "tile list wire" where
  "tile_list_wire = vec_wire tile_wire"

definition initialization_wire_pg :: "initialization wire" where
  "initialization_wire_pg =
     construct_wire 32 (\<lambda>(w, h, ts, _). \<lparr>width = w, height = h, tiles = ts\<rparr>)
       (\<lambda>i. (width i, height i, tiles i, ()))
       (and_field u8_wire (and_field u8_wire (and_field tile_list_wire no_fields)))"

section \<open>The board\<close>

record rotate =
  cell :: u32

definition rotate_wire :: "rotate wire" where
  "rotate_wire = construct_wire 4 (\<lambda>(c, _). \<lparr>cell = c\<rparr>) (\<lambda>r. (cell r, ())) (and_field u32_wire no_fields)"

record puzzle_state =
  pz_width :: u8
  pz_height :: u8
  pz_tiles :: "tile list"
  moves :: u64
  complete :: bool

record board =
  puzzle :: puzzle_state
  powered :: "bool list"

definition puzzle_hash :: "puzzle_state hash" where
  "puzzle_hash = struct_hash
     [(plain_field, \<lambda>s. field hash_int (pz_width s)),
      (plain_field, \<lambda>s. field hash_int (pz_height s)),
      (plain_field, \<lambda>s. field (hash_vec tile_hash) (pz_tiles s)),
      (plain_field, \<lambda>s. field hash_int (moves s)),
      (plain_field, \<lambda>s. field hash_bool (complete s))]"

definition puzzle_try_from :: "initialization \<Rightarrow> (initialization_error + puzzle_state) option" where
  "puzzle_try_from i =
     Option.bind (validate_initialization i) (\<lambda>res.
     case res of
       Inl e \<Rightarrow> Some (Inl e)
     | Inr _ \<Rightarrow>
         Option.bind (connectivity connections (tiles i)) (\<lambda>on.
         Some (Inr \<lparr>pz_width = width i, pz_height = height i, pz_tiles = tiles i, moves = 0,
                    complete = (connected_beacons (tiles i) on = 4)\<rparr>)))"

definition board_new :: "initialization \<Rightarrow> (initialization_error + board) option" where
  "board_new i =
     Option.bind (puzzle_try_from i) (\<lambda>res.
     case res of
       Inl e \<Rightarrow> Some (Inl e)
     | Inr s \<Rightarrow>
         Option.bind (connectivity connections (pz_tiles s)) (\<lambda>on.
         Some (Inr \<lparr>puzzle = s, powered = on\<rparr>)))"

definition board_connected_beacons :: "board \<Rightarrow> nat" where
  "board_connected_beacons b = connected_beacons (pz_tiles (puzzle b)) (powered b)"

definition recompute :: "board \<Rightarrow> board option" where
  "recompute b =
     Option.bind (connectivity connections (pz_tiles (puzzle b))) (\<lambda>on.
     let b = b\<lparr>powered := on\<rparr> in
     Some (b\<lparr>puzzle := (puzzle b)\<lparr>complete := (board_connected_beacons b = 4)\<rparr>\<rparr>))"

definition rotate_cell :: "rotate \<Rightarrow> board \<Rightarrow> (board \<times> bool) option" where
  "rotate_cell command b =
     (let i = unat (cell command); s = puzzle b in
      case at_index (pz_tiles s) i of
        None \<Rightarrow> Some (b, False)
      | Some t \<Rightarrow>
          if complete s \<or> kind t \<noteq> Wire then Some (b, False)
          else case checked_add (moves s) 1 of
            None \<Rightarrow> Some (b, False)
          | Some n \<Rightarrow>
              Option.bind (checked_add (rotation t) 1) (\<lambda>r.
              Option.bind (recompute (b\<lparr>puzzle := s\<lparr>
                  pz_tiles := (pz_tiles s)[i := t\<lparr>rotation := r mod 4\<rparr>], moves := n\<rparr>\<rparr>)) (\<lambda>b.
              Some (b, True))))"

definition board_state_hash :: "board \<Rightarrow> u64 \<Rightarrow> u64" where
  "board_state_hash b t = stable_hash (hash_pair hash_int (hash_ref puzzle_hash)) (t, puzzle b)"

end
