(* ===== verification/Garden_Rules.thy ===== *)
theory Garden_Rules
  imports Garden
begin

unbundle bit_operations_syntax

text \<open>
  What the rules of the power garden guarantee: the traversal finds exactly the cells
  connected to the source, tiles turn clockwise, validation is exact and never panics, every
  command keeps the board's invariant, and every accepted board can be completed.  The
  derived codecs of the recorded types meet the codec interface.
\<close>

section \<open>The powered cells\<close>

text \<open>
  The reference: cells \<open>i\<close> and \<open>j\<close> of the 5 by 5 grid are linked when they touch along a side
  and both have a port on it, and a cell is powered when a chain of links connects it with
  the source.
\<close>

definition sides :: "(u8 \<times> u8 \<times> int \<times> int) list" where
  "sides = [(NORTH, SOUTH, - 1, 0), (EAST, WEST, 0, 1), (SOUTH, NORTH, 1, 0), (WEST, EAST, 0, - 1)]"

definition touching :: "int \<Rightarrow> int \<Rightarrow> nat \<Rightarrow> nat \<Rightarrow> bool" where
  "touching down right i j \<longleftrightarrow> i < 25 \<and> j < 25 \<and>
     int (j div 5) = int (i div 5) + down \<and> int (j mod 5) = int (i mod 5) + right"

definition linked :: "(tile \<Rightarrow> u8) \<Rightarrow> tile list \<Rightarrow> nat \<Rightarrow> nat \<Rightarrow> bool" where
  "linked pf ts i j \<longleftrightarrow>
     (\<exists>(out, inc, down, right) \<in> set sides.
        touching down right i j \<and> pf (ts ! i) AND out \<noteq> 0 \<and> pf (ts ! j) AND inc \<noteq> 0)"

inductive reached :: "(tile \<Rightarrow> u8) \<Rightarrow> tile list \<Rightarrow> nat \<Rightarrow> nat \<Rightarrow> bool" for pf ts src where
  at_source: "reached pf ts src src"
| along: "reached pf ts src i \<Longrightarrow> linked pf ts i j \<Longrightarrow> reached pf ts src j"

lemma touching_grid:
  assumes "r < 5" "c < 5" "s < 5" "d < 5"
  shows "touching down right (5 * r + c) (5 * s + d) \<longleftrightarrow> int s = int r + down \<and> int d = int c + right"
  using assms by (simp add: touching_def)

lemma grid_cell:
  assumes "i < 25"
  obtains r c where "i = 5 * r + c" "r < 5" "c < (5 :: nat)"
proof (rule that)
  show "i = 5 * (i div 5) + i mod 5" "i div 5 < 5" "i mod 5 < 5" using assms by auto
qed

lemma grid_inj:
  "d < 5 \<Longrightarrow> c < 5 \<Longrightarrow> 5 * s + d = 5 * r + c \<longleftrightarrow> s = r \<and> d = (c :: nat)"
  by presburger

lemma touching_moves:
  assumes "i < 25" "j < 25"
  shows "touching (- 1) 0 i j \<longleftrightarrow> 5 \<le> i \<and> j = i - 5"
    "touching 0 1 i j \<longleftrightarrow> i mod 5 < 4 \<and> j = i + 1"
    "touching 1 0 i j \<longleftrightarrow> i < 20 \<and> j = i + 5"
    "touching 0 (- 1) i j \<longleftrightarrow> 0 < i mod 5 \<and> j = i - 1"
proof -
  obtain r c where i: "i = 5 * r + c" "r < 5" "c < 5" using assms(1) by (rule grid_cell)
  obtain s d where j: "j = 5 * s + d" "s < 5" "d < 5" using assms(2) by (rule grid_cell)
  note tg = touching_grid [OF i(2,3) j(2,3)] and inj = grid_inj [OF j(3)]
  have m: "(5 * r + c) mod 5 = c" using i(3) by simp
  have up: "5 * r + c - 5 = 5 * (r - 1) + c" if "0 < r" using that by (cases r) simp_all
  have left: "5 * r + c - 1 = 5 * r + (c - 1)" if "0 < c" using that by simp
  have down: "5 * r + c + 5 = 5 * Suc r + c" and right: "5 * r + c + 1 = 5 * r + (c + 1)" by simp_all
  have row: "5 \<le> 5 * r + c \<longleftrightarrow> 0 < r" "5 * r + c < 20 \<longleftrightarrow> r < 4" using i(3) by presburger+
  show "touching (- 1) 0 i j \<longleftrightarrow> 5 \<le> i \<and> j = i - 5"
    unfolding i(1) j(1) tg row using up inj [OF i(3), of s "r - 1"] by (cases r) auto
  show "touching 0 1 i j \<longleftrightarrow> i mod 5 < 4 \<and> j = i + 1"
    unfolding i(1) j(1) tg m right using inj [of "c + 1" s r] j(3) by (cases "c < 4") auto
  show "touching 1 0 i j \<longleftrightarrow> i < 20 \<and> j = i + 5"
    unfolding i(1) j(1) tg row down inj [OF i(3)] using j(2) by auto
  show "touching 0 (- 1) i j \<longleftrightarrow> 0 < i mod 5 \<and> j = i - 1"
    unfolding i(1) j(1) tg m using left inj [of "c - 1" s r] i(3) by (cases "0 < c") auto
qed

lemma neighbor_moves:
  "(out, inc, Some j) \<in> set (neighbors i) \<longleftrightarrow>
     5 \<le> i \<and> j = i - 5 \<and> out = NORTH \<and> inc = SOUTH \<or> i mod 5 < 4 \<and> j = i + 1 \<and> out = EAST \<and> inc = WEST \<or>
     i < 20 \<and> j = i + 5 \<and> out = SOUTH \<and> inc = NORTH \<or> 0 < i mod 5 \<and> j = i - 1 \<and> out = WEST \<and> inc = EAST"
  unfolding neighbors_def by (simp split: if_split) blast

lemma neighbor_small:
  assumes "i < 25" "(out, inc, Some j) \<in> set (neighbors i)"
  shows "j < 25"
proof -
  obtain r c where i: "i = 5 * r + c" "r < 5" "c < 5" using assms(1) by (rule grid_cell)
  then have "i mod 5 < 4 \<Longrightarrow> i + 1 < 25" by simp
  then show ?thesis using assms unfolding neighbor_moves by auto
qed

lemma linked_neighbors:
  assumes "i < 25"
  shows "linked pf ts i j \<longleftrightarrow>
    (\<exists>out inc. (out, inc, Some j) \<in> set (neighbors i) \<and> pf (ts ! i) AND out \<noteq> 0 \<and> pf (ts ! j) AND inc \<noteq> 0)"
proof (cases "j < 25")
  case True
  have "linked pf ts i j \<longleftrightarrow>
      touching (- 1) 0 i j \<and> pf (ts ! i) AND NORTH \<noteq> 0 \<and> pf (ts ! j) AND SOUTH \<noteq> 0 \<or>
      touching 0 1 i j \<and> pf (ts ! i) AND EAST \<noteq> 0 \<and> pf (ts ! j) AND WEST \<noteq> 0 \<or>
      touching 1 0 i j \<and> pf (ts ! i) AND SOUTH \<noteq> 0 \<and> pf (ts ! j) AND NORTH \<noteq> 0 \<or>
      touching 0 (- 1) i j \<and> pf (ts ! i) AND WEST \<noteq> 0 \<and> pf (ts ! j) AND EAST \<noteq> 0"
    by (simp add: linked_def sides_def)
  then show ?thesis unfolding touching_moves [OF assms True] neighbor_moves by blast
next
  case False
  then show ?thesis using neighbor_small [OF assms] by (auto simp: linked_def touching_def)
qed

lemma linked_small: "linked pf ts i j \<Longrightarrow> i < 25 \<and> j < 25"
  by (auto simp: linked_def touching_def)

section \<open>The traversal computes them\<close>

definition lit_cells :: "bfs \<Rightarrow> nat set" where
  "lit_cells b = {j. j < 25 \<and> lit b ! j}"

definition bfs_ok :: "(tile \<Rightarrow> u8) \<Rightarrow> tile list \<Rightarrow> nat \<Rightarrow> bfs \<Rightarrow> bool" where
  "bfs_ok pf ts src b \<longleftrightarrow>
     length ts = 25 \<and> length (lit b) = 25 \<and> length (cells b) = 25 \<and> fill b \<le> 25 \<and>
     distinct (take (fill b) (cells b)) \<and> set (take (fill b) (cells b)) = lit_cells b \<and>
     (\<forall>j \<in> lit_cells b. reached pf ts src j)"

text \<open>Every cell is queued at most once, so the queue never overflows.\<close>

lemma queue_room:
  assumes "bfs_ok pf ts src b" "j < 25" "\<not> lit b ! j"
  shows "fill b < 25"
proof -
  have "card (set (take (fill b) (cells b))) = fill b"
    using assms(1) distinct_card [of "take (fill b) (cells b)"] by (simp add: bfs_ok_def)
  moreover have "card (lit_cells b) < card {..<25 :: nat}"
    by (rule psubset_card_mono) (use assms(2,3) in \<open>auto simp: lit_cells_def\<close>)
  moreover have "set (take (fill b) (cells b)) = lit_cells b" using assms(1) by (simp add: bfs_ok_def)
  ultimately show ?thesis by simp
qed

definition extends :: "bfs \<Rightarrow> bfs \<Rightarrow> bool" where
  "extends b b' \<longleftrightarrow> head b' = head b \<and> fill b \<le> fill b' \<and> lit_cells b \<subseteq> lit_cells b' \<and>
     take (fill b) (cells b') = take (fill b) (cells b)"

lemma extends_trans: "extends a b \<Longrightarrow> extends b c \<Longrightarrow> extends a c"
proof -
  assume ab: "extends a b" and bc: "extends b c"
  have le: "fill a \<le> fill b" and eq: "take (fill b) (cells c) = take (fill b) (cells b)"
    using ab bc by (simp_all add: extends_def)
  have "take (fill a) (cells c) = take (fill a) (take (fill b) (cells c))" using le by (simp add: min_def)
  also have "\<dots> = take (fill a) (cells a)" using le ab by (simp add: eq min_def extends_def)
  finally show "extends a c" using ab bc by (auto simp: extends_def)
qed

lemma lights_cell:
  assumes "bfs_ok pf ts src b" "j < 25" "\<not> lit b ! j" "reached pf ts src j"
    and "b' = b\<lparr>lit := (lit b)[j := True], cells := (cells b)[fill b := j], fill := Suc (fill b)\<rparr>"
  shows "bfs_ok pf ts src b'" "extends b b'" "j \<in> lit_cells b'"
proof -
  have room: "fill b < length (cells b)"
    using queue_room [OF assms(1-3)] assms(1) by (simp add: bfs_ok_def)
  have len: "length (lit b) = 25" using assms(1) by (simp add: bfs_ok_def)
  have cells: "lit_cells b' = insert j (lit_cells b)"
    using assms(2,5) len by (auto simp: lit_cells_def nth_list_update)
  have queue: "take (fill b') (cells b') = take (fill b) (cells b) @ [j]"
    using room by (simp add: assms(5) take_Suc_conv_app_nth)
  have "j \<notin> set (take (fill b) (cells b))"
    using assms(1,3) by (simp add: bfs_ok_def lit_cells_def)
  moreover have "length (lit b') = 25" "length (cells b') = 25" "fill b' \<le> 25"
    using room len assms(1) by (simp_all add: assms(5) bfs_ok_def)
  ultimately show "bfs_ok pf ts src b'"
    using assms(1,4) unfolding bfs_ok_def queue cells by simp
  have "lit_cells b \<subseteq> lit_cells b'" unfolding cells by blast
  then show "extends b b'" by (simp add: extends_def assms(5))
  show "j \<in> lit_cells b'" by (simp add: cells)
qed

lemma visit_ok:
  assumes "bfs_ok pf ts src b" "i < 25" "reached pf ts src i" "(out, inc, m) \<in> set (neighbors i)"
  shows "\<exists>b'. visit pf ts (pf (ts ! i)) (out, inc, m) b = Some b' \<and> bfs_ok pf ts src b' \<and> extends b b' \<and>
    (\<forall>j. m = Some j \<and> pf (ts ! i) AND out \<noteq> 0 \<and> pf (ts ! j) AND inc \<noteq> 0 \<longrightarrow> j \<in> lit_cells b')"
proof (cases m)
  case None
  then show ?thesis using assms(1) by (simp add: visit_def extends_def)
next
  case (Some j)
  then have j: "j < 25" using neighbor_small [OF assms(2)] assms(4) by blast
  have len: "length ts = 25" "length (lit b) = 25" "length (cells b) = 25"
    using assms(1) by (simp_all add: bfs_ok_def)
  show ?thesis
  proof (cases "pf (ts ! i) AND out \<noteq> 0 \<and> pf (ts ! j) AND inc \<noteq> 0 \<and> \<not> lit b ! j")
    case False
    then have "visit pf ts (pf (ts ! i)) (out, inc, m) b = Some b"
      using j len Some by (auto simp: visit_def at_index_def)
    then show ?thesis
      using assms(1) False j Some by (auto simp: extends_def lit_cells_def)
  next
    case True
    have "linked pf ts i j"
      unfolding linked_neighbors [OF assms(2)] using assms(4) Some True by blast
    then have r: "reached pf ts src j" by (rule along [OF assms(3)])
    have dark: "\<not> lit b ! j" using True by blast
    note l = lights_cell [OF assms(1) j dark r refl]
    have "visit pf ts (pf (ts ! i)) (out, inc, m) b =
        Some (b\<lparr>lit := (lit b)[j := True], cells := (cells b)[fill b := j], fill := Suc (fill b)\<rparr>)"
      using True Some j len queue_room [OF assms(1) j dark]
      by (simp add: visit_def at_index_def put_index_def)
    then show ?thesis using l Some by blast
  qed
qed

lemma visit_all_ok:
  assumes "bfs_ok pf ts src b" "i < 25" "reached pf ts src i" "set ns \<subseteq> set (neighbors i)"
  shows "\<exists>b'. visit_all pf ts (pf (ts ! i)) ns b = Some b' \<and> bfs_ok pf ts src b' \<and> extends b b' \<and>
    (\<forall>(out, inc, m) \<in> set ns. \<forall>j. m = Some j \<and> pf (ts ! i) AND out \<noteq> 0 \<and> pf (ts ! j) AND inc \<noteq> 0 \<longrightarrow>
       j \<in> lit_cells b')"
  using assms(1,4)
proof (induction ns arbitrary: b)
  case Nil
  then show ?case by (simp add: extends_def)
next
  case (Cons n ns)
  obtain out inc m where n: "n = (out, inc, m)" by (cases n)
  obtain b1 where b1: "visit pf ts (pf (ts ! i)) n b = Some b1" "bfs_ok pf ts src b1" "extends b b1"
    "\<forall>j. m = Some j \<and> pf (ts ! i) AND out \<noteq> 0 \<and> pf (ts ! j) AND inc \<noteq> 0 \<longrightarrow> j \<in> lit_cells b1"
    using visit_ok [OF Cons.prems(1) assms(2,3), of out inc m] Cons.prems(2) n by auto
  obtain b2 where b2: "visit_all pf ts (pf (ts ! i)) ns b1 = Some b2" "bfs_ok pf ts src b2" "extends b1 b2"
    "\<forall>(out, inc, m) \<in> set ns. \<forall>j. m = Some j \<and> pf (ts ! i) AND out \<noteq> 0 \<and> pf (ts ! j) AND inc \<noteq> 0 \<longrightarrow>
       j \<in> lit_cells b2"
    using Cons.IH [OF b1(2)] Cons.prems(2) by auto
  have "lit_cells b1 \<subseteq> lit_cells b2" using b2(3) by (simp add: extends_def)
  then show ?case
    using b1 b2 extends_trans [OF b1(3) b2(3)] n by (intro exI [of _ b2]) auto
qed

definition explored :: "(tile \<Rightarrow> u8) \<Rightarrow> tile list \<Rightarrow> bfs \<Rightarrow> bool" where
  "explored pf ts b \<longleftrightarrow>
     head b \<le> fill b \<and> (\<forall>k < head b. \<forall>j. linked pf ts (cells b ! k) j \<longrightarrow> j \<in> lit_cells b)"

lemma expand_ok:
  assumes "bfs_ok pf ts src b" "explored pf ts b" "head b < fill b"
  shows "\<exists>b'. at_index (cells b) (head b) = Some (cells b ! head b) \<and>
    at_index ts (cells b ! head b) = Some (ts ! (cells b ! head b)) \<and>
    visit_all pf ts (pf (ts ! (cells b ! head b))) (neighbors (cells b ! head b)) (b\<lparr>head := Suc (head b)\<rparr>) = Some b' \<and>
    bfs_ok pf ts src b' \<and> explored pf ts b' \<and> lit_cells b \<subseteq> lit_cells b' \<and> length (cells b') = 25"
proof -
  let ?i = "cells b ! head b" and ?b = "b\<lparr>head := Suc (head b)\<rparr>"
  have len: "length ts = 25" "length (cells b) = 25" "fill b \<le> 25"
    using assms(1) by (simp_all add: bfs_ok_def)
  have "?i \<in> set (take (fill b) (cells b))"
    using assms(3) len by (auto simp: in_set_conv_nth)
  then have i: "?i < 25" "reached pf ts src ?i"
    using assms(1) by (auto simp: bfs_ok_def lit_cells_def)
  have ok: "bfs_ok pf ts src ?b" using assms(1) by (simp add: bfs_ok_def lit_cells_def)
  obtain b' where b': "visit_all pf ts (pf (ts ! ?i)) (neighbors ?i) ?b = Some b'" "bfs_ok pf ts src b'"
    "extends ?b b'" and new: "\<forall>(out, inc, m) \<in> set (neighbors ?i). \<forall>j. m = Some j \<and>
      pf (ts ! ?i) AND out \<noteq> 0 \<and> pf (ts ! j) AND inc \<noteq> 0 \<longrightarrow> j \<in> lit_cells b'"
    using visit_all_ok [OF ok i order_refl] by blast
  have ext: "head b' = Suc (head b)" "fill b \<le> fill b'" "lit_cells b \<subseteq> lit_cells b'"
    "take (fill b) (cells b') = take (fill b) (cells b)"
    using b'(3) by (auto simp: extends_def lit_cells_def)
  have same: "cells b' ! k = cells b ! k" if "k < fill b" for k
    using ext(4) that by (metis nth_take)
  have "explored pf ts b'"
    unfolding explored_def
  proof (intro conjI allI impI)
    show "head b' \<le> fill b'" using ext assms(3) by simp
    fix k j assume k: "k < head b'" and l: "linked pf ts (cells b' ! k) j"
    have l': "linked pf ts (cells b ! k) j" using l k ext(1) assms(3) same [of k] by simp
    show "j \<in> lit_cells b'"
    proof (cases "k = head b")
      case True
      then show ?thesis using l' new unfolding linked_neighbors [OF i(1)] True by blast
    next
      case False
      then have "k < head b" using k ext(1) by simp
      then have "j \<in> lit_cells b" using assms(2) l' unfolding explored_def by blast
      then show ?thesis using ext(3) by blast
    qed
  qed
  then show ?thesis
    using b'(1,2) ext(3) i(1) len assms(3) by (auto simp: at_index_def bfs_ok_def)
qed

lemma traverse_ok:
  "bfs_ok pf ts src b \<Longrightarrow> explored pf ts b \<Longrightarrow>
     \<exists>ls. traverse pf ts b = Some ls \<and> length ls = 25 \<and> lit_cells b \<subseteq> {j. j < 25 \<and> ls ! j} \<and>
       (\<forall>j < 25. ls ! j \<longrightarrow> reached pf ts src j) \<and>
       (\<forall>i < 25. \<forall>j. ls ! i \<longrightarrow> linked pf ts i j \<longrightarrow> ls ! j)"
proof (induction "25 - head b" arbitrary: b rule: less_induct)
  case less
  show ?case
  proof (cases "head b < fill b")
    case True
    then obtain b' where b': "at_index (cells b) (head b) = Some (cells b ! head b)"
      "at_index ts (cells b ! head b) = Some (ts ! (cells b ! head b))"
      "visit_all pf ts (pf (ts ! (cells b ! head b))) (neighbors (cells b ! head b)) (b\<lparr>head := Suc (head b)\<rparr>) =
        Some b'"
      "bfs_ok pf ts src b'" "explored pf ts b'" "lit_cells b \<subseteq> lit_cells b'"
      using expand_ok [OF less.prems] by blast
    have "head b' = Suc (head b)" using visit_all_keeps [OF b'(3)] by simp
    moreover have "head b < 25" using True less.prems(1) by (simp add: bfs_ok_def)
    ultimately have "25 - head b' < 25 - head b" by simp
    from less.hyps [OF this b'(4,5)] obtain ls where "traverse pf ts b' = Some ls" "length ls = 25" "lit_cells b' \<subseteq> {j. j < 25 \<and> ls ! j}"
      "\<forall>j < 25. ls ! j \<longrightarrow> reached pf ts src j" "\<forall>i < 25. \<forall>j. ls ! i \<longrightarrow> linked pf ts i j \<longrightarrow> ls ! j"
      by blast
    moreover have "traverse pf ts b = traverse pf ts b'"
      using True b'(1-3) by (subst traverse.simps) simp
    moreover have "lit_cells b \<subseteq> {j. j < 25 \<and> ls ! j}" using b'(6) calculation(3) by blast
    ultimately show ?thesis by simp
  next
    case False
    then have all: "head b = fill b" using less.prems(2) by (simp add: explored_def)
    have "\<exists>k < head b. cells b ! k = i" if "i < 25" "lit b ! i" for i
    proof -
      have "i \<in> set (take (fill b) (cells b))"
        using that less.prems(1) by (simp add: bfs_ok_def lit_cells_def)
      then show ?thesis using all by (auto simp: in_set_conv_nth)
    qed
    then have "\<forall>i < 25. \<forall>j. lit b ! i \<longrightarrow> linked pf ts i j \<longrightarrow> lit b ! j"
      using less.prems(2) unfolding explored_def lit_cells_def by blast
    moreover have "length (lit b) = 25" "\<forall>j < 25. lit b ! j \<longrightarrow> reached pf ts src j"
      using less.prems(1) by (simp_all add: bfs_ok_def lit_cells_def)
    moreover have "traverse pf ts b = Some (lit b)" using False by (subst traverse.simps) simp
    ultimately show ?thesis by (simp add: lit_cells_def)
  qed
qed

lemma position_Some:
  "position p xs = Some i \<longleftrightarrow> i < length xs \<and> p (xs ! i) \<and> (\<forall>k < i. \<not> p (xs ! k))"
proof (induction xs arbitrary: i)
  case (Cons x xs)
  then show ?case by (cases i) (auto simp: less_Suc_eq_0_disj)
qed simp

text \<open>The traversal never panics on a board with a source, and finds exactly the reached cells.\<close>

lemma connectivity_reached:
  assumes "length ts = 25" "position (\<lambda>t. kind t = Source) ts = Some src"
  shows "\<exists>ls. connectivity pf ts = Some ls \<and> length ls = 25 \<and>
    (\<forall>j < 25. ls ! j \<longleftrightarrow> reached pf ts src j)"
proof -
  have src: "src < 25" using assms by (simp add: position_Some)
  let ?b = "\<lparr>lit = (replicate 25 False)[src := True], cells = replicate 25 src, head = 0, fill = 1\<rparr>"
  have lit: "lit_cells ?b = {src}" using src by (auto simp: lit_cells_def nth_list_update)
  then have ok: "bfs_ok pf ts src ?b" "explored pf ts ?b"
    using assms(1) src by (simp_all add: bfs_ok_def explored_def at_source hd_replicate take_Suc hd_conv_nth)
  obtain ls where ls: "traverse pf ts ?b = Some ls" "length ls = 25" "lit_cells ?b \<subseteq> {j. j < 25 \<and> ls ! j}"
    "\<forall>j < 25. ls ! j \<longrightarrow> reached pf ts src j" "\<forall>i < 25. \<forall>j. ls ! i \<longrightarrow> linked pf ts i j \<longrightarrow> ls ! j"
    using traverse_ok [OF ok] by blast
  have "connectivity pf ts = Some ls"
    using assms(2) ls(1) src by (simp add: connectivity_def put_index_def)
  moreover have "j < 25 \<and> ls ! j" if "reached pf ts src j" for j
    using that
  proof induction
    case at_source
    then show ?case using ls(3) lit by auto
  next
    case (along i j)
    then show ?case using ls(5) linked_small [of pf ts i j] by blast
  qed
  ultimately show ?thesis using ls(2,4) by blast
qed

section \<open>Ports turn with their tile\<close>

lemma small_bits:
  assumes "p \<le> 15" "bit (p :: u8) k"
  shows "k < 4"
proof (rule ccontr)
  assume "\<not> k < 4"
  then have "(2 :: nat) ^ 4 \<le> 2 ^ k" by (intro power_increasing) simp_all
  moreover have "unat p < 2 ^ 4" using assms(1) by (simp add: word_le_nat_alt)
  ultimately have "unat p div 2 ^ k = 0" by simp
  moreover have "bit (unat p) k" using assms(2) by (simp add: bit_unsigned_iff)
  ultimately show False by (simp add: bit_iff_odd)
qed

lemma and_fifteen: "bit (x AND (15 :: u8)) k \<longleftrightarrow> k < 4 \<and> bit x k"
proof -
  have "(15 :: u8) = mask 4" by (simp add: mask_eq_exp_minus_1)
  then have "x AND 15 = take_bit 4 x" by (simp only: take_bit_eq_mask)
  then show ?thesis by (simp only: bit_take_bit_iff)
qed

lemma connections_bit:
  assumes "ports t \<le> 15" "rotation t \<le> 3" "k < 4"
  shows "bit (connections t) ((k + unat (rotation t)) mod 4) \<longleftrightarrow> bit (ports t) k"
proof -
  have r: "unat (rotation t) < 4" using assms(2) by (simp add: word_le_nat_alt)
  then have m: "unat (rotation t mod 4) = unat (rotation t)" by (simp add: unat_mod)
  have s: "unat (4 - rotation t mod 4) = 4 - unat (rotation t)"
    using m r by (subst unat_sub) (simp_all add: word_le_nat_alt)
  have b: "bit (connections t) j \<longleftrightarrow> j < 4 \<and>
      (unat (rotation t) \<le> j \<and> bit (ports t) (j - unat (rotation t)) \<or>
       bit (ports t) (j + (4 - unat (rotation t))))" for j
    by (auto simp: connections_def Let_def m s and_fifteen bit_or_iff bit_push_bit_iff bit_drop_bit_eq
        add.commute dest: small_bits [OF assms(1)])
  have small: "\<not> bit (ports t) j" if "4 \<le> j" for j using small_bits [OF assms(1), of j] that by auto
  show ?thesis
  proof (cases "k + unat (rotation t) < 4")
    case True
    then show ?thesis using small [of "k + unat (rotation t) + (4 - unat (rotation t))"] r by (simp add: b)
  next
    case False
    then have e: "(k + unat (rotation t)) mod 4 = k + unat (rotation t) - 4"
      using assms(3) r by (subst mod_if) (simp add: not_less)
    have "\<not> unat (rotation t) \<le> k + unat (rotation t) - 4" using assms(3) False by linarith
    moreover have "k + unat (rotation t) - 4 + (4 - unat (rotation t)) = k" using False r by linarith
    moreover have "k + unat (rotation t) - 4 < 4" using assms(3) r by linarith
    ultimately show ?thesis by (simp add: e b)
  qed
qed

lemma connections_high: "bit (connections t) k \<Longrightarrow> k < 4"
  by (simp add: connections_def Let_def and_fifteen)

lemma connections_unturned:
  assumes "ports t \<le> 15" "rotation t = 0"
  shows "connections t = ports t"
proof (rule bit_word_eqI)
  fix k
  show "bit (connections t) k \<longleftrightarrow> bit (ports t) k"
  proof (cases "k < 4")
    case True
    then show ?thesis using connections_bit [OF assms(1) _ True] assms(2) by simp
  next
    case False
    then show ?thesis using connections_high small_bits [OF assms(1)] by blast
  qed
qed

section \<open>Validation\<close>

definition tile_ok :: "tile \<Rightarrow> bool" where
  "tile_ok t \<longleftrightarrow> ports t \<le> 15 \<and> rotation t \<le> 3 \<and> role_ok t \<and> (kind t \<noteq> Wire \<longrightarrow> rotation t = 0)"

definition of_kind :: "kind \<Rightarrow> tile list \<Rightarrow> nat" where
  "of_kind k ts = length (filter (\<lambda>t. kind t = k) ts)"

lemma check_tiles_Inr:
  "check_tiles ts s b = Inr (s', b') \<longleftrightarrow>
     list_all tile_ok ts \<and> s' = s + of_kind Source ts \<and> b' = b + of_kind Beacon ts"
proof (induction ts s b rule: check_tiles.induct)
  case (2 t ts s b)
  show ?case
  proof (cases "tile_ok t")
    case True
    then have "\<not> (ports t > 15 \<or> rotation t > 3)" "\<not> (\<not> role_ok t \<or> (kind t \<noteq> Wire \<and> rotation t \<noteq> 0))"
      by (auto simp: tile_ok_def not_less)
    with 2 [OF this(1) refl refl] True show ?thesis by (auto simp: Let_def of_kind_def)
  next
    case False
    then have "ports t > 15 \<or> rotation t > 3 \<or> \<not> role_ok t \<or> (kind t \<noteq> Wire \<and> rotation t \<noteq> 0)"
      by (auto simp: tile_ok_def not_less)
    then have "check_tiles (t # ts) s b \<noteq> Inr (s', b')" by (auto simp: Let_def)
    then show ?thesis using False by simp
  qed
qed (auto simp: of_kind_def)

lemma source_exists:
  assumes "of_kind Source ts = 1"
  obtains src where "position (\<lambda>t. kind t = Source) ts = Some src" "src < length ts" "kind (ts ! src) = Source"
proof -
  have "\<exists>src. position (\<lambda>t. kind t = Source) ts = Some src"
    using assms
  proof (induction ts)
    case (Cons t ts)
    then show ?case by (cases "kind t = Source") (auto simp: of_kind_def)
  qed (simp add: of_kind_def)
  then show ?thesis using that by (auto simp: position_Some)
qed

text \<open>A valid board: its tiles, one source, four beacons, and a base layout that lights them.\<close>

definition garden_ok :: "tile list \<Rightarrow> bool" where
  "garden_ok ts \<longleftrightarrow> length ts = 25 \<and> list_all tile_ok ts \<and> of_kind Source ts = 1 \<and> of_kind Beacon ts = 4 \<and>
     (\<exists>on. connectivity ports ts = Some on \<and> connected_beacons ts on = 4)"

lemma garden_connectivity:
  assumes "length ts = 25" "of_kind Source ts = 1"
  shows "\<exists>src on. position (\<lambda>t. kind t = Source) ts = Some src \<and> connectivity pf ts = Some on \<and> length on = 25 \<and>
    (\<forall>j < 25. on ! j \<longleftrightarrow> reached pf ts src j)"
  using connectivity_reached [OF assms(1), of _ pf] source_exists [OF assms(2)] by metis

lemma validate_total: "\<exists>res. validate_initialization i = Some res"
proof (cases "width i \<noteq> 5 \<or> height i \<noteq> 5 \<or> length (tiles i) \<noteq> 25")
  case False
  then have len: "length (tiles i) = 25" by simp
  show ?thesis
  proof (cases "check_tiles (tiles i) 0 0")
    case (Inr p)
    obtain s b where p: "p = (s, b)" by (cases p)
    then have "s = of_kind Source (tiles i)" using Inr by (simp add: check_tiles_Inr)
    then have "s = 1 \<Longrightarrow> \<exists>on. connectivity ports (tiles i) = Some on"
      using garden_connectivity [OF len, of ports] by auto
    then show ?thesis using False Inr p by (auto simp: validate_initialization_def)
  qed (use False in \<open>simp add: validate_initialization_def\<close>)
qed (simp add: validate_initialization_def)

lemma validate_Inr:
  "validate_initialization i = Some (Inr ()) \<longleftrightarrow> width i = 5 \<and> height i = 5 \<and> garden_ok (tiles i)"
proof (cases "width i \<noteq> 5 \<or> height i \<noteq> 5 \<or> length (tiles i) \<noteq> 25")
  case True
  then show ?thesis by (auto simp: validate_initialization_def garden_ok_def)
next
  case False
  then have len: "length (tiles i) = 25" by simp
  show ?thesis
  proof (cases "check_tiles (tiles i) 0 0")
    case (Inl e)
    then have "\<not> list_all tile_ok (tiles i)"
      using check_tiles_Inr [of "tiles i" 0 0] by auto
    then show ?thesis using False Inl by (auto simp: validate_initialization_def garden_ok_def)
  next
    case (Inr p)
    obtain s b where p: "p = (s, b)" by (cases p)
    then have t: "list_all tile_ok (tiles i)" "s = of_kind Source (tiles i)" "b = of_kind Beacon (tiles i)"
      using Inr by (simp_all add: check_tiles_Inr)
    show ?thesis
    proof (cases "s = 1 \<and> b = 4")
      case True
      then obtain on where "connectivity ports (tiles i) = Some on"
        using garden_connectivity [OF len, of ports] t(2) by auto
      then show ?thesis
        using False Inr p t True by (auto simp: validate_initialization_def garden_ok_def)
    qed (use False Inr p t in \<open>auto simp: validate_initialization_def garden_ok_def\<close>)
  qed
qed

section \<open>The board keeps its invariant\<close>

definition board_ok :: "board \<Rightarrow> bool" where
  "board_ok b \<longleftrightarrow> garden_ok (pz_tiles (puzzle b)) \<and>
     connectivity connections (pz_tiles (puzzle b)) = Some (powered b) \<and>
     (complete (puzzle b) \<longleftrightarrow> connected_beacons (pz_tiles (puzzle b)) (powered b) = 4)"

lemma garden_cache:
  assumes "garden_ok ts"
  obtains on where "connectivity connections ts = Some on"
  using garden_connectivity [of ts connections] assms by (auto simp: garden_ok_def)

lemma board_new_total: "\<exists>res. board_new i = Some res"
proof -
  obtain res where v: "validate_initialization i = Some res" using validate_total by blast
  show ?thesis
  proof (cases res)
    case (Inr u)
    then have "garden_ok (tiles i)" using v validate_Inr [of i] by simp
    then obtain on where "connectivity connections (tiles i) = Some on" by (rule garden_cache)
    then show ?thesis using v Inr by (simp add: board_new_def puzzle_try_from_def)
  qed (use v in \<open>simp add: board_new_def puzzle_try_from_def\<close>)
qed

lemma board_new_Inr:
  assumes "board_new i = Some (Inr b)"
  shows "board_ok b" "validate_initialization i = Some (Inr ())" "pz_tiles (puzzle b) = tiles i" "moves (puzzle b) = 0"
proof -
  have v: "validate_initialization i = Some (Inr ())"
    using assms validate_total [of i]
    by (fastforce simp: board_new_def puzzle_try_from_def bind_eq_Some_conv split: sum.splits)
  then have g: "garden_ok (tiles i)" by (simp add: validate_Inr)
  then obtain on where "connectivity connections (tiles i) = Some on" by (rule garden_cache)
  then have b: "b = \<lparr>puzzle = \<lparr>pz_width = width i, pz_height = height i, pz_tiles = tiles i, moves = 0,
      complete = (connected_beacons (tiles i) on = 4)\<rparr>, powered = on\<rparr>" "connectivity connections (tiles i) = Some on"
    using assms v by (simp_all add: board_new_def puzzle_try_from_def)
  show "board_ok b" using b g by (simp add: board_ok_def)
  show "validate_initialization i = Some (Inr ())" by (rule v)
  show "pz_tiles (puzzle b) = tiles i" "moves (puzzle b) = 0" by (simp_all add: b)
qed

lemma visit_cong:
  assumes "map pf ts = map qf us"
  shows "visit pf ts out n b = visit qf us out n b"
proof -
  have len: "length ts = length us" using assms by (rule map_eq_imp_length_eq)
  have "pf (ts ! j) = qf (us ! j)" if "j < length us" for j
    using assms that len by (metis nth_map)
  then show ?thesis
    by (auto simp: visit_def at_index_def len split: prod.splits option.splits)
qed

lemma visit_all_cong:
  "map pf ts = map qf us \<Longrightarrow> visit_all pf ts out ns b = visit_all qf us out ns b"
  by (induction ns arbitrary: b) (simp_all add: visit_cong [of pf ts qf us] cong: Option.bind_cong)

lemma traverse_cong:
  assumes "map pf ts = map qf us"
  shows "traverse pf ts b = traverse qf us b"
proof (induction "length (cells b) - head b" arbitrary: b rule: less_induct)
  case less
  have len: "length ts = length us" using assms by (rule map_eq_imp_length_eq)
  have p: "pf (ts ! j) = qf (us ! j)" if "j < length us" for j
    using assms that len by (metis nth_map)
  show ?case
  proof (cases "head b < fill b \<and> head b < length (cells b)")
    case True
    let ?i = "cells b ! head b"
    have "Option.bind (visit_all qf us (qf (us ! ?i)) (neighbors ?i) (b\<lparr>head := Suc (head b)\<rparr>)) (traverse pf ts) =
      Option.bind (visit_all qf us (qf (us ! ?i)) (neighbors ?i) (b\<lparr>head := Suc (head b)\<rparr>)) (traverse qf us)"
    proof (rule Option.bind_cong [OF refl])
      fix b' assume "visit_all qf us (qf (us ! ?i)) (neighbors ?i) (b\<lparr>head := Suc (head b)\<rparr>) = Some b'"
      from visit_all_keeps [OF this] show "traverse pf ts b' = traverse qf us b'"
        using True by (intro less.hyps) auto
    qed
    then show ?thesis
      using True p len
      by (subst (1 2) traverse.simps) (auto simp: at_index_def visit_all_cong [OF assms])
  next
    case False
    then show ?thesis
      by (subst (1 2) traverse.simps) (auto simp: at_index_def)
  qed
qed

lemma position_cong: "map kind ts = map kind us \<Longrightarrow>
    position (\<lambda>t. kind t = k) ts = position (\<lambda>t. kind t = k) us"
proof (induction ts arbitrary: us)
  case (Cons t ts)
  then show ?case by (cases us) auto
qed simp

lemma connectivity_cong:
  "map kind ts = map kind us \<Longrightarrow> map pf ts = map qf us \<Longrightarrow> connectivity pf ts = connectivity qf us"
  by (simp add: connectivity_def position_cong [of ts us] traverse_cong [of pf ts qf us])

lemma connected_beacons_cong:
  assumes "map kind ts = map kind us"
  shows "connected_beacons ts on = connected_beacons us on"
  using assms
proof (induction ts arbitrary: us on)
  case (Cons t ts)
  obtain u us' where us: "us = u # us'" "kind t = kind u" "map kind ts = map kind us'"
    using Cons.prems by (cases us) auto
  show ?case
  proof (cases on)
    case (Cons o on')
    then show ?thesis using Cons.IH [OF us(3), of on'] us(1,2) by (simp add: connected_beacons_def)
  qed (simp add: connected_beacons_def)
qed (simp add: connected_beacons_def)

lemma of_kind_cong: "map kind ts = map kind us \<Longrightarrow> of_kind k ts = of_kind k us"
proof (induction ts arbitrary: us)
  case (Cons t ts)
  then show ?case by (cases us) (auto simp: of_kind_def)
qed simp

lemma turned_garden:
  assumes "garden_ok ts" "i < length ts" "kind (ts ! i) = Wire" "r \<le> 3"
  shows "garden_ok (ts[i := (ts ! i)\<lparr>rotation := r\<rparr>])"
proof -
  let ?us = "ts[i := (ts ! i)\<lparr>rotation := r\<rparr>]"
  have same: "map f ?us = map f ts" if "f ((ts ! i)\<lparr>rotation := r\<rparr>) = f (ts ! i)" for f :: "tile \<Rightarrow> 'b"
    using that by (simp add: map_update) (metis list_update_id map_update)
  have k: "map kind ?us = map kind ts" and p: "map ports ?us = map ports ts" by (rule same, simp)+
  have "tile_ok (ts ! i)" using assms(1,2) by (simp add: garden_ok_def list_all_length)
  then have "tile_ok ((ts ! i)\<lparr>rotation := r\<rparr>)"
    using assms(3,4) by (simp add: tile_ok_def role_ok_def)
  then have "list_all tile_ok ?us"
    using assms(1,2) by (auto simp: garden_ok_def list_all_length nth_list_update)
  then show ?thesis
    using assms(1) by (simp add: garden_ok_def of_kind_cong [OF k] connectivity_cong [OF k p] connected_beacons_cong [OF k])
qed

definition turn :: "tile \<Rightarrow> tile" where
  "turn t = t\<lparr>rotation := (rotation t + 1) mod 4\<rparr>"

text \<open>A command has an effect exactly when its cell is a wire of an unfinished board.\<close>

definition turnable :: "board \<Rightarrow> nat \<Rightarrow> bool" where
  "turnable b i \<longleftrightarrow> i < 25 \<and> \<not> complete (puzzle b) \<and> kind (pz_tiles (puzzle b) ! i) = Wire \<and>
     moves (puzzle b) \<noteq> - 1"

lemma rotate_cell_effect:
  assumes "board_ok b"
  shows "if turnable b (unat (cell c))
    then \<exists>b'. rotate_cell c b = Some (b', True) \<and> board_ok b' \<and>
      pz_tiles (puzzle b') = (pz_tiles (puzzle b))[unat (cell c) := turn (pz_tiles (puzzle b) ! unat (cell c))] \<and>
      moves (puzzle b') = moves (puzzle b) + 1
    else rotate_cell c b = Some (b, False)"
proof -
  let ?i = "unat (cell c)" and ?ts = "pz_tiles (puzzle b)"
  have g: "garden_ok ?ts" and len: "length ?ts = 25" using assms by (simp_all add: board_ok_def garden_ok_def)
  have last: "checked_add (moves (puzzle b)) 1 = None \<longleftrightarrow> moves (puzzle b) = - 1"
    by (auto simp: checked_add_def word_unat_eq_iff unsigned_minus_1_eq_mask mask_eq_exp_minus_1)
      (use unsigned_less [of "moves (puzzle b)", where 'a = nat] in simp)
  show ?thesis
  proof (cases "turnable b ?i")
    case True
    then have i: "?i < length ?ts" "kind (?ts ! ?i) = Wire" using len by (simp_all add: turnable_def)
    let ?us = "?ts[?i := turn (?ts ! ?i)]"
    have "tile_ok (?ts ! ?i)" using g i(1) by (simp add: garden_ok_def list_all_length)
    then have r: "rotation (?ts ! ?i) \<le> 3" by (simp add: tile_ok_def)
    then have r1: "checked_add (rotation (?ts ! ?i)) 1 = Some (rotation (?ts ! ?i) + 1)"
      by (simp add: checked_add_def word_le_nat_alt)
    have "(rotation (?ts ! ?i) + 1) mod 4 \<le> 3"
      by (simp add: word_le_nat_alt unat_mod)
    then have g': "garden_ok ?us" using turned_garden [OF g i] by (simp add: turn_def)
    then obtain on where on: "connectivity connections ?us = Some on" by (rule garden_cache)
    obtain n where n: "checked_add (moves (puzzle b)) 1 = Some n" "n = moves (puzzle b) + 1"
      using True last by (auto simp: turnable_def checked_add_def split: if_splits)
    let ?b = "\<lparr>puzzle = (puzzle b)\<lparr>pz_tiles := ?us, moves := n, complete := (connected_beacons ?us on = 4)\<rparr>,
       powered = on\<rparr>"
    have "rotate_cell c b = Some (?b, True)"
      using True i on r1 n(1)
      by (simp add: rotate_cell_def Let_def at_index_def turnable_def recompute_def board_connected_beacons_def
          turn_def)
    moreover have "board_ok ?b" using g' on by (simp add: board_ok_def)
    ultimately show ?thesis using True n(2) by simp
  next
    case False
    then have "rotate_cell c b = Some (b, False)"
      using last len by (auto simp: rotate_cell_def Let_def at_index_def turnable_def)
    then show ?thesis using False by simp
  qed
qed

section \<open>Every accepted board can be solved\<close>

fun rotate_all :: "rotate list \<Rightarrow> board \<Rightarrow> board option" where
  "rotate_all [] b = Some b"
| "rotate_all (c # cs) b = Option.bind (rotate_cell c b) (\<lambda>(b, _). rotate_all cs b)"

lemma rotate_all_ok: "board_ok b \<Longrightarrow> \<exists>b'. rotate_all cs b = Some b' \<and> board_ok b'"
proof (induction cs arbitrary: b)
  case (Cons c cs)
  obtain b1 ok where "rotate_cell c b = Some (b1, ok)" "board_ok b1"
    using rotate_cell_effect [OF Cons.prems, of c] Cons.prems by (cases "turnable b (unat (cell c))") auto
  then show ?case using Cons.IH [of b1] by simp
qed simp

definition turns :: "tile \<Rightarrow> nat" where
  "turns t = (4 - unat (rotation t)) mod 4"

definition turns_left :: "tile list \<Rightarrow> nat" where
  "turns_left ts = sum_list (map turns ts)"

lemma rotation_cases:
  assumes "rotation t \<le> 3"
  shows "rotation t = 0 \<or> rotation t = 1 \<or> rotation t = 2 \<or> rotation t = 3"
proof -
  have "unat (rotation t) \<le> 3" using assms by (simp add: word_le_nat_alt)
  then have "unat (rotation t) = 0 \<or> unat (rotation t) = 1 \<or> unat (rotation t) = 2 \<or> unat (rotation t) = 3" by arith
  then show ?thesis by (simp add: word_unat_eq_iff)
qed

lemma turns_zero: "rotation t \<le> 3 \<Longrightarrow> turns t = 0 \<longleftrightarrow> rotation t = 0"
  by (drule rotation_cases) (auto simp: turns_def)

lemma turns_turn: "rotation t \<le> 3 \<Longrightarrow> rotation t \<noteq> 0 \<Longrightarrow> Suc (turns (turn t)) = turns t"
  by (drule rotation_cases) (auto simp: turns_def turn_def)

lemma turns_left_turn:
  assumes "i < length ts" "rotation (ts ! i) \<le> 3" "rotation (ts ! i) \<noteq> 0"
  shows "Suc (turns_left (ts[i := turn (ts ! i)])) = turns_left ts"
proof -
  have "turns_left (ts[i := turn (ts ! i)]) + turns (ts ! i) = turns_left ts + turns (turn (ts ! i))"
    using assms(1) sum_list_update_nat [of i "map turns ts" "turns (turn (ts ! i))"]
    by (simp add: turns_left_def map_update)
  then show ?thesis using turns_turn [OF assms(2,3)] by simp
qed

lemma turns_left_bound: "turns_left ts \<le> 3 * length ts"
proof (induction ts)
  case (Cons t ts)
  have "turns t < 4" by (simp add: turns_def)
  then show ?case using Cons by (simp add: turns_left_def)
qed (simp add: turns_left_def)

text \<open>A board with no turned wire is its own base layout.\<close>

lemma unturned_complete:
  assumes "board_ok b" "\<forall>i < 25. rotation (pz_tiles (puzzle b) ! i) = 0"
  shows "complete (puzzle b)"
proof -
  let ?ts = "pz_tiles (puzzle b)"
  have g: "length ?ts = 25" "list_all tile_ok ?ts" using assms(1) by (simp_all add: board_ok_def garden_ok_def)
  have "map connections ?ts = map ports ?ts"
    using g assms(2) by (intro nth_equalityI) (simp_all add: connections_unturned list_all_length tile_ok_def)
  then have "connectivity connections ?ts = connectivity ports ?ts"
    by (intro connectivity_cong) simp_all
  then show ?thesis using assms(1) by (auto simp: board_ok_def garden_ok_def)
qed

lemma solvable:
  "board_ok b \<Longrightarrow> unat (moves (puzzle b)) + turns_left (pz_tiles (puzzle b)) < 2 ^ 64 \<Longrightarrow>
     \<exists>cs b'. length cs \<le> turns_left (pz_tiles (puzzle b)) \<and> rotate_all cs b = Some b' \<and> complete (puzzle b')"
proof (induction "turns_left (pz_tiles (puzzle b))" arbitrary: b rule: less_induct)
  case less
  let ?ts = "pz_tiles (puzzle b)"
  have g: "length ?ts = 25" "list_all tile_ok ?ts" using less.prems(1) by (simp_all add: board_ok_def garden_ok_def)
  show ?case
  proof (cases "complete (puzzle b)")
    case True
    then show ?thesis by (intro exI [of _ "[]"]) simp
  next
    case False
    then obtain i where i: "i < 25" "rotation (?ts ! i) \<noteq> 0"
      using unturned_complete [OF less.prems(1)] by blast
    have t: "tile_ok (?ts ! i)" using g i(1) by (simp add: list_all_length)
    then have r: "rotation (?ts ! i) \<le> 3" and k: "kind (?ts ! i) = Wire"
      using i(2) by (auto simp: tile_ok_def)
    let ?c = "\<lparr>cell = word_of_nat i\<rparr>"
    have c: "unat (cell ?c) = i" using i(1) by (simp add: unat_of_nat)
    have left: "Suc (turns_left (?ts[i := turn (?ts ! i)])) = turns_left ?ts"
      using turns_left_turn [of i ?ts] g(1) i r by simp
    have room: "unat (moves (puzzle b)) + 1 < 2 ^ 64" using less.prems(2) left by linarith
    then have "moves (puzzle b) \<noteq> - 1" and m: "unat (moves (puzzle b) + 1) = unat (moves (puzzle b)) + 1"
      by (auto simp: unsigned_minus_1_eq_mask mask_eq_exp_minus_1 unat_word_ariths)
    then have "turnable b i" using False i(1) k by (simp add: turnable_def)
    then obtain b1 where b1: "rotate_cell ?c b = Some (b1, True)" "board_ok b1"
      "pz_tiles (puzzle b1) = ?ts[i := turn (?ts ! i)]" "moves (puzzle b1) = moves (puzzle b) + 1"
      using rotate_cell_effect [OF less.prems(1), of ?c] c by auto
    have "turns_left (pz_tiles (puzzle b1)) < turns_left ?ts"
      "unat (moves (puzzle b1)) + turns_left (pz_tiles (puzzle b1)) < 2 ^ 64"
      using left less.prems(2) m by (simp_all add: b1(3,4))
    from less.hyps [OF this(1) b1(2) this(2)] obtain cs b' where
      "length cs \<le> turns_left (pz_tiles (puzzle b1))" "rotate_all cs b1 = Some b'" "complete (puzzle b')"
      by blast
    then show ?thesis
      using b1(1,3) left by (intro exI [of _ "?c # cs"] exI [of _ b']) simp
  qed
qed

section \<open>The derived codecs\<close>

definition kind_arm_shape :: "kind \<Rightarrow> kind shape" where
  "kind_arm_shape k = construct_shape (\<lambda>_. k) (\<lambda>_. ()) no_fields_shape"

definition kind_shapes :: "(u8 \<times> kind shape) list" where
  "kind_shapes =
     [(0, kind_arm_shape Empty), (1, kind_arm_shape Wire), (2, kind_arm_shape Source), (3, kind_arm_shape Beacon)]"

lemma kind_arm_fields: "wire_fields (kind_arm k) (kind_arm_shape k)"
  unfolding kind_arm_def kind_arm_shape_def by (rule construct_fields [OF none.wire_fields_axioms]) simp

lemma kind_arm_sendable: "sendable (kind_arm_shape k) v \<longleftrightarrow> v = k"
  by (auto simp: kind_arm_shape_def construct_shape_def no_fields_shape_def)

lemma kind_arms_ok:
  "enum_arms_ok kind_index [(0, kind_arm Empty), (1, kind_arm Wire), (2, kind_arm Source), (3, kind_arm Beacon)]
     kind_shapes"
  by (auto simp: enum_arms_ok_def kind_shapes_def kind_index_def less_Suc_eq kind_arm_fields kind_arm_sendable
      split: kind.splits)

interpretation kind: wire_codec kind_wire "enum_shape kind_index kind_shapes"
  unfolding kind_wire_def by (rule enum_codec [OF kind_arms_ok])

definition tile_shape :: "tile shape" where
  "tile_shape =
     construct_shape (\<lambda>(k, p, r, _). \<lparr>kind = k, ports = p, rotation = r\<rparr>) (\<lambda>t. (kind t, ports t, rotation t, ()))
       (and_field_shape (enum_shape kind_index kind_shapes)
         (and_field_shape scalar_shape (and_field_shape scalar_shape no_fields_shape)))"

lemma tile_fields: "wire_fields tile_wire tile_shape"
  unfolding tile_wire_def tile_shape_def
  by (rule construct_fields, (intro and_field_fields kind.wire_fields_axioms w8.wire_fields_axioms none.wire_fields_axioms))
    auto

interpretation tile: wire_codec tile_wire tile_shape
  using tile_fields
  by (intro wire_codec.intro wire_codec_axioms.intro) (simp_all add: tile_wire_def construct_wire_def and_field_def)


definition initialization_shape :: "initialization shape" where
  "initialization_shape =
     construct_shape (\<lambda>(w, h, ts, _). \<lparr>width = w, height = h, tiles = ts\<rparr>) (\<lambda>i. (width i, height i, tiles i, ()))
       (and_field_shape scalar_shape (and_field_shape scalar_shape
         (and_field_shape (vec_shape tile_shape tile_wire) no_fields_shape)))"

interpretation vec_tile: wire_codec "vec_wire tile_wire" "vec_shape tile_shape tile_wire"
  by (rule tile.vec_codec)

lemma initialization_pg_fields: "wire_fields initialization_wire_pg initialization_shape"
  unfolding initialization_wire_pg_def initialization_shape_def tile_list_wire_def
  by (rule construct_fields, (intro and_field_fields vec_tile.wire_fields_axioms w8.wire_fields_axioms
        none.wire_fields_axioms)) auto

interpretation initialization_pg: wire_codec initialization_wire_pg initialization_shape
  using initialization_pg_fields
  by (intro wire_codec.intro wire_codec_axioms.intro)
    (simp_all add: initialization_wire_pg_def construct_wire_def and_field_def)

definition rotate_shape :: "rotate shape" where
  "rotate_shape =
     construct_shape (\<lambda>(c, _). \<lparr>cell = c\<rparr>) (\<lambda>r. (cell r, ())) (and_field_shape scalar_shape no_fields_shape)"

lemma rotate_fields: "wire_fields rotate_wire rotate_shape"
  unfolding rotate_wire_def rotate_shape_def
  by (rule construct_fields, (intro and_field_fields w32.wire_fields_axioms none.wire_fields_axioms)) auto

interpretation rotate: wire_codec rotate_wire rotate_shape
  using rotate_fields
  by (intro wire_codec.intro wire_codec_axioms.intro) (simp_all add: rotate_wire_def construct_wire_def and_field_def)

section \<open>Properties\<close>

text \<open>C28. The traversal is exactly connectivity: on a board of 25 cells with a source, for base
  ports and for turned ones, it terminates without a panic, and a cell is powered exactly
  when a chain of touching cells with ports on their common sides joins it to the source.\<close>

theorem powered_is_connected:
  assumes "length ts = 25" "position (\<lambda>t. kind t = Source) ts = Some src"
  shows "\<exists>on. connectivity pf ts = Some on \<and> length on = 25 \<and>
    (\<forall>j < 25. on ! j \<longleftrightarrow> reached pf ts src j)"
  using assms by (rule connectivity_reached)

text \<open>Construction and commands never panic and keep the board's invariant: an accepted
  setup gives a board whose cache is the connectivity of its tiles and whose flag says
  whether all four beacons are powered, and any sequence of commands, legal or not, leads
  from it to such a board.\<close>

theorem board_invariant:
  assumes "board_new i = Some (Inr b)"
  shows "board_ok b \<and> (\<exists>b'. rotate_all cs b = Some b' \<and> board_ok b')"
  using board_new_Inr(1) [OF assms] rotate_all_ok by blast

text \<open>C30. A command turns its tile clockwise, counts one move and nothing else, exactly when the
  cell is a wire of an unfinished board whose counter is not exhausted; otherwise the board
  is unchanged and the command is reported as rejected.\<close>

theorem command_effect:
  assumes "board_ok b"
  shows "if turnable b (unat (cell c))
    then \<exists>b'. rotate_cell c b = Some (b', True) \<and> board_ok b' \<and>
      pz_tiles (puzzle b') = (pz_tiles (puzzle b))[unat (cell c) := turn (pz_tiles (puzzle b) ! unat (cell c))] \<and>
      moves (puzzle b') = moves (puzzle b) + 1
    else rotate_cell c b = Some (b, False)"
  using assms by (rule rotate_cell_effect)

text \<open>C29. Every board the program accepts can be completed: at most 75 commands light all four
  beacons, starting from any setup that passed validation.\<close>

theorem accepted_board_is_solvable:
  assumes "board_new i = Some (Inr b)"
  shows "\<exists>cs b'. length cs \<le> 75 \<and> rotate_all cs b = Some b' \<and> complete (puzzle b')"
proof -
  have ok: "board_ok b" by (rule board_new_Inr(1) [OF assms])
  have "turns_left (pz_tiles (puzzle b)) \<le> 75"
    using turns_left_bound [of "pz_tiles (puzzle b)"] ok by (simp add: board_ok_def garden_ok_def)
  moreover have "moves (puzzle b) = 0" by (rule board_new_Inr(4) [OF assms])
  then have "unat (moves (puzzle b)) + turns_left (pz_tiles (puzzle b)) < 2 ^ 64" using calculation by simp
  ultimately show ?thesis using solvable [OF ok] by (meson le_trans)
qed

lemma default_valid: "validate_initialization default_initialization = Some (Inr ())"
  by code_simp

lemma default_board: "\<exists>b. board_new default_initialization = Some (Inr b)"
proof -
  have g: "garden_ok (tiles default_initialization)" using default_valid by (simp add: validate_Inr)
  then obtain on where "connectivity connections (tiles default_initialization) = Some on" by (rule garden_cache)
  then show ?thesis by (simp add: board_new_def puzzle_try_from_def default_valid)
qed


theorem powered_is_connected_witness:
  "\<exists>on. connectivity ports (tiles default_initialization) = Some on \<and>
     (on ! 0 \<longleftrightarrow> reached ports (tiles default_initialization) 12 0)"
proof -
  have "length (tiles default_initialization) = 25" by code_simp
  moreover have "position (\<lambda>t. kind t = Source) (tiles default_initialization) = Some 12" by code_simp
  ultimately show ?thesis using powered_is_connected by fastforce
qed

theorem board_invariant_witness:
  "\<exists>b b'. board_new default_initialization = Some (Inr b) \<and>
     rotate_all [\<lparr>cell = 1\<rparr>, \<lparr>cell = 99\<rparr>] b = Some b' \<and> board_ok b'"
  using default_board board_invariant by blast

theorem command_effect_witness:
  "\<exists>b. board_new default_initialization = Some (Inr b) \<and> rotate_cell \<lparr>cell = 12\<rparr> b = Some (b, False)"
proof -
  obtain b where b: "board_new default_initialization = Some (Inr b)" using default_board by blast
  have "kind (tiles default_initialization ! 12) = Source" by code_simp
  then have "\<not> turnable b (unat (cell \<lparr>cell = 12\<rparr>))"
    using board_new_Inr(3) [OF b] by (simp add: turnable_def)
  then have "rotate_cell \<lparr>cell = 12\<rparr> b = Some (b, False)"
    using command_effect [OF board_new_Inr(1) [OF b], of "\<lparr>cell = 12\<rparr>"] by simp
  then show ?thesis using b by blast
qed

theorem accepted_board_is_solvable_witness:
  "\<exists>b cs b'. board_new default_initialization = Some (Inr b) \<and> length cs \<le> 75 \<and>
     rotate_all cs b = Some b' \<and> complete (puzzle b')"
  using default_board accepted_board_is_solvable by blast

end
