(* ===== verification/Bevy_Adapter.thy ===== *)
theory Bevy_Adapter
  imports Api
begin

text \<open>
  \<^verbatim>\<open>crates/synctick-bevy/src/simulation.rs\<close>: a game written against the Bevy engine as a game
  of the framework.  The engine's world holds the framework's resources \<open>TickNumber\<close>,
  \<open>TickInputs\<close> and \<open>TickDuration\<close> and the game's own ones, of type \<open>'r\<close>.  The trait
  \<open>BevyGame\<close> is the record \<open>bevy_game\<close>; its field \<open>run_schedule\<close> is what running the
  schedule \<open>SimStep\<close>, with the systems that \<open>build\<close> registers, does to the world, \<open>None\<close> if
  a system panics; \<open>b_state_hash\<close> is \<open>None\<close> if hashing does.  \<open>'p\<close> is the game value itself, which \<open>publish\<close> may write through shared
  cells.  The change trackers of the world carry no state a game reads between ticks and
  are left out.
\<close>

section \<open>World and game\<close>

record ('c, 'r) world =
  TickNumber :: u64
  TickInputs :: "'c game_input list"
  TickDuration :: nat
  resources :: 'r

record ('c, 'i, 'r, 'p) bevy_game =
  B_ID :: "byte list"
  B_VERSION :: u32
  b_command_wire :: "'c wire"
  b_initialization_wire :: "'i wire"
  game_value :: 'p
  empty_resources :: 'r
  build :: "'i \<Rightarrow> ('c, 'r) world \<Rightarrow> ('c, 'r) world session_result"
  run_schedule :: "('c, 'r) world \<Rightarrow> ('c, 'r) world option"
  b_state_hash :: "('c, 'r) world \<Rightarrow> u64 option"
  b_publish :: "('c, 'r) world \<Rightarrow> 'p \<Rightarrow> ('c, 'r) world \<times> 'p \<times> unit session_result"
  b_finish_tick :: "('c, 'r) world \<Rightarrow> 'p \<Rightarrow> ('c, 'r) world \<times> 'p"

text \<open>The default hooks.\<close>

definition b_no_publish :: "('c, 'r) world \<Rightarrow> 'p \<Rightarrow> ('c, 'r) world \<times> 'p \<times> unit session_result" where
  "b_no_publish w p = (w, p, Inr ())"

definition b_no_finish_tick :: "('c, 'r) world \<Rightarrow> 'p \<Rightarrow> ('c, 'r) world \<times> 'p" where
  "b_no_finish_tick w p = (w, p)"

section \<open>The adapter\<close>

record ('c, 'r, 'p) bevy_simulation =
  app :: "('c, 'r) world"
  bevy_value :: 'p

definition bevy_create ::
  "('c, 'i, 'r, 'p) bevy_game \<Rightarrow> 'i \<Rightarrow> nat \<Rightarrow> ('c, 'r, 'p) bevy_simulation session_result" where
  "bevy_create B init duration =
     and_then (build B init \<lparr>TickNumber = 0, TickInputs = [], TickDuration = duration,
                             resources = empty_resources B\<rparr>) (\<lambda>w.
     Inr \<lparr>app = w, bevy_value = game_value B\<rparr>)"

definition bevy_current_tick :: "('c, 'r, 'p) bevy_simulation \<Rightarrow> u64" where
  "bevy_current_tick s = TickNumber (app s)"

definition bevy_state_hash :: "('c, 'i, 'r, 'p) bevy_game \<Rightarrow> ('c, 'r, 'p) bevy_simulation \<Rightarrow> u64 session_result" where
  "bevy_state_hash B s = ok_or (Worker ''simulation worker panicked'') (b_state_hash B (app s))"

text \<open>A panic unwinds into the worker, whose result is then an error.\<close>

definition bevy_advance ::
  "('c, 'i, 'r, 'p) bevy_game \<Rightarrow> 'c game_tick \<Rightarrow> ('c, 'r, 'p) bevy_simulation \<Rightarrow>
   ('c, 'r, 'p) bevy_simulation \<times> unit session_result" where
  "bevy_advance B t s =
     (let w = (app s)\<lparr>TickNumber := number t\<rparr>;
          w = w\<lparr>TickInputs := tick_inputs t\<rparr>
      in case run_schedule B w of
           None \<Rightarrow> (s\<lparr>app := w\<rparr>, Inl (Worker ''simulation worker panicked''))
         | Some w \<Rightarrow> (s\<lparr>app := w\<rparr>, Inr ()))"

definition bevy_finish_tick ::
  "('c, 'i, 'r, 'p) bevy_game \<Rightarrow> ('c, 'r, 'p) bevy_simulation \<Rightarrow> ('c, 'r, 'p) bevy_simulation" where
  "bevy_finish_tick B s =
     (let (w, p) = b_finish_tick B (app s) (bevy_value s)
      in \<lparr>app = w\<lparr>TickInputs := []\<rparr>, bevy_value = p\<rparr>)"

definition bevy_publish ::
  "('c, 'i, 'r, 'p) bevy_game \<Rightarrow> ('c, 'r, 'p) bevy_simulation \<Rightarrow>
   ('c, 'r, 'p) bevy_simulation \<times> unit session_result" where
  "bevy_publish B s =
     (let (w, p, res) = b_publish B (app s) (bevy_value s) in (\<lparr>app = w, bevy_value = p\<rparr>, res))"

definition game_adapter ::
  "('c, 'i, 'r, 'p) bevy_game \<Rightarrow> ('c, 'i, ('c, 'r, 'p) bevy_simulation) game" where
  "game_adapter B =
     \<lparr>ID = B_ID B, VERSION = B_VERSION B, command_wire = b_command_wire B,
      initialization_wire = b_initialization_wire B,
      create_simulation = bevy_create B,
      g_current_tick = bevy_current_tick,
      g_state_hash = bevy_state_hash B,
      g_advance = bevy_advance B,
      g_publish = bevy_publish B,
      g_finish_tick = bevy_finish_tick B\<rparr>"

section \<open>Deterministic Bevy games\<close>

text \<open>
  What \<open>BevyGame\<close> documents: the schedule depends on the tick, the inputs, the duration and
  the deterministic part \<open>rdet\<close> of the game's resources; hooks do not change them.
\<close>

definition same_world :: "('r \<Rightarrow> 'd) \<Rightarrow> ('c, 'r) world \<Rightarrow> ('c, 'r) world \<Rightarrow> bool" where
  "same_world rdet w w' \<longleftrightarrow> TickNumber w = TickNumber w' \<and> TickDuration w = TickDuration w' \<and>
     rdet (resources w) = rdet (resources w')"

locale deterministic_bevy_game =
  fixes B :: "('c, 'i, 'r, 'p) bevy_game" and rdet :: "'r \<Rightarrow> 'd"
  assumes schedule_det:
      "same_world rdet w w' \<Longrightarrow> TickInputs w = TickInputs w' \<Longrightarrow>
         rel_option (same_world rdet) (run_schedule B w) (run_schedule B w')"
    and b_publish_det: "same_world rdet (fst (b_publish B w p)) w"
    and b_finish_det: "same_world rdet (fst (b_finish_tick B w p)) w"
    and b_hash_det: "same_world rdet w w' \<Longrightarrow> b_state_hash B w = b_state_hash B w'"

definition world_det :: "('r \<Rightarrow> 'd) \<Rightarrow> ('c, 'r, 'p) bevy_simulation \<Rightarrow> u64 \<times> nat \<times> 'd" where
  "world_det rdet s = (TickNumber (app s), TickDuration (app s), rdet (resources (app s)))"

lemma world_det_same: "world_det rdet s = world_det rdet s' \<longleftrightarrow> same_world rdet (app s) (app s')"
  by (simp add: world_det_def same_world_def)

lemma same_world_inputs [simp]:
  "same_world rdet (w\<lparr>TickInputs := is\<rparr>) w' \<longleftrightarrow> same_world rdet w w'"
  "same_world rdet w (w'\<lparr>TickInputs := is\<rparr>) \<longleftrightarrow> same_world rdet w w'"
  by (simp_all add: same_world_def)

lemma game_adapter_sel [simp]:
  "g_current_tick (game_adapter B) = bevy_current_tick" "g_state_hash (game_adapter B) = bevy_state_hash B"
  "g_advance (game_adapter B) = bevy_advance B" "g_publish (game_adapter B) = bevy_publish B"
  "g_finish_tick (game_adapter B) = bevy_finish_tick B" "create_simulation (game_adapter B) = bevy_create B"
  "command_wire (game_adapter B) = b_command_wire B" "ID (game_adapter B) = B_ID B"
  "VERSION (game_adapter B) = B_VERSION B" "initialization_wire (game_adapter B) = b_initialization_wire B"
  by (simp_all add: game_adapter_def)

sublocale deterministic_bevy_game < bevy: deterministic_game "game_adapter B" infallible "world_det rdet"
proof (unfold_locales, goal_cases)
  case (1 s s' t)
  let ?in = "\<lambda>w. w\<lparr>TickNumber := number t, TickInputs := tick_inputs t\<rparr>"
  have "same_world rdet (?in (app s)) (?in (app s'))"
    using 1 by (simp add: world_det_def same_world_def)
  then have "rel_option (same_world rdet) (run_schedule B (?in (app s))) (run_schedule B (?in (app s')))"
    by (rule schedule_det) simp
  then show ?case
    using \<open>same_world rdet (?in (app s)) (?in (app s'))\<close>
    by (cases "run_schedule B (?in (app s))"; cases "run_schedule B (?in (app s'))")
      (simp_all add: bevy_advance_def world_det_same)
next
  case (2 s)
  have "same_world rdet (app (fst (bevy_publish B s))) (app s)"
    using b_publish_det [of "app s" "bevy_value s"] by (simp add: bevy_publish_def split_beta)
  then show ?case by (simp add: world_det_same)
next
  case (3 s)
  have "same_world rdet (app (bevy_finish_tick B s)) (app s)"
    using b_finish_det [of "app s" "bevy_value s"] by (simp add: bevy_finish_tick_def split_beta)
  then show ?case by (simp add: world_det_same)
next
  case (4 s s')
  then show ?case by (simp add: bevy_current_tick_def world_det_def)
next
  case (5 s s')
  then show ?case using b_hash_det by (simp add: bevy_state_hash_def world_det_same)
qed

end
