(* ===== verification/Garden_Game.thy ===== *)
theory Garden_Game
  imports Garden_Rules Bevy_Adapter
begin

text \<open>
  \<^verbatim>\<open>examples/power-garden/src/simulation.rs\<close>: the power garden as a Bevy game.  The world's
  resources are the board (absent until \<open>build\<close> inserts it; using an absent resource
  panics) and the cosmetic effects of the tick; the game value is the publication cell.
\<close>

section \<open>The game\<close>

record rotation_effect =
  effect_cell :: u32
  effect_participant :: participant_id

record snapshot =
  snap_tick :: u64
  snap_board :: board
  snap_effects :: "rotation_effect list"

record garden_resources =
  Puzzle :: "board option"
  Effects :: "rotation_effect list"

type_synonym garden_world = "(rotate, garden_resources) world"

definition garden_build :: "initialization \<Rightarrow> garden_world \<Rightarrow> garden_world session_result" where
  "garden_build i w =
     (case board_new i of
        None \<Rightarrow> Inl (Worker ''simulation worker panicked'')
      | Some (Inl e) \<Rightarrow> Inl (Simulation_Error ''invalid board'')
      | Some (Inr b) \<Rightarrow> Inr (w\<lparr>resources := \<lparr>Puzzle = Some b, Effects = []\<rparr>\<rparr>))"

fun rotate_inputs ::
  "rotate game_input list \<Rightarrow> board \<Rightarrow> rotation_effect list \<Rightarrow> (board \<times> rotation_effect list) option" where
  "rotate_inputs [] b es = Some (b, es)"
| "rotate_inputs (i # is) b es =
     Option.bind (rotate_cell (input_command i) b) (\<lambda>(b, ok).
     rotate_inputs is b
       (if ok then es @ [\<lparr>effect_cell = cell (input_command i), effect_participant = input_participant i\<rparr>]
        else es))"

definition apply_rotations :: "garden_world \<Rightarrow> garden_world option" where
  "apply_rotations w =
     Option.bind (Puzzle (resources w)) (\<lambda>b.
     Option.bind (rotate_inputs (TickInputs w) b (Effects (resources w))) (\<lambda>(b, es).
     Some (w\<lparr>resources := \<lparr>Puzzle = Some b, Effects = es\<rparr>\<rparr>)))"

definition garden_state_hash :: "garden_world \<Rightarrow> u64 option" where
  "garden_state_hash w = map_option (\<lambda>b. board_state_hash b (TickNumber w)) (Puzzle (resources w))"

definition garden_publish ::
  "garden_world \<Rightarrow> snapshot option \<Rightarrow> garden_world \<times> snapshot option \<times> unit session_result" where
  "garden_publish w p =
     (case Puzzle (resources w) of
        None \<Rightarrow> (w, p, Inl (Worker ''simulation worker panicked''))
      | Some b \<Rightarrow>
          (w, Some \<lparr>snap_tick = TickNumber w, snap_board = b, snap_effects = Effects (resources w)\<rparr>, Inr ()))"

definition garden_finish_tick :: "garden_world \<Rightarrow> snapshot option \<Rightarrow> garden_world \<times> snapshot option" where
  "garden_finish_tick w p = (w\<lparr>resources := (resources w)\<lparr>Effects := []\<rparr>\<rparr>, p)"

definition power_garden :: "(rotate, initialization, garden_resources, snapshot option) bevy_game" where
  "power_garden =
     \<lparr>B_ID = [0x70, 0x6F, 0x77, 0x65, 0x72, 0x2D, 0x67, 0x61, 0x72, 0x64, 0x65, 0x6E, 0x2D, 0x76, 0x30, 0x31],
      B_VERSION = 2,
      b_command_wire = rotate_wire,
      b_initialization_wire = initialization_wire_pg,
      game_value = None,
      empty_resources = \<lparr>Puzzle = None, Effects = []\<rparr>,
      build = garden_build,
      run_schedule = apply_rotations,
      b_state_hash = garden_state_hash,
      b_publish = garden_publish,
      b_finish_tick = garden_finish_tick\<rparr>"

lemma power_garden_sel [simp]:
  "run_schedule power_garden = apply_rotations" "b_state_hash power_garden = garden_state_hash"
  "b_publish power_garden = garden_publish" "b_finish_tick power_garden = garden_finish_tick"
  "build power_garden = garden_build" "b_command_wire power_garden = rotate_wire"
  "b_initialization_wire power_garden = initialization_wire_pg"
  by (simp_all add: power_garden_def)

section \<open>The garden is a game of the framework\<close>

lemma rotate_inputs_board:
  "map_option fst (rotate_inputs is b es) = map_option fst (rotate_inputs is b fs)"
proof (induction "is" arbitrary: b es fs)
  case (Cons i "is")
  show ?case
  proof (cases "rotate_cell (input_command i) b")
    case (Some p)
    obtain b1 ok where "p = (b1, ok)" by (cases p)
    then show ?thesis using Some by (auto intro: Cons.IH)
  qed simp
qed simp

lemma apply_rotations_det:
  assumes "same_world Puzzle w w'" "TickInputs w = TickInputs w'"
  shows "rel_option (same_world Puzzle) (apply_rotations w) (apply_rotations w')"
proof (cases "Puzzle (resources w')")
  case None
  then show ?thesis using assms by (simp add: apply_rotations_def same_world_def)
next
  case (Some b)
  have "map_option fst (rotate_inputs (TickInputs w') b (Effects (resources w))) =
      map_option fst (rotate_inputs (TickInputs w') b (Effects (resources w')))"
    by (rule rotate_inputs_board)
  then show ?thesis
    using assms Some
    by (cases "rotate_inputs (TickInputs w') b (Effects (resources w))";
        cases "rotate_inputs (TickInputs w') b (Effects (resources w'))")
      (auto simp: apply_rotations_def same_world_def)
qed

interpretation garden: deterministic_bevy_game power_garden Puzzle
proof (unfold_locales, goal_cases)
  case (1 w w')
  then show ?case by (simp add: apply_rotations_det)
next
  case (2 w p)
  then show ?case by (simp add: same_world_def garden_publish_def split: option.split)
next
  case (3 w p)
  then show ?case by (simp add: same_world_def garden_finish_tick_def)
next
  case (4 w w')
  then show ?case by (simp add: same_world_def garden_state_hash_def)
qed

section \<open>A session of the garden never panics\<close>

text \<open>A simulation whose board keeps its invariant.\<close>

definition garden_sim_ok :: "(rotate, garden_resources, snapshot option) bevy_simulation \<Rightarrow> bool" where
  "garden_sim_ok s \<longleftrightarrow> (\<exists>b. Puzzle (resources (app s)) = Some b \<and> board_ok b)"

lemma rotate_inputs_ok:
  "board_ok b \<Longrightarrow> unat (moves (puzzle b)) \<le> m \<Longrightarrow>
     \<exists>b' fs. rotate_inputs is b es = Some (b', es @ fs) \<and> board_ok b' \<and>
       moves (puzzle b') = moves (puzzle b) + of_nat (length fs)"
proof (induction "is" arbitrary: b es m)
  case (Cons i "is")
  show ?case
  proof (cases "turnable b (unat (cell (input_command i)))")
    case True
    let ?e = "\<lparr>effect_cell = cell (input_command i), effect_participant = input_participant i\<rparr>"
    obtain b1 where b1: "rotate_cell (input_command i) b = Some (b1, True)" "board_ok b1"
      "moves (puzzle b1) = moves (puzzle b) + 1"
      using rotate_cell_effect [OF Cons.prems(1), of "input_command i"] True by auto
    obtain b' fs where "rotate_inputs is b1 (es @ [?e]) = Some (b', (es @ [?e]) @ fs)" "board_ok b'"
      "moves (puzzle b') = moves (puzzle b1) + of_nat (length fs)"
      using Cons.IH [OF b1(2) order_refl, of "es @ [?e]"] by blast
    then show ?thesis
      using b1 by (intro exI [of _ b'] exI [of _ "?e # fs"]) (simp add: add.assoc)
  next
    case False
    then have "rotate_cell (input_command i) b = Some (b, False)"
      using rotate_cell_effect [OF Cons.prems(1), of "input_command i"] by simp
    then show ?thesis using Cons.IH [OF Cons.prems] by simp
  qed
qed simp

lemma garden_advance_ok:
  assumes "garden_sim_ok s"
  shows "\<exists>s'. bevy_advance power_garden t s = (s', Inr ()) \<and> garden_sim_ok s'"
proof -
  obtain b where b: "Puzzle (resources (app s)) = Some b" "board_ok b"
    using assms by (auto simp: garden_sim_ok_def)
  obtain b' fs where "rotate_inputs (tick_inputs t) b (Effects (resources (app s))) =
      Some (b', Effects (resources (app s)) @ fs)" "board_ok b'"
    using rotate_inputs_ok [OF b(2) order_refl] by blast
  then show ?thesis
    using b(1) by (simp add: bevy_advance_def apply_rotations_def garden_sim_ok_def)
qed

lemma garden_hooks_ok:
  "garden_sim_ok s \<Longrightarrow> garden_sim_ok (bevy_finish_tick power_garden s)"
  "garden_sim_ok s \<Longrightarrow> \<exists>s'. bevy_publish power_garden s = (s', Inr ()) \<and> garden_sim_ok s'"
  by (auto simp: garden_sim_ok_def bevy_finish_tick_def bevy_publish_def garden_finish_tick_def
      garden_publish_def)

lemma garden_create_ok:
  assumes "bevy_create power_garden i nanos = Inr s"
  shows "garden_sim_ok s" "TickNumber (app s) = 0"
  using assms board_new_Inr(1) [of i]
  by (auto simp: bevy_create_def garden_build_def res_simps garden_sim_ok_def split: option.splits sum.splits)

abbreviation garden_session :: "(rotate, garden_resources, snapshot option) bevy_simulation adapter session_sim" where
  "garden_session \<equiv> adapter_sim (game_adapter power_garden) infallible"

definition garden_adapter_ok ::
  "(rotate, garden_resources, snapshot option) bevy_simulation adapter \<Rightarrow> bool" where
  "garden_adapter_ok a \<longleftrightarrow> (\<exists>g. ad_simulation a = Some g \<and> garden_sim_ok g)"

lemma apply_rotations_tick: "apply_rotations w = Some w' \<Longrightarrow> TickNumber w' = TickNumber w"
  by (auto simp: apply_rotations_def bind_eq_Some_conv)

lemma garden_advance_tick: "bevy_advance power_garden t s = (s', Inr ()) \<Longrightarrow> TickNumber (app s') = number t"
  by (auto simp: bevy_advance_def Let_def dest!: apply_rotations_tick split: option.splits)

lemma garden_hooks_tick:
  "TickNumber (app (bevy_finish_tick power_garden s)) = TickNumber (app s)"
  "bevy_publish power_garden s = (s', res) \<Longrightarrow> TickNumber (app s') = TickNumber (app s)"
  by (auto simp: bevy_finish_tick_def bevy_publish_def garden_finish_tick_def garden_publish_def
      split: option.splits)

lemma garden_tick:
  assumes "garden_adapter_ok a" "decode_inputs rotate_wire infallible (inputs adv) = Inr cs"
    and "unat (tick adv) = Suc (unat (sim_current_tick garden_session a))"
  shows "\<exists>a'. advance_tick garden_session adv phase a = (a', Inr ()) \<and> garden_adapter_ok a' \<and>
    sim_current_tick garden_session a' = tick adv"
proof -
  obtain g where g: "ad_simulation a = Some g" "garden_sim_ok g"
    using assms(1) by (auto simp: garden_adapter_ok_def)
  obtain g1 where g1: "bevy_advance power_garden \<lparr>number = tick adv, tick_inputs = cs\<rparr> g = (g1, Inr ())"
    "garden_sim_ok g1" "TickNumber (app g1) = tick adv"
    using garden_advance_ok [OF g(2)] garden_advance_tick by fastforce
  let ?a1 = "a\<lparr>ad_simulation := Some g1\<rparr>"
  have adv: "sim_advance garden_session adv a = (?a1, Inr ())"
    using assms(2) g(1) g1(1) by (simp add: adapter_advance_def infallible_def)
  obtain g2 where g2: "if phase = Live then sim_publish garden_session ?a1 = (?a1\<lparr>ad_simulation := Some g2\<rparr>, Inr ())
      else ?a1\<lparr>ad_simulation := Some g2\<rparr> = ?a1" "garden_sim_ok g2" "TickNumber (app g2) = tick adv"
  proof (cases "phase = Live")
    case True
    obtain g2 where g2: "bevy_publish power_garden g1 = (g2, Inr ())" "garden_sim_ok g2"
      using garden_hooks_ok(2) [OF g1(2)] by blast
    then have "sim_publish garden_session ?a1 = (?a1\<lparr>ad_simulation := Some g2\<rparr>, Inr ())"
      by (simp add: adapter_publish_def)
    then show ?thesis using True g2 g1(3) garden_hooks_tick(2) [OF g2(1)] by (intro that [of g2]) simp_all
  next
    case False
    then show ?thesis using g1 by (intro that [of g1]) simp_all
  qed
  let ?g3 = "bevy_finish_tick power_garden g2"
  have fin: "sim_finish_tick garden_session (?a1\<lparr>ad_simulation := Some g2\<rparr>) = ?a1\<lparr>ad_simulation := Some ?g3\<rparr>"
    by (simp add: adapter_finish_tick_def)
  have "sim_current_tick garden_session ?a1 = tick adv"
    using g1(3) by (simp add: adapter_current_tick_def bevy_current_tick_def)
  then have "advance_tick garden_session adv phase a = (?a1\<lparr>ad_simulation := Some ?g3\<rparr>, Inr ())"
    unfolding advance_tick_Inr using assms(3) adv g2(1) fin by metis
  moreover have "garden_sim_ok ?g3" "TickNumber (app ?g3) = tick adv"
    using garden_hooks_ok(1) [OF g2(2)] g2(3) by (simp_all add: garden_hooks_tick)
  ultimately show ?thesis
    by (intro exI [of _ "?a1\<lparr>ad_simulation := Some ?g3\<rparr>"])
      (simp add: garden_adapter_ok_def adapter_current_tick_def bevy_current_tick_def)
qed

lemma garden_ticks:
  "garden_adapter_ok a \<Longrightarrow>
   \<forall>adv \<in> set advs. \<exists>cs. decode_inputs rotate_wire infallible (inputs adv) = Inr cs \<Longrightarrow>
   \<forall>k < length advs. unat (tick (advs ! k)) = unat (sim_current_tick garden_session a) + Suc k \<Longrightarrow>
   \<exists>a'. advance_all garden_session phase advs a = (a', Inr ()) \<and> garden_adapter_ok a'"
proof (induction advs arbitrary: a)
  case (Cons adv advs)
  obtain cs where cs: "decode_inputs rotate_wire infallible (inputs adv) = Inr cs" using Cons.prems(2) by auto
  have t: "unat (tick adv) = Suc (unat (sim_current_tick garden_session a))" using Cons.prems(3) by force
  obtain a1 where a1: "advance_tick garden_session adv phase a = (a1, Inr ())" "garden_adapter_ok a1"
    "sim_current_tick garden_session a1 = tick adv"
    using garden_tick [OF Cons.prems(1) cs t] by blast
  have "\<forall>k < length advs. unat (tick (advs ! k)) = unat (sim_current_tick garden_session a1) + Suc k"
  proof (intro allI impI)
    fix k assume "k < length advs"
    then have "unat (tick ((adv # advs) ! Suc k)) = unat (sim_current_tick garden_session a) + Suc (Suc k)"
      using Cons.prems(3) by (metis Suc_less_eq length_Cons)
    then show "unat (tick (advs ! k)) = unat (sim_current_tick garden_session a1) + Suc k"
      using t a1(3) by simp
  qed
  with Cons.IH [OF a1(2)] Cons.prems(2) obtain a' where
    "advance_all garden_session phase advs a1 = (a', Inr ())" "garden_adapter_ok a'" by auto
  then show ?case using a1(1) by simp
qed simp

text \<open>C32. A garden session never fails: once the adapter has accepted a setup, every consecutive
  sequence of records whose commands decode is executed to the end, live or in replay,
  without an error or a panic, and leaves a board that keeps its invariant.\<close>

theorem garden_session_never_fails:
  assumes "sim_initialize garden_session h (adapter_new h0) = (a, Inr ())"
    and "\<forall>adv \<in> set advs. \<exists>cs. decode_inputs rotate_wire infallible (inputs adv) = Inr cs"
    and "\<forall>k < length advs. unat (tick (advs ! k)) = Suc k"
  shows "\<exists>a'. advance_all garden_session phase advs a = (a', Inr ()) \<and> garden_adapter_ok a'"
proof -
  obtain i g where g: "bevy_create power_garden i (unat (tick_nanos h)) = Inr g" "ad_simulation a = Some g"
    using assms(1)
    by (auto simp: adapter_initialize_def adapter_new_def codec_result_def and_then_Inr map_err_Inr
        split: sum.splits if_splits)
  then have a: "garden_adapter_ok a" "sim_current_tick garden_session a = 0"
    using garden_create_ok [OF g(1)]
    by (simp_all add: garden_adapter_ok_def adapter_current_tick_def bevy_current_tick_def)
  then show ?thesis using garden_ticks [OF a(1) assms(2)] assms(3) by simp
qed


definition garden_header :: replay_header where
  "garden_header =
     replay_header_new (B_ID power_garden) 2 33333333 (canon initialization_shape default_initialization)"

definition garden_record :: tick_advance where
  "garden_record = \<lparr>tick = 1, inputs = [\<lparr>participant = Remote 1, payload = canon rotate_shape \<lparr>cell = 7\<rparr>\<rparr>]\<rparr>"

lemma garden_record_decodes:
  "decode_inputs rotate_wire infallible (inputs garden_record) =
     Inr [\<lparr>input_participant = Remote 1, input_command = \<lparr>cell = 7\<rparr>\<rparr>]"
proof -
  have s: "sendable rotate_shape \<lparr>cell = 7\<rparr>" by code_simp
  have "encode rotate_wire infallible \<lparr>cell = 7\<rparr> = Inr (canon rotate_shape \<lparr>cell = 7\<rparr>)"
    by (subst rotate.encode_Inr [OF s])
      (simp add: within_budget_def rotate_shape_def construct_shape_def and_field_shape_def no_fields_shape_def
        scalar_shape_def max_payload_bytes_def max_allocation_bytes_def max_depth_def)
  then have "decode rotate_wire infallible (canon rotate_shape \<lparr>cell = 7\<rparr>) = Inr \<lparr>cell = 7\<rparr>"
    by (rule rotate.roundtrip [OF s])
  then show ?thesis by (simp add: garden_record_def codec_result_def)
qed

lemma default_encodes:
  "sendable initialization_shape default_initialization"
  "encode initialization_wire_pg infallible default_initialization =
     Inr (canon initialization_shape default_initialization)"
proof -
  have "sendable tile_shape t" for t
    by (simp add: tile_shape_def construct_shape_def and_field_shape_def no_fields_shape_def scalar_shape_def
        enum_shape_def kind_shapes_def kind_index_def kind_arm_sendable split: kind.split)
  then have "list_all (sendable tile_shape) (tiles default_initialization)" by (simp add: list_all_iff)
  moreover have len: "length (tiles default_initialization) = 25" by code_simp
  ultimately show s: "sendable initialization_shape default_initialization"
    by (simp add: initialization_shape_def construct_shape_def and_field_shape_def no_fields_shape_def
        scalar_shape_def vec_shape_def)
  have t: "length (canon tile_shape t) = 3" "heap_cost tile_shape t = 0" "nesting tile_shape t = 0" for t
    by (simp_all add: tile_shape_def construct_shape_def and_field_shape_def no_fields_shape_def scalar_shape_def
        enum_shape_def kind_shapes_def kind_arm_shape_def kind_index_def split: kind.split)
  have z: "max_list (map (nesting tile_shape) ts) = 0" for ts
    by (induction ts) (simp_all add: t(3))
  have m: "mem_size tile_wire = 3" by (simp add: tile_wire_def construct_wire_def)
  have "length (concat (map (canon tile_shape) ts)) = 3 * length ts" for ts
    by (induction ts) (simp_all add: t(1))
  then have "length (canon initialization_shape default_initialization) = 81"
    "heap_cost initialization_shape default_initialization = 75"
    "nesting initialization_shape default_initialization = 1"
    using len m
    by (simp_all add: initialization_shape_def construct_shape_def and_field_shape_def no_fields_shape_def
        scalar_shape_def vec_shape_def z t(2) sum_list_triv map_replicate_const)
  then have "within_budget initialization_shape default_initialization"
    using s by (simp add: within_budget_def max_payload_bytes_def max_allocation_bytes_def max_depth_def)
  then show "encode initialization_wire_pg infallible default_initialization =
      Inr (canon initialization_shape default_initialization)"
    by (simp add: initialization_pg.encode_Inr [OF s])
qed

lemma default_decodes:
  "decode initialization_wire_pg infallible (canon initialization_shape default_initialization) =
     Inr default_initialization"
  "validate initialization_wire_pg infallible (canon initialization_shape default_initialization) = Inr ()"
  using initialization_pg.roundtrip [OF default_encodes] encode_validates [OF default_encodes(2)] by simp_all

lemma garden_initializes: "\<exists>a. sim_initialize garden_session garden_header (adapter_new garden_header) = (a, Inr ())"
proof -
  obtain b where b: "board_new default_initialization = Some (Inr b)" using default_board by blast
  have v: "validate_header (game_adapter power_garden) infallible garden_header = Inr ()"
    using default_decodes(2)
    by (simp add: validate_header_def garden_header_def replay_header_new_def power_garden_def codec_result_def
        validate_tick_duration_def)
  have "initialization garden_header = canon initialization_shape default_initialization"
    by (simp add: garden_header_def replay_header_new_def)
  then show ?thesis
    using v default_decodes(1) b
    by (simp add: adapter_initialize_def adapter_new_def codec_result_def bevy_create_def garden_build_def
        bevy_current_tick_def)
qed

theorem garden_session_never_fails_witness:
  "\<exists>a a'. sim_initialize garden_session garden_header (adapter_new garden_header) = (a, Inr ()) \<and>
     advance_all garden_session Replay [garden_record] a = (a', Inr ()) \<and> garden_adapter_ok a'"
proof -
  obtain a where a: "sim_initialize garden_session garden_header (adapter_new garden_header) = (a, Inr ())"
    using garden_initializes by blast
  have "\<forall>adv \<in> set [garden_record]. \<exists>cs. decode_inputs rotate_wire infallible (inputs adv) = Inr cs"
    by (simp add: garden_record_decodes)
  moreover have "\<forall>k < length [garden_record]. unat (tick ([garden_record] ! k)) = Suc k"
    by (simp add: garden_record_def)
  ultimately show ?thesis using garden_session_never_fails [OF a] a by blast
qed

section \<open>What a tick publishes\<close>

text \<open>
  What the commands of a tick do to a board, by the rules: a command for an unfinished board's
  wire turns that tile, counts a move and leaves an effect with its cell and sender; any other
  command leaves nothing.
\<close>

inductive plays :: "board \<Rightarrow> rotate game_input list \<Rightarrow> rotation_effect list \<Rightarrow> board \<Rightarrow> bool" where
  no_command: "plays b [] [] b"
| accepted: "turnable b (unat (cell (input_command i))) \<Longrightarrow>
    pz_tiles (puzzle b1) = (pz_tiles (puzzle b))[unat (cell (input_command i)) :=
      turn (pz_tiles (puzzle b) ! unat (cell (input_command i)))] \<Longrightarrow>
    moves (puzzle b1) = moves (puzzle b) + 1 \<Longrightarrow> board_ok b1 \<Longrightarrow> plays b1 is es b' \<Longrightarrow>
    plays b (i # is) (\<lparr>effect_cell = cell (input_command i), effect_participant = input_participant i\<rparr> # es) b'"
| refused: "\<not> turnable b (unat (cell (input_command i))) \<Longrightarrow> plays b is es b' \<Longrightarrow> plays b (i # is) es b'"

lemma rotate_inputs_plays:
  "board_ok b \<Longrightarrow> rotate_inputs is b fs = Some (b', es) \<Longrightarrow>
     \<exists>new. es = fs @ new \<and> plays b is new b' \<and> board_ok b' \<and>
       moves (puzzle b') = moves (puzzle b) + of_nat (length new)"
proof (induction "is" arbitrary: b fs)
  case Nil
  then show ?case by (simp add: plays.no_command)
next
  case (Cons i "is")
  let ?j = "unat (cell (input_command i))"
    and ?e = "\<lparr>effect_cell = cell (input_command i), effect_participant = input_participant i\<rparr>"
  show ?case
  proof (cases "turnable b ?j")
    case True
    then obtain b1 where b1: "rotate_cell (input_command i) b = Some (b1, True)" "board_ok b1"
      "pz_tiles (puzzle b1) = (pz_tiles (puzzle b))[?j := turn (pz_tiles (puzzle b) ! ?j)]"
      "moves (puzzle b1) = moves (puzzle b) + 1"
      using rotate_cell_effect [OF Cons.prems(1), of "input_command i"] by auto
    then obtain new where n: "es = (fs @ [?e]) @ new" "plays b1 is new b'" "board_ok b'"
      "moves (puzzle b') = moves (puzzle b1) + of_nat (length new)"
      using Cons.IH [OF b1(2), of "fs @ [?e]"] Cons.prems(2) by auto
    show ?thesis
      using n plays.accepted [OF True b1(3,4,2) n(2)] b1(4)
      by (intro exI [of _ "?e # new"]) (simp add: add.assoc)
  next
    case False
    then have "rotate_cell (input_command i) b = Some (b, False)"
      using rotate_cell_effect [OF Cons.prems(1), of "input_command i"] by simp
    then have "rotate_inputs is b fs = Some (b', es)" using Cons.prems(2) by simp
    from Cons.IH [OF Cons.prems(1) this] plays.refused [where b = b and i = i, OF False]
    show ?thesis by blast
  qed
qed

text \<open>Between two ticks the board keeps its invariant and no effect is left over.\<close>

definition between_ticks :: "(rotate, garden_resources, snapshot option) bevy_simulation \<Rightarrow> bool" where
  "between_ticks g \<longleftrightarrow> garden_sim_ok g \<and> Effects (resources (app g)) = []"

text \<open>The step from a board to the next by the tick's commands, and what is published of it.\<close>

definition garden_step ::
  "tick_advance \<Rightarrow> tick_phase \<Rightarrow> (rotate, garden_resources, snapshot option) bevy_simulation \<Rightarrow>
   (rotate, garden_resources, snapshot option) bevy_simulation \<Rightarrow> bool" where
  "garden_step adv phase g g' \<longleftrightarrow> (\<exists>b cs b' es.
     Puzzle (resources (app g)) = Some b \<and> board_ok b \<and>
     decode_inputs rotate_wire infallible (inputs adv) = Inr cs \<and> plays b cs es b' \<and> board_ok b' \<and>
     moves (puzzle b') = moves (puzzle b) + of_nat (length es) \<and> Puzzle (resources (app g')) = Some b' \<and>
     bevy_value g' = (if phase = Live then Some \<lparr>snap_tick = tick adv, snap_board = b', snap_effects = es\<rparr>
       else bevy_value g))"

lemma bevy_advance_step:
  assumes "bevy_advance power_garden t g = (g1, Inr ())" "between_ticks g"
  shows "\<exists>b b' es. Puzzle (resources (app g)) = Some b \<and> board_ok b \<and> plays b (tick_inputs t) es b' \<and> board_ok b' \<and>
    moves (puzzle b') = moves (puzzle b) + of_nat (length es) \<and>
    TickNumber (app g1) = number t \<and> resources (app g1) = \<lparr>Puzzle = Some b', Effects = es\<rparr> \<and>
    bevy_value g1 = bevy_value g"
proof -
  obtain b where b: "Puzzle (resources (app g)) = Some b" "board_ok b" "Effects (resources (app g)) = []"
    using assms(2) by (auto simp: between_ticks_def garden_sim_ok_def)
  obtain b' es where r: "rotate_inputs (tick_inputs t) b [] = Some (b', es)"
    "TickNumber (app g1) = number t" "resources (app g1) = \<lparr>Puzzle = Some b', Effects = es\<rparr>"
    "bevy_value g1 = bevy_value g"
    using assms(1) b
    by (cases "rotate_inputs (tick_inputs t) b []") (auto simp: bevy_advance_def apply_rotations_def Let_def)
  from rotate_inputs_plays [OF b(2) r(1)] show ?thesis using b r(2-4) by auto
qed

lemma tick_step:
  assumes "ad_simulation a = Some g" "between_ticks g"
    and "advance_tick garden_session adv phase a = (a', Inr ())"
  shows "\<exists>g'. ad_simulation a' = Some g' \<and> between_ticks g' \<and> garden_step adv phase g g'"
proof -
  obtain s1 s2 where s: "sim_advance garden_session adv a = (s1, Inr ())"
    "if phase = Live then sim_publish garden_session s1 = (s2, Inr ()) else s2 = s1"
    "a' = sim_finish_tick garden_session s2"
    using assms(3) unfolding advance_tick_Inr by blast
  obtain cs g1 where c: "decode_inputs rotate_wire infallible (inputs adv) = Inr cs"
    "bevy_advance power_garden \<lparr>number = tick adv, tick_inputs = cs\<rparr> g = (g1, Inr ())"
    "s1 = a\<lparr>ad_simulation := Some g1\<rparr>"
    using s(1) assms(1) by (auto simp: adapter_advance_def infallible_def split_beta prod_eq_iff split: sum.splits)
  obtain b b' es where r: "Puzzle (resources (app g)) = Some b" "board_ok b" "plays b cs es b'" "board_ok b'"
    "moves (puzzle b') = moves (puzzle b) + of_nat (length es)"
    "TickNumber (app g1) = tick adv" "resources (app g1) = \<lparr>Puzzle = Some b', Effects = es\<rparr>" "bevy_value g1 = bevy_value g"
    using bevy_advance_step [OF c(2) assms(2)] by auto
  show ?thesis
    using s(2,3) c r
    by (cases "phase = Live")
      (auto simp: adapter_publish_def adapter_finish_tick_def bevy_publish_def bevy_finish_tick_def
        garden_publish_def garden_finish_tick_def garden_step_def between_ticks_def garden_sim_ok_def)
qed

lemma ticks_between:
  "advance_all garden_session phase advs a = (a', Inr ()) \<Longrightarrow> ad_simulation a = Some g \<Longrightarrow> between_ticks g \<Longrightarrow>
     \<exists>g'. ad_simulation a' = Some g' \<and> between_ticks g'"
proof (induction advs arbitrary: a g)
  case (Cons adv advs)
  obtain a1 where a1: "advance_tick garden_session adv phase a = (a1, Inr ())"
    "advance_all garden_session phase advs a1 = (a', Inr ())"
    using Cons.prems(1) by (auto split: prod.splits sum.splits)
  from tick_step [OF Cons.prems(2,3) a1(1)] Cons.IH [OF a1(2)] show ?case by blast
qed simp

lemma initialized_between:
  assumes "sim_initialize garden_session h (adapter_new h0) = (a, Inr ())"
  obtains g where "ad_simulation a = Some g" "between_ticks g"
proof -
  obtain i g where g: "bevy_create power_garden i (unat (tick_nanos h)) = Inr g" "ad_simulation a = Some g"
    using assms
    by (auto simp: adapter_initialize_def adapter_new_def codec_result_def and_then_Inr map_err_Inr
        split: sum.splits if_splits)
  from g(1) have "Effects (resources (app g)) = []"
    by (auto simp: bevy_create_def garden_build_def res_simps split: option.splits sum.splits)
  then show ?thesis using that [OF g(2)] garden_create_ok(1) [OF g(1)] by (simp add: between_ticks_def)
qed

text \<open>C33. What the garden publishes is the tick: after any executed records, live or in replay, the
  next live tick publishes its number, the board its commands led to by the rules, and, in
  order, the cell and the sender of exactly the commands that turned a tile, each of which
  counts one move; a replayed tick publishes nothing.\<close>

theorem tick_publishes_its_rotations:
  assumes "sim_initialize garden_session h (adapter_new h0) = (a0, Inr ())"
    and "advance_all garden_session before advs a0 = (a, Inr ())"
    and "advance_tick garden_session adv phase a = (a', Inr ())"
  shows "\<exists>g g' b cs b' es. ad_simulation a = Some g \<and> ad_simulation a' = Some g' \<and>
    Puzzle (resources (app g)) = Some b \<and> board_ok b \<and>
    decode_inputs rotate_wire infallible (inputs adv) = Inr cs \<and> plays b cs es b' \<and> board_ok b' \<and>
    moves (puzzle b') = moves (puzzle b) + of_nat (length es) \<and> Puzzle (resources (app g')) = Some b' \<and>
    bevy_value g' = (if phase = Live then Some \<lparr>snap_tick = tick adv, snap_board = b', snap_effects = es\<rparr>
      else bevy_value g)"
proof -
  obtain g0 where "ad_simulation a0 = Some g0" "between_ticks g0"
    by (rule initialized_between [OF assms(1)])
  from ticks_between [OF assms(2) this] obtain g where g: "ad_simulation a = Some g" "between_ticks g" by blast
  from tick_step [OF this assms(3)] g(1) show ?thesis unfolding garden_step_def by blast
qed

theorem tick_publishes_its_rotations_witness:
  "\<exists>a a' g' sn. sim_initialize garden_session garden_header (adapter_new garden_header) = (a, Inr ()) \<and>
     advance_tick garden_session garden_record Live a = (a', Inr ()) \<and>
     ad_simulation a' = Some g' \<and> bevy_value g' = Some sn \<and> snap_tick sn = 1"
proof -
  obtain a where a: "sim_initialize garden_session garden_header (adapter_new garden_header) = (a, Inr ())"
    using garden_initializes by blast
  obtain i g where g: "bevy_create power_garden i (unat (tick_nanos garden_header)) = Inr g" "ad_simulation a = Some g"
    using a
    by (auto simp: adapter_initialize_def adapter_new_def codec_result_def and_then_Inr map_err_Inr
        split: sum.splits if_splits)
  have "garden_adapter_ok a" "sim_current_tick garden_session a = 0"
    using garden_create_ok [OF g(1)] g(2)
    by (simp_all add: garden_adapter_ok_def adapter_current_tick_def bevy_current_tick_def)
  then obtain a' where a': "advance_tick garden_session garden_record Live a = (a', Inr ())"
    using garden_tick [OF _ garden_record_decodes, of a Live] by (auto simp: garden_record_def)
  have "advance_all garden_session Live [] a = (a, Inr ())" by simp
  from tick_publishes_its_rotations [OF a this a'] obtain g' b' es where
    "ad_simulation a' = Some g'" "bevy_value g' = Some \<lparr>snap_tick = tick garden_record, snap_board = b', snap_effects = es\<rparr>"
    by auto
  then show ?thesis using a a' by (simp add: garden_record_def)
qed

end
