(* ===== verification/Bevy_Session.thy ===== *)
theory Bevy_Session
  imports Api
begin

text \<open>
  \<^verbatim>\<open>crates/synctick-bevy/src/session.rs\<close>: the slot that owns the attached session, its
  controller and guard, and the systems that keep the presentation's resources up to date.

  The mutex around the slot makes every operation atomic.  A clone of a handle's sender or
  control shares the handle's cells; a resource that holds one names the handle by its
  sending end \<open>'q\<close>.  \<open>None\<close> is the panic of a worker without a thread and without a
  result, which no operation produces.
\<close>

section \<open>The slot\<close>

record 'q session_slot =
  slot_handle :: "'q session_handle option"
  slot_result :: "unit session_result"
  generation :: u64

definition slot_shutdown :: "'q session_slot \<Rightarrow> ('q session_slot \<times> unit session_result) option" where
  "slot_shutdown s =
     (case slot_handle s of
        None \<Rightarrow> Some (s, slot_result s)
      | Some h \<Rightarrow>
          map_option (\<lambda>(h, res). (s\<lparr>slot_handle := Some h, slot_result := res\<rparr>, res)) (shutdown h))"

definition from_handle :: "'q session_handle option \<Rightarrow> 'q session_slot" where
  "from_handle h = \<lparr>slot_handle = h, slot_result = Inr (), generation = 0\<rparr>"

text \<open>A rejected handle is dropped; it is returned as its drop leaves it.\<close>

definition attach ::
  "'q session_handle \<Rightarrow> 'q session_slot \<Rightarrow>
   ('q session_slot \<times> 'q session_handle option \<times> unit session_result) option" where
  "attach h s =
     (if slot_handle s \<noteq> None
      then map_option (\<lambda>h. (s, Some h, Inl (Configuration ''session slot is occupied; detach it first'')))
             (handle_drop h)
      else Some (s\<lparr>slot_handle := Some h, slot_result := Inr (), generation := generation s + 1\<rparr>, None, Inr ()))"

definition detach :: "'q session_slot \<Rightarrow> ('q session_slot \<times> unit session_result) option" where
  "detach s =
     Option.bind (slot_shutdown s) (\<lambda>(s, res).
     case slot_handle s of
       None \<Rightarrow> Some (s, res)
     | Some h \<Rightarrow>
         map_option (\<lambda>_. (s\<lparr>slot_handle := None, generation := generation s + 1\<rparr>, res)) (handle_drop h))"

text \<open>\<open>SessionGuard::shutdown\<close>, its \<open>Drop\<close> and that of \<open>OwnedSession\<close>.\<close>

definition guard_shutdown :: "'q session_slot \<Rightarrow> ('q session_slot \<times> unit session_result) option" where
  "guard_shutdown s = slot_shutdown s"

section \<open>The presentation's resources\<close>

record 'q session_view =
  SessionState :: session_status
  SessionCommands :: "'q option"
  SessionCancellation :: "'q option"
  seen_generation :: "u64 option"

definition plugin_build :: "'q session_slot \<Rightarrow> 'q session_view" where
  "plugin_build s =
     (case slot_handle s of
        None \<Rightarrow>
          \<lparr>SessionState = Stopped, SessionCommands = None, SessionCancellation = None, seen_generation = None\<rparr>
      | Some h \<Rightarrow>
          \<lparr>SessionState = status (control h), SessionCommands = Some (commands h),
           SessionCancellation = Some (commands h), seen_generation = None\<rparr>)"

definition refresh :: "'q session_slot \<Rightarrow> 'q session_view \<Rightarrow> 'q session_view" where
  "refresh s v =
     (if seen_generation v \<noteq> Some (generation s)
      then
        (case slot_handle s of
           Some h \<Rightarrow> v\<lparr>SessionCommands := Some (commands h), SessionCancellation := Some (commands h),
                       seen_generation := Some (generation s)\<rparr>
         | None \<Rightarrow> v\<lparr>SessionCommands := None, SessionCancellation := None,
                     seen_generation := Some (generation s)\<rparr>)
      else v)"

definition observe ::
  "bool \<Rightarrow> 'q session_slot \<Rightarrow> 'q session_view \<Rightarrow> ('q session_slot \<times> 'q session_view) option" where
  "observe is_finished s v =
     (case slot_handle s of
        Some h \<Rightarrow>
          map_option (\<lambda>h. let s = s\<lparr>slot_handle := Some h\<rparr> in
            (s, refresh s (v\<lparr>SessionState := status (control h)\<rparr>))) (handle_poll is_finished h)
      | None \<Rightarrow>
          Some (s, refresh s (v\<lparr>SessionState :=
            (case slot_result s of Inr _ \<Rightarrow> Stopped | Inl e \<Rightarrow> Failed e)\<rparr>)))"

definition cancel_on_exit :: "bool \<Rightarrow> 'q session_view \<Rightarrow> 'q session_slot \<Rightarrow> 'q session_slot" where
  "cancel_on_exit exit v s =
     (case (exit, SessionCancellation v, slot_handle s) of
        (True, Some q, Some h) \<Rightarrow> if commands h = q then s\<lparr>slot_handle := Some (handle_cancel h)\<rparr> else s
      | _ \<Rightarrow> s)"

section \<open>No operation panics\<close>

definition slot_ok :: "'q session_slot \<Rightarrow> bool" where
  "slot_ok s \<longleftrightarrow> (\<forall>h. slot_handle s = Some h \<longrightarrow> worker_ok (worker h))"

lemma slot_shutdown_total:
  assumes "slot_ok s"
  shows "\<exists>s' res. slot_shutdown s = Some (s', res) \<and> slot_ok s' \<and> slot_result s' = res \<and>
    generation s' = generation s \<and> (slot_handle s' = None) = (slot_handle s = None)"
  using assms shutdown_total
  by (cases "slot_handle s") (fastforce simp: slot_shutdown_def slot_ok_def)+

lemma detach_total:
  assumes "slot_ok s"
  shows "\<exists>s' res. detach s = Some (s', res) \<and> slot_handle s' = None \<and> slot_result s' = res \<and>
    generation s' = (if slot_handle s = None then generation s else generation s + 1)"
proof -
  obtain s1 res where s1: "slot_shutdown s = Some (s1, res)" "slot_ok s1" "slot_result s1 = res"
    "generation s1 = generation s" "(slot_handle s1 = None) = (slot_handle s = None)"
    using slot_shutdown_total [OF assms] by metis
  show ?thesis
  proof (cases "slot_handle s1")
    case None
    then show ?thesis using s1 by (simp add: detach_def)
  next
    case (Some h)
    then obtain h' where "handle_drop h = Some h'"
      using s1(2) drop_total [of h] by (auto simp: slot_ok_def)
    then show ?thesis using s1 Some by (auto simp: detach_def)
  qed
qed

lemma attach_total:
  assumes "slot_ok s" "worker_ok (worker h)"
  shows "\<exists>s' r res. attach h s = Some (s', r, res) \<and> slot_ok s'"
  using assms drop_total [OF assms(2)] by (auto simp: attach_def slot_ok_def)

section \<open>Resources follow the slot\<close>

text \<open>The resources are in step with the slot, or the generation says that they are not.\<close>

definition in_step :: "'q session_slot \<Rightarrow> 'q session_view \<Rightarrow> bool" where
  "in_step s v \<longleftrightarrow> SessionCommands v = map_option commands (slot_handle s) \<and>
     SessionCancellation v = map_option commands (slot_handle s)"

datatype 'q slot_op = Attach "'q session_handle" | Detach

definition slot_step :: "'q slot_op \<Rightarrow> 'q session_slot \<Rightarrow> 'q session_slot option" where
  "slot_step op s =
     (case op of
        Attach h \<Rightarrow> map_option fst (attach h s)
      | Detach \<Rightarrow> map_option fst (detach s))"

fun slot_steps :: "'q slot_op list \<Rightarrow> 'q session_slot \<Rightarrow> 'q session_slot option" where
  "slot_steps [] s = Some s"
| "slot_steps (op # ops) s = Option.bind (slot_step op s) (slot_steps ops)"

definition changes :: "'q session_slot \<Rightarrow> 'q session_slot \<Rightarrow> nat \<Rightarrow> bool" where
  "changes s s' k \<longleftrightarrow> generation s' = generation s + of_nat k \<and>
     (k = 0 \<longrightarrow> map_option commands (slot_handle s') = map_option commands (slot_handle s))"

lemma slot_shutdown_commands:
  "slot_shutdown s = Some (s', res) \<Longrightarrow>
     map_option commands (slot_handle s') = map_option commands (slot_handle s) \<and> generation s' = generation s"
  by (auto simp: slot_shutdown_def shutdown_def handle_join_def handle_cancel_def split: option.splits)

lemma slot_step_changes: "slot_step op s = Some s' \<Longrightarrow> \<exists>k \<le> 1. changes s s' k"
proof (cases op)
  case (Attach h)
  assume "slot_step op s = Some s'"
  then show ?thesis
    using Attach
    by (cases "slot_handle s") (auto simp: slot_step_def attach_def changes_def intro: exI [of _ 0] exI [of _ 1])
next
  case Detach
  assume step: "slot_step op s = Some s'"
  then obtain res where d: "detach s = Some (s', res)" using Detach by (auto simp: slot_step_def)
  obtain s1 where s1: "slot_shutdown s = Some (s1, res)"
    using d by (auto simp: detach_def bind_eq_Some_conv split: option.splits)
  note c = slot_shutdown_commands [OF s1]
  show ?thesis
  proof (cases "slot_handle s1")
    case None
    then show ?thesis using d s1 c by (auto simp: detach_def changes_def intro: exI [of _ 0])
  next
    case (Some h)
    then have "generation s' = generation s + 1" using d s1 c by (auto simp: detach_def)
    then show ?thesis by (intro exI [of _ 1]) (simp add: changes_def)
  qed
qed

lemma slot_steps_changes: "slot_steps ops s = Some s' \<Longrightarrow> \<exists>k \<le> length ops. changes s s' k"
proof (induction ops arbitrary: s)
  case Nil
  then show ?case by (simp add: changes_def)
next
  case (Cons op ops)
  obtain s1 where s1: "slot_step op s = Some s1" "slot_steps ops s1 = Some s'"
    using Cons.prems by (auto simp: bind_eq_Some_conv)
  obtain j k where j: "j \<le> 1" "changes s s1 j" and k: "k \<le> length ops" "changes s1 s' k"
    using slot_step_changes [OF s1(1)] Cons.IH [OF s1(2)] by blast
  have "changes s s' (j + k)" using j(2) k(2) by (auto simp: changes_def)
  then show ?case using j(1) k(1) by (intro exI [of _ "j + k"]) simp
qed

lemma refresh_in_step:
  assumes "seen_generation v = Some (generation s) \<longrightarrow> in_step s v"
  shows "in_step s (refresh s v) \<and> seen_generation (refresh s v) = Some (generation s)"
  using assms by (auto simp: refresh_def in_step_def split: option.split)

lemma observe_in_step:
  assumes "observe is_finished s v = Some (s', v')"
    and "seen_generation v = Some (generation s) \<longrightarrow> in_step s v"
  shows "in_step s' v' \<and> seen_generation v' = Some (generation s') \<and>
    map_option commands (slot_handle s') = map_option commands (slot_handle s)"
proof (cases "slot_handle s")
  case None
  let ?v = "v\<lparr>SessionState := (case slot_result s of Inr _ \<Rightarrow> Stopped | Inl e \<Rightarrow> Failed e)\<rparr>"
  have "seen_generation ?v = Some (generation s) \<longrightarrow> in_step s ?v" using assms(2) by (simp add: in_step_def)
  from refresh_in_step [OF this] show ?thesis using assms(1) None by (auto simp: observe_def)
next
  case (Some h)
  then obtain h' where h': "handle_poll is_finished h = Some h'"
    "s' = s\<lparr>slot_handle := Some h'\<rparr>" "v' = refresh s' (v\<lparr>SessionState := status (control h')\<rparr>)"
    using assms(1) by (auto simp: observe_def Let_def)
  have c: "commands h' = commands h" using h'(1) by (auto simp: handle_poll_def)
  let ?v = "v\<lparr>SessionState := status (control h')\<rparr>"
  have "seen_generation ?v = Some (generation s') \<longrightarrow> in_step s' ?v"
    using assms(2) Some c by (simp add: in_step_def h'(2))
  from refresh_in_step [OF this] show ?thesis using h' c Some by simp
qed

section \<open>Properties\<close>

text \<open>C34. The presentation never talks to a session that is not attached: whatever was attached,
  rejected and detached since the last \<open>PreUpdate\<close>, in fewer than \<open>2\<^sup>6\<^sup>4\<close> operations, the next
  \<open>observe\<close> leaves the command and cancellation resources those of the attached session, and
  absent exactly when there is none.\<close>

theorem observe_catches_up:
  assumes "in_step s v" "seen_generation v = Some (generation s)" "slot_steps ops s = Some s1"
    and "length ops < 2 ^ 64" "observe is_finished s1 v = Some (s2, v')"
  shows "in_step s2 v' \<and> seen_generation v' = Some (generation s2) \<and>
    map_option commands (slot_handle s2) = map_option commands (slot_handle s1)"
proof -
  obtain k where k: "k \<le> length ops" "changes s s1 k" using slot_steps_changes [OF assms(3)] by blast
  have "seen_generation v = Some (generation s1) \<longrightarrow> in_step s1 v"
  proof
    assume "seen_generation v = Some (generation s1)"
    then have "(of_nat k :: u64) = 0" using assms(2) k(2) by (simp add: changes_def)
    then have "k = 0" using k(1) assms(4) by (simp add: word_of_nat_eq_0_iff nat_dvd_not_less) (meson dvd_imp_le leD le_less_trans neq0_conv)
    then show "in_step s1 v" using assms(1) k(2) by (simp add: changes_def in_step_def)
  qed
  from observe_in_step [OF assms(5) this] show ?thesis .
qed

text \<open>C35. The slot is never replaced and never lost: attaching to an occupied slot leaves it as it
  is and cancels and joins the incoming session; detaching cancels and joins the attached
  one, frees the slot and retains its result, which every later detach returns again.\<close>

theorem slot_lifecycle:
  assumes "slot_ok s" "slot_handle s = Some h0" "worker_ok (worker h)"
  shows "(\<exists>h' e. attach h s = Some (s, Some h', Inl e) \<and> is_cancelled (control h') \<and> terminal (worker h') \<noteq> None) \<and>
    (\<exists>h1 s' res. shutdown h0 = Some (h1, res) \<and> is_cancelled (control h1) \<and> terminal (worker h1) = Some res \<and>
       detach s = Some (s', res) \<and> slot_handle s' = None \<and> detach s' = Some (s', res))"
proof (rule conjI)
  show "\<exists>h' e. attach h s = Some (s, Some h', Inl e) \<and> is_cancelled (control h') \<and> terminal (worker h') \<noteq> None"
    using drop_total [OF assms(3)] assms(2) by (auto simp: attach_def)
  have ok: "worker_ok (worker h0)" using assms(1,2) by (simp add: slot_ok_def)
  then obtain h1 res1 where h1: "shutdown h0 = Some (h1, res1)" "terminal (worker h1) = Some res1"
    using shutdown_total by blast
  have c: "is_cancelled (control h1)"
    using h1(1) handle_join_keeps_cancel [of "handle_cancel h0"]
    by (simp add: shutdown_def handle_cancel_def cancel_def is_cancelled_def)
  obtain s' res where s': "detach s = Some (s', res)" "slot_handle s' = None" "slot_result s' = res"
    using detach_total [OF assms(1)] by blast
  have "res = res1"
    using s'(1) h1(1) assms(2) by (auto simp: detach_def slot_shutdown_def split: option.splits)
  moreover have "detach s' = Some (s', res)" using s' by (simp add: detach_def slot_shutdown_def)
  ultimately show "\<exists>h1 s' res. shutdown h0 = Some (h1, res) \<and> is_cancelled (control h1) \<and> terminal (worker h1) = Some res \<and>
       detach s = Some (s', res) \<and> slot_handle s' = None \<and> detach s' = Some (s', res)"
    using h1 c s' by blast
qed

definition running :: "nat \<Rightarrow> nat session_handle" where
  "running n = \<lparr>commands = n, control = session_control_default, worker = spawn (Returned (Inr ()))\<rparr>"

theorem observe_catches_up_witness:
  "\<exists>s v. observe False \<lparr>slot_handle = Some (running 7), slot_result = Inr (), generation = 1\<rparr>
      \<lparr>SessionState = Stopped, SessionCommands = None, SessionCancellation = None, seen_generation = Some 0\<rparr> =
      Some (s, v) \<and> SessionCommands v = Some 7"
proof -
  let ?v = "\<lparr>SessionState = Stopped, SessionCommands = None, SessionCancellation = None, seen_generation = Some 0\<rparr>"
  let ?s1 = "\<lparr>slot_handle = Some (running 7), slot_result = Inr (), generation = 1\<rparr>"
  have st: "slot_steps [Attach (running 7)] (from_handle None) = Some ?s1"
    by (simp add: slot_step_def attach_def from_handle_def)
  obtain s v where o: "observe False ?s1 ?v = Some (s, v)"
    by (auto simp: observe_def handle_poll_def poll_def Let_def)
  have "in_step s v \<and> seen_generation v = Some (generation s) \<and>
      map_option commands (slot_handle s) = map_option commands (slot_handle ?s1)"
    by (rule observe_catches_up [OF _ _ st _ o]) (simp_all add: in_step_def from_handle_def)
  then have "SessionCommands v = Some 7" by (auto simp: in_step_def running_def)
  then show ?thesis using o by blast
qed

theorem slot_lifecycle_witness:
  "\<exists>s' res. detach (from_handle (Some (running 7))) = Some (s', res) \<and> slot_handle s' = None \<and>
     detach s' = Some (s', res)"
proof -
  have "slot_ok (from_handle (Some (running 7)))" "slot_handle (from_handle (Some (running 7))) = Some (running 7)"
    "worker_ok (worker (running 8))"
    by (simp_all add: slot_ok_def from_handle_def running_def worker_ok_def spawn_def)
  from slot_lifecycle [OF this] show ?thesis by blast
qed

end
