(* ===== verification/Garden_Menu.thy ===== *)
theory Garden_Menu
  imports Bevy_Session Garden_Game
begin

text \<open>
  \<^verbatim>\<open>examples/power-garden/src/menu.rs\<close>: the state of the garden's menu, editing of its text
  fields, and starting and ending sessions from it.

  A Rust \<^verbatim>\<open>String\<close> is the list of its Unicode scalar values; its \<^verbatim>\<open>len\<close> is the number of its
  UTF-8 bytes.  The system's queries and readers are the lists of what they yield in one
  frame; an index out of range of the fields panics, which is \<open>None\<close>.  Opening a session (\<^verbatim>\<open>host\<close>, \<^verbatim>\<open>connect\<close>) starts threads and sockets: its outcome is
  the parameter \<open>opened\<close>, which \<open>open_request\<close> gives up to the spawning of the thread.
\<close>

section \<open>Text\<close>

definition utf8_len :: "nat \<Rightarrow> nat" where
  "utf8_len c = (if c < 0x80 then 1 else if c < 0x800 then 2 else if c < 0x10000 then 3 else 4)"

definition text_len :: "ustring \<Rightarrow> nat" where
  "text_len s = sum_list (map utf8_len s)"

definition is_control :: "nat \<Rightarrow> bool" where
  "is_control c \<longleftrightarrow> c < 0x20 \<or> (0x7F \<le> c \<and> c \<le> 0x9F)"

definition is_whitespace :: "nat \<Rightarrow> bool" where
  "is_whitespace c \<longleftrightarrow>
     (9 \<le> c \<and> c \<le> 13) \<or> c = 32 \<or> c = 0x85 \<or> c = 0xA0 \<or> c = 0x1680 \<or> (0x2000 \<le> c \<and> c \<le> 0x200A) \<or>
     c = 0x2028 \<or> c = 0x2029 \<or> c = 0x202F \<or> c = 0x205F \<or> c = 0x3000"

definition trim :: "ustring \<Rightarrow> ustring" where
  "trim s = rev (dropWhile is_whitespace (rev (dropWhile is_whitespace s)))"

text \<open>\<open>u16::from_str\<close>: an optional plus sign and at least one decimal digit, within range.\<close>

fun parse_digits :: "nat \<Rightarrow> ustring \<Rightarrow> nat option" where
  "parse_digits acc [] = Some acc"
| "parse_digits acc (c # cs) =
     (if 48 \<le> c \<and> c \<le> 57 \<and> acc * 10 + (c - 48) \<le> 65535 then parse_digits (acc * 10 + (c - 48)) cs else None)"

definition parse_u16 :: "ustring \<Rightarrow> u16 option" where
  "parse_u16 s =
     (let digits = (if s \<noteq> [] \<and> hd s = 43 then tl s else s)
      in if digits = [] then None else map_option word_of_nat (parse_digits 0 digits))"

definition optional_path :: "ustring \<Rightarrow> ustring option" where
  "optional_path s = (if trim s \<noteq> [] then Some (trim s) else None)"

section \<open>The menu\<close>

datatype mode = Solo | Host_Mode | Join_Mode

text \<open>\<open>snapshots\<close> names the session whose publications the menu reads by its sending end.\<close>

record 'q menu =
  mode :: mode
  field_texts :: "ustring list"
  focus :: "nat option"
  running :: bool
  rebuild :: bool
  error :: string
  snapshots :: "'q option"

definition ascii :: "string \<Rightarrow> ustring" where
  "ascii s = map of_char s"

definition menu_default :: "'q menu" where
  "menu_default =
     \<lparr>mode = Solo, field_texts = [ascii ''5000'', ascii ''127.0.0.1:5000'', [], []], focus = None,
      running = False, rebuild = True, error = '''', snapshots = None\<rparr>"

datatype action = Mode_Action mode | Field_Action nat | Start_Action | Back | Rotate_Action u32

text \<open>What a start asks the framework for; \<open>path_string\<close> is the path's bytes.\<close>

definition utf8_bytes :: "nat \<Rightarrow> nat list" where
  "utf8_bytes c =
     (if c < 0x80 then [c]
      else if c < 0x800 then [0xC0 + c div 64, 0x80 + c mod 64]
      else if c < 0x10000 then [0xE0 + c div 4096, 0x80 + c div 64 mod 64, 0x80 + c mod 64]
      else [0xF0 + c div 262144, 0x80 + c div 4096 mod 64, 0x80 + c div 64 mod 64, 0x80 + c mod 64])"

definition path_string :: "ustring \<Rightarrow> string" where
  "path_string s = map char_of (concat (map utf8_bytes s))"

datatype request =
    Connect_Request client_config
  | Host_Request "initialization server_config"

definition menu_request :: "'q menu \<Rightarrow> string + request" where
  "menu_request m =
     (if mode m = Join_Mode
      then and_then (ok_or ''Enter an address such as 127.0.0.1:5000'' (parse_socket_addr (trim (field_texts m ! 1))))
        (\<lambda>address. Inr (Connect_Request (client_config_new 1 address)))
      else
        and_then
          (if mode m = Solo then Inr 0
           else and_then (ok_or ''Port must be an integer from 1 to 65535'' (parse_u16 (trim (field_texts m ! 0))))
             (\<lambda>p. if p = 0 then Inl ''Host port must be between 1 and 65535'' else Inr p))
        (\<lambda>p. Inr (Host_Request ((server_config_new default_initialization)
           \<lparr>port := p, expected_clients := (if mode m = Host_Mode then 1 else 0),
            load_path := map_option path_string (optional_path (field_texts m ! 2)),
            record_path := map_option path_string (optional_path (field_texts m ! 3))\<rparr>))))"

text \<open>
  The framework's answer: its own checks, then the outcome \<open>spawned\<close> of starting the worker's
  thread, which the operating system decides.
\<close>

definition open_request ::
  "bincode \<Rightarrow> (nat \<Rightarrow> bool) \<Rightarrow> (string \<rightharpoonup> byte list) \<Rightarrow> source \<Rightarrow> (string \<Rightarrow> 'q session_handle session_result) \<Rightarrow>
   request \<Rightarrow> 'q session_handle session_result" where
  "open_request bc al fs file spawned r =
     (case r of
        Connect_Request c \<Rightarrow>
          and_then (connect_replica (game_adapter power_garden) c) (\<lambda>_. spawned ''session-replica'')
      | Host_Request c \<Rightarrow>
          and_then (host bc al fs file (game_adapter power_garden) c) (\<lambda>_. spawned ''session-authority''))"

text \<open>The message of an error, as its \<open>Display\<close> would print it; only that it is text matters.\<close>

type_synonym message = "session_error \<Rightarrow> string"

definition menu_start ::
  "message \<Rightarrow> (request \<Rightarrow> 'q session_handle session_result) \<Rightarrow>
   'q menu \<Rightarrow> 'q session_slot \<Rightarrow> ('q session_slot \<times> (string + 'q menu)) option" where
  "menu_start to_string opened m s =
     (case and_then (menu_request m) (\<lambda>r. map_err to_string (opened r)) of
        Inl e \<Rightarrow> Some (s, Inl e)
      | Inr h \<Rightarrow>
          map_option (\<lambda>(s, _, res).
            (s, case res of
                  Inl e \<Rightarrow> Inl (to_string e)
                | Inr _ \<Rightarrow> Inr (m\<lparr>snapshots := Some (commands h), running := True, focus := None, rebuild := True,
                                  error := ''''\<rparr>)))
            (attach h s))"

text \<open>
  One pressed button.  \<open>submitted\<close> is the outcome of \<open>SessionCommands::submit\<close>, \<open>None\<close> if the
  resource is absent.
\<close>

definition menu_action ::
  "message \<Rightarrow> (request \<Rightarrow> 'q session_handle session_result) \<Rightarrow> session_status \<Rightarrow>
   (u32 \<Rightarrow> (string + unit) option) \<Rightarrow> action \<Rightarrow> 'q menu \<times> 'q session_slot \<Rightarrow> ('q menu \<times> 'q session_slot) option" where
  "menu_action to_string opened st submitted a ms =
     (let (m, s) = ms in
      case a of
        Mode_Action md \<Rightarrow> Some (m\<lparr>mode := md, focus := None, rebuild := True\<rparr>, s)
      | Field_Action i \<Rightarrow> Some (m\<lparr>focus := Some i\<rparr>, s)
      | Start_Action \<Rightarrow>
          if running m then Some (m, s)
          else map_option (\<lambda>(s, res). case res of
                   Inl e \<Rightarrow> (m\<lparr>error := e\<rparr>, s)
                 | Inr m \<Rightarrow> (m, s))
                 (menu_start to_string opened m s)
      | Back \<Rightarrow>
          map_option (\<lambda>(s, res).
            (m\<lparr>error := (case res of Inl e \<Rightarrow> to_string e | Inr _ \<Rightarrow> ''''), running := False, rebuild := True,
               snapshots := None\<rparr>, s)) (detach s)
      | Rotate_Action c \<Rightarrow>
          if running m \<and> st = Live_Status then
            (case submitted c of
               Some (Inl e) \<Rightarrow> Some (m\<lparr>error := e\<rparr>, s)
             | _ \<Rightarrow> Some (m, s))
          else Some (m, s))"

fun menu_actions ::
  "message \<Rightarrow> (request \<Rightarrow> 'q session_handle session_result) \<Rightarrow> session_status \<Rightarrow>
   (u32 \<Rightarrow> (string + unit) option) \<Rightarrow> (bool \<times> action) list \<Rightarrow> 'q menu \<times> 'q session_slot \<Rightarrow>
   ('q menu \<times> 'q session_slot) option" where
  "menu_actions ts opened st submitted [] ms = Some ms"
| "menu_actions ts opened st submitted ((pressed, a) # as) ms =
     (if \<not> pressed then menu_actions ts opened st submitted as ms
      else Option.bind (menu_action ts opened st submitted a ms)
        (menu_actions ts opened st submitted as))"

section \<open>Editing the fields\<close>

datatype key_code = ControlLeft | ControlRight | SuperLeft | SuperRight | OtherCode nat

datatype key = Tab | Backspace | Escape | Character ustring | OtherKey nat

record keyboard_input =
  key_code :: key_code
  logical_key :: key
  key_pressed :: bool
  key_text :: "ustring option"

definition mode_fields :: "mode \<Rightarrow> nat list" where
  "mode_fields md = (case md of Solo \<Rightarrow> [2, 3] | Host_Mode \<Rightarrow> [0, 2, 3] | Join_Mode \<Rightarrow> [1])"

definition next_field :: "'q menu \<Rightarrow> nat option" where
  "next_field m =
     (let fs = mode_fields (mode m)
      in at_index fs (case Option.bind (focus m) (\<lambda>current. position (\<lambda>i. i = current) fs) of
                        None \<Rightarrow> 0
                      | Some k \<Rightarrow> (k + 1) mod length fs))"

text \<open>A change of \<open>menu.fields[index]\<close>; an index out of range panics.\<close>

definition change_field :: "nat \<Rightarrow> (ustring \<Rightarrow> ustring) \<Rightarrow> 'q menu \<Rightarrow> 'q menu option" where
  "change_field index f m =
     Option.bind (at_index (field_texts m) index) (\<lambda>value.
     map_option (\<lambda>fs. m\<lparr>field_texts := fs\<rparr>) (put_index (field_texts m) index (f value)))"

text \<open>The loop over the typed characters; it only touches the field when there is one.\<close>

fun push_chars :: "nat \<Rightarrow> ustring \<Rightarrow> 'q menu \<Rightarrow> 'q menu option" where
  "push_chars index [] m = Some m"
| "push_chars index (ch # chars) m =
     Option.bind (at_index (field_texts m) index) (\<lambda>value.
     if text_len value < 1024
     then Option.bind (change_field index (\<lambda>value. value @ [ch]) m) (push_chars index chars)
     else push_chars index chars m)"

text \<open>\<open>eq_ignore_ascii_case("a")\<close>.\<close>

definition is_letter_a :: "ustring \<Rightarrow> bool" where
  "is_letter_a s \<longleftrightarrow> s = [97] \<or> s = [65]"

definition edit_field :: "bool \<Rightarrow> keyboard_input \<Rightarrow> nat \<Rightarrow> 'q menu \<Rightarrow> 'q menu option" where
  "edit_field ctl event index m =
     (case logical_key event of
        Backspace \<Rightarrow> change_field index butlast m
      | Escape \<Rightarrow> Some (m\<lparr>focus := None\<rparr>)
      | Character txt \<Rightarrow>
          if ctl \<and> is_letter_a txt then change_field index (\<lambda>_. []) m
          else if \<not> ctl then
            (case key_text event of
               Some chars \<Rightarrow> push_chars index (filter (\<lambda>ch. \<not> is_control ch) chars) m
             | None \<Rightarrow> Some m)
          else Some m
      | _ \<Rightarrow> Some m)"

definition edit_event :: "keyboard_input \<Rightarrow> key_code list \<times> 'q menu \<Rightarrow> (key_code list \<times> 'q menu) option" where
  "edit_event event km =
     (let (keys, m) = km;
          keys = (if key_pressed event then key_code event # keys else removeAll (key_code event) keys) in
      map_option (Pair keys)
       (if \<not> key_pressed event \<or> running m then Some m
        else if logical_key event = Tab then map_option (\<lambda>field. m\<lparr>focus := Some field\<rparr>) (next_field m)
        else case focus m of
          None \<Rightarrow> Some m
        | Some index \<Rightarrow>
            edit_field (list_ex (\<lambda>k. k \<in> set keys) [ControlLeft, ControlRight, SuperLeft, SuperRight])
              event index m))"

fun edit_events :: "keyboard_input list \<Rightarrow> key_code list \<times> 'q menu \<Rightarrow> (key_code list \<times> 'q menu) option" where
  "edit_events [] km = Some km"
| "edit_events (event # events) km = Option.bind (edit_event event km) (edit_events events)"

definition edit_fields ::
  "keyboard_input list \<Rightarrow> bool \<Rightarrow> key_code list \<times> 'q menu \<Rightarrow> (key_code list \<times> 'q menu) option" where
  "edit_fields events focus_lost km =
     map_option (\<lambda>(keys, m). (if focus_lost then [] else keys, m)) (edit_events events km)"

section \<open>What editing preserves\<close>

definition field_ok :: "ustring \<Rightarrow> bool" where
  "field_ok s \<longleftrightarrow> text_len s \<le> 1027 \<and> list_all (\<lambda>c. \<not> is_control c) s"

definition menu_ok :: "'q menu \<Rightarrow> bool" where
  "menu_ok m \<longleftrightarrow> length (field_texts m) = 4 \<and> list_all field_ok (field_texts m) \<and> (\<forall>i. focus m = Some i \<longrightarrow> i < 4)"

lemma utf8_len_bounds: "1 \<le> utf8_len c" "utf8_len c \<le> 4"
  by (simp_all add: utf8_len_def)

lemma text_len_append [simp]: "text_len (s @ t) = text_len s + text_len t"
  by (simp add: text_len_def)

lemma butlast_ok: "field_ok s \<Longrightarrow> field_ok (butlast s)"
proof (cases s rule: rev_cases)
  case (snoc t c)
  assume "field_ok s"
  then show ?thesis using snoc by (simp add: field_ok_def)
qed simp

lemma push_ok: "field_ok s \<Longrightarrow> text_len s < 1024 \<Longrightarrow> \<not> is_control c \<Longrightarrow> field_ok (s @ [c])"
  using utf8_len_bounds(2) [of c] by (simp add: field_ok_def text_len_def)

text \<open>An edit changes the texts and the focus only, and keeps the menu well formed.\<close>

definition edits :: "'q menu \<Rightarrow> 'q menu \<Rightarrow> bool" where
  "edits m m' \<longleftrightarrow> menu_ok m' \<and> running m' = running m \<and> mode m' = mode m \<and> rebuild m' = rebuild m \<and>
     snapshots m' = snapshots m"

lemma edits_refl: "menu_ok m \<Longrightarrow> edits m m"
  by (simp add: edits_def)

lemma edits_trans: "edits m m1 \<Longrightarrow> edits m1 m2 \<Longrightarrow> edits m m2"
  by (simp add: edits_def)

lemma edits_ok: "edits m m' \<Longrightarrow> menu_ok m'"
  by (simp add: edits_def)

lemma change_field_ok:
  assumes "menu_ok m" "i < 4" "field_ok (field_texts m ! i) \<Longrightarrow> field_ok (f (field_texts m ! i))"
  shows "\<exists>m'. change_field i f m = Some m' \<and> edits m m'"
proof -
  have "change_field i f m = Some (m\<lparr>field_texts := (field_texts m)[i := f (field_texts m ! i)]\<rparr>)"
    using assms(1,2) by (simp add: change_field_def at_index_def put_index_def menu_ok_def)
  then show ?thesis
    using assms by (auto simp: edits_def menu_ok_def list_all_length nth_list_update)
qed

lemma push_chars_ok:
  "menu_ok m \<Longrightarrow> i < 4 \<Longrightarrow> list_all (\<lambda>c. \<not> is_control c) chars \<Longrightarrow>
     \<exists>m'. push_chars i chars m = Some m' \<and> edits m m'"
proof (induction chars arbitrary: m)
  case Nil
  then show ?case by (simp add: edits_refl)
next
  case (Cons c chars)
  have i: "at_index (field_texts m) i = Some (field_texts m ! i)"
    using Cons.prems(1,2) by (simp add: at_index_def menu_ok_def)
  show ?case
  proof (cases "text_len (field_texts m ! i) < 1024")
    case True
    obtain m1 where m1: "change_field i (\<lambda>value. value @ [c]) m = Some m1" "edits m m1"
      using change_field_ok [OF Cons.prems(1,2), of "\<lambda>value. value @ [c]"] push_ok [OF _ True] Cons.prems(3) by auto
    then obtain m' where "push_chars i chars m1 = Some m'" "edits m1 m'"
      using Cons.IH [OF edits_ok [OF m1(2)] Cons.prems(2)] Cons.prems(3) by auto
    then show ?thesis using i True m1 by (auto intro: edits_trans)
  next
    case False
    then show ?thesis using Cons i by simp
  qed
qed

lemma edit_field_ok:
  assumes "menu_ok m" "i < 4"
  shows "\<exists>m'. edit_field ctl event i m = Some m' \<and> edits m m'"
proof (cases "logical_key event")
  case Backspace
  then show ?thesis using change_field_ok [OF assms, of butlast] butlast_ok by (simp add: edit_field_def)
next
  case (Character chars)
  have e: "field_ok []" by (simp add: field_ok_def text_len_def)
  show ?thesis
    using Character edits_refl [OF assms(1)] change_field_ok [OF assms, of "\<lambda>_. []"] e
      push_chars_ok [OF assms, of "filter (\<lambda>ch. \<not> is_control ch) (the (key_text event))"]
    by (cases "key_text event") (simp_all add: edit_field_def list_all_iff)
qed (use assms in \<open>simp_all add: edit_field_def edits_def menu_ok_def\<close>)

lemma next_field_ok: "\<exists>i. next_field m = Some i \<and> i < 4 \<and> i \<in> set (mode_fields (mode m))"
proof -
  let ?fs = "mode_fields (mode m)"
  have n: "?fs \<noteq> []" "\<forall>i \<in> set ?fs. i < 4" by (auto simp: mode_fields_def split: mode.split)
  have "\<exists>i. next_field m = Some i \<and> i \<in> set ?fs"
    using n(1) by (auto simp: next_field_def Let_def at_index_def split: option.split)
  then show ?thesis using n(2) by blast
qed

lemma edit_event_ok:
  assumes "menu_ok m"
  shows "\<exists>keys' m'. edit_event event (keys, m) = Some (keys', m') \<and> edits m m'"
proof -
  obtain n where "next_field m = Some n" "n < 4" using next_field_ok [of m] by blast
  then have "edits m (m\<lparr>focus := Some n\<rparr>)" using assms by (simp add: edits_def menu_ok_def)
  then show ?thesis
    using \<open>next_field m = Some n\<close> edits_refl [OF assms] edit_field_ok [OF assms] assms
    by (cases "focus m") (auto simp: edit_event_def Let_def menu_ok_def)
qed

lemma edit_events_ok:
  "menu_ok m \<Longrightarrow> \<exists>keys' m'. edit_events events (keys, m) = Some (keys', m') \<and> edits m m'"
proof (induction events arbitrary: keys m)
  case Nil
  then show ?case by (simp add: edits_refl)
next
  case (Cons e events)
  obtain keys1 m1 where e: "edit_event e (keys, m) = Some (keys1, m1)" "edits m m1"
    using edit_event_ok [OF Cons.prems] by blast
  then obtain keys' m' where "edit_events events (keys1, m1) = Some (keys', m')" "edits m1 m'"
    using Cons.IH [OF edits_ok] by blast
  then show ?case using e by (auto intro: edits_trans)
qed

lemma edit_fields_ok:
  assumes "menu_ok m"
  shows "\<exists>keys' m'. edit_fields events focus_lost (keys, m) = Some (keys', m') \<and> edits m m'"
proof -
  obtain keys' m' where "edit_events events (keys, m) = Some (keys', m')" "edits m m'"
    using edit_events_ok [OF assms] by blast
  then show ?thesis by (intro exI [of _ "if focus_lost then [] else keys'"] exI [of _ m']) (simp add: edit_fields_def)
qed

section \<open>The menu follows the slot\<close>

definition menu_in_step :: "'q menu \<Rightarrow> 'q session_slot \<Rightarrow> bool" where
  "menu_in_step m s \<longleftrightarrow> slot_ok s \<and> (running m \<longleftrightarrow> slot_handle s \<noteq> None) \<and>
     snapshots m = map_option commands (slot_handle s)"

lemma menu_start_in_step:
  assumes "menu_in_step m s" "\<not> running m" "\<forall>r h. opened r = Inr h \<longrightarrow> worker_ok (worker h)"
  shows "\<exists>s' res. menu_start ts opened m s = Some (s', res) \<and>
    (case res of Inl e \<Rightarrow> s' = s | Inr m' \<Rightarrow> menu_in_step m' s')"
proof (cases "and_then (menu_request m) (\<lambda>r. map_err ts (opened r))")
  case (Inl e)
  then show ?thesis by (simp add: menu_start_def)
next
  case (Inr h)
  then have "worker_ok (worker h)" using assms(3) by (auto simp: and_then_Inr map_err_Inr)
  moreover have "slot_handle s = None" using assms(1,2) by (simp add: menu_in_step_def)
  ultimately show ?thesis
    using Inr by (simp add: menu_start_def attach_def menu_in_step_def slot_ok_def)
qed

lemma menu_action_in_step:
  assumes "menu_in_step m s" "\<forall>r h. opened r = Inr h \<longrightarrow> worker_ok (worker h)"
  shows "\<exists>m' s'. menu_action ts opened st submitted a (m, s) = Some (m', s') \<and> menu_in_step m' s'"
proof (cases a)
  case Start_Action
  show ?thesis
  proof (cases "running m")
    case False
    then obtain s' res where r: "menu_start ts opened m s = Some (s', res)"
      "case res of Inl e \<Rightarrow> s' = s | Inr m' \<Rightarrow> menu_in_step m' s'"
      using menu_start_in_step [OF assms(1) _ assms(2)] by blast
    then show ?thesis
      using Start_Action False assms(1) by (cases res) (simp_all add: menu_action_def menu_in_step_def)
  qed (use Start_Action assms(1) in \<open>simp add: menu_action_def\<close>)
next
  case Back
  have "slot_ok s" using assms(1) by (simp add: menu_in_step_def)
  then obtain s' res where "detach s = Some (s', res)" "slot_handle s' = None"
    using detach_total by blast
  then show ?thesis using Back by (simp add: menu_action_def menu_in_step_def slot_ok_def)
next
  case (Rotate_Action c)
  then show ?thesis
    using assms(1) by (auto simp: menu_action_def menu_in_step_def split: option.split sum.split)
qed (use assms(1) in \<open>simp_all add: menu_action_def menu_in_step_def\<close>)

lemma menu_actions_in_step:
  assumes "\<forall>r h. opened r = Inr h \<longrightarrow> worker_ok (worker h)"
  shows "menu_in_step m s \<Longrightarrow>
    \<exists>m' s'. menu_actions ts opened st submitted as (m, s) = Some (m', s') \<and> menu_in_step m' s'"
proof (induction "as" arbitrary: m s)
  case (Cons first "as")
  obtain pressed a where a: "first = (pressed, a)" by (cases first)
  show ?case
  proof (cases pressed)
    case True
    obtain m1 s1 where "menu_action ts opened st submitted a (m, s) = Some (m1, s1)" "menu_in_step m1 s1"
      using menu_action_in_step [OF Cons.prems assms] by blast
    then show ?thesis using Cons.IH [of m1 s1] a True by simp
  qed (use a Cons in simp)
qed simp

section \<open>Properties\<close>

text \<open>Editing is bounded and never panics: whatever keys arrive, a field never exceeds 1027 bytes,
  never holds a control character, and the focus stays on one of the four fields.\<close>

theorem menu_fields_bounded:
  assumes "menu_ok m"
  shows "\<exists>keys' m'. edit_fields events focus_lost (keys, m) = Some (keys', m') \<and> menu_ok m'"
  using edit_fields_ok [OF assms] edits_ok by blast

definition typed :: keyboard_input where
  "typed = \<lparr>key_code = OtherCode 9, logical_key = Character [98], key_pressed = True, key_text = Some [98, 10]\<rparr>"

definition menu_example :: "nat menu" where
  "menu_example = menu_default\<lparr>focus := Some 3\<rparr>"

theorem menu_fields_bounded_witness:
  "\<exists>keys m. edit_fields [typed] False ([], menu_example) = Some (keys, m) \<and> field_texts m ! 3 = [98] \<and> menu_ok m"
proof -
  have "list_all field_ok [ascii ''5000'', ascii ''127.0.0.1:5000'', [], []]" by code_simp
  then have "menu_ok menu_example" by (simp add: menu_ok_def menu_default_def menu_example_def)
  then obtain keys m where m: "edit_fields [typed] False ([], menu_example) = Some (keys, m)" "menu_ok m"
    using menu_fields_bounded by blast
  have "map_option (\<lambda>(_, m). field_texts m ! 3) (edit_fields [typed] False ([], menu_example)) = Some [98]"
    by (simp add: edit_fields_def edit_event_def menu_default_def edit_field_def change_field_def at_index_def
        put_index_def is_control_def text_len_def typed_def menu_example_def)
  with m show ?thesis by simp
qed

text \<open>The menu and the session slot agree: from an idle start, after any sequence of buttons
  the menu says a session is running exactly when the slot holds one, and reads the
  snapshots of that session; so starting never finds the slot occupied.\<close>

theorem menu_follows_slot:
  assumes "\<forall>r h. opened r = Inr h \<longrightarrow> worker_ok (worker h)" "menu_in_step m s"
  shows "\<exists>m' s'. menu_actions ts opened st submitted as (m, s) = Some (m', s') \<and> menu_in_step m' s'"
  using assms by (rule menu_actions_in_step)

definition opened_seven :: "request \<Rightarrow> nat session_handle session_result" where
  "opened_seven r =
     Inr \<lparr>commands = 7, control = session_control_default, worker = spawn (Returned (Inr ()))\<rparr>"

theorem menu_follows_slot_witness:
  "\<exists>m s. menu_actions (\<lambda>_. ''failed'') opened_seven Connecting (\<lambda>_. None)
     [(True, Start_Action), (False, Back)] (menu_default, from_handle None) = Some (m, s) \<and>
     running m \<and> slot_handle s \<noteq> None"
proof -
  have o: "\<forall>r h. opened_seven r = Inr h \<longrightarrow> worker_ok (worker h)"
    by (auto simp: opened_seven_def worker_ok_def spawn_def)
  have "menu_in_step menu_default (from_handle None :: nat session_slot)"
    by (simp add: menu_in_step_def slot_ok_def from_handle_def menu_default_def)
  from menu_follows_slot [OF o this] obtain m s where ms: "menu_actions (\<lambda>_. ''failed'') opened_seven
      Connecting (\<lambda>_. None) [(True, Start_Action), (False, Back)] (menu_default, from_handle None) = Some (m, s)"
    "menu_in_step m s" by blast
  moreover have "running m"
    using ms(1) by (auto simp: menu_action_def menu_start_def menu_request_def menu_default_def opened_seven_def
        attach_def from_handle_def split: sum.splits)
  ultimately show ?thesis by (auto simp: menu_in_step_def)
qed

section \<open>Starting a session from the menu\<close>

text \<open>An address that was typed with blanks around it.\<close>

lemma trim_pads:
  assumes "list_all is_whitespace ws" "list_all is_whitespace ws'" "s \<noteq> []" "\<not> is_whitespace (hd s)"
    "\<not> is_whitespace (last s)"
  shows "trim (ws @ s @ ws') = s"
proof -
  have front: "dropWhile is_whitespace (ws @ s @ ws') = s @ ws'"
    using assms(1,3,4) by (cases s) (simp_all add: list_all_iff dropWhile_append2)
  have "\<And>c. c \<in> set (rev ws') \<Longrightarrow> is_whitespace c" using assms(2) by (simp add: list_all_iff)
  then have "dropWhile is_whitespace (rev ws' @ rev s) = dropWhile is_whitespace (rev s)" by (rule dropWhile_append2)
  then have "dropWhile is_whitespace (rev ws' @ rev s) = rev s"
    using assms(3,5) by (cases s rule: rev_cases) simp_all
  then show ?thesis by (simp add: trim_def front)
qed

definition decimal_digit :: "nat \<Rightarrow> bool" where
  "decimal_digit c \<longleftrightarrow> 48 \<le> c \<and> c \<le> 57"

lemma digit_visible: "decimal_digit c \<Longrightarrow> \<not> is_whitespace c"
  by (auto simp: decimal_digit_def is_whitespace_def)

lemma decimal_digits: "decimal n \<noteq> [] \<and> list_all decimal_digit (decimal n)"
proof (induction n rule: decimal_induct)
  case (1 n)
  then show ?case by (simp add: decimal.simps [of n] decimal_digit_def)
next
  case (2 n)
  then show ?case by (simp add: decimal.simps [of n] decimal_digit_def)
qed

lemma decimal_starts: "decimal_digit (hd (decimal n))"
  using decimal_digits [of n] by (cases "decimal n") simp_all

lemma show_octets_head: "vs \<noteq> [] \<Longrightarrow> show_octets vs \<noteq> [] \<and> decimal_digit (hd (show_octets vs))"
  using decimal_digits decimal_starts by (cases vs rule: show_octets.cases) simp_all

lemma show_v4_ends:
  assumes "ip \<noteq> []"
  shows "show_v4 ip p \<noteq> []" "decimal_digit (hd (show_v4 ip p))" "decimal_digit (last (show_v4 ip p))"
  using show_octets_head [OF assms] decimal_digits [of "unat p"]
  by (simp_all add: show_v4_def list_all_iff)

text \<open>A typed address is the address connected to: any IPv4 address and port, printed the way
  \<open>Display\<close> prints them, with any blanks around, makes the menu ask the framework for a
  connection to exactly this address.\<close>

theorem typed_address_is_connected:
  assumes "mode m = Join_Mode" "field_texts m ! 1 = ws @ show_v4 ip p @ ws'" "length ip = 4"
    and "list_all is_whitespace ws" "list_all is_whitespace ws'"
  shows "menu_request m = Inr (Connect_Request (client_config_new 1 (V4 ip p)))"
proof -
  have "ip \<noteq> []" using assms(3) by auto
  note e = show_v4_ends [OF this, of p]
  have "trim (field_texts m ! 1) = show_v4 ip p"
    unfolding assms(2) using trim_pads [OF assms(4,5) e(1)] digit_visible e(2,3) by blast
  then show ?thesis using parse_show_v4 [OF assms(3)] assms(1) by (simp add: menu_request_def)
qed

theorem typed_address_is_connected_witness:
  "menu_request (menu_default\<lparr>mode := Join_Mode,
      field_texts := [[], [32] @ show_v4 [127, 0, 0, 1] 5000 @ [], [], []]\<rparr>) =
    Inr (Connect_Request (client_config_new 1 (V4 [127, 0, 0, 1] 5000)))"
  using typed_address_is_connected [where ws = "[32]" and ws' = "[]" and ip = "[127, 0, 0, 1]" and p = 5000
      and m = "menu_default\<lparr>mode := Join_Mode, field_texts := [[], [32] @ show_v4 [127, 0, 0, 1] 5000 @ [], [], []]\<rparr>"]
  by (simp add: is_whitespace_def)

text \<open>The framework refuses nothing the menu asks for: a start that passes the menu's own
  checks and names no save gets past the configuration checks of \<open>host\<close> or \<open>connect\<close>, so its
  outcome is that of starting the worker's thread.\<close>

theorem menu_requests_are_accepted:
  assumes "menu_request m = Inr r" "mode m = Join_Mode \<or> optional_path (field_texts m ! 2) = None"
  shows "open_request bc infallible fs file spawned r =
    spawned (if mode m = Join_Mode then ''session-replica'' else ''session-authority'')"
proof (cases "mode m = Join_Mode")
  case True
  then show ?thesis
    using assms(1)
    by (auto simp: menu_request_def res_simps open_request_def connect_replica_def client_config_new_def
        validate_capacity_def)
next
  case False
  then obtain p n where r: "r = Host_Request ((server_config_new default_initialization)
      \<lparr>port := p, expected_clients := n, load_path := None,
       record_path := map_option path_string (optional_path (field_texts m ! 3))\<rparr>)" "n \<le> 1"
    using assms by (auto simp: menu_request_def res_simps and_then_Inr)
  have n: "\<not> 1024 < n" using r(2) by (simp add: word_less_nat_alt word_le_nat_alt)
  have "\<exists>st. host bc infallible fs file (game_adapter power_garden) ((server_config_new default_initialization)
      \<lparr>port := p, expected_clients := n, load_path := None,
       record_path := map_option path_string (optional_path (field_texts m ! 3))\<rparr>) = Inr st"
    using n default_encodes(2)
    by (simp add: host_def start_server_def server_config_new_def validate_capacity_def validate_tick_duration_def
        codec_result_def)
  then show ?thesis using False r(1) by (auto simp: open_request_def)
qed

theorem menu_requests_are_accepted_witness:
  "\<exists>r. menu_request (menu_default :: nat menu) = Inr r \<and>
     open_request standard_bincode infallible (\<lambda>_. None) (byte_source []) (\<lambda>_. opened_seven r) r = opened_seven r"
proof -
  obtain r where r: "menu_request (menu_default :: nat menu) = Inr r" by (simp add: menu_request_def menu_default_def)
  have "optional_path (field_texts (menu_default :: nat menu) ! 2) = None"
    by (simp add: menu_default_def optional_path_def trim_def)
  then show ?thesis
    using menu_requests_are_accepted [OF r, of standard_bincode "\<lambda>_. None" "byte_source []" "\<lambda>_. opened_seven r"] r
    by simp
qed

end
