(* ===== verification/Garden_View.thy ===== *)
theory Garden_View
  imports Garden_Menu
begin

text \<open>
  \<^verbatim>\<open>examples/power-garden/src/presentation.rs\<close>: the screen of the power garden.  The entities
  that the program spawns are a forest of component records; a system's query is a pass over
  the forest that changes the entities having the components it asks for.  The engine's own
  work is reduced to what the program reads of it: the \<open>Interaction\<close> of each button, the
  keyboard events and the clock.

  Lengths are whole pixels and colours whole thousandths, as all of the program's constants
  are.  A clock value is read only by \<^verbatim>\<open>now - started < 0.4\<close>: the parameter \<open>recent\<close> is that
  comparison of two \<^verbatim>\<open>f64\<close> seconds.  \<open>None\<close> is the panic of an index out of range.
\<close>

section \<open>Components\<close>

datatype color = Srgb nat nat nat

definition INK :: color where "INK = Srgb 35 65 85"

definition PANEL :: color where "PANEL = Srgb 65 110 140"

definition DIM :: color where "DIM = Srgb 280 390 430"

definition LIGHT :: color where "LIGHT = Srgb 840 950 900"

definition MINT :: color where "MINT = Srgb 360 960 680"

definition GOLD :: color where "GOLD = Srgb 1000 780 350"

datatype len = Auto | Px nat | Percent nat

datatype display = Flex | Grid | Undisplayed

text \<open>The properties of a node that the program sets once and never reads.\<close>

datatype style =
    MinHeight len
  | MaxWidth len
  | Padding len len
  | Border len
  | BorderRadius len
  | BorderRadiusMax
  | RowGap len
  | ColumnGap len
  | VerticalMargin len
  | AlignItemsCenter
  | JustifySpaceBetween
  | FlexColumn
  | OverflowClip
  | OverflowScrollY
  | PositionAbsolute len len
  | GridTracks nat nat

record ui_node =
  display :: display
  node_width :: len
  node_height :: len
  styles :: "style list"

definition node_default :: ui_node where
  "node_default = \<lparr>display = Flex, node_width = Auto, node_height = Auto, styles = []\<rparr>"

datatype interaction = Pressed | Hovered | Untouched

datatype marker = Root | Status | Completion | ErrorText

record components =
  shown_text :: "ustring option"
  font_size :: "nat option"
  text_color :: "color option"
  background :: "color option"
  border_color :: "color option"
  node :: "ui_node option"
  button :: "interaction option"
  button_action :: "action option"
  tile_view :: "nat option"
  port_view :: "(nat \<times> u8) option"
  flower :: "nat option"
  field_text :: "nat option"
  markers :: "marker list"

definition bare :: components where
  "bare =
     \<lparr>shown_text = None, font_size = None, text_color = None, background = None, border_color = None,
      node = None, button = None, button_action = None, tile_view = None, port_view = None,
      flower = None, field_text = None, markers = []\<rparr>"

datatype entity = Entity components "entity list"

section \<open>Layout\<close>

definition label :: "string \<Rightarrow> nat \<Rightarrow> color \<Rightarrow> entity" where
  "label value points col =
     Entity (bare\<lparr>shown_text := Some (ascii value), font_size := Some points, text_color := Some col\<rparr>) []"

definition button_entity :: "string \<Rightarrow> action \<Rightarrow> entity" where
  "button_entity caption a =
     Entity (bare\<lparr>button := Some Untouched, button_action := Some a,
         node := Some (node_default\<lparr>styles := [Padding (Px 22) (Px 12), Border (Px 1), BorderRadius (Px 10)]\<rparr>),
         background := Some PANEL, border_color := Some DIM\<rparr>)
       [label caption 18 LIGHT]"

definition field_entities :: "string \<Rightarrow> nat \<Rightarrow> entity list" where
  "field_entities caption index =
     [label caption 15 (Srgb 550 680 700),
      Entity (bare\<lparr>button := Some Untouched, button_action := Some (Field_Action index),
          node := Some (node_default\<lparr>node_width := Percent 100, styles :=
            [MinHeight (Px 46), Padding (Px 12) (Px 12), Border (Px 1), BorderRadius (Px 10), OverflowClip]\<rparr>),
          background := Some INK, border_color := Some DIM\<rparr>)
        [Entity (bare\<lparr>shown_text := Some [], font_size := Some 18, text_color := Some LIGHT,
                     field_text := Some index\<rparr>) []]]"

definition menu_layout :: "mode \<Rightarrow> entity list" where
  "menu_layout md =
     [Entity (bare\<lparr>node := Some (node_default\<lparr>styles := [ColumnGap (Px 12), VerticalMargin (Px 14)]\<rparr>)\<rparr>)
        [button_entity ''Solo'' (Mode_Action Solo), button_entity ''Host'' (Mode_Action Host_Mode),
         button_entity ''Join'' (Mode_Action Join_Mode)],
      Entity (bare\<lparr>node := Some (node_default\<lparr>node_width := Px 490, styles :=
            [Padding (Px 24) (Px 24), FlexColumn, RowGap (Px 10), BorderRadius (Px 16)]\<rparr>),
          background := Some PANEL\<rparr>)
        ((case md of
            Solo \<Rightarrow> [label ''A quiet garden, just for you.'' 20 MINT]
          | Host_Mode \<Rightarrow> label ''Grow with one other player.'' 20 MINT # field_entities ''Host port'' 0
          | Join_Mode \<Rightarrow> label ''Join a friend's garden.'' 20 MINT # field_entities ''Server address'' 1) @
         (if md \<noteq> Join_Mode
          then field_entities ''Load recording  |  optional'' 2 @
               field_entities ''Record to a new file  |  optional'' 3
          else []) @
         [label ''Click a field to edit | Tab: next | Ctrl+A: clear'' 13 DIM,
          button_entity
            (case md of Solo \<Rightarrow> ''Open garden'' | Host_Mode \<Rightarrow> ''Host garden'' | Join_Mode \<Rightarrow> ''Join garden'')
            Start_Action]),
      label ''One shared board. No timer. Every connection counts.'' 16 LIGHT]"

definition port_boxes :: "(u8 \<times> nat \<times> nat \<times> nat \<times> nat) list" where
  "port_boxes = [(1, 35, 0, 6, 40), (2, 38, 35, 40, 6), (4, 35, 38, 6, 40), (8, 0, 35, 40, 6)]"

definition petals :: "(nat \<times> nat) list" where
  "petals = [(31, 31), (20, 31), (42, 31), (31, 20), (31, 42)]"

definition tile_layout :: "nat \<Rightarrow> entity" where
  "tile_layout i =
     Entity (bare\<lparr>button := Some Untouched, button_action := Some (Rotate_Action (word_of_nat i)),
         tile_view := Some i,
         node := Some \<lparr>display = Flex, node_width = Px 80, node_height = Px 80,
                       styles = [Border (Px 2), BorderRadius (Px 12)]\<rparr>,
         border_color := Some PANEL, background := Some PANEL\<rparr>)
       (map (\<lambda>(b, l, t, w, h).
          Entity (bare\<lparr>node := Some \<lparr>display = Flex, node_width = Px w, node_height = Px h,
                                    styles = [PositionAbsolute (Px l) (Px t)]\<rparr>,
                      background := Some DIM, port_view := Some (i, b)\<rparr>) []) port_boxes @
        map (\<lambda>(l, t).
          Entity (bare\<lparr>node := Some \<lparr>display = Flex, node_width = Px 14, node_height = Px 14,
                                    styles = [PositionAbsolute (Px l) (Px t), BorderRadiusMax]\<rparr>,
                      background := Some GOLD, flower := Some i\<rparr>) []) petals)"

definition game_layout :: "entity list" where
  "game_layout =
     [Entity (bare\<lparr>node := Some (node_default\<lparr>node_width := Px 660,
          styles := [JustifySpaceBetween, AlignItemsCenter, VerticalMargin (Px 10)]\<rparr>)\<rparr>)
        [Entity (bare\<lparr>shown_text := Some (ascii ''Starting session...''), font_size := Some 18,
             text_color := Some LIGHT, node := Some (node_default\<lparr>styles := [MaxWidth (Px 450)]\<rparr>),
             markers := [Status]\<rparr>) [],
         button_entity ''Back to menu'' Back],
      Entity (bare\<lparr>node := Some \<lparr>display = Grid, node_width = Px 440, node_height = Px 440,
          styles = [GridTracks 5 80, ColumnGap (Px 10), RowGap (Px 10)]\<rparr>\<rparr>)
        (map tile_layout [0..<25]),
      Entity (bare\<lparr>shown_text := Some [], font_size := Some 25, text_color := Some GOLD,
          markers := [Completion]\<rparr>) [],
      label ''Click a wire to rotate clockwise. Light all four flowers.'' 17 LIGHT,
      label ''Mint flash: host  |  Gold flash: remote player'' 14 DIM]"

definition screen_root :: "'q menu \<Rightarrow> entity" where
  "screen_root m =
     Entity (bare\<lparr>node := Some \<lparr>display = Flex, node_width = Percent 100, node_height = Percent 100,
         styles = [AlignItemsCenter, FlexColumn, Padding (Px 28) (Px 28), RowGap (Px 12), OverflowScrollY]\<rparr>,
         background := Some INK, markers := [Root]\<rparr>)
       ([label ''P O W E R   G A R D E N'' 32 MINT, label ''Connect the light. Grow together.'' 18 LIGHT] @
        (if running m then game_layout else menu_layout (mode m)) @
        [Entity (bare\<lparr>shown_text := Some [], font_size := Some 16, text_color := Some (Srgb 1000 480 420),
             node := Some (node_default\<lparr>styles := [MaxWidth (Px 740)]\<rparr>), markers := [ErrorText]\<rparr>) []])"

section \<open>Passes over the entities\<close>

fun update_entity :: "(components \<Rightarrow> components option) \<Rightarrow> entity \<Rightarrow> entity option"
  and update_entities :: "(components \<Rightarrow> components option) \<Rightarrow> entity list \<Rightarrow> entity list option" where
  "update_entity f (Entity c es) =
     Option.bind (f c) (\<lambda>c. map_option (Entity c) (update_entities f es))"
| "update_entities f [] = Some []"
| "update_entities f (e # es) =
     Option.bind (update_entity f e) (\<lambda>e. map_option ((#) e) (update_entities f es))"

fun entity_components :: "entity \<Rightarrow> components list"
  and all_components :: "entity list \<Rightarrow> components list" where
  "entity_components (Entity c es) = c # all_components es"
| "all_components [] = []"
| "all_components (e # es) = entity_components e @ all_components es"

section \<open>Rebuilding\<close>

text \<open>A flash is the time it started and whether the host caused it.\<close>

record 't animation =
  anim_tick :: "u64 option"
  flashes :: "('t \<times> bool) option list"

definition animation_default :: "'t animation" where
  "animation_default = \<lparr>anim_tick = None, flashes = replicate 25 None\<rparr>"

fun entity_root :: "entity \<Rightarrow> bool" where
  "entity_root (Entity c es) \<longleftrightarrow> Root \<in> set (markers c)"

definition rebuild_screen ::
  "'q menu \<times> 't animation \<times> entity list \<Rightarrow> 'q menu \<times> 't animation \<times> entity list" where
  "rebuild_screen s =
     (case s of (m, an, es) \<Rightarrow>
        if \<not> rebuild m then (m, an, es)
        else
          (let m = m\<lparr>rebuild := False\<rparr>
           in (m, animation_default, filter (\<lambda>e. \<not> entity_root e) es @ [screen_root m])))"

section \<open>Fields and buttons\<close>

definition field_caption :: "'q menu \<Rightarrow> nat \<Rightarrow> ustring option" where
  "field_caption m i =
     map_option (\<lambda>value.
       if focus m = Some i then value @ ascii ''|''
       else if value = [] then ascii ''-'' else value) (at_index (field_texts m) i)"

definition update_field :: "'q menu \<Rightarrow> components \<Rightarrow> components option" where
  "update_field m c =
     (case (field_text c, shown_text c) of
        (Some i, Some _) \<Rightarrow> map_option (\<lambda>s. c\<lparr>shown_text := Some s\<rparr>) (field_caption m i)
      | _ \<Rightarrow> Some c)"

definition update_error :: "'q menu \<Rightarrow> components \<Rightarrow> components option" where
  "update_error m c =
     (if ErrorText \<in> set (markers c) \<and> field_text c = None \<and> shown_text c \<noteq> None
      then Some (c\<lparr>shown_text := Some (ascii (error m))\<rparr>) else Some c)"

definition update_fields :: "'q menu \<Rightarrow> entity list \<Rightarrow> entity list option" where
  "update_fields m es =
     Option.bind (update_entities (update_field m) es) (update_entities (update_error m))"

definition selected :: "'q menu \<Rightarrow> action \<Rightarrow> bool" where
  "selected m a =
     (case a of Mode_Action md \<Rightarrow> md = mode m | Field_Action i \<Rightarrow> focus m = Some i | _ \<Rightarrow> False)"

definition button_color :: "'q menu \<Rightarrow> components \<Rightarrow> components option" where
  "button_color m c =
     (case (button c, button_action c, border_color c, tile_view c) of
        (Some i, Some a, Some _, None) \<Rightarrow>
          Some (c\<lparr>border_color := Some (if selected m a \<or> i \<noteq> Untouched then MINT else DIM)\<rparr>)
      | _ \<Rightarrow> Some c)"

section \<open>The status line\<close>

fun show_nat :: "nat \<Rightarrow> string" where
  "show_nat n =
     (if n < 10 then [char_of (48 + n)] else show_nat (n div 10) @ [char_of (48 + n mod 10)])"

declare show_nat.simps [simp del]

definition show_phase :: "loading_phase \<Rightarrow> string" where
  "show_phase p =
     (case p of
        LoadingSave \<Rightarrow> ''LoadingSave''
      | ReceivingSave \<Rightarrow> ''ReceivingSave''
      | ReplayingSave \<Rightarrow> ''ReplayingSave'')"

definition describe_status :: "message \<Rightarrow> session_status \<Rightarrow> snapshot option \<Rightarrow> string" where
  "describe_status to_string st sn =
     (case st of
        Live_Status \<Rightarrow>
          (case sn of
             None \<Rightarrow> ''Preparing garden...''
           | Some s \<Rightarrow>
               show_nat (board_connected_beacons (snap_board s)) @ ''/4 flowers  |  '' @
               show_nat (unat (moves (puzzle (snap_board s)))) @ '' moves'')
      | Connecting \<Rightarrow> ''Connecting...''
      | Loading ph n \<Rightarrow> ''Loading '' @ show_phase ph @ '': '' @ show_nat (unat n)
      | Waiting ready expected \<Rightarrow>
          ''Waiting for player: '' @ show_nat ready @ ''/'' @ show_nat expected
      | AwaitingStart_Status \<Rightarrow> ''Ready - waiting for host''
      | Stopped \<Rightarrow> ''Session stopped''
      | Failed e \<Rightarrow> ''Session failed: '' @ to_string e)"

section \<open>Animation\<close>

fun note_effects ::
  "'t \<Rightarrow> rotation_effect list \<Rightarrow> ('t \<times> bool) option list \<Rightarrow> ('t \<times> bool) option list option" where
  "note_effects now [] fs = Some fs"
| "note_effects now (e # es) fs =
     (let i = unat (effect_cell e) in
      if i < 25
      then Option.bind (put_index fs i (Some (now, effect_participant e = Host))) (note_effects now es)
      else note_effects now es fs)"

definition note_snapshot :: "'t \<Rightarrow> snapshot \<Rightarrow> 't animation \<Rightarrow> 't animation option" where
  "note_snapshot now s an =
     (if anim_tick an \<noteq> Some (snap_tick s)
      then map_option (\<lambda>fs. \<lparr>anim_tick = Some (snap_tick s), flashes = fs\<rparr>)
             (note_effects now (snap_effects s) (flashes an))
      else Some an)"

text \<open>The loops over the tiles, the ports and the flowers, one entity each.\<close>

definition tile_background :: "kind \<Rightarrow> bool \<Rightarrow> color" where
  "tile_background k on = (if k = Empty then INK else if on then Srgb 90 210 180 else PANEL)"

definition tile_border :: "bool \<Rightarrow> board \<Rightarrow> kind \<Rightarrow> interaction \<Rightarrow> bool option \<Rightarrow> color" where
  "tile_border live b k i flash =
     (case flash of
        Some by_host \<Rightarrow> if by_host then MINT else GOLD
      | None \<Rightarrow>
          if live \<and> \<not> complete (puzzle b) \<and> k = Wire \<and> i \<noteq> Untouched then LIGHT
          else if k = Source then MINT else INK)"

definition live_flash :: "('t \<Rightarrow> 't \<Rightarrow> bool) \<Rightarrow> 't \<Rightarrow> ('t \<times> bool) option \<Rightarrow> bool option" where
  "live_flash recent now fl =
     (case fl of
        Some (started, by_host) \<Rightarrow> if recent now started then Some by_host else None
      | None \<Rightarrow> None)"

definition animate_tile ::
  "('t \<Rightarrow> 't \<Rightarrow> bool) \<Rightarrow> 't \<Rightarrow> bool \<Rightarrow> board \<Rightarrow> 't animation \<Rightarrow> components \<Rightarrow> components option" where
  "animate_tile recent now live b an c =
     (case (tile_view c, button c, background c, border_color c) of
        (Some i, Some touch, Some _, Some _) \<Rightarrow>
          Option.bind (at_index (pz_tiles (puzzle b)) i) (\<lambda>t.
          Option.bind (at_index (powered b) i) (\<lambda>on.
          Option.bind (at_index (flashes an) i) (\<lambda>fl.
          Some (c\<lparr>background := Some (tile_background (kind t) on),
                  border_color := Some (tile_border live b (kind t) touch (live_flash recent now fl))\<rparr>))))
      | _ \<Rightarrow> Some c)"

definition animate_port :: "board \<Rightarrow> components \<Rightarrow> components option" where
  "animate_port b c =
     (case (port_view c, node c, background c, tile_view c) of
        (Some (i, bits), Some n, Some _, None) \<Rightarrow>
          Option.bind (at_index (pz_tiles (puzzle b)) i) (\<lambda>t.
          Option.bind (at_index (powered b) i) (\<lambda>on.
          Some (c\<lparr>node := Some (n\<lparr>display := (if connections t AND bits \<noteq> 0 then Flex else Undisplayed)\<rparr>),
                  background := Some (if on then MINT else DIM)\<rparr>)))
      | _ \<Rightarrow> Some c)"

definition animate_flower :: "board \<Rightarrow> components \<Rightarrow> components option" where
  "animate_flower b c =
     (case (flower c, node c, background c, port_view c, tile_view c) of
        (Some i, Some n, Some _, None, None) \<Rightarrow>
          Option.bind (at_index (pz_tiles (puzzle b)) i) (\<lambda>t.
          Option.bind (at_index (powered b) i) (\<lambda>on.
          let bloom = (if on then 16 else 10) in
          Some (c\<lparr>node := Some (n\<lparr>display := (if kind t = Beacon \<or> kind t = Source then Flex else Undisplayed),
                                  node_width := Px bloom, node_height := Px bloom\<rparr>),
                  background := Some (if on then if kind t = Source then MINT else GOLD else DIM)\<rparr>)))
      | _ \<Rightarrow> Some c)"

definition set_status :: "ustring \<Rightarrow> components \<Rightarrow> components option" where
  "set_status s c =
     Some (if Status \<in> set (markers c) \<and> shown_text c \<noteq> None then c\<lparr>shown_text := Some s\<rparr> else c)"

definition set_completion :: "board \<Rightarrow> components \<Rightarrow> components option" where
  "set_completion b c =
     Some (if Completion \<in> set (markers c) \<and> Status \<notin> set (markers c) \<and> shown_text c \<noteq> None
       then c\<lparr>shown_text :=
         Some (if complete (puzzle b) then ascii ''Your garden is glowing.'' else [])\<rparr>
       else c)"

definition animate ::
  "message \<Rightarrow> ('t \<Rightarrow> 't \<Rightarrow> bool) \<Rightarrow> 't \<Rightarrow> session_status \<Rightarrow> ('q \<Rightarrow> snapshot option) \<Rightarrow> 'q menu \<Rightarrow>
   't animation \<times> entity list \<Rightarrow> ('t animation \<times> entity list) option" where
  "animate to_string recent now st latest m s =
     (case s of (an, es) \<Rightarrow>
        if \<not> running m then Some (an, es)
        else
          (let sn = Option.bind (snapshots m) latest;
               live = (st = Live_Status) in
           Option.bind (update_entities (set_status (ascii (describe_status to_string st sn))) es) (\<lambda>es.
           case sn of
             None \<Rightarrow> Some (an, es)
           | Some s \<Rightarrow>
               (let b = snap_board s in
                Option.bind (note_snapshot now s an) (\<lambda>an.
                Option.bind (update_entities (animate_tile recent now live b an) es) (\<lambda>es.
                Option.bind (update_entities (animate_port b) es) (\<lambda>es.
                Option.bind (update_entities (animate_flower b) es) (\<lambda>es.
                Option.bind (update_entities (set_completion b) es) (\<lambda>es.
                Some (an, es))))))))))"

section \<open>One frame\<close>

text \<open>
  The systems of \<open>Update\<close> run in a chain.  Between two frames the engine moves each button's
  \<open>Interaction\<close>; a button whose interaction changed is a candidate for \<open>actions\<close>.
\<close>

record ('q, 't) frame_input =
  in_pointer :: "components \<Rightarrow> interaction"
  in_events :: "keyboard_input list"
  in_focus_lost :: bool
  in_status :: session_status
  in_opened :: "request \<Rightarrow> 'q session_handle session_result"
  in_submitted :: "u32 \<Rightarrow> (string + unit) option"
  in_latest :: "'q \<Rightarrow> snapshot option"
  in_now :: 't

record ('q, 't) screen =
  screen_menu :: "'q menu"
  screen_keys :: "key_code list"
  screen_slot :: "'q session_slot"
  screen_animation :: "'t animation"
  screen_entities :: "entity list"

definition touch_button :: "(components \<Rightarrow> interaction) \<Rightarrow> components \<Rightarrow> components option" where
  "touch_button p c = Some (if button c = None then c else c\<lparr>button := Some (p c)\<rparr>)"

definition changed_buttons :: "(components \<Rightarrow> interaction) \<Rightarrow> entity list \<Rightarrow> (bool \<times> action) list" where
  "changed_buttons p es =
     List.map_filter (\<lambda>c. case (button c, button_action c) of
        (Some i, Some a) \<Rightarrow> if p c \<noteq> i then Some (p c = Pressed, a) else None
      | _ \<Rightarrow> None) (all_components es)"

definition run_frame ::
  "message \<Rightarrow> ('t \<Rightarrow> 't \<Rightarrow> bool) \<Rightarrow> ('q, 't) frame_input \<Rightarrow>
   ('q, 't) screen \<Rightarrow> ('q, 't) screen option" where
  "run_frame to_string recent i s =
     (let pressed = changed_buttons (in_pointer i) (screen_entities s) in
      Option.bind (edit_fields (in_events i) (in_focus_lost i) (screen_keys s, screen_menu s)) (\<lambda>(keys, m).
      Option.bind (update_entities (touch_button (in_pointer i)) (screen_entities s)) (\<lambda>es.
      Option.bind
        (menu_actions to_string (in_opened i) (in_status i) (in_submitted i) pressed (m, screen_slot s))
        (\<lambda>(m, sl).
      let (m, an, es) = rebuild_screen (m, screen_animation s, es) in
      Option.bind (animate to_string recent (in_now i) (in_status i) (in_latest i) m (an, es)) (\<lambda>(an, es).
      Option.bind (update_fields m es) (\<lambda>es.
      Option.bind (update_entities (button_color m) es) (\<lambda>es.
      Some \<lparr>screen_menu = m, screen_keys = keys, screen_slot = sl, screen_animation = an, screen_entities = es\<rparr>)))))))"

fun run_frames ::
  "message \<Rightarrow> ('t \<Rightarrow> 't \<Rightarrow> bool) \<Rightarrow> ('q, 't) frame_input list \<Rightarrow>
   ('q, 't) screen \<Rightarrow> ('q, 't) screen option" where
  "run_frames ts recent [] s = Some s"
| "run_frames ts recent (i # is) s =
     Option.bind (run_frame ts recent i s) (run_frames ts recent is)"

text \<open>The application starts with the menu's defaults, no session and no entity of its own.\<close>

definition screen_start :: "('q, 't) screen" where
  "screen_start =
     \<lparr>screen_menu = menu_default, screen_keys = [], screen_slot = from_handle None,
      screen_animation = animation_default, screen_entities = []\<rparr>"

text \<open>After the event loop \<open>run\<close> shuts the session down and reports its failure.\<close>

definition screen_exit :: "message \<Rightarrow> ('q, 't) screen \<Rightarrow> (string + unit) option" where
  "screen_exit to_string s = map_option (\<lambda>(_, res). map_err to_string res) (guard_shutdown (screen_slot s))"

end
