(* ===== verification/Garden_Screen.thy ===== *)
theory Garden_Screen
  imports Garden_View
begin

unbundle bit_operations_syntax

text \<open>
  What the screen of \<open>Garden_View\<close> guarantees.  Every pass leaves the outline of the forest (the
  entities' identities and places, \<open>outline_of\<close>), so it keeps the layout of the menu's state;
  no pass indexes out of range; and after a frame the boxes of each tile reach exactly the
  sides where the published board has ports (\<open>shows_tile\<close>), in the colour of its light.
\<close>

section \<open>Passes change one entity at a time\<close>

lemma update_entities_total:
  "(\<forall>c \<in> set (entity_components e). f c \<noteq> None) \<Longrightarrow>
     \<exists>e'. update_entity f e = Some e' \<and> entity_components e' = map (\<lambda>c. the (f c)) (entity_components e)"
  "(\<forall>c \<in> set (all_components es). f c \<noteq> None) \<Longrightarrow>
     \<exists>es'. update_entities f es = Some es' \<and> all_components es' = map (\<lambda>c. the (f c)) (all_components es)"
proof (induction f e and f es rule: update_entity_update_entities.induct)
  case (1 f c es)
  then show ?case by fastforce
next
  case (3 f e es)
  have e: "\<forall>c \<in> set (entity_components e). f c \<noteq> None" and es: "\<forall>c \<in> set (all_components es). f c \<noteq> None"
    using "3.prems" by auto
  obtain e' where "update_entity f e = Some e'" "entity_components e' = map (\<lambda>c. the (f c)) (entity_components e)"
    using "3.IH"(1) [OF e] by blast
  moreover from this obtain es' where "update_entities f es = Some es'"
    "all_components es' = map (\<lambda>c. the (f c)) (all_components es)"
    using "3.IH"(2) es by blast
  ultimately show ?case by simp
qed simp

lemma all_components_append [simp]: "all_components (es @ fs) = all_components es @ all_components fs"
  by (induction es) simp_all

section \<open>The screen never panics\<close>

text \<open>
  What no pass changes of an entity, and what the program relies on of it.  A pass shows and
  hides ports and flowers and sizes flowers; any other node keeps its layout.
\<close>

record identity =
  id_action :: "action option"
  id_tile :: "nat option"
  id_port :: "(nat \<times> u8) option"
  id_flower :: "nat option"
  id_field :: "nat option"
  id_markers :: "marker list"
  id_layout :: "(display option \<times> (len \<times> len) option \<times> style list) option"
  id_present :: "bool list"

definition identity :: "components \<Rightarrow> identity" where
  "identity c =
     \<lparr>id_action = button_action c, id_tile = tile_view c, id_port = port_view c, id_flower = flower c,
      id_field = field_text c, id_markers = markers c,
      id_layout = map_option (\<lambda>n.
        (if port_view c = None \<and> flower c = None then Some (display n) else None,
         if flower c = None then Some (node_width n, node_height n) else None, styles n)) (node c),
      id_present = [shown_text c \<noteq> None, node c \<noteq> None, background c \<noteq> None, button c \<noteq> None, border_color c \<noteq> None]\<rparr>"

definition component_ok :: "components \<Rightarrow> bool" where
  "component_ok c \<longleftrightarrow>
     (case tile_view c of Some i \<Rightarrow> i < 25 | None \<Rightarrow> True) \<and>
     (case port_view c of Some (i, _) \<Rightarrow> i < 25 | None \<Rightarrow> True) \<and>
     (case flower c of Some i \<Rightarrow> i < 25 | None \<Rightarrow> True) \<and>
     (case field_text c of Some i \<Rightarrow> i < 4 | None \<Rightarrow> True) \<and>
     (case button_action c of Some (Field_Action i) \<Rightarrow> i < 4 | _ \<Rightarrow> True) \<and>
     (tile_view c \<noteq> None \<longrightarrow> button c \<noteq> None \<and> background c \<noteq> None \<and> border_color c \<noteq> None) \<and>
     (port_view c \<noteq> None \<longrightarrow> tile_view c = None \<and> node c \<noteq> None \<and> background c \<noteq> None) \<and>
     (flower c \<noteq> None \<longrightarrow> tile_view c = None \<and> port_view c = None \<and> node c \<noteq> None \<and> background c \<noteq> None) \<and>
     (Completion \<in> set (markers c) \<longrightarrow> markers c = [Completion] \<and> shown_text c \<noteq> None \<and> field_text c = None)"

lemma component_ok_identity: "identity c = identity c' \<Longrightarrow> component_ok c = component_ok c'"
  by (auto simp: identity_def component_ok_def)

text \<open>A pass that never panics on bounded entities and leaves their identity.\<close>

definition safe_pass :: "(components \<Rightarrow> components option) \<Rightarrow> bool" where
  "safe_pass f \<longleftrightarrow> (\<forall>c. component_ok c \<longrightarrow> (\<exists>c'. f c = Some c' \<and> identity c' = identity c))"

abbreviation entities_ok :: "entity list \<Rightarrow> bool" where
  "entities_ok es \<equiv> list_all component_ok (all_components es)"

text \<open>The identities of an entity and its children; two forests of the same entities.\<close>

datatype outline = Outline identity "outline list"

fun outline_of :: "entity \<Rightarrow> outline" where
  "outline_of (Entity c es) = Outline (identity c) (map outline_of es)"

fun outline_identities :: "outline \<Rightarrow> identity list" where
  "outline_identities (Outline i os) = i # concat (map outline_identities os)"

fun outline_root :: "outline \<Rightarrow> bool" where
  "outline_root (Outline i os) \<longleftrightarrow> Root \<in> set (id_markers i)"

definition same_entities :: "entity list \<Rightarrow> entity list \<Rightarrow> bool" where
  "same_entities es es' \<longleftrightarrow> map outline_of es' = map outline_of es"

lemma outline_identities_of:
  "outline_identities (outline_of e) = map identity (entity_components e)"
  "concat (map (outline_identities \<circ> outline_of) es) = map identity (all_components es)"
  by (induction e and es rule: entity_components_all_components.induct) (simp_all add: comp_def)

lemma outline_root_of: "outline_root (outline_of e) = entity_root e"
  by (cases e) (simp add: identity_def)

lemma same_entitiesD:
  assumes "same_entities es es'"
  shows "map identity (all_components es') = map identity (all_components es)"
    "map entity_root es' = map entity_root es"
proof -
  have o: "map outline_of es' = map outline_of es" using assms by (simp add: same_entities_def)
  have "concat (map outline_identities (map outline_of es')) = concat (map outline_identities (map outline_of es))"
    by (simp only: o)
  then show "map identity (all_components es') = map identity (all_components es)"
    by (simp add: outline_identities_of(2))
  have "map outline_root (map outline_of es') = map outline_root (map outline_of es)" by (simp only: o)
  then show "map entity_root es' = map entity_root es" by (simp add: outline_root_of comp_def)
qed

lemma same_entities_refl [simp]: "same_entities es es"
  by (simp add: same_entities_def)

lemma same_entities_trans [trans]: "same_entities es fs \<Longrightarrow> same_entities fs gs \<Longrightarrow> same_entities es gs"
  by (simp add: same_entities_def)

lemma same_entities_ok:
  assumes "same_entities es es'" "entities_ok es"
  shows "entities_ok es'"
proof -
  note i = same_entitiesD(1) [OF assms(1), symmetric]
  then have n: "length (all_components es) = length (all_components es')" by (rule map_eq_imp_length_eq)
  have "component_ok (all_components es' ! k)" if k: "k < length (all_components es')" for k
  proof -
    have "identity (all_components es ! k) = identity (all_components es' ! k)"
      using i k n by (metis nth_map)
    moreover have "component_ok (all_components es ! k)" using assms(2) k n by (simp add: list_all_length)
    ultimately show ?thesis using component_ok_identity by blast
  qed
  then show ?thesis by (simp add: list_all_length)
qed

lemma update_outline:
  "update_entity f e = Some e' \<Longrightarrow> safe_pass f \<Longrightarrow> list_all component_ok (entity_components e) \<Longrightarrow>
     outline_of e' = outline_of e"
  "update_entities f es = Some es' \<Longrightarrow> safe_pass f \<Longrightarrow> entities_ok es \<Longrightarrow> map outline_of es' = map outline_of es"
proof (induction f e and f es arbitrary: e' and es' rule: update_entity_update_entities.induct)
  case (1 f c es)
  obtain c' where c': "f c = Some c'" "identity c' = identity c" using 1(3,4) by (auto simp: safe_pass_def)
  obtain es1 where "update_entities f es = Some es1" "e' = Entity c' es1" using 1(2) c'(1) by (auto simp: bind_eq_Some_conv)
  then show ?case using 1(1) [OF c'(1)] 1(3,4) c'(2) by simp
next
  case (3 f e es)
  obtain e1 es1 where u: "update_entity f e = Some e1" "update_entities f es = Some es1" "es' = e1 # es1"
    using 3(3) by (auto simp: bind_eq_Some_conv)
  then show ?case using 3(1) [OF u(1)] 3(2) [OF u(1,2)] 3(4,5) by simp
qed simp_all

lemma safe_pass_entities:
  assumes "safe_pass f" "entities_ok es"
  shows "\<exists>es'. update_entities f es = Some es' \<and> same_entities es es' \<and> entities_ok es' \<and>
    all_components es' = map (\<lambda>c. the (f c)) (all_components es)"
proof -
  have "f c = Some (the (f c))" if "c \<in> set (all_components es)" for c
    using assms that by (fastforce simp: safe_pass_def list_all_iff)
  then obtain es' where es': "update_entities f es = Some es'"
    "all_components es' = map (\<lambda>c. the (f c)) (all_components es)"
    using update_entities_total(2) [of es f] by force
  then have "same_entities es es'"
    using update_outline(2) [OF es'(1) assms] by (simp add: same_entities_def)
  then show ?thesis using es' same_entities_ok assms(2) by blast
qed

text \<open>What holds of every entity and a pass does not disturb.\<close>

definition keeps :: "(components \<Rightarrow> bool) \<Rightarrow> (components \<Rightarrow> components option) \<Rightarrow> bool" where
  "keeps P f \<longleftrightarrow> (\<forall>c. component_ok c \<and> P c \<longrightarrow> P (the (f c)))"

definition makes :: "(components \<Rightarrow> bool) \<Rightarrow> (components \<Rightarrow> components option) \<Rightarrow> bool" where
  "makes P f \<longleftrightarrow> (\<forall>c. component_ok c \<longrightarrow> P (the (f c)))"

definition every :: "(components \<Rightarrow> bool) \<Rightarrow> entity list \<Rightarrow> bool" where
  "every P es \<longleftrightarrow> list_all P (all_components es)"

lemma keeps_every:
  "keeps P f \<Longrightarrow> entities_ok es \<Longrightarrow> all_components es' = map (\<lambda>c. the (f c)) (all_components es) \<Longrightarrow>
     every P es \<Longrightarrow> every P es'"
  by (auto simp: keeps_def every_def list_all_iff)

lemma makes_every:
  "makes P f \<Longrightarrow> entities_ok es \<Longrightarrow> all_components es' = map (\<lambda>c. the (f c)) (all_components es) \<Longrightarrow> every P es'"
  by (auto simp: makes_def every_def list_all_iff)

named_theorems safe_passes

lemma safe_touch [safe_passes]: "safe_pass (touch_button p)"
  by (simp add: safe_pass_def touch_button_def identity_def)

lemma safe_status [safe_passes]: "safe_pass (set_status s)"
  by (simp add: safe_pass_def set_status_def identity_def)

lemma safe_completion [safe_passes]: "safe_pass (set_completion b)"
  by (simp add: safe_pass_def set_completion_def identity_def)

lemma safe_error [safe_passes]: "safe_pass (update_error m)"
  by (simp add: safe_pass_def update_error_def identity_def)

lemma safe_button [safe_passes]: "safe_pass (button_color m)"
  by (auto simp: safe_pass_def button_color_def identity_def split: option.split)

lemma safe_field: "length (field_texts m) = 4 \<Longrightarrow> safe_pass (update_field m)"
  by (auto simp: safe_pass_def update_field_def field_caption_def identity_def component_ok_def at_index_def
      split: option.splits)

lemma board_ok_lengths: "board_ok b \<Longrightarrow> length (pz_tiles (puzzle b)) = 25 \<and> length (powered b) = 25"
  using garden_connectivity [of "pz_tiles (puzzle b)" connections] by (auto simp: board_ok_def garden_ok_def)

lemma safe_tile:
  "board_ok b \<Longrightarrow> length (flashes an) = 25 \<Longrightarrow> safe_pass (animate_tile recent now live b an)"
  using board_ok_lengths [of b]
  by (auto simp: safe_pass_def animate_tile_def identity_def component_ok_def at_index_def split: option.split)

lemma safe_port: "board_ok b \<Longrightarrow> safe_pass (animate_port b)"
  using board_ok_lengths [of b]
  by (auto simp: safe_pass_def animate_port_def identity_def component_ok_def at_index_def split: option.split)

lemma safe_flower: "board_ok b \<Longrightarrow> safe_pass (animate_flower b)"
  using board_ok_lengths [of b]
  by (auto simp: safe_pass_def animate_flower_def identity_def component_ok_def at_index_def Let_def split: option.split)

lemma note_effects_total:
  "length fs = 25 \<Longrightarrow> \<exists>fs'. note_effects now es fs = Some fs' \<and> length fs' = 25"
  by (induction es arbitrary: fs) (auto simp: put_index_def Let_def)

lemma note_snapshot_total:
  "length (flashes an) = 25 \<Longrightarrow> \<exists>an'. note_snapshot now s an = Some an' \<and> length (flashes an') = 25"
  using note_effects_total [of "flashes an" now "snap_effects s"] by (auto simp: note_snapshot_def)

lemma all_components_map: "all_components (map f xs) = concat (map (\<lambda>x. entity_components (f x)) xs)"
  by (induction xs) simp_all

lemmas layout_defs = label_def button_entity_def field_entities_def menu_layout_def tile_layout_def
  port_boxes_def petals_def game_layout_def screen_root_def bare_def

lemma tile_layout_ok: "i < 25 \<Longrightarrow> list_all component_ok (entity_components (tile_layout i))"
  by (simp add: layout_defs component_ok_def)

lemma game_layout_ok: "entities_ok game_layout"
proof -
  have "entities_ok (map tile_layout [0..<25])"
    using tile_layout_ok by (auto simp: all_components_map list_all_iff)
  then show ?thesis
    by (simp add: game_layout_def label_def button_entity_def bare_def component_ok_def)
qed

lemma menu_layout_ok: "entities_ok (menu_layout md)"
  by (cases md) (simp_all add: layout_defs component_ok_def)

lemma filter_ok: "entities_ok es \<Longrightarrow> entities_ok (filter p es)"
  by (induction es) auto

lemma screen_root_ok: "entities_ok [screen_root m]"
  using game_layout_ok menu_layout_ok [of "mode m"]
  by (simp add: screen_root_def label_def bare_def component_ok_def)

section \<open>What the screen shows of a board\<close>

definition draws_tile :: "board \<Rightarrow> components \<Rightarrow> bool" where
  "draws_tile b c \<longleftrightarrow>
     (\<forall>i. tile_view c = Some i \<longrightarrow>
        background c = Some (tile_background (kind (pz_tiles (puzzle b) ! i)) (powered b ! i)))"

definition draws_port :: "board \<Rightarrow> components \<Rightarrow> bool" where
  "draws_port b c \<longleftrightarrow>
     (\<forall>i bits. port_view c = Some (i, bits) \<longrightarrow>
        (\<exists>n. node c = Some n \<and> (display n = Flex) = (connections (pz_tiles (puzzle b) ! i) AND bits \<noteq> 0)) \<and>
        background c = Some (if powered b ! i then MINT else DIM))"

definition draws_flower :: "board \<Rightarrow> components \<Rightarrow> bool" where
  "draws_flower b c \<longleftrightarrow>
     (\<forall>i. flower c = Some i \<longrightarrow>
        (\<exists>n w. node c = Some n \<and> (display n = Flex) = (kind (pz_tiles (puzzle b) ! i) \<in> {Beacon, Source}) \<and>
           node_width n = Px w \<and> node_height n = Px w \<and> w \<le> 16) \<and>
        background c = Some (if \<not> powered b ! i then DIM
          else if kind (pz_tiles (puzzle b) ! i) = Source then MINT else GOLD))"

definition draws_completion :: "board \<Rightarrow> components \<Rightarrow> bool" where
  "draws_completion b c \<longleftrightarrow>
     (Completion \<in> set (markers c) \<longrightarrow>
        shown_text c = Some (if complete (puzzle b) then ascii ''Your garden is glowing.'' else []))"

definition draws :: "board \<Rightarrow> components \<Rightarrow> bool" where
  "draws b c \<longleftrightarrow> draws_tile b c \<and> draws_port b c \<and> draws_flower b c \<and> draws_completion b c"

lemmas draws_defs = draws_tile_def draws_port_def draws_flower_def draws_completion_def
lemmas pass_defs = touch_button_def set_status_def animate_tile_def animate_port_def animate_flower_def
  set_completion_def update_field_def update_error_def button_color_def

lemma tile_makes:
  assumes "board_ok b" "length (flashes an) = 25"
  shows "makes (draws_tile b) (animate_tile recent now live b an)"
  using assms(2) board_ok_lengths [OF assms(1)]
  by (auto simp: makes_def draws_tile_def animate_tile_def component_ok_def at_index_def split: option.split)

lemma port_makes: "board_ok b \<Longrightarrow> makes (draws_port b) (animate_port b)"
  using board_ok_lengths [of b]
  by (auto simp: makes_def draws_port_def animate_port_def component_ok_def at_index_def split: option.split)

lemma flower_makes: "board_ok b \<Longrightarrow> makes (draws_flower b) (animate_flower b)"
  using board_ok_lengths [of b]
  by (auto simp: makes_def draws_flower_def animate_flower_def component_ok_def at_index_def Let_def split: option.split)

lemma completion_makes: "makes (draws_completion b) (set_completion b)"
  by (auto simp: makes_def draws_completion_def set_completion_def component_ok_def)

lemma port_keeps: "board_ok b \<Longrightarrow> keeps (draws_tile b) (animate_port b)"
  using board_ok_lengths [of b]
  by (auto simp: keeps_def draws_tile_def animate_port_def component_ok_def at_index_def split: option.split)

lemma flower_keeps:
  "board_ok b \<Longrightarrow> keeps (draws_tile b) (animate_flower b)"
  "board_ok b \<Longrightarrow> keeps (draws_port b) (animate_flower b)"
  using board_ok_lengths [of b]
  by (auto simp: keeps_def draws_tile_def draws_port_def animate_flower_def component_ok_def at_index_def Let_def
      split: option.split)

lemma completion_keeps:
  "keeps (draws_tile b) (set_completion b)" "keeps (draws_port b) (set_completion b)"
  "keeps (draws_flower b) (set_completion b)"
  by (simp_all add: keeps_def draws_defs set_completion_def)

lemma error_keeps: "keeps (draws b) (update_error m)"
  by (auto simp: keeps_def draws_def draws_defs update_error_def component_ok_def)

lemma field_keeps: "length (field_texts m) = 4 \<Longrightarrow> keeps (draws b) (update_field m)"
  by (auto simp: keeps_def draws_def draws_defs update_field_def field_caption_def component_ok_def at_index_def
      split: option.split)

lemma button_keeps: "keeps (draws b) (button_color m)"
  by (auto simp: keeps_def draws_def draws_defs button_color_def split: option.split)

definition publications_ok :: "('q \<Rightarrow> snapshot option) \<Rightarrow> bool" where
  "publications_ok latest \<longleftrightarrow> (\<forall>q s. latest q = Some s \<longrightarrow> board_ok (snap_board s))"

lemma draw_board:
  assumes b: "board_ok b" and n: "length (flashes an) = 25" and es: "entities_ok es"
  obtains es2 es3 es4 es5 where "update_entities (animate_tile recent now live b an) es = Some es2"
    "update_entities (animate_port b) es2 = Some es3" "update_entities (animate_flower b) es3 = Some es4"
    "update_entities (set_completion b) es4 = Some es5" "same_entities es es5" "entities_ok es5" "every (draws b) es5"
proof -
  obtain es2 where e2: "update_entities (animate_tile recent now live b an) es = Some es2" "same_entities es es2"
    "entities_ok es2" "all_components es2 = map (\<lambda>c. the (animate_tile recent now live b an c)) (all_components es)"
    using safe_pass_entities [OF safe_tile [OF b n] es] by blast
  obtain es3 where e3: "update_entities (animate_port b) es2 = Some es3" "same_entities es2 es3"
    "entities_ok es3" "all_components es3 = map (\<lambda>c. the (animate_port b c)) (all_components es2)"
    using safe_pass_entities [OF safe_port [OF b] e2(3)] by blast
  obtain es4 where e4: "update_entities (animate_flower b) es3 = Some es4" "same_entities es3 es4"
    "entities_ok es4" "all_components es4 = map (\<lambda>c. the (animate_flower b c)) (all_components es3)"
    using safe_pass_entities [OF safe_flower [OF b] e3(3)] by blast
  obtain es5 where e5: "update_entities (set_completion b) es4 = Some es5" "same_entities es4 es5"
    "entities_ok es5" "all_components es5 = map (\<lambda>c. the (set_completion b c)) (all_components es4)"
    using safe_pass_entities [OF safe_completion e4(3)] by blast
  have t: "every (draws_tile b) es5"
    using makes_every [OF tile_makes [OF b n] es e2(4)] keeps_every [OF port_keeps [OF b] e2(3) e3(4)]
      keeps_every [OF flower_keeps(1) [OF b] e3(3) e4(4)] keeps_every [OF completion_keeps(1) e4(3) e5(4)] by blast
  have p: "every (draws_port b) es5"
    using makes_every [OF port_makes [OF b] e2(3) e3(4)] keeps_every [OF flower_keeps(2) [OF b] e3(3) e4(4)]
      keeps_every [OF completion_keeps(2) e4(3) e5(4)] by blast
  have f: "every (draws_flower b) es5"
    using makes_every [OF flower_makes [OF b] e3(3) e4(4)] keeps_every [OF completion_keeps(3) e4(3) e5(4)] by blast
  have "every (draws_completion b) es5" by (rule makes_every [OF completion_makes e4(3) e5(4)])
  with t p f have "every (draws b) es5" by (simp add: every_def draws_def list_all_iff)
  moreover have "same_entities es es5" using e2(2) e3(2) e4(2) e5(2) by (metis same_entities_trans)
  ultimately show ?thesis using that e2(1) e3(1) e4(1) e5 by blast
qed

definition current_snapshot :: "('q \<Rightarrow> snapshot option) \<Rightarrow> 'q menu \<Rightarrow> snapshot option" where
  "current_snapshot latest m = (if running m then Option.bind (snapshots m) latest else None)"

lemma animate_total:
  assumes "publications_ok latest" "length (flashes an) = 25" "entities_ok es"
  shows "\<exists>an' es'. animate ts recent now st latest m (an, es) = Some (an', es') \<and>
    length (flashes an') = 25 \<and> same_entities es es' \<and> entities_ok es' \<and>
    (\<forall>s. current_snapshot latest m = Some s \<longrightarrow> every (draws (snap_board s)) es')"
proof (cases "running m")
  case True
  let ?sn = "Option.bind (snapshots m) latest"
  obtain es1 where es1: "update_entities (set_status (ascii (describe_status ts st ?sn))) es = Some es1"
    "same_entities es es1" "entities_ok es1"
    using safe_pass_entities [OF safe_status assms(3)] by blast
  show ?thesis
  proof (cases ?sn)
    case None
    then show ?thesis using True es1 assms(2) by (simp add: animate_def current_snapshot_def)
  next
    case (Some s)
    have b: "board_ok (snap_board s)" using Some assms(1) by (auto simp: publications_ok_def bind_eq_Some_conv)
    obtain an' where an: "note_snapshot now s an = Some an'" "length (flashes an') = 25"
      using note_snapshot_total [OF assms(2)] by blast
    obtain es2 es3 es4 es5 where d:
      "update_entities (animate_tile recent now (st = Live_Status) (snap_board s) an') es1 = Some es2"
      "update_entities (animate_port (snap_board s)) es2 = Some es3"
      "update_entities (animate_flower (snap_board s)) es3 = Some es4"
      "update_entities (set_completion (snap_board s)) es4 = Some es5" "same_entities es1 es5" "entities_ok es5"
      "every (draws (snap_board s)) es5"
      by (rule draw_board [OF b an(2) es1(3)])
    have "same_entities es es5" using es1(2) d(5) by (rule same_entities_trans)
    then show ?thesis using True Some es1(1) an d by (simp add: animate_def current_snapshot_def Let_def)
  qed
qed (use assms in \<open>simp add: animate_def current_snapshot_def\<close>)

lemma menu_start_keeps:
  "menu_start ts op m s = Some (s', Inr m') \<Longrightarrow> field_texts m' = field_texts m \<and> focus m' = None \<and> rebuild m'"
  by (auto simp: menu_start_def split: sum.splits) (metis old.unit.exhaust sumE)+

lemma menu_action_keeps:
  assumes "menu_action ts op st sub a (m, s) = Some (m', s')" "menu_ok m" "\<forall>i. a = Field_Action i \<longrightarrow> i < 4"
  shows "menu_ok m'"
proof (cases a)
  case Start_Action
  show ?thesis
  proof (cases "running m")
    case False
    then obtain s1 res where res: "menu_start ts op m s = Some (s1, res)"
      "(case res of Inl e \<Rightarrow> (m\<lparr>error := e\<rparr>, s1) | Inr m \<Rightarrow> (m, s1)) = (m', s')"
      using Start_Action assms(1) by (auto simp: menu_action_def)
    then show ?thesis using assms(2) menu_start_keeps [of ts op m s] by (cases res) (auto simp: menu_ok_def)
  qed (use Start_Action assms in \<open>simp add: menu_action_def\<close>)
next
  case Back
  then show ?thesis using assms(1,2) by (auto simp: menu_action_def menu_ok_def)
next
  case (Rotate_Action c)
  then show ?thesis
    using assms(1,2) by (cases "sub c") (auto simp: menu_action_def menu_ok_def split: if_splits sum.splits)
qed (use assms in \<open>auto simp: menu_action_def menu_ok_def\<close>)

lemma menu_actions_keep:
  "menu_actions ts op st sub as (m, s) = Some (m', s') \<Longrightarrow> menu_ok m \<Longrightarrow>
     \<forall>(pressed, a) \<in> set as. \<forall>i. a = Field_Action i \<longrightarrow> i < 4 \<Longrightarrow> menu_ok m'"
proof (induction "as" arbitrary: m s)
  case (Cons first "as")
  obtain pressed a where a: "first = (pressed, a)" by (cases first)
  show ?case
  proof (cases pressed)
    case True
    then obtain m1 s1 where "menu_action ts op st sub a (m, s) = Some (m1, s1)"
      "menu_actions ts op st sub as (m1, s1) = Some (m', s')"
      using Cons.prems(1) a by (auto simp: bind_eq_Some_conv)
    then show ?thesis using Cons.IH menu_action_keeps [OF _ Cons.prems(2)] Cons.prems(3) a by auto
  qed (use a Cons in auto)
qed simp

lemma changed_buttons_bounded:
  assumes "entities_ok es"
  shows "\<forall>(pressed, a) \<in> set (changed_buttons p es). \<forall>i. a = Field_Action i \<longrightarrow> i < 4"
proof (clarify)
  fix pressed a i assume "(pressed, Field_Action i) \<in> set (changed_buttons p es)"
  then obtain c where "c \<in> set (all_components es)" "button_action c = Some (Field_Action i)"
    by (auto simp: changed_buttons_def map_filter_def split: option.splits if_splits)
  then show "i < 4" using assms by (auto simp: list_all_iff component_ok_def)
qed

text \<open>The screen has the layout of the menu's state whenever no rebuild is due.\<close>

definition laid_out :: "'q menu \<Rightarrow> entity list \<Rightarrow> bool" where
  "laid_out m es \<longleftrightarrow> list_all entity_root es \<and> (\<not> rebuild m \<longrightarrow> same_entities [screen_root m] es)"

lemma list_all_root: "list_all entity_root es \<longleftrightarrow> list_all id (map entity_root es)"
  by (induction es) simp_all

lemma laid_out_same:
  assumes "same_entities es es'" "laid_out m es"
  shows "laid_out m es'"
  using assms same_entitiesD(2) [OF assms(1)] unfolding laid_out_def list_all_root
  by (auto intro: same_entities_trans)

lemma laid_out_menu:
  assumes "laid_out m es" "rebuild m' \<or> (rebuild m' = rebuild m \<and> running m' = running m \<and> mode m' = mode m)"
  shows "laid_out m' es"
  using assms by (auto simp: laid_out_def screen_root_def)

definition screen_ok :: "('q, 't) screen \<Rightarrow> bool" where
  "screen_ok s \<longleftrightarrow> menu_ok (screen_menu s) \<and> menu_in_step (screen_menu s) (screen_slot s) \<and>
     length (flashes (screen_animation s)) = 25 \<and> entities_ok (screen_entities s) \<and>
     laid_out (screen_menu s) (screen_entities s)"

definition input_ok :: "('q, 't) frame_input \<Rightarrow> bool" where
  "input_ok i \<longleftrightarrow> (\<forall>r h. in_opened i r = Inr h \<longrightarrow> worker_ok (worker h)) \<and> publications_ok (in_latest i)"

lemma rebuild_screen_ok:
  assumes "rebuild_screen (m, an, es) = (m', an', es')" "menu_ok m" "menu_in_step m s"
    and "length (flashes an) = 25" "entities_ok es" "laid_out m es"
  shows "menu_ok m' \<and> menu_in_step m' s \<and> length (flashes an') = 25 \<and> entities_ok es' \<and> laid_out m' es' \<and> \<not> rebuild m'"
proof (cases "rebuild m")
  case True
  have "filter (\<lambda>e. \<not> entity_root e) es = []"
    using assms(6) by (simp add: laid_out_def list_all_iff filter_empty_conv)
  moreover have "entity_root (screen_root (m\<lparr>rebuild := False\<rparr>))" by (simp add: screen_root_def bare_def)
  ultimately show ?thesis
    using assms True screen_root_ok [of "m\<lparr>rebuild := False\<rparr>"]
    by (auto simp: rebuild_screen_def Let_def animation_default_def menu_ok_def menu_in_step_def laid_out_def)
qed (use assms in \<open>auto simp: rebuild_screen_def\<close>)

lemma menu_action_rebuilds:
  assumes "menu_action ts op st sub a (m, s) = Some (m', s')"
  shows "rebuild m' \<or> (rebuild m' = rebuild m \<and> running m' = running m \<and> mode m' = mode m)"
proof (cases a)
  case Start_Action
  show ?thesis
  proof (cases "running m")
    case False
    then obtain s1 res where res: "menu_start ts op m s = Some (s1, res)"
      "(case res of Inl e \<Rightarrow> (m\<lparr>error := e\<rparr>, s1) | Inr m \<Rightarrow> (m, s1)) = (m', s')"
      using Start_Action assms(1) by (auto simp: menu_action_def)
    then show ?thesis using menu_start_keeps [of ts op m s] by (cases res) auto
  qed (use Start_Action assms in \<open>simp add: menu_action_def\<close>)
next
  case (Rotate_Action c)
  then show ?thesis
    using assms by (cases "sub c") (auto simp: menu_action_def split: if_splits sum.splits)
qed (use assms in \<open>auto simp: menu_action_def\<close>)

lemma menu_actions_rebuild:
  "menu_actions ts op st sub as (m, s) = Some (m', s') \<Longrightarrow>
     rebuild m' \<or> (rebuild m' = rebuild m \<and> running m' = running m \<and> mode m' = mode m)"
proof (induction "as" arbitrary: m s)
  case (Cons first "as")
  obtain pressed a where a: "first = (pressed, a)" by (cases first)
  show ?case
  proof (cases pressed)
    case True
    then obtain m1 s1 where "menu_action ts op st sub a (m, s) = Some (m1, s1)"
      "menu_actions ts op st sub as (m1, s1) = Some (m', s')"
      using Cons.prems(1) a by (auto simp: bind_eq_Some_conv)
    then show ?thesis using Cons.IH [of m1 s1] menu_action_rebuilds [of ts op st sub a m s m1 s1] by auto
  qed (use a Cons in auto)
qed simp

lemma fields_total:
  assumes "length (field_texts m) = 4" "entities_ok es"
  shows "\<exists>es'. update_fields m es = Some es' \<and> same_entities es es' \<and> entities_ok es' \<and>
    (\<forall>b. every (draws b) es \<longrightarrow> every (draws b) es')"
proof -
  obtain es1 where e1: "update_entities (update_field m) es = Some es1" "same_entities es es1" "entities_ok es1"
    "all_components es1 = map (\<lambda>c. the (update_field m c)) (all_components es)"
    using safe_pass_entities [OF safe_field [OF assms(1)] assms(2)] by blast
  obtain es2 where e2: "update_entities (update_error m) es1 = Some es2" "same_entities es1 es2" "entities_ok es2"
    "all_components es2 = map (\<lambda>c. the (update_error m c)) (all_components es1)"
    using safe_pass_entities [OF safe_error e1(3)] by blast
  have "same_entities es es2" using e1(2) e2(2) by (rule same_entities_trans)
  moreover have "\<forall>b. every (draws b) es \<longrightarrow> every (draws b) es2"
    using keeps_every [OF field_keeps [OF assms(1)] assms(2) e1(4)] keeps_every [OF error_keeps e1(3) e2(4)] by blast
  ultimately show ?thesis using e1(1) e2(1,3) by (simp add: update_fields_def)
qed

lemma run_frame_ok:
  assumes "screen_ok s" "input_ok i"
  shows "\<exists>s'. run_frame ts recent i s = Some s' \<and> screen_ok s' \<and> \<not> rebuild (screen_menu s') \<and>
    (\<forall>sn. current_snapshot (in_latest i) (screen_menu s') = Some sn \<longrightarrow>
       every (draws (snap_board sn)) (screen_entities s'))"
proof -
  obtain keys m1 where e: "edit_fields (in_events i) (in_focus_lost i) (screen_keys s, screen_menu s) = Some (keys, m1)"
    "edits (screen_menu s) m1"
    using edit_fields_ok [of "screen_menu s" "in_events i" "in_focus_lost i" "screen_keys s"] assms(1)
    by (auto simp: screen_ok_def)
  then have m1: "menu_ok m1" "menu_in_step m1 (screen_slot s)" "laid_out m1 (screen_entities s)"
    using assms(1) laid_out_menu [of "screen_menu s" "screen_entities s" m1]
    by (auto simp: edits_def screen_ok_def menu_in_step_def)
  obtain es1 where es1: "update_entities (touch_button (in_pointer i)) (screen_entities s) = Some es1"
    "same_entities (screen_entities s) es1" "entities_ok es1"
    using safe_pass_entities [OF safe_touch, of "screen_entities s"] assms(1) by (auto simp: screen_ok_def)
  obtain m2 sl where m2: "menu_actions ts (in_opened i) (in_status i) (in_submitted i)
      (changed_buttons (in_pointer i) (screen_entities s)) (m1, screen_slot s) = Some (m2, sl)" "menu_in_step m2 sl"
    using menu_actions_in_step [OF _ m1(2), of "in_opened i"] assms(2) unfolding input_ok_def by blast
  have m2': "menu_ok m2" "laid_out m2 es1"
    using menu_actions_keep [OF m2(1) m1(1) changed_buttons_bounded] assms(1)
      laid_out_menu [OF m1(3) menu_actions_rebuild [OF m2(1)]] laid_out_same [OF es1(2)]
    by (simp_all add: screen_ok_def)
  obtain m3 an3 es3 where r: "rebuild_screen (m2, screen_animation s, es1) = (m3, an3, es3)"
    by (cases "rebuild_screen (m2, screen_animation s, es1)")
  have m3: "menu_ok m3" "menu_in_step m3 sl" "length (flashes an3) = 25" "entities_ok es3" "laid_out m3 es3" "\<not> rebuild m3"
    using rebuild_screen_ok [OF r m2'(1) m2(2) _ es1(3) m2'(2)] assms(1) by (simp_all add: screen_ok_def)
  obtain an4 es4 where a: "animate ts recent (in_now i) (in_status i) (in_latest i) m3 (an3, es3) = Some (an4, es4)"
    "length (flashes an4) = 25" "same_entities es3 es4" "entities_ok es4"
    "\<forall>sn. current_snapshot (in_latest i) m3 = Some sn \<longrightarrow> every (draws (snap_board sn)) es4"
    using animate_total [OF _ m3(3,4)] assms(2) unfolding input_ok_def by blast
  have n: "length (field_texts m3) = 4" using m3(1) by (simp add: menu_ok_def)
  obtain es5 where es5: "update_fields m3 es4 = Some es5" "same_entities es4 es5" "entities_ok es5"
    "\<forall>b. every (draws b) es4 \<longrightarrow> every (draws b) es5"
    using fields_total [OF n a(4)] by blast
  obtain es6 where es6: "update_entities (button_color m3) es5 = Some es6" "same_entities es5 es6" "entities_ok es6"
    "all_components es6 = map (\<lambda>c. the (button_color m3 c)) (all_components es5)"
    using safe_pass_entities [OF safe_button es5(3)] by blast
  have "laid_out m3 es6"
    using laid_out_same [OF a(3) m3(5)] laid_out_same [OF es5(2)] laid_out_same [OF es6(2)] by blast
  moreover have "\<forall>b. every (draws b) es5 \<longrightarrow> every (draws b) es6"
    using keeps_every [OF button_keeps es5(3) es6(4)] by blast
  ultimately show ?thesis
    using e(1) es1(1) m2(1) r a es5 es6 m3 by (simp add: run_frame_def screen_ok_def Let_def)
qed

lemma run_frames_ok:
  "screen_ok s \<Longrightarrow> \<forall>i \<in> set is. input_ok i \<Longrightarrow> \<exists>s'. run_frames ts recent is s = Some s' \<and> screen_ok s'"
proof (induction "is" arbitrary: s)
  case (Cons i "is")
  obtain s1 where "run_frame ts recent i s = Some s1" "screen_ok s1"
    using run_frame_ok [OF Cons.prems(1), of i ts recent] Cons.prems(2) by auto
  then show ?case using Cons.IH [of s1] Cons.prems(2) by simp
qed simp

lemma screen_start_ok: "screen_ok (screen_start :: ('q, 't) screen)"
proof -
  have "list_all field_ok [ascii ''5000'', ascii ''127.0.0.1:5000'', [], []]" by code_simp
  then show ?thesis
    by (simp add: screen_ok_def screen_start_def menu_ok_def menu_default_def menu_in_step_def slot_ok_def
        from_handle_def animation_default_def laid_out_def)
qed


lemma same_entities_mem:
  assumes "same_entities es es'" "c \<in> set (all_components es)"
  shows "\<exists>c' \<in> set (all_components es'). identity c' = identity c"
proof -
  have "identity ` set (all_components es') = identity ` set (all_components es)"
    using same_entitiesD(1) [OF assms(1)] by (metis set_map)
  then show ?thesis using assms(2) by (metis imageE imageI)
qed

lemma game_has_completion:
  "running m \<Longrightarrow> \<exists>c \<in> set (all_components [screen_root m]). Completion \<in> set (markers c)"
  by (simp add: screen_root_def game_layout_def bare_def)

text \<open>
  The geometry of a tile: absolute positions count from the inner edge of its border, so the
  inside of an 80 pixel tile with a border of 2 pixels is 76 pixels wide and high, with its
  centre at 38.  A box covers the points of its rectangle, and is seen when it is displayed.
\<close>

definition covers :: "components \<Rightarrow> nat \<times> nat \<Rightarrow> bool" where
  "covers c pt \<longleftrightarrow> (\<exists>n l t w h. node c = Some n \<and> PositionAbsolute (Px l) (Px t) \<in> set (styles n) \<and>
     node_width n = Px w \<and> node_height n = Px h \<and> l \<le> fst pt \<and> fst pt \<le> l + w \<and> t \<le> snd pt \<and> snd pt \<le> t + h)"

definition seen :: "components \<Rightarrow> bool" where
  "seen c \<longleftrightarrow> (\<exists>n. node c = Some n \<and> display n = Flex)"

definition tile_centre :: "nat \<times> nat" where
  "tile_centre = (38, 38)"

definition side_centres :: "(u8 \<times> nat \<times> nat) list" where
  "side_centres = [(NORTH, 38, 0), (EAST, 76, 38), (SOUTH, 38, 76), (WEST, 0, 38)]"

text \<open>
  The tile as it is seen: on each side, a box reaches the middle of the side exactly when the
  turned tile has a port there, and it comes from the centre in the colour of the light.
\<close>

definition shows_tile :: "tile \<Rightarrow> bool \<Rightarrow> entity \<Rightarrow> bool" where
  "shows_tile t on e \<longleftrightarrow>
     (case e of Entity c boxes \<Rightarrow>
        (\<exists>n. node c = Some n \<and> display n = Flex \<and> node_width n = Px 80 \<and> node_height n = Px 80 \<and>
           Border (Px 2) \<in> set (styles n)) \<and>
        (\<forall>(side, pt) \<in> set side_centres.
           ((\<exists>bc kids. Entity bc kids \<in> set boxes \<and> seen bc \<and> covers bc pt) \<longleftrightarrow> connections t AND side \<noteq> 0) \<and>
           (\<forall>bc kids. Entity bc kids \<in> set boxes \<longrightarrow> seen bc \<longrightarrow> covers bc pt \<longrightarrow>
              covers bc tile_centre \<and> background bc = Some (if on then MINT else DIM))))"

lemma covers_absolute:
  assumes "node c = Some n" "styles n = PositionAbsolute (Px l) (Px t) # rest"
    "\<forall>l t. PositionAbsolute l t \<notin> set rest" "node_width n = Px w" "node_height n = Px h"
  shows "covers c pt \<longleftrightarrow> l \<le> fst pt \<and> fst pt \<le> l + w \<and> t \<le> snd pt \<and> snd pt \<le> t + h"
  using assms by (auto simp: covers_def)

definition port_components :: "nat \<Rightarrow> u8 \<times> nat \<times> nat \<times> nat \<times> nat \<Rightarrow> components" where
  "port_components i = (\<lambda>(b, l, t, w, h).
     bare\<lparr>node := Some \<lparr>display = Flex, node_width = Px w, node_height = Px h,
                       styles = [PositionAbsolute (Px l) (Px t)]\<rparr>,
          background := Some DIM, port_view := Some (i, b)\<rparr>)"

definition petal_components :: "nat \<Rightarrow> nat \<times> nat \<Rightarrow> components" where
  "petal_components i = (\<lambda>(l, t).
     bare\<lparr>node := Some \<lparr>display = Flex, node_width = Px 14, node_height = Px 14,
                       styles = [PositionAbsolute (Px l) (Px t), BorderRadiusMax]\<rparr>,
          background := Some GOLD, flower := Some i\<rparr>)"

lemma tile_layout_boxes:
  "\<exists>c. tile_layout i = Entity c (map (\<lambda>p. Entity (port_components i p) []) port_boxes @
     map (\<lambda>p. Entity (petal_components i p) []) petals) \<and>
     node c = Some \<lparr>display = Flex, node_width = Px 80, node_height = Px 80,
       styles = [Border (Px 2), BorderRadius (Px 12)]\<rparr> \<and> port_view c = None \<and> flower c = None"
  by (simp add: tile_layout_def port_components_def petal_components_def bare_def case_prod_unfold)

lemma port_box_drawn:
  assumes "identity c = identity (port_components i (d, l, t, w, h))" "draws b c"
  shows "covers c pt \<longleftrightarrow> l \<le> fst pt \<and> fst pt \<le> l + w \<and> t \<le> snd pt \<and> snd pt \<le> t + h"
    "seen c \<longleftrightarrow> connections (pz_tiles (puzzle b) ! i) AND d \<noteq> 0"
    "background c = Some (if powered b ! i then MINT else DIM)"
proof -
  have p: "port_view c = Some (i, d)" "flower c = None" "node c \<noteq> None"
    "id_layout (identity c) = Some (None, Some (Px w, Px h), [PositionAbsolute (Px l) (Px t)])"
    unfolding assms(1) using assms(1) by (auto simp: identity_def port_components_def bare_def)
  then obtain n where n: "node c = Some n" "node_width n = Px w" "node_height n = Px h"
    "styles n = [PositionAbsolute (Px l) (Px t)]"
    by (auto simp: identity_def)
  show "covers c pt \<longleftrightarrow> l \<le> fst pt \<and> fst pt \<le> l + w \<and> t \<le> snd pt \<and> snd pt \<le> t + h"
    using n by (intro covers_absolute [where rest = "[]"]) simp_all
  show "seen c \<longleftrightarrow> connections (pz_tiles (puzzle b) ! i) AND d \<noteq> 0"
    "background c = Some (if powered b ! i then MINT else DIM)"
    using assms(2) p(1) n(1) by (auto simp: draws_def draws_port_def seen_def)
qed

lemma petal_inside:
  assumes "identity c = identity (petal_components i (l, t))" "draws b c" "l \<in> {1..59}" "t \<in> {1..59}"
    "(side, pt) \<in> set side_centres"
  shows "\<not> covers c pt"
proof -
  have p: "flower c = Some i" "id_layout (identity c) = Some (None, None, [PositionAbsolute (Px l) (Px t), BorderRadiusMax])"
    unfolding assms(1) using assms(1) by (auto simp: identity_def petal_components_def bare_def)
  obtain n w where n: "node c = Some n" "node_width n = Px w" "node_height n = Px w" "w \<le> 16"
    using assms(2) p(1) unfolding draws_def draws_flower_def by blast
  have "styles n = [PositionAbsolute (Px l) (Px t), BorderRadiusMax]" using p n(1) by (simp add: identity_def)
  then have "covers c pt \<longleftrightarrow> l \<le> fst pt \<and> fst pt \<le> l + w \<and> t \<le> snd pt \<and> snd pt \<le> t + w"
    using n by (intro covers_absolute [where rest = "[BorderRadiusMax]"]) simp_all
  then show ?thesis using assms(3-5) n(4) by (auto simp: side_centres_def)
qed

lemma outline_leaf: "outline_of e = outline_of (Entity c []) \<Longrightarrow> \<exists>c'. e = Entity c' [] \<and> identity c' = identity c"
  by (cases e) simp

lemma same_outline_mem:
  assumes "map outline_of es = map outline_of es'" "e \<in> set es"
  shows "\<exists>e' \<in> set es'. outline_of e = outline_of e'"
proof -
  have "outline_of ` set es = outline_of ` set es'" using assms(1) by (metis set_map)
  then show ?thesis using assms(2) by blast
qed

lemma components_subset: "e \<in> set es \<Longrightarrow> set (entity_components e) \<subseteq> set (all_components es)"
  by (induction es) auto

lemma components_mem: "Entity c es \<in> set fs \<Longrightarrow> c \<in> set (all_components fs)"
  by (induction fs) auto

text \<open>Each box of port \<open>d\<close> covers the centre and the middle of its own side only.\<close>

lemma port_boxes_reach:
  "(d, l, t, w, h) \<in> set port_boxes \<Longrightarrow> (side, pt) \<in> set side_centres \<Longrightarrow>
     l \<le> fst tile_centre \<and> fst tile_centre \<le> l + w \<and> t \<le> snd tile_centre \<and> snd tile_centre \<le> t + h \<and>
     (l \<le> fst pt \<and> fst pt \<le> l + w \<and> t \<le> snd pt \<and> snd pt \<le> t + h \<longleftrightarrow> side = d)"
  by (auto simp: port_boxes_def side_centres_def tile_centre_def NORTH_def EAST_def SOUTH_def WEST_def)

lemma tile_shown:
  assumes "outline_of e = outline_of (tile_layout j)" "list_all (draws b) (entity_components e)"
  shows "shows_tile (pz_tiles (puzzle b) ! j) (powered b ! j) e"
proof -
  let ?boxes = "map (\<lambda>p. Entity (port_components j p) []) port_boxes @ map (\<lambda>p. Entity (petal_components j p) []) petals"
  obtain c0 where c0: "tile_layout j = Entity c0 ?boxes" "node c0 = Some \<lparr>display = Flex, node_width = Px 80,
      node_height = Px 80, styles = [Border (Px 2), BorderRadius (Px 12)]\<rparr>" "port_view c0 = None" "flower c0 = None"
    using tile_layout_boxes by blast
  obtain c boxes where e: "e = Entity c boxes" by (cases e)
  have o: "identity c = identity c0" "map outline_of boxes = map outline_of ?boxes"
    using assms(1) by (simp_all add: e c0(1))
  have d: "draws b bc" if "Entity bc kids \<in> set boxes" for bc kids
    using components_mem [OF that] assms(2) by (simp add: e list_all_iff)
  have frame: "\<exists>n. node c = Some n \<and> display n = Flex \<and> node_width n = Px 80 \<and> node_height n = Px 80 \<and>
      Border (Px 2) \<in> set (styles n)"
    using o(1) c0(2-4) by (auto simp: identity_def)
  have kinds: "(\<exists>p \<in> set port_boxes. identity bc = identity (port_components j p)) \<or>
      (\<exists>p \<in> set petals. identity bc = identity (petal_components j p))" if box: "Entity bc kids \<in> set boxes" for bc kids
  proof -
    obtain e' where "e' \<in> set ?boxes" "outline_of (Entity bc kids) = outline_of e'"
      using same_outline_mem [OF o(2) box] by blast
    then show ?thesis by (auto dest: outline_leaf)
  qed
  have reach: "covers bc tile_centre \<and> background bc = Some (if powered b ! j then MINT else DIM) \<and>
      connections (pz_tiles (puzzle b) ! j) AND side \<noteq> 0"
    if box: "Entity bc kids \<in> set boxes" "seen bc" "covers bc pt" and side: "(side, pt) \<in> set side_centres"
    for bc kids side pt
    using kinds [OF box(1)]
  proof (elim disjE bexE)
    fix p assume p: "p \<in> set port_boxes" "identity bc = identity (port_components j p)"
    obtain d l t w h where q: "p = (d, l, t, w, h)" by (cases p)
    note drawn = port_box_drawn [OF p(2) [unfolded q] d [OF box(1)]]
    show ?thesis
      using port_boxes_reach [OF p(1) [unfolded q] side] drawn box(2,3) by simp
  next
    fix p assume p: "p \<in> set petals" "identity bc = identity (petal_components j p)"
    obtain l t where q: "p = (l, t)" by (cases p)
    have "l \<in> {1..59}" "t \<in> {1..59}" using p(1) by (auto simp: q petals_def)
    from petal_inside [OF p(2) [unfolded q] d [OF box(1)] this side] box(3) show ?thesis by simp
  qed
  have drawn: "\<exists>bc kids. Entity bc kids \<in> set boxes \<and> seen bc \<and> covers bc pt"
    if side: "(side, pt) \<in> set side_centres" and on: "connections (pz_tiles (puzzle b) ! j) AND side \<noteq> 0" for side pt
  proof -
    obtain l t w h where p: "(side, l, t, w, h) \<in> set port_boxes"
      using side by (auto simp: side_centres_def port_boxes_def NORTH_def EAST_def SOUTH_def WEST_def)
    then have "Entity (port_components j (side, l, t, w, h)) [] \<in> set ?boxes" by force
    then obtain e' where e': "e' \<in> set boxes" "outline_of (Entity (port_components j (side, l, t, w, h)) []) = outline_of e'"
      using same_outline_mem [OF o(2) [symmetric]] by blast
    obtain bc where bc: "e' = Entity bc []" "identity bc = identity (port_components j (side, l, t, w, h))"
      using outline_leaf [OF e'(2) [symmetric]] by blast
    note drawn = port_box_drawn [OF bc(2) d [OF e'(1) [unfolded bc(1)]]]
    have "seen bc" "covers bc pt" using drawn on port_boxes_reach [OF p side] by simp_all
    then show ?thesis using e'(1) bc(1) by blast
  qed
  show ?thesis
    unfolding shows_tile_def e entity.case using frame reach drawn by fast
qed

text \<open>The grid is where the layout puts it, and its tiles are those of the cells, in order.\<close>

lemma screen_grid:
  assumes "laid_out m es" "\<not> rebuild m" "running m" "every (draws b) es"
  shows "\<exists>c kids g n tiles. es = [Entity c kids] \<and> Entity g tiles \<in> set kids \<and> node g = Some n \<and> display n = Grid \<and>
    GridTracks 5 80 \<in> set (styles n) \<and> length tiles = 25 \<and>
    (\<forall>j < 25. shows_tile (pz_tiles (puzzle b) ! j) (powered b ! j) (tiles ! j))"
proof -
  define grid where "grid = Entity (bare\<lparr>node := Some \<lparr>display = Grid, node_width = Px 440, node_height = Px 440,
          styles = [GridTracks 5 80, ColumnGap (Px 10), RowGap (Px 10)]\<rparr>\<rparr>) (map tile_layout [0..<25])"
  obtain c0 kids0 where root: "screen_root m = Entity c0 kids0" "grid \<in> set kids0"
    using assms(3) by (simp add: screen_root_def game_layout_def grid_def)
  have "map outline_of es = map outline_of [screen_root m]"
    using assms(1,2) by (simp add: laid_out_def same_entities_def)
  then obtain c kids where es: "es = [Entity c kids]" "map outline_of kids = map outline_of kids0"
    by (auto simp: root(1) map_eq_Cons_conv elim!: outline_of.elims)
  obtain e where e: "e \<in> set kids" "outline_of e = outline_of grid"
    using same_outline_mem [OF es(2) [symmetric] root(2)] by metis
  obtain g tiles where g: "e = Entity g tiles" by (cases e)
  have t: "map outline_of tiles = map outline_of (map tile_layout [0..<25])"
    using e(2) by (simp add: g grid_def)
  have "id_layout (identity g) = Some (Some Grid, Some (Px 440, Px 440), [GridTracks 5 80, ColumnGap (Px 10), RowGap (Px 10)])"
    using e(2) by (simp add: g grid_def) (simp add: identity_def bare_def)
  then obtain n where n: "node g = Some n" "display n = Grid" "GridTracks 5 80 \<in> set (styles n)"
    by (auto simp: identity_def split: if_splits)
  have len: "length tiles = 25" using map_eq_imp_length_eq [OF t] by simp
  have "shows_tile (pz_tiles (puzzle b) ! j) (powered b ! j) (tiles ! j)" if j: "j < 25" for j
  proof (rule tile_shown)
    have "map outline_of tiles ! j = map outline_of (map tile_layout [0..<25]) ! j" by (simp only: t)
    then show "outline_of (tiles ! j) = outline_of (tile_layout j)" using j len by simp
    have "set (entity_components (tiles ! j)) \<subseteq> set (all_components es)"
      using components_subset [of "tiles ! j" tiles] components_subset [OF e(1)] j len by (auto simp: es(1) g)
    then show "list_all (draws b) (entity_components (tiles ! j))"
      using assms(4) by (auto simp: every_def list_all_iff)
  qed
  then show ?thesis using es(1) e(1) g n len by blast
qed

lemma screen_draws_completion:
  assumes "laid_out m es" "\<not> rebuild m" "running m" "every (draws b) es"
  shows "\<exists>c \<in> set (all_components es). Completion \<in> set (markers c) \<and>
    shown_text c = Some (if complete (puzzle b) then ascii ''Your garden is glowing.'' else [])"
proof -
  obtain c0 where c0: "c0 \<in> set (all_components [screen_root m])" "Completion \<in> set (markers c0)"
    using game_has_completion [OF assms(3)] by blast
  have "same_entities [screen_root m] es" using assms(1,2) by (simp add: laid_out_def)
  from same_entities_mem [OF this c0(1)] obtain c where c: "c \<in> set (all_components es)" "identity c = identity c0"
    by blast
  then have "Completion \<in> set (markers c)" using c0(2) by (simp add: identity_def)
  moreover have "draws_completion b c" using assms(4) c(1) by (simp add: every_def list_all_iff draws_def)
  ultimately show ?thesis using c(1) by (intro bexI [of _ c]) (simp_all add: draws_completion_def)
qed

section \<open>The game's publications\<close>

lemma published_board_ok:
  assumes "garden_sim_ok s" "bevy_publish power_garden s = (s', Inr ())"
  shows "\<exists>sn. bevy_value s' = Some sn \<and> board_ok (snap_board sn) \<and> snap_tick sn = TickNumber (app s)"
  using assms by (auto simp: garden_sim_ok_def bevy_publish_def garden_publish_def)

section \<open>Flashes\<close>

lemma note_effects_flash:
  "note_effects now es fs = Some fs' \<Longrightarrow> i < length fs \<Longrightarrow> length fs = 25 \<Longrightarrow>
     fs' ! i = (case filter (\<lambda>e. unat (effect_cell e) = i) es of
        [] \<Rightarrow> fs ! i
      | fls \<Rightarrow> Some (now, effect_participant (last fls) = Host))"
proof (induction es arbitrary: fs)
  case (Cons e es)
  show ?case
  proof (cases "unat (effect_cell e) < 25")
    case True
    let ?fs = "fs[unat (effect_cell e) := Some (now, effect_participant e = Host)]"
    have n: "note_effects now es ?fs = Some fs'" using Cons.prems True by (simp add: put_index_def)
    show ?thesis using Cons.IH [OF n] Cons.prems(2,3) True
      by (cases "filter (\<lambda>e. unat (effect_cell e) = i) es") (auto split: list.splits)
  next
    case False
    then show ?thesis using Cons by auto
  qed
qed simp

lemma publication_noted:
  assumes "length (flashes an) = 25" "note_snapshot now s an = Some an'"
  shows "anim_tick an' = Some (snap_tick s) \<and>
    (anim_tick an \<noteq> Some (snap_tick s) \<longrightarrow>
      (\<forall>i < 25. flashes an' ! i = (case filter (\<lambda>e. unat (effect_cell e) = i) (snap_effects s) of
         [] \<Rightarrow> flashes an ! i
       | fls \<Rightarrow> Some (now, effect_participant (last fls) = Host))))"
  using assms note_effects_flash [of now "snap_effects s" "flashes an"]
  by (auto simp: note_snapshot_def split: if_splits)

text \<open>A publication flashes once: reading the same one in later frames restarts nothing.\<close>

lemma publication_flashes_once:
  assumes "length (flashes an) = 25" "note_snapshot now s an = Some an'"
  shows "note_snapshot later s an' = Some an'"
  using publication_noted [OF assms] by (simp add: note_snapshot_def)

lemma rebuild_screen_menu: "fst (rebuild_screen (m, an, es)) = m\<lparr>rebuild := False\<rparr>"
  by (simp add: rebuild_screen_def Let_def)

lemma frame_menu:
  assumes "run_frame ts recent i s = Some s'"
  shows "\<exists>keys m0 m. edit_fields (in_events i) (in_focus_lost i) (screen_keys s, screen_menu s) = Some (keys, m0) \<and>
    menu_actions ts (in_opened i) (in_status i) (in_submitted i)
       (changed_buttons (in_pointer i) (screen_entities s))
       (m0, screen_slot s) = Some (m, screen_slot s') \<and> screen_menu s' = m\<lparr>rebuild := False\<rparr>"
  using assms
  by (auto simp: run_frame_def Let_def bind_eq_Some_conv split_beta rebuild_screen_menu)

section \<open>Properties\<close>

text \<open>C37. The presentation never panics: from the start, whatever keys, pointer movements, session
  outcomes and valid publications the frames bring, every frame completes, the menu runs exactly
  when a session is attached, and the final shutdown returns.\<close>

theorem screen_never_panics:
  assumes "\<forall>i \<in> set is. input_ok i"
  shows "\<exists>s. run_frames ts recent is screen_start = Some s \<and>
    (running (screen_menu s) \<longleftrightarrow> slot_handle (screen_slot s) \<noteq> None) \<and> screen_exit ts s \<noteq> None"
proof -
  obtain s where s: "run_frames ts recent is screen_start = Some s" "screen_ok s"
    using run_frames_ok [OF screen_start_ok assms] by blast
  then have m: "menu_in_step (screen_menu s) (screen_slot s)" by (simp add: screen_ok_def)
  then obtain s' res where "slot_shutdown (screen_slot s) = Some (s', res)"
    using slot_shutdown_total unfolding menu_in_step_def by blast
  then show ?thesis using s(1) m by (auto simp: screen_exit_def guard_shutdown_def menu_in_step_def)
qed

text \<open>C36. The screen shows the board: after any frame in which the running session has published a
  board, the screen is one tree with a grid of five columns whose 25 tiles are those of the
  cells in order.  In each tile and on each of its four sides, a visible box reaches the middle
  of the side exactly when the cell's turned tile has a port there; such a box comes from the
  tile's centre, and it is lit exactly when the cell is reached from the source.  The closing
  line is shown exactly when the puzzle is complete.\<close>

theorem screen_shows_the_board:
  assumes "run_frames ts recent is screen_start = Some s" "\<forall>i \<in> set is. input_ok i" "input_ok i"
    and "run_frame ts recent i s = Some s'"
    and "running (screen_menu s')" "snapshots (screen_menu s') = Some q" "in_latest i q = Some sn"
  shows "\<exists>src c kids g n tiles. position (\<lambda>t. kind t = Source) (pz_tiles (puzzle (snap_board sn))) = Some src \<and>
    screen_entities s' = [Entity c kids] \<and> Entity g tiles \<in> set kids \<and>
    node g = Some n \<and> display n = Grid \<and> GridTracks 5 80 \<in> set (styles n) \<and> length tiles = 25 \<and>
    (\<forall>j < 25. shows_tile (pz_tiles (puzzle (snap_board sn)) ! j)
       (reached connections (pz_tiles (puzzle (snap_board sn))) src j) (tiles ! j)) \<and>
    (\<exists>c \<in> set (all_components (screen_entities s')). Completion \<in> set (markers c) \<and>
       shown_text c =
         Some (if complete (puzzle (snap_board sn)) then ascii ''Your garden is glowing.'' else []))"
proof -
  let ?b = "snap_board sn"
  have ok: "screen_ok s" using run_frames_ok [OF screen_start_ok assms(2), of ts recent] assms(1) by auto
  have f: "screen_ok s'" "\<not> rebuild (screen_menu s')" "every (draws ?b) (screen_entities s')"
    using run_frame_ok [OF ok assms(3), of ts recent] assms(4-7) by (auto simp: current_snapshot_def)
  then have l: "laid_out (screen_menu s') (screen_entities s')" by (simp add: screen_ok_def)
  have b: "board_ok ?b" using assms(3,7) by (auto simp: input_ok_def publications_ok_def)
  obtain src where src: "position (\<lambda>t. kind t = Source) (pz_tiles (puzzle ?b)) = Some src"
    "\<forall>j < 25. powered ?b ! j \<longleftrightarrow> reached connections (pz_tiles (puzzle ?b)) src j"
    using garden_connectivity [of "pz_tiles (puzzle ?b)" connections] b by (auto simp: board_ok_def garden_ok_def)
  obtain c kids g n tiles where grid: "screen_entities s' = [Entity c kids]" "Entity g tiles \<in> set kids"
    "node g = Some n" "display n = Grid" "GridTracks 5 80 \<in> set (styles n)" "length tiles = 25"
    "\<forall>j < 25. shows_tile (pz_tiles (puzzle ?b) ! j) (powered ?b ! j) (tiles ! j)"
    using screen_grid [OF l f(2) assms(5) f(3)] by blast
  have "\<forall>j < 25. shows_tile (pz_tiles (puzzle ?b) ! j) (reached connections (pz_tiles (puzzle ?b)) src j) (tiles ! j)"
    using grid(7) src(2) by simp
  with grid(1-6) src(1) screen_draws_completion [OF l f(2) assms(5) f(3)] show ?thesis by blast
qed

definition frame_example :: "(components \<Rightarrow> interaction) \<Rightarrow> (nat \<Rightarrow> snapshot option) \<Rightarrow> (nat, nat) frame_input" where
  "frame_example p l =
     \<lparr>in_pointer = p, in_events = [], in_focus_lost = False, in_status = Live_Status, in_opened = opened_seven,
      in_submitted = (\<lambda>_. None), in_latest = l, in_now = 0\<rparr>"

definition press_start :: "components \<Rightarrow> interaction" where
  "press_start c = (case button_action c of Some Start_Action \<Rightarrow> Pressed | _ \<Rightarrow> Untouched)"

lemma example_first:
  "\<exists>s. run_frame (\<lambda>_. ''failed'') (\<lambda>a b. a < b + 400) (frame_example (\<lambda>_. Untouched) (\<lambda>_. None)) screen_start = Some s \<and>
     screen_menu s = menu_default\<lparr>rebuild := False\<rparr> \<and> screen_slot s = from_handle None \<and>
     changed_buttons press_start (screen_entities s) = [(True, Start_Action)]"
  by (simp add: run_frame_def frame_example_def screen_start_def changed_buttons_def map_filter_def edit_fields_def
     rebuild_screen_def menu_default_def animate_def update_fields_def screen_root_def menu_layout_def
     label_def button_entity_def field_entities_def bare_def touch_button_def update_field_def field_caption_def
     at_index_def update_error_def button_color_def press_start_def) blast

lemma example_second:
  assumes "run_frame (\<lambda>_. ''failed'') (\<lambda>a b. a < b + 400) (frame_example press_start l) s = Some s'"
    and "screen_menu s = menu_default\<lparr>rebuild := False\<rparr>" "screen_slot s = from_handle None"
    and "changed_buttons press_start (screen_entities s) = [(True, Start_Action)]"
  shows "running (screen_menu s') \<and> snapshots (screen_menu s') = Some 7"
  using frame_menu [OF assms(1)] assms(2-4)
  by (auto simp: frame_example_def edit_fields_def menu_action_def menu_start_def menu_request_def
      menu_default_def opened_seven_def attach_def from_handle_def split: sum.splits)

theorem screen_never_panics_witness:
  "\<exists>s. run_frames (\<lambda>_. ''failed'') (\<lambda>a b. a < b + 400)
      [frame_example (\<lambda>_. Untouched) (\<lambda>_. None), frame_example press_start (\<lambda>_. None)] screen_start = Some s \<and>
     (running (screen_menu s) \<longleftrightarrow> slot_handle (screen_slot s) \<noteq> None)"
proof -
  have "\<forall>i \<in> set [frame_example (\<lambda>_. Untouched) (\<lambda>_. None), frame_example press_start (\<lambda>_. None)]. input_ok i"
    by (auto simp: frame_example_def input_ok_def publications_ok_def opened_seven_def worker_ok_def spawn_def)
  from screen_never_panics [OF this] show ?thesis by blast
qed

theorem screen_shows_the_board_witness:
  "\<exists>b s src c kids g tiles. board_new default_initialization = Some (Inr b) \<and>
     run_frames (\<lambda>_. ''failed'') (\<lambda>a b. a < b + 400)
       [frame_example (\<lambda>_. Untouched) (\<lambda>_. None),
        frame_example press_start (\<lambda>_. Some \<lparr>snap_tick = 0, snap_board = b, snap_effects = []\<rparr>)] screen_start = Some s \<and>
     position (\<lambda>t. kind t = Source) (pz_tiles (puzzle b)) = Some src \<and>
     screen_entities s = [Entity c kids] \<and> Entity g tiles \<in> set kids \<and>
     shows_tile (pz_tiles (puzzle b) ! 12) (reached connections (pz_tiles (puzzle b)) src 12) (tiles ! 12)"
proof -
  let ?r = "\<lambda>a b :: nat. a < b + 400"
  obtain b where b: "board_new default_initialization = Some (Inr b)" using default_board by blast
  let ?sn = "\<lparr>snap_tick = 0, snap_board = b, snap_effects = []\<rparr>"
  let ?i = "frame_example press_start (\<lambda>_. Some ?sn)"
  have ok: "input_ok (frame_example p (\<lambda>_. None))" "input_ok ?i" for p
    using board_new_Inr(1) [OF b]
    by (auto simp: frame_example_def input_ok_def publications_ok_def opened_seven_def worker_ok_def spawn_def)
  obtain s where s: "run_frame (\<lambda>_. ''failed'') ?r (frame_example (\<lambda>_. Untouched) (\<lambda>_. None)) screen_start = Some s"
    "screen_menu s = menu_default\<lparr>rebuild := False\<rparr>" "screen_slot s = from_handle None"
    "changed_buttons press_start (screen_entities s) = [(True, Start_Action)]"
    using example_first by blast
  have s1: "run_frames (\<lambda>_. ''failed'') ?r [frame_example (\<lambda>_. Untouched) (\<lambda>_. None)] screen_start = Some s"
    using s(1) by simp
  have "screen_ok s"
    using run_frame_ok [OF screen_start_ok ok(1), of "\<lambda>_. ''failed''" ?r "\<lambda>_. Untouched"] s(1)
    by (elim exE conjE) simp
  then obtain s' where s': "run_frame (\<lambda>_. ''failed'') ?r ?i s = Some s'"
    using run_frame_ok [OF _ ok(2), of s "\<lambda>_. ''failed''" ?r] by blast
  have r: "running (screen_menu s')" "snapshots (screen_menu s') = Some 7"
    using example_second [OF s' s(2-4)] by simp_all
  have l: "in_latest ?i 7 = Some ?sn" by (simp add: frame_example_def)
  have "\<forall>i \<in> set [frame_example (\<lambda>_. Untouched) (\<lambda>_. None)]. input_ok i" using ok(1) by simp
  from screen_shows_the_board [OF s1 this ok(2) s' r l] obtain src c kids g tiles where
    "position (\<lambda>t. kind t = Source) (pz_tiles (puzzle b)) = Some src" "screen_entities s' = [Entity c kids]"
    "Entity g tiles \<in> set kids"
    "\<forall>j < 25. shows_tile (pz_tiles (puzzle b) ! j) (reached connections (pz_tiles (puzzle b)) src j) (tiles ! j)"
    unfolding snapshot.simps by blast
  moreover have "run_frames (\<lambda>_. ''failed'') ?r
      [frame_example (\<lambda>_. Untouched) (\<lambda>_. None), ?i] screen_start = Some s'"
    using s(1) s' by simp
  moreover have "(12 :: nat) < 25" by simp
  ultimately show ?thesis using b by blast
qed

end
