(* ===== verification/Wallet_Program.thy ===== *)
theory Wallet_Program
  imports Wallet
begin

text \<open>
  \<^verbatim>\<open>examples/wallet/src/main.rs\<close> and \<open>cli.rs\<close>, and the headless server of
  \<^verbatim>\<open>examples/power-garden/src/main.rs\<close>: the programs around a session.  Each polls its session
  until it ends or is cancelled, then always shuts it down and reports every failure.

  The loops share the session's control with the worker and with the console thread that
  cancels on Enter.  A round of a loop carries what those two did to the control before each of
  its reads.  Parsing the arguments, opening the session and starting the console thread are
  parameters; printed lines are the values they print.
\<close>

section \<open>The command line\<close>

record authority_options =
  opt_record :: "string option"
  opt_load :: "string option"

definition no_options :: authority_options where
  "no_options = \<lparr>opt_record = None, opt_load = None\<rparr>"

datatype wallet_mode =
    Host_Run authority_options
  | Server_Run authority_options
  | Client_Run
  | Replay_Run string

definition cli_mode :: "wallet_mode option \<Rightarrow> wallet_mode" where
  "cli_mode md = (case md of Some m \<Rightarrow> m | None \<Rightarrow> Host_Run no_options)"

text \<open>What \<open>main\<close> opens, and the transfer the participant submits once.\<close>

datatype wallet_launch =
    Launch_Host "wallet_initialization server_config"
  | Launch_Server "wallet_initialization server_config"
  | Launch_Client client_config

definition wallet_launch :: "wallet_mode \<Rightarrow> string + wallet_launch \<times> transfer option" where
  "wallet_launch md =
     (case md of
        Host_Run opts \<Rightarrow>
          Inr (Launch_Host (into_config (opt_record opts) (opt_load opts)),
               Some \<lparr>recipient = 1, amounts = [3, 7]\<rparr>)
      | Server_Run opts \<Rightarrow> Inr (Launch_Server (into_config (opt_record opts) (opt_load opts)), None)
      | Client_Run \<Rightarrow>
          Inr (Launch_Client (client_config_new 1 (V4 [127, 0, 0, 1] 5000)), Some \<lparr>recipient = 0, amounts = [2, 3]\<rparr>)
      | Replay_Run path \<Rightarrow> Inl path)"

section \<open>Presenting a session\<close>

record console_round =
  at_test :: "session_control \<Rightarrow> session_control"
  worker_finished :: bool
  at_status :: "session_control \<Rightarrow> session_control"
  at_submit :: "session_control \<Rightarrow> session_control"
  observed :: "wallet_state option"

record 'q presentation =
  p_session :: "'q session_handle"
  p_demo :: "transfer option"
  last_balances :: "u64 list option"
  printed :: "(u64 \<times> u64 list) list"

type_synonym 'q sender = "byte list \<Rightarrow> 'q \<Rightarrow> 'q \<times> (try_send_error + unit)"

definition others :: "(session_control \<Rightarrow> session_control) \<Rightarrow> 'q presentation \<Rightarrow> 'q presentation" where
  "others f p = p\<lparr>p_session := (p_session p)\<lparr>control := f (control (p_session p))\<rparr>\<rparr>"

definition submit_demo ::
  "(nat \<Rightarrow> bool) \<Rightarrow> 'q sender \<Rightarrow> 'q presentation \<Rightarrow> 'q presentation \<times> (submit_error + unit)" where
  "submit_demo al try_send p =
     (case p_demo p of
        None \<Rightarrow> (p, Inr ())
      | Some command \<Rightarrow>
          (let (q, res) = submit transfer_wire al try_send (control (p_session p)) command (commands (p_session p))
           in (p\<lparr>p_demo := None, p_session := (p_session p)\<lparr>commands := q\<rparr>\<rparr>, res)))"

definition print_balances :: "wallet_state option \<Rightarrow> 'q presentation \<Rightarrow> 'q presentation" where
  "print_balances latest p =
     (case latest of
        None \<Rightarrow> p
      | Some s \<Rightarrow>
          if last_balances p \<noteq> Some (balances s)
          then p\<lparr>printed := printed p @ [(wtick s, balances s)], last_balances := Some (balances s)\<rparr>
          else p)"

text \<open>One round: \<open>Some\<close> outcome if it ends the loop; the outer \<open>None\<close> is a panic of \<open>poll\<close>.\<close>

definition present_round ::
  "(nat \<Rightarrow> bool) \<Rightarrow> 'q sender \<Rightarrow> console_round \<Rightarrow> 'q presentation \<Rightarrow>
   ('q presentation \<times> (submit_error + unit) option) option" where
  "present_round al try_send r p =
     (let p = others (at_test r) p in
      if is_cancelled (control (p_session p)) then Some (p, Some (Inr ()))
      else
        map_option (\<lambda>h.
          let p = others (at_status r) (p\<lparr>p_session := h\<rparr>) in
          case status (control (p_session p)) of
            Stopped \<Rightarrow> (p, Some (Inr ()))
          | Failed _ \<Rightarrow> (p, Some (Inr ()))
          | Live_Status \<Rightarrow>
              (case submit_demo al try_send (others (at_submit r) p) of
                 (p, Inl e) \<Rightarrow> (p, Some (Inl e))
               | (p, Inr _) \<Rightarrow> (print_balances (observed r) p, None))
          | _ \<Rightarrow> (p, None))
          (handle_poll (worker_finished r) (p_session p)))"

fun present ::
  "(nat \<Rightarrow> bool) \<Rightarrow> 'q sender \<Rightarrow> console_round list \<Rightarrow> 'q presentation \<Rightarrow>
   ('q presentation \<times> (submit_error + unit) option) option" where
  "present al try_send [] p = Some (p, None)"
| "present al try_send (r # rs) p =
     Option.bind (present_round al try_send r p) (\<lambda>(p, res).
     case res of
       Some _ \<Rightarrow> Some (p, res)
     | None \<Rightarrow> present al try_send rs p)"

definition present_start :: "'q session_handle \<Rightarrow> transfer option \<Rightarrow> 'q presentation" where
  "present_start h demo = \<lparr>p_session = h, p_demo = demo, last_balances = None, printed = []\<rparr>"

section \<open>Running a session\<close>

type_synonym 'e shown = "'e \<Rightarrow> string"

definition combine_results ::
  "session_error shown \<Rightarrow> string + unit \<Rightarrow> unit session_result \<Rightarrow> string + unit" where
  "combine_results show_error presentation ending =
     (case (presentation, ending) of
        (Inr _, Inr _) \<Rightarrow> Inr ()
      | (Inl e, Inr _) \<Rightarrow> Inl e
      | (Inr _, Inl e) \<Rightarrow> Inl (show_error e)
      | (Inl p, Inl w) \<Rightarrow> Inl (p @ ''; session shutdown also failed: '' @ show_error w))"

text \<open>\<open>console\<close> is the outcome of starting the console thread.  The result is \<open>Some\<close> of the
  presentation and the outcome, with outcome \<open>None\<close> while the rounds do not end the loop.\<close>

definition run_live ::
  "session_error shown \<Rightarrow> submit_error shown \<Rightarrow> (nat \<Rightarrow> bool) \<Rightarrow> 'q sender \<Rightarrow> string + unit \<Rightarrow>
   console_round list \<Rightarrow> 'q session_handle \<Rightarrow> transfer option \<Rightarrow>
   ('q presentation \<times> (string + unit) option) option" where
  "run_live show_error show_submit al try_send console rounds h demo =
     (let finish = (\<lambda>p outcome.
        map_option (\<lambda>(h, ending).
          (p\<lparr>p_session := h\<rparr>, Some (combine_results show_error outcome ending))) (shutdown (p_session p))) in
      case console of
        Inl e \<Rightarrow> finish (present_start h demo) (Inl e)
      | Inr _ \<Rightarrow>
          Option.bind (present al try_send rounds (present_start h demo)) (\<lambda>(p, res).
          case res of
            None \<Rightarrow> Some (p, None)
          | Some r \<Rightarrow> finish p (map_err show_submit r)))"

section \<open>The garden's headless server\<close>

record server_round =
  s_test :: "session_control \<Rightarrow> session_control"
  s_finished :: bool
  s_status :: "session_control \<Rightarrow> session_control"

definition server_config_of :: "u16 \<Rightarrow> string option \<Rightarrow> string option \<Rightarrow> 'i \<Rightarrow> 'i server_config" where
  "server_config_of p load_from record_to init =
     (server_config_new init)\<lparr>port := p, expected_clients := 1, load_path := load_from, record_path := record_to\<rparr>"

fun serve_headless ::
  "server_round list \<Rightarrow> 'q session_handle \<Rightarrow> ('q session_handle \<times> bool) option" where
  "serve_headless [] h = Some (h, False)"
| "serve_headless (r # rs) h =
     (let h = h\<lparr>control := s_test r (control h)\<rparr> in
      if is_cancelled (control h) then Some (h, True)
      else Option.bind (handle_poll (s_finished r) h) (\<lambda>h.
        let h = h\<lparr>control := s_status r (control h)\<rparr> in
        case status (control h) of
          Failed _ \<Rightarrow> Some (h, True)
        | Stopped \<Rightarrow> Some (h, True)
        | _ \<Rightarrow> serve_headless rs h))"

text \<open>If the console thread does not start, the error returns and drops the session.\<close>

definition run_headless ::
  "session_error shown \<Rightarrow> string + unit \<Rightarrow> server_round list \<Rightarrow> 'q session_handle \<Rightarrow>
   ('q session_handle \<times> (string + unit) option) option" where
  "run_headless show_error console rounds h =
     (case console of
        Inl e \<Rightarrow> map_option (\<lambda>h. (h, Some (Inl e))) (handle_drop h)
      | Inr _ \<Rightarrow>
          Option.bind (serve_headless rounds h) (\<lambda>(h, ended).
          if \<not> ended then Some (h, None)
          else map_option (\<lambda>(h, ending). (h, Some (map_err show_error ending))) (shutdown h)))"

section \<open>Every round returns\<close>

lemma submit_demo_keeps:
  "submit_demo al ts p = (p', res) \<Longrightarrow> worker (p_session p') = worker (p_session p) \<and>
     control (p_session p') = control (p_session p) \<and> last_balances p' = last_balances p \<and> printed p' = printed p"
  by (auto simp: submit_demo_def Let_def split: option.splits prod.splits)

lemma print_balances_keeps: "p_session (print_balances l p) = p_session p \<and> p_demo (print_balances l p) = p_demo p"
  by (simp add: print_balances_def split: option.split)

lemma others_keeps [simp]:
  "worker (p_session (others f p)) = worker (p_session p)" "commands (p_session (others f p)) = commands (p_session p)"
  "p_demo (others f p) = p_demo p" "last_balances (others f p) = last_balances p" "printed (others f p) = printed p"
  "control (p_session (others f p)) = f (control (p_session p))"
  by (simp_all add: others_def)

lemma present_round_total:
  assumes "worker_ok (worker (p_session p))"
  shows "\<exists>p' res. present_round al ts r p = Some (p', res) \<and> worker_ok (worker (p_session p'))"
proof (cases "is_cancelled (at_test r (control (p_session p)))")
  case False
  obtain h where h: "handle_poll (worker_finished r) (p_session (others (at_test r) p)) = Some h" "worker_ok (worker h)"
    using handle_poll_total [of "p_session (others (at_test r) p)"] assms by auto
  let ?p = "others (at_status r) ((others (at_test r) p)\<lparr>p_session := h\<rparr>)"
  obtain p2 res where p2: "submit_demo al ts (others (at_submit r) ?p) = (p2, res)" by fastforce
  show ?thesis
    using False h p2 submit_demo_keeps [OF p2] print_balances_keeps [of "observed r" p2]
    by (cases "status (at_status r (control h))"; cases res) (simp_all add: present_round_def Let_def)
qed (use assms in \<open>simp add: present_round_def Let_def\<close>)

lemma present_ends:
  "worker_ok (worker (p_session p)) \<Longrightarrow> r \<in> set rs \<Longrightarrow> \<forall>c. is_cancelled (at_test r c) \<Longrightarrow>
     \<exists>p' res. present al ts rs p = Some (p', Some res) \<and> worker_ok (worker (p_session p'))"
proof (induction rs arbitrary: p)
  case (Cons r1 rs)
  obtain p1 res where p1: "present_round al ts r1 p = Some (p1, res)" "worker_ok (worker (p_session p1))"
    using present_round_total [OF Cons.prems(1)] by blast
  show ?case
  proof (cases res)
    case None
    then have "r1 \<noteq> r" using p1(1) Cons.prems(3) by (auto simp: present_round_def Let_def)
    then show ?thesis using None p1 Cons.IH [OF p1(2)] Cons.prems(2,3) by auto
  qed (use p1 in simp)
qed simp

section \<open>One submission, no repeated line\<close>

definition submitted_once :: "(nat \<Rightarrow> bool) \<Rightarrow> 'q sender \<Rightarrow> 'q presentation \<Rightarrow> 'q presentation \<Rightarrow> bool" where
  "submitted_once al ts p p' \<longleftrightarrow>
     (p_demo p' = p_demo p \<and> commands (p_session p') = commands (p_session p)) \<or>
     (\<exists>command c. p_demo p = Some command \<and> p_demo p' = None \<and>
        commands (p_session p') = fst (submit transfer_wire al ts c command (commands (p_session p))))"

definition lines_ok :: "'q presentation \<Rightarrow> bool" where
  "lines_ok p \<longleftrightarrow> distinct_adj (map snd (printed p)) \<and>
     last_balances p = (if printed p = [] then None else Some (snd (last (printed p))))"

lemma submit_demo_once:
  assumes "submit_demo al ts p = (p', res)"
  shows "submitted_once al ts p p'"
proof (cases "p_demo p")
  case (Some command)
  obtain q r where "submit transfer_wire al ts (control (p_session p)) command (commands (p_session p)) = (q, r)"
    by fastforce
  then show ?thesis
    using assms Some unfolding submitted_once_def
    by (intro disjI2 exI [of _ command] exI [of _ "control (p_session p)"]) (auto simp: submit_demo_def)
qed (use assms in \<open>simp add: submit_demo_def submitted_once_def\<close>)

lemma submitted_once_trans:
  "submitted_once al ts p p1 \<Longrightarrow> submitted_once al ts p1 p2 \<Longrightarrow> submitted_once al ts p p2"
  unfolding submitted_once_def by (metis option.distinct(1))

lemma print_balances_ok: "lines_ok p \<Longrightarrow> lines_ok (print_balances l p)"
  by (auto simp: lines_ok_def print_balances_def distinct_adj_append_iff last_map split: option.split)

lemma present_round_once:
  assumes "present_round al ts r p = Some (p', res)" "lines_ok p"
  shows "submitted_once al ts p p' \<and> lines_ok p'"
proof (cases "is_cancelled (at_test r (control (p_session p)))")
  case True
  then show ?thesis using assms by (auto simp: present_round_def Let_def submitted_once_def lines_ok_def)
next
  case False
  then obtain h where h: "handle_poll (worker_finished r) (p_session (others (at_test r) p)) = Some h"
    using assms(1) by (auto simp: present_round_def Let_def)
  then have c: "commands h = commands (p_session p)" by (auto simp: handle_poll_def)
  let ?p = "others (at_status r) ((others (at_test r) p)\<lparr>p_session := h\<rparr>)"
  have p: "submitted_once al ts p ?p" "lines_ok ?p"
    using c assms(2) by (simp_all add: submitted_once_def lines_ok_def)
  show ?thesis
  proof (cases "status (at_status r (control h)) = Live_Status")
    case True
    obtain p2 sub where p2: "submit_demo al ts (others (at_submit r) ?p) = (p2, sub)" by fastforce
    have s: "submitted_once al ts p p2"
      using submitted_once_trans [OF p(1)] submit_demo_once [OF p2] by (simp add: submitted_once_def)
    have l: "lines_ok p2" using submit_demo_keeps [OF p2] p(2) by (simp add: lines_ok_def)
    have "p' = (case sub of Inl _ \<Rightarrow> p2 | Inr _ \<Rightarrow> print_balances (observed r) p2)"
      using assms(1) False h True p2 by (auto simp: present_round_def Let_def split: sum.splits)
    then show ?thesis
      using s l print_balances_ok [OF l] print_balances_keeps [of "observed r" p2]
      by (auto simp: submitted_once_def split: sum.split)
  next
    case False': False
    then have "p' = ?p"
      using assms(1) False h by (cases "status (at_status r (control h))") (auto simp: present_round_def Let_def)
    then show ?thesis using p by simp
  qed
qed

lemma present_once:
  "present al ts rs p = Some (p', res) \<Longrightarrow> lines_ok p \<Longrightarrow> submitted_once al ts p p' \<and> lines_ok p'"
proof (induction rs arbitrary: p)
  case (Cons r rs)
  obtain p1 res1 where p1: "present_round al ts r p = Some (p1, res1)"
    "(case res1 of Some _ \<Rightarrow> Some (p1, res1) | None \<Rightarrow> present al ts rs p1) = Some (p', res)"
    using Cons.prems(1) by (auto simp: bind_eq_Some_conv)
  note o = present_round_once [OF p1(1) Cons.prems(2)]
  then show ?case using p1(2) Cons.IH [of p1] submitted_once_trans by (cases res1) auto
qed (simp add: submitted_once_def)

lemma serve_headless_ends:
  "worker_ok (worker h) \<Longrightarrow> r \<in> set rs \<Longrightarrow> \<forall>c. is_cancelled (s_test r c) \<Longrightarrow>
     \<exists>h'. serve_headless rs h = Some (h', True) \<and> worker_ok (worker h')"
proof (induction rs arbitrary: h)
  case (Cons r1 rs)
  let ?h = "h\<lparr>control := s_test r1 (control h)\<rparr>"
  show ?case
  proof (cases "is_cancelled (control ?h)")
    case False
    then have r: "r \<in> set rs" using Cons.prems(2,3) by auto
    obtain h1 where h1: "handle_poll (s_finished r1) ?h = Some h1" "worker_ok (worker h1)"
      using handle_poll_total [of ?h] Cons.prems(1) by auto
    let ?h1 = "h1\<lparr>control := s_status r1 (control h1)\<rparr>"
    obtain h' where "serve_headless rs ?h1 = Some (h', True)" "worker_ok (worker h')"
      using Cons.IH [of ?h1] h1(2) r Cons.prems(3) by auto
    then show ?thesis
      using False h1 by (cases "status (control ?h1)") (simp_all add: Let_def)
  qed (use Cons.prems(1) in \<open>simp add: Let_def\<close>)
qed simp

section \<open>Properties\<close>

text \<open>Once a round sees the session cancelled, or if the console could not start, \<open>run_live\<close>
  returns with the worker joined.\<close>

lemma run_live_ends:
  assumes "worker_ok (worker h)" "r \<in> set rounds" "\<forall>c. is_cancelled (at_test r c)"
  shows "\<exists>p out ending.
    run_live show_error show_submit al ts console rounds h demo = Some (p, Some out) \<and>
    terminal (worker (p_session p)) = Some ending \<and> (out = Inr () \<longrightarrow> ending = Inr ()) \<and>
    (\<forall>e. ending = Inl e \<longrightarrow> (\<exists>m. out = Inl (m @ show_error e)))"
proof -
  have fin: "\<exists>h' ending. shutdown h1 = Some (h', ending) \<and> terminal (worker h') = Some ending"
    if "worker_ok (worker h1)" for h1 :: "'a session_handle"
    using shutdown_total [OF that] by blast
  have c: "(combine_results show_error o1 ending = Inr () \<longrightarrow> ending = Inr ()) \<and>
      (\<forall>e. ending = Inl e \<longrightarrow> (\<exists>m. combine_results show_error o1 ending = Inl (m @ show_error e)))" for o1 ending
    by (cases o1; cases ending) (auto simp: combine_results_def)
  show ?thesis
  proof (cases console)
    case (Inl e)
    obtain h' ending where "shutdown h = Some (h', ending)" "terminal (worker h') = Some ending"
      using fin [OF assms(1)] by blast
    then show ?thesis using Inl c [of "Inl e" ending] by (simp add: run_live_def present_start_def)
  next
    case (Inr u)
    have "worker_ok (worker (p_session (present_start h demo)))" using assms(1) by (simp add: present_start_def)
    then obtain p res where p: "present al ts rounds (present_start h demo) = Some (p, Some res)"
      "worker_ok (worker (p_session p))"
      using present_ends [OF _ assms(2,3)] by blast
    obtain h' ending where "shutdown (p_session p) = Some (h', ending)" "terminal (worker h') = Some ending"
      using fin [OF p(2)] by blast
    then show ?thesis using Inr p(1) c [of "map_err show_submit res" ending] by (simp add: run_live_def)
  qed
qed

definition idle_handle :: "byte list list session_handle" where
  "idle_handle = \<lparr>commands = [], control = session_control_default, worker = spawn (Returned (Inl (Desync ''x'')))\<rparr>"

definition enter_round :: console_round where
  "enter_round =
     \<lparr>at_test = cancel, worker_finished = False, at_status = id, at_submit = id, observed = None\<rparr>"

definition live_round :: console_round where
  "live_round =
     \<lparr>at_test = id, worker_finished = False, at_status = publish_status Live_Status, at_submit = id,
      observed = Some \<lparr>wtick = 1, seed = 42, balances = [100, 200], rejected = 0\<rparr>\<rparr>"

text \<open>A participant submits its demo transfer at most once, and no printed line repeats the
  balances of the line before it, whatever the worker and the console do between the reads.\<close>

theorem demo_submitted_once:
  assumes "present al ts rounds (present_start h demo) = Some (p, res)"
  shows "((p_demo p = demo \<and> commands (p_session p) = commands h) \<or>
      (\<exists>command c. demo = Some command \<and> p_demo p = None \<and>
         commands (p_session p) = fst (submit transfer_wire al ts c command (commands h)))) \<and>
    distinct_adj (map snd (printed p))"
proof -
  have "lines_ok (present_start h demo)" by (simp add: lines_ok_def present_start_def)
  from present_once [OF assms this] show ?thesis
    by (auto simp: submitted_once_def lines_ok_def present_start_def)
qed

theorem demo_submitted_once_witness:
  "\<exists>p. present infallible (\<lambda>b q. (q @ [b], Inr ())) [live_round, live_round]
      (present_start idle_handle (Some \<lparr>recipient = 1, amounts = [3, 7]\<rparr>)) = Some (p, None) \<and>
     p_demo p = None \<and> length (printed p) = 1 \<and> distinct_adj (map snd (printed p))"
proof -
  have s: "encode transfer_wire infallible \<lparr>recipient = 1, amounts = [3, 7]\<rparr> =
      Inr (canon transfer_shape \<lparr>recipient = 1, amounts = [3, 7]\<rparr>)"
  proof -
    note shapes = transfer_shape_def initialization_fields_shape_def construct_shape_def and_field_shape_def
      no_fields_shape_def scalar_shape_def vec_shape_def
    have s: "sendable transfer_shape \<lparr>recipient = 1, amounts = [3, 7]\<rparr>" by (simp add: shapes)
    then have "within_budget transfer_shape \<lparr>recipient = 1, amounts = [3, 7]\<rparr>"
      by (simp add: within_budget_def max_payload_bytes_def max_allocation_bytes_def max_depth_def shapes)
    then show ?thesis by (simp add: transfer.encode_Inr [OF s])
  qed
  obtain p where p: "present infallible (\<lambda>b q. (q @ [b], Inr ())) [live_round, live_round]
      (present_start idle_handle (Some \<lparr>recipient = 1, amounts = [3, 7]\<rparr>)) = Some (p, None)"
    "p_demo p = None" "length (printed p) = 1"
    using s
    by (simp add: present_round_def others_def live_round_def present_start_def idle_handle_def handle_poll_def
        poll_def submit_demo_def submit_def is_cancelled_def session_control_default_def publish_status_def
        print_balances_def)
  from demo_submitted_once [OF p(1)] show ?thesis using p by blast
qed

end
