(* ===== verification/Session_Invariant.thy ===== *)
theory Session_Invariant
  imports Run_Server Run_Client Api
begin

text \<open>
  Invariants of a simulation in a session.  If every operation of a simulation keeps a
  property of its state, whether it succeeds or fails, then so does everything the framework
  does with it: loading a recording, serving a session to any clients, joining one as a
  client, replaying a file, however they end.  A game states its property once, of its own
  operations (\<open>stable_game\<close>); the adapter turns it into one of the simulation.
\<close>

section \<open>Simulations\<close>

text \<open>A part of a replica's iteration that leaves the simulation with the property.\<close>

definition step_ok :: "('s \<Rightarrow> bool) \<Rightarrow> 's replica_step \<Rightarrow> bool" where
  "step_ok ok m \<longleftrightarrow> ok (rp_sim (fst m))"

locale stable_sim =
  fixes sim :: "'s session_sim" and ok :: "'s \<Rightarrow> bool"
  assumes initialize_ok: "ok s \<Longrightarrow> ok (fst (sim_initialize sim h s))"
    and advance_ok: "ok s \<Longrightarrow> ok (fst (sim_advance sim adv s))"
    and publish_ok: "ok s \<Longrightarrow> ok (fst (sim_publish sim s))"
    and finish_ok: "ok s \<Longrightarrow> ok (sim_finish_tick sim s)"
begin

lemma initialize_okI: "sim_initialize sim h s = (s', res) \<Longrightarrow> ok s \<Longrightarrow> ok s'"
  using initialize_ok [of s h] by simp

lemma publish_okI: "sim_publish sim s = (s', res) \<Longrightarrow> ok s \<Longrightarrow> ok s'"
  using publish_ok [of s] by simp

lemma advance_tick_ok: "advance_tick sim adv phase s = (s', res) \<Longrightarrow> ok s \<Longrightarrow> ok s'"
  using advance_ok [of s adv] publish_ok [of "fst (sim_advance sim adv s)"]
  by (auto simp: advance_tick_def advance_checked_def Let_def split_beta intro!: finish_ok split: sum.splits if_splits)

lemma advance_all_ok: "advance_all sim phase advs s = (s', res) \<Longrightarrow> ok s \<Longrightarrow> ok s'"
proof (induction advs arbitrary: s)
  case (Cons adv advs)
  obtain s1 r where s1: "advance_tick sim adv phase s = (s1, r)" by fastforce
  then have "ok s1" using advance_tick_ok Cons.prems(2) by blast
  then show ?case using Cons.IH [of s1] Cons.prems(1) s1 by (auto split: sum.splits)
qed simp

subsection \<open>Replaying\<close>

lemma replay_step_invariant: "replay_step bc sim adv r = (r', res) \<Longrightarrow> ok (run_state r) \<Longrightarrow> ok (run_state r')"
  by (auto simp: replay_step_def Let_def split_beta split: sum.splits option.splits
      intro: advance_tick_ok [OF prod.collapse [symmetric]])

lemma batch_loop_ok: "batch_loop bc al sim n os k r = (r', res) \<Longrightarrow> ok (run_state r) \<Longrightarrow> ok (run_state r')"
proof (induction n arbitrary: os k r)
  case (Suc n)
  show ?case
  proof (cases os)
    case (Cons o1 os1)
    show ?thesis
    proof (cases "o1 = Go")
      case True
      obtain m src where n: "next_record bc al (run_source r) = Inr (m, src) \<or> (\<exists>e. next_record bc al (run_source r) = Inl e)"
        by (cases "next_record bc al (run_source r)") auto
      obtain r1 res1 where r1: "replay_step bc sim (the m) (r\<lparr>run_source := src\<rparr>) = (r1, res1)" by fastforce
      have "ok (run_state r1)" using replay_step_invariant [OF r1] Suc.prems(2) by simp
      then show ?thesis
        using n Suc.IH [of os1 "k + 1" r1] Suc.prems Cons True r1 by (auto split: option.splits sum.splits)
    qed (use Suc.prems Cons in \<open>cases o1; simp\<close>)
  qed (use Suc.prems in simp)
qed simp

lemma replay_batch_ok: "replay_batch bc al sim os r = (r', res) \<Longrightarrow> ok (run_state r) \<Longrightarrow> ok (run_state r')"
  unfolding replay_batch_def by (rule batch_loop_ok)

lemma replay_into_ok:
  "replay_into bc al sim rounds acc r = Some (r', res) \<Longrightarrow> ok (run_state r) \<Longrightarrow> ok (run_state r')"
proof (induction rounds arbitrary: acc r)
  case (Cons round rounds)
  obtain stop os where round: "round = (stop, os)" by (cases round)
  obtain r1 res1 where r1: "replay_batch bc al sim os r = (r1, res1)" by fastforce
  then have "ok (run_state r1)" using replay_batch_ok Cons.prems(2) by blast
  then show ?case
    using Cons.IH [of _ r1] Cons.prems round r1 by (auto split: if_splits sum.splits)
qed simp

subsection \<open>The authority\<close>

lemma load_loop_ok:
  "load_loop bc al sim rounds l = Some (l', res) \<Longrightarrow> ok (run_state (ld_run l)) \<Longrightarrow> ok (run_state (ld_run l'))"
proof (induction rounds arbitrary: l)
  case (Cons env rounds)
  obtain r1 res1 where r1: "replay_batch bc al sim (le_batch env) (ld_run l) = (r1, res1)" by fastforce
  then have r: "ok (run_state r1)" using replay_batch_ok Cons.prems(2) by blast
  then show ?case
    using Cons.IH Cons.prems r1 by (auto simp: Let_def split: if_splits sum.splits)
qed simp

lemma fingerprint_tick_sim: "fingerprint_tick sim t a = (a', res) \<Longrightarrow> au_sim a' = au_sim a"
  by (auto simp: fingerprint_tick_def Let_def split_beta split: if_splits sum.splits)

lemma commit_tick_ok: "commit_tick bc sim adv a = (a', acts, res) \<Longrightarrow> ok (au_sim a) \<Longrightarrow> ok (au_sim a')"
proof -
  assume c: "commit_tick bc sim adv a = (a', acts, res)" "ok (au_sim a)"
  obtain w r1 where w: "append_writer bc adv (au_writer a) = (w, r1)" by fastforce
  obtain s r2 where s: "advance_tick sim adv Live (au_sim a) = (s, r2)" by fastforce
  obtain a1 r3 where a1: "fingerprint_tick sim (tick adv) (a\<lparr>au_sim := s, au_writer := w\<rparr>) = (a1, r3)" by fastforce
  have "ok s" using advance_tick_ok [OF s c(2)] .
  then show "ok (au_sim a')"
    using c w s a1 fingerprint_tick_sim [OF a1]
    by (auto simp: commit_tick_def Let_def split: if_splits sum.splits)
qed

lemma tick_round_ok: "tick_round bc al sim policy env a = (a', acts, res) \<Longrightarrow> ok (au_sim a) \<Longrightarrow> ok (au_sim a')"
  by (auto simp: tick_round_def Let_def split: sum.splits option.splits prod.splits dest!: commit_tick_ok)

lemma tick_loop_ok:
  "tick_loop bc al sim policy rounds a = Some (a', acts, res) \<Longrightarrow> ok (au_sim a) \<Longrightarrow> ok (au_sim a')"
proof (induction rounds arbitrary: a acts)
  case (Cons round rounds)
  obtain stop env where round: "round = (stop, env)" by (cases round)
  obtain a1 acts1 res1 where a1: "tick_round bc al sim policy env a = (a1, acts1, res1)"
    by (cases "tick_round bc al sim policy env a")
  then have "ok (au_sim a1)" using tick_round_ok Cons.prems(2) by blast
  then show ?case
    using Cons.IH [of a1] Cons.prems round a1 by (auto split: if_splits sum.splits)
qed simp

lemma serve_ok: "serve bc al sim cfg env save meta st = Some (st', acts, res) \<Longrightarrow> ok (ss_sim st) \<Longrightarrow> ok (ss_sim st')"
proof -
  assume v: "serve bc al sim cfg env save meta st = Some (st', acts, res)" "ok (ss_sim st)"
  obtain s r where s: "sim_publish sim (ss_sim st) = (s, r)" by fastforce
  have "ok s" using publish_okI [OF s v(2)] .
  then show "ok (ss_sim st')"
    using v s
    by (auto simp: serve_def Let_def split: option.splits sum.splits if_splits dest!: tick_loop_ok)
qed

lemma after_load_ok: "after_load bc al sim cfg env st = Some (st', acts, res) \<Longrightarrow> ok (ss_sim st) \<Longrightarrow> ok (ss_sim st')"
  by (auto simp: after_load_def Let_def split_beta split: if_splits sum.splits dest!: serve_ok)

lemma run_session_ok:
  "run_session bc al sim cfg env src st = Some (st', acts, res) \<Longrightarrow> ok (ss_sim st) \<Longrightarrow> ok (ss_sim st')"
  by (auto simp: run_session_def Let_def split: option.splits sum.splits bool.splits dest!: load_loop_ok after_load_ok)

lemma final_flush_sim: "final_flush (st, acts, res) = (st', acts', res') \<Longrightarrow> ss_sim st' = ss_sim st"
  by (auto simp: final_flush_def split: prod.splits sum.splits)

lemma run_server_ok:
  assumes "run_server bc al fs file blank sim cfg env s ctl = Some (st, acts, res)" "ok s"
  shows "ok (ss_sim st)"
  using assms
  by (auto simp: run_server_def Let_def split_beta split: sum.splits
      dest!: run_session_ok final_flush_sim intro: initialize_ok)

subsection \<open>The replica\<close>

lemma startup_step_ok: "startup_step bc al sim os c s = (c', s', res) \<Longrightarrow> ok s \<Longrightarrow> ok s'"
proof -
  assume v: "startup_step bc al sim os c s = (c', s', res)" "ok s"
  show "ok s'"
  proof (cases "cphase c")
    case (Replaying meta rd)
    obtain s1 r1 where s1: "(if initialized c then (s, Inr ()) else sim_initialize sim (header rd) s) = (s1, r1)" by fastforce
    then have o1: "ok s1" using v(2) by (auto split: if_splits dest: initialize_okI)
    obtain r res1 where r: "replay_batch bc al sim os \<lparr>run_state = s1, run_source = inner rd, run_mirror = None\<rparr> = (r, res1)"
      by fastforce
    then have "ok (run_state r)" using replay_batch_ok o1 by fastforce
    then show ?thesis
      using v(1) Replaying s1 r o1 by (auto simp: startup_step_def Let_def split: sum.splits if_splits)
  qed (use v in \<open>auto simp: startup_step_def\<close>)
qed

lemma then_do_ok:
  assumes "step_ok ok m" "\<And>c. ok (rp_sim c) \<Longrightarrow> step_ok ok (f c)"
  shows "step_ok ok (then_do m f)"
proof -
  obtain c acts res where m: "m = (c, acts, res)" by (cases m)
  obtain c1 acts1 res1 where c1: "f c = (c1, acts1, res1)" by (cases "f c")
  have "step_ok ok (f c)" using assms m by (simp add: step_ok_def)
  then show ?thesis using assms(1) m c1 by (cases res) (simp_all add: then_do_def step_ok_def)
qed

lemma simple_steps_ok:
  assumes "ok (rp_sim c)"
  shows "step_ok ok (do_nothing c)" "step_ok ok (fail_with e c)" "step_ok ok (client_send ch bs c)"
    "step_ok ok (transport_check err c)" "step_ok ok (forward_inputs bc rs c)" "step_ok ok (acknowledge_progress bc c)"
    "step_ok ok (report_loading bc elapsed c)"
  using assms
  by (auto simp: step_ok_def do_nothing_def fail_with_def client_send_def transport_check_def forward_inputs_def
      acknowledge_progress_def report_loading_def Let_def split: option.split sum.split)

lemma receive_saves_ok: "ok (rp_sim c) \<Longrightarrow> step_ok ok (receive_saves bc al msgs c)"
  by (induction msgs arbitrary: c) (auto simp: Let_def split_beta simple_steps_ok split: sum.split)

lemma step_startup_ok:
  assumes "ok (rp_sim c)"
  shows "step_ok ok (step_startup bc al sim os c)"
proof -
  obtain st s res where st: "startup_step bc al sim os (rp_startup c) (rp_sim c) = (st, s, res)"
    by (cases "startup_step bc al sim os (rp_startup c) (rp_sim c)")
  then have "ok s" using startup_step_ok assms by blast
  then show ?thesis
    using st by (auto simp: step_startup_def Let_def intro!: simple_steps_ok split: sum.split option.split)
qed

lemma start_live_ok:
  assumes "ok (rp_sim c)"
  shows "step_ok ok (start_live sim t h c)"
proof -
  obtain s r where s: "sim_publish sim (rp_sim c) = (s, r)" by fastforce
  then have "ok s" using publish_okI assms by blast
  then show ?thesis
    using s assms by (auto simp: start_live_def Let_def split_beta intro!: simple_steps_ok split: sum.split)
qed

lemma apply_tick_ok:
  assumes "ok (rp_sim c)"
  shows "step_ok ok (apply_tick bc sim adv c)"
proof -
  obtain s r where s: "advance_tick sim adv Live (rp_sim c) = (s, r)" by fastforce
  then have "ok s" using advance_tick_ok assms by blast
  then show ?thesis
    using s by (auto simp: apply_tick_def Let_def intro!: simple_steps_ok split: sum.split)
qed

lemma lockstep_loop_ok: "ok (rp_sim c) \<Longrightarrow> step_ok ok (lockstep_loop bc al sim msgs c)"
proof (induction msgs arbitrary: c)
  case (Cons bs msgs)
  have "step_ok ok (handle_lockstep bc al sim bs c)"
    using Cons.prems
    by (auto simp: handle_lockstep_def intro!: simple_steps_ok start_live_ok apply_tick_ok
        split: sum.split server_message.split)
  then show ?case using Cons.IH by (simp add: then_do_ok)
qed (simp add: simple_steps_ok)

lemma client_round_ok: "ok (rp_sim c) \<Longrightarrow> step_ok ok (client_round bc al sim env c)"
  unfolding client_round_def
  by (intro then_do_ok simple_steps_ok receive_saves_ok step_startup_ok lockstep_loop_ok)
    (auto simp: step_ok_def fail_with_def do_nothing_def split: option.split)

lemma client_loop_ok:
  "client_loop bc al sim rounds c = Some (c', acts, res) \<Longrightarrow> ok (rp_sim c) \<Longrightarrow> ok (rp_sim c')"
proof (induction rounds arbitrary: c acts)
  case (Cons round rounds)
  obtain stop env where round: "round = (stop, env)" by (cases round)
  obtain c1 acts1 res1 where c1: "client_round bc al sim env c = (c1, acts1, res1)"
    by (cases "client_round bc al sim env c")
  have "step_ok ok (client_round bc al sim env c)" using client_round_ok Cons.prems(2) by blast
  then have "ok (rp_sim c1)" using c1 by (simp add: step_ok_def)
  then show ?case
    using Cons.IH [of c1] Cons.prems round c1 by (auto simp: do_nothing_def split: if_splits sum.splits)
qed simp

lemma run_client_ok:
  assumes "run_client bc al sim bound rounds s ctl = Some (c, acts, res)" "ok s"
  shows "ok (rp_sim c)"
proof -
  have "ok (rp_sim (replica_new s ctl))" using assms(2) by (simp add: replica_new_def)
  then show ?thesis
    using assms(1) by (auto simp: run_client_def fail_with_def split: sum.splits dest: client_loop_ok)
qed

end

section \<open>Games\<close>

text \<open>A game's own property relates its state to the setup it was created from.\<close>

locale stable_game =
  fixes G :: "('c, 'i, 'g) game" and gok :: "'i \<Rightarrow> 'g \<Rightarrow> bool"
  assumes create_ok: "create_simulation G i nanos = Inr g \<Longrightarrow> gok i g"
    and g_advance_ok: "gok i g \<Longrightarrow> gok i (fst (g_advance G t g))"
    and g_publish_ok: "gok i g \<Longrightarrow> gok i (fst (g_publish G g))"
    and g_finish_ok: "gok i g \<Longrightarrow> gok i (g_finish_tick G g)"

text \<open>Behind the adapter: the simulation, once created, is related to the setup in its header.\<close>

definition from_setup ::
  "('c, 'i, 'g) game \<Rightarrow> (nat \<Rightarrow> bool) \<Rightarrow> ('i \<Rightarrow> 'g \<Rightarrow> bool) \<Rightarrow> 'g adapter \<Rightarrow> bool" where
  "from_setup G al gok a \<longleftrightarrow> (case ad_simulation a of
     None \<Rightarrow> True
   | Some g \<Rightarrow> \<exists>i. decode (initialization_wire G) al (initialization (ad_header a)) = Inr i \<and> gok i g)"

text \<open>
  The states a game's session worker can leave: a server's, a client's or a replay's, whatever
  the files, the clients, the network and the other threads did, however it ended.
\<close>

inductive worker_leaves ::
  "('c, 'i, 'g) game \<Rightarrow> (nat \<Rightarrow> bool) \<Rightarrow> 'g adapter \<Rightarrow> bool" for G :: "('c, 'i, 'g) game" and al :: "nat \<Rightarrow> bool" where
  served: "run_server bc al fs file blank (adapter_sim G al) cfg env (adapter_new h) ctl = Some (st, acts, res)
      \<Longrightarrow> worker_leaves G al (ss_sim st)"
| joined: "run_client bc al (adapter_sim G al) bound rounds (adapter_new h) ctl = Some (c, cacts, cres)
      \<Longrightarrow> worker_leaves G al (rp_sim c)"
| replayed: "adapter_initialize G al h (adapter_new h) = (a, Inr ())
      \<Longrightarrow> replay_into bc al (adapter_sim G al) batches 0 \<lparr>run_state = a, run_source = src, run_mirror = None\<rparr> = Some (r, rres)
      \<Longrightarrow> worker_leaves G al (run_state r)"

sublocale stable_game < adapted: stable_sim "adapter_sim G al" "from_setup G al gok" for al
proof (unfold_locales, goal_cases)
  case (1 s h)
  obtain res where res: "validate_header G al h = res" by blast
  then show ?case
    using 1 create_ok
    by (cases res)
      (auto simp: adapter_initialize_def from_setup_def codec_result_def and_then_Inr map_err_Inr split: sum.splits if_splits)
next
  case (2 s adv)
  then show ?case
    using g_advance_ok
    by (fastforce simp: adapter_advance_def from_setup_def Let_def split_beta split: option.splits sum.splits)
next
  case (3 s)
  then show ?case
    using g_publish_ok by (fastforce simp: adapter_publish_def from_setup_def Let_def split_beta split: option.splits)
next
  case (4 s)
  then show ?case
    using g_finish_ok by (fastforce simp: adapter_finish_tick_def from_setup_def split: option.splits)
qed

lemma from_setup_new: "from_setup G al gok (adapter_new h)"
  by (simp add: from_setup_def adapter_new_def)

context stable_game
begin

lemma worker_leaves_ok: "worker_leaves G al a \<Longrightarrow> from_setup G al gok a"
proof (induction rule: worker_leaves.induct)
  case served
  then show ?case using from_setup_new by (rule adapted.run_server_ok)
next
  case joined
  then show ?case using from_setup_new by (rule adapted.run_client_ok)
next
  case (replayed h a bc batches src r rres)
  have "from_setup G al gok a"
    using adapted.initialize_ok [OF from_setup_new, of al h h] replayed.hyps(1) by simp
  then show ?case using adapted.replay_into_ok [OF replayed.hyps(2)] by simp
qed

lemma worker_leaves_setup:
  assumes "worker_leaves G al a" "ad_simulation a = Some g"
  shows "\<exists>i. decode (initialization_wire G) al (initialization (ad_header a)) = Inr i \<and> gok i g"
  using worker_leaves_ok [OF assms(1)] assms(2) by (simp add: from_setup_def)

end

end
