(* ===== verification/Game_Invariants.thy ===== *)
theory Game_Invariants
  imports Session_Invariant Game_Session Garden_Game
begin

text \<open>
  What every session of the repository's two games keeps, whatever the clients send and
  however the session ends: the wallet's money, and a garden board that commands can reach.
  Both games meet the contract of the session theorems.
\<close>

section \<open>Both games meet the contract\<close>

lemma garden_publishes:
  "bevy_advance power_garden t g = (g', Inr ()) \<Longrightarrow> snd (bevy_publish power_garden g') = Inr ()"
  by (auto simp: bevy_advance_def apply_rotations_def bevy_publish_def garden_publish_def bind_eq_Some_conv Let_def
      split: option.splits)

theorem game_meets_the_contract_witness:
  "fingerprinted_sim (adapter_sim wallet_game infallible) (\<lambda>a. map_option ws_state (ad_simulation a)) \<and>
   publishes (adapter_sim wallet_game infallible) \<and>
   fingerprinted_sim garden_session (\<lambda>a. map_option (world_det Puzzle) (ad_simulation a)) \<and>
   publishes garden_session"
proof -
  have "\<forall>t g g'. g_advance wallet_game t g = (g', Inr ()) \<longrightarrow> snd (g_publish wallet_game g') = Inr ()"
    by (simp add: wallet_game_def wallet_publish_def)
  moreover have "\<forall>t g g'. g_advance (game_adapter power_garden) t g = (g', Inr ()) \<longrightarrow>
      snd (g_publish (game_adapter power_garden) g') = Inr ()"
    using garden_publishes by simp
  ultimately show ?thesis
    using game_meets_the_contract [OF wallet.deterministic_game_axioms, of infallible]
      game_meets_the_contract [OF garden.bevy.deterministic_game_axioms, of infallible] by blast
qed

section \<open>The wallet\<close>

definition funded :: "wallet_initialization \<Rightarrow> wallet_simulation \<Rightarrow> bool" where
  "funded i w \<longleftrightarrow> total_supply (ws_state w) = sum_list (map unat (init_balances i)) \<and>
     length (balances (ws_state w)) = length (init_balances i) \<and> seed (ws_state w) = init_seed i"

lemma wallet_advance_rest:
  "wallet_rest (ws_state (fst (wallet_advance t w))) = wallet_rest ((ws_state w)\<lparr>wtick := number t\<rparr>)"
  using wallet_inputs_rest [of "tick_inputs t" "(ws_state w)\<lparr>wtick := number t\<rparr>"]
  by (simp add: wallet_advance_def Let_def split_beta)

interpretation wallet_funds: stable_game wallet_game funded
proof (unfold_locales, goal_cases)
  case (1 i nanos g)
  then show ?case
    by (auto simp: wallet_game_def wallet_create_def funded_def total_supply_def wallet_state_default_def split: if_splits)
next
  case (2 i g t)
  then show ?case
    using wallet_advance_rest [of t g] by (simp add: wallet_game_def funded_def wallet_rest_def total_supply_def)
next
  case (3 i g)
  then show ?case by (simp add: wallet_game_def funded_def wallet_publish_def)
next
  case (4 i g)
  then show ?case by (simp add: wallet_game_def no_finish_tick_def)
qed

text \<open>C38. No session creates or destroys money: in whatever state a server, a client or a replay of
  the wallet leaves its simulation, whatever the clients, the network, the disk and the other
  threads did and however it ended, the balances add up to those of the setup in its header,
  and the wallets are as many.\<close>

theorem sessions_conserve_money:
  assumes "worker_leaves wallet_game al a" "ad_simulation a = Some w"
  shows "\<exists>i. decode wallet_initialization_wire al (initialization (ad_header a)) = Inr i \<and>
    total_supply (ws_state w) = sum_list (map unat (init_balances i)) \<and>
    length (balances (ws_state w)) = length (init_balances i) \<and> seed (ws_state w) = init_seed i"
  using wallet_funds.worker_leaves_setup [OF assms] by (simp add: funded_def wallet_game_def)

section \<open>The garden\<close>

text \<open>The board is one that commands lead to from the setup's.\<close>

definition reachable_board :: "initialization \<Rightarrow> board \<Rightarrow> bool" where
  "reachable_board i b \<longleftrightarrow> (\<exists>b0 cs. board_new i = Some (Inr b0) \<and> rotate_all cs b0 = Some b)"

definition garden_reached :: "initialization \<Rightarrow> (rotate, garden_resources, snapshot option) bevy_simulation \<Rightarrow> bool" where
  "garden_reached i s \<longleftrightarrow> (\<exists>b. Puzzle (resources (app s)) = Some b \<and> reachable_board i b)"

lemma rotate_all_append: "rotate_all (cs @ ds) b = Option.bind (rotate_all cs b) (rotate_all ds)"
proof (induction cs arbitrary: b)
  case (Cons c cs)
  then show ?case by (cases "rotate_cell c b") (auto split: prod.splits)
qed simp

lemma rotate_inputs_commands:
  "rotate_inputs is b es = Some (b', fs) \<Longrightarrow> rotate_all (map input_command is) b = Some b'"
proof (induction "is" arbitrary: b es)
  case (Cons i "is")
  then show ?case by (cases "rotate_cell (input_command i) b") auto
qed simp

lemma reachable_rotations:
  assumes "reachable_board i b" "rotate_inputs is b es = Some (b', fs)"
  shows "reachable_board i b'"
proof -
  obtain b0 cs where "board_new i = Some (Inr b0)" "rotate_all cs b0 = Some b"
    using assms(1) by (auto simp: reachable_board_def)
  then show ?thesis
    using rotate_inputs_commands [OF assms(2)]
    by (auto simp: reachable_board_def rotate_all_append intro!: exI [of _ "cs @ map input_command is"])
qed

lemma reachable_new: "board_new i = Some (Inr b) \<Longrightarrow> reachable_board i b"
  unfolding reachable_board_def by (metis rotate_all.simps(1))

interpretation garden_boards: stable_game "game_adapter power_garden" garden_reached
proof (unfold_locales, goal_cases)
  case (1 i nanos g)
  then show ?case
    by (auto simp: bevy_create_def garden_build_def res_simps garden_reached_def reachable_new
        split: option.splits sum.splits)
next
  case (2 i g t)
  then show ?case
    by (auto simp: bevy_advance_def Let_def apply_rotations_def garden_reached_def bind_eq_Some_conv
        dest: reachable_rotations split: option.splits)
next
  case (3 i g)
  then show ?case
    by (auto simp: bevy_publish_def garden_publish_def garden_reached_def split: option.splits)
next
  case (4 i g)
  then show ?case by (auto simp: bevy_finish_tick_def garden_finish_tick_def garden_reached_def)
qed

text \<open>C31. A garden's board is always one the rules allow: in whatever state a server, a client or a
  replay leaves its simulation, however it ended, the header's setup passed validation, the
  board is what some sequence of commands makes of the setup's board, its cache and its
  completion flag are those of its tiles, and nothing but rotations of tiles has changed.\<close>

theorem sessions_reach_legal_boards:
  assumes "worker_leaves (game_adapter power_garden) al a" "ad_simulation a = Some g"
  shows "\<exists>i b0 cs b. decode initialization_wire_pg al (initialization (ad_header a)) = Inr i \<and>
    board_new i = Some (Inr b0) \<and> rotate_all cs b0 = Some b \<and>
    Puzzle (resources (app g)) = Some b \<and> board_ok b"
proof -
  obtain i b b0 cs where b: "decode initialization_wire_pg al (initialization (ad_header a)) = Inr i"
    "board_new i = Some (Inr b0)" "rotate_all cs b0 = Some b" "Puzzle (resources (app g)) = Some b"
    using garden_boards.worker_leaves_setup [OF assms]
    by (auto simp: garden_reached_def reachable_board_def)
  then have "board_ok b" using rotate_all_ok [OF board_new_Inr(1) [OF b(2)], of cs] by simp
  then show ?thesis using b by blast
qed

section \<open>Concrete sessions\<close>

lemma replays_one_record:
  assumes "adapter_initialize G infallible h (adapter_new h) = (a, Inr ())" "recordable standard_bincode adv"
    and "advance_all (adapter_sim G infallible) Replay [adv] a = (a', Inr ())"
  shows "worker_leaves G infallible a'"
proof -
  let ?r = "\<lparr>run_state = a, run_source = byte_source (log_bytes standard_bincode [adv]), run_mirror = None\<rparr>"
  have room: "0 < batch_room 128 [Go]" by (simp add: numeral_eq_Suc)
  have "replay_into standard_bincode infallible (adapter_sim G infallible) [(False, [Go]), (False, [Go])] 0 ?r =
      Some (after_records standard_bincode (adapter_sim G infallible) [adv] [] ?r, Inr (0 + of_nat (length [adv])))"
    using assms(2,3) room by (intro std.replay_into_plays) (simp_all add: mirror_ok_def)
  then have "worker_leaves G infallible (run_state (after_records standard_bincode (adapter_sim G infallible) [adv] [] ?r))"
    by (rule worker_leaves.replayed [OF assms(1)])
  then show ?thesis using assms(3) by (simp add: after_records_def)
qed

theorem sessions_conserve_money_witness:
  "\<exists>a w. worker_leaves wallet_game infallible a \<and> ad_simulation a = Some w \<and> balances (ws_state w) = [50, 250] \<and>
     total_supply (ws_state w) = 300"
proof -
  let ?a = "\<lparr>ad_header = wallet_header, ad_simulation = Some wallet_paid\<rparr>"
  have left: "worker_leaves wallet_game infallible ?a"
    by (rule replays_one_record [OF wallet_starts wallet_recordable wallet_pays])
  have "initialization wallet_header = canon wallet_initialization_shape wallet_setup"
    by (simp add: wallet_header_def replay_header_new_def)
  then have "total_supply (ws_state wallet_paid) = 300"
    using sessions_conserve_money [OF left, of wallet_paid] wallet_setup_codec(1)
    by (auto simp: wallet_setup_def)
  then show ?thesis using left by (intro exI [of _ ?a] exI [of _ wallet_paid]) (simp add: wallet_paid_def)
qed

lemma garden_initialized:
  assumes "adapter_initialize (game_adapter power_garden) infallible h (adapter_new h0) = (a, Inr ())"
  shows "garden_adapter_ok a" "sim_current_tick garden_session a = 0"
proof -
  obtain i g where g: "bevy_create power_garden i (unat (tick_nanos h)) = Inr g" "ad_simulation a = Some g"
    using assms
    by (auto simp: adapter_initialize_def adapter_new_def codec_result_def and_then_Inr map_err_Inr
        split: sum.splits if_splits)
  then show "garden_adapter_ok a" "sim_current_tick garden_session a = 0"
    using garden_create_ok [OF g(1)]
    by (simp_all add: garden_adapter_ok_def adapter_current_tick_def bevy_current_tick_def)
qed

lemma garden_recordable: "recordable standard_bincode garden_record"
proof -
  have "to_le_bytes (7 :: u32) = [7, 0, 0, 0]" by code_simp
  then have "canon rotate_shape \<lparr>cell = 7\<rparr> = [7, 0, 0, 0]"
    by (simp add: rotate_shape_def construct_shape_def and_field_shape_def no_fields_shape_def scalar_shape_def)
  moreover have "length (enc_tick standard_bincode \<lparr>tick = 1, inputs = [\<lparr>participant = Remote 1,
      payload = [7, 0, 0, 0]\<rparr>]\<rparr>) = 9"
    by code_simp
  ultimately have "length (enc_tick standard_bincode garden_record) = 9" by (simp add: garden_record_def)
  moreover have "length (canon rotate_shape \<lparr>cell = 7\<rparr>) \<le> max_payload_bytes"
    by (simp add: rotate_shape_def construct_shape_def and_field_shape_def no_fields_shape_def scalar_shape_def
        max_payload_bytes_def)
  ultimately show ?thesis
    by (simp add: recordable_def carries_def garden_record_def max_replay_record_bytes_def)
qed

theorem sessions_reach_legal_boards_witness:
  "\<exists>a g b. worker_leaves (game_adapter power_garden) infallible a \<and> ad_simulation a = Some g \<and>
     Puzzle (resources (app g)) = Some b \<and> board_ok b"
proof -
  obtain a0 where a0: "adapter_initialize (game_adapter power_garden) infallible garden_header
      (adapter_new garden_header) = (a0, Inr ())"
    using garden_initializes by auto
  have "\<forall>adv \<in> set [garden_record]. \<exists>cs. decode_inputs rotate_wire infallible (inputs adv) = Inr cs"
    by (simp add: garden_record_decodes)
  moreover have "\<forall>k < length [garden_record]. unat (tick ([garden_record] ! k)) =
      unat (sim_current_tick garden_session a0) + Suc k"
    using garden_initialized(2) [OF a0] by (simp add: garden_record_def)
  ultimately obtain a where a: "advance_all garden_session Replay [garden_record] a0 = (a, Inr ())" "garden_adapter_ok a"
    using garden_ticks garden_initialized(1) [OF a0] by blast
  then obtain g where g: "ad_simulation a = Some g" by (auto simp: garden_adapter_ok_def)
  have left: "worker_leaves (game_adapter power_garden) infallible a"
    by (rule replays_one_record [OF a0 garden_recordable a(1)])
  show ?thesis using sessions_reach_legal_boards [OF left g] left g by blast
qed

end
