(* ===== verification/Hosting.thy ===== *)
theory Hosting
  imports Game_Session Example_Session
begin

text \<open>
  The closures of \<^verbatim>\<open>api.rs\<close> that the worker threads run: the authority or the replica on the
  adapted game, with the configuration the entry point was given.  A recorded session and
  \<open>replay\<close> meet here.
\<close>

section \<open>The workers\<close>

definition authority_config :: "'i server_config \<Rightarrow> server_start \<Rightarrow> server_cfg" where
  "authority_config config st =
     \<lparr>cfg_tick_duration = start_tick_nanos st, cfg_expected = expected_clients config,
      cfg_load_path = load_path config, cfg_record_path = record_path config,
      cfg_desync_policy = desync_policy config\<rparr>"

definition authority_worker ::
  "bincode \<Rightarrow> (nat \<Rightarrow> bool) \<Rightarrow> (string \<rightharpoonup> byte list) \<Rightarrow> source \<Rightarrow> replay_writer \<Rightarrow> ('c, 'i, 'g) game \<Rightarrow>
   'i server_config \<Rightarrow> server_start \<Rightarrow> session_env \<Rightarrow> session_control \<Rightarrow> 'g adapter session_run option" where
  "authority_worker bc al fs file blank G config st env ctl =
     run_server bc al fs file blank (adapter_sim G al) (authority_config config st) env
       (adapter_new (start_header st)) ctl"

definition replica_worker ::
  "bincode \<Rightarrow> (nat \<Rightarrow> bool) \<Rightarrow> ('c, 'i, 'g) game \<Rightarrow> unit session_result \<Rightarrow> (bool \<times> client_env) list \<Rightarrow>
   session_control \<Rightarrow> 'g adapter replica_step option" where
  "replica_worker bc al G bound rounds ctl =
     run_client bc al (adapter_sim G al) bound rounds (adapter_new (replay_header_new (ID G) (VERSION G) 33333333 [])) ctl"

section \<open>A recorded session and its replay\<close>

lemma adapter_initialize_any:
  "adapter_initialize G al h (adapter_new h0) = (a, Inr ()) \<Longrightarrow>
     adapter_initialize G al h (adapter_new h1) = (a, Inr ()) \<and> validate_header G al h = Inr ()"
  by (auto simp: adapter_initialize_def adapter_new_def and_then_Inr split: sum.splits)

lemma replay_game_plays:
  assumes "replays_to bc (adapter_sim G infallible) det s0 h n s (file\<lparr>held := bs\<rparr>)" "fs path = Some bs"
    and "adapter_initialize G infallible h (adapter_new h0) = (s0, Inr ())"
    and "n < length rounds" "list_all (\<lambda>(stop, os). \<not> stop \<and> batch_room 128 os > 0) rounds"
  shows "replay_game bc infallible fs file G path rounds flag =
    Some (and_then (adapter_state_hash G s) (\<lambda>hash.
      Inr \<lparr>out_records = of_nat n, final_tick = adapter_current_tick G s, final_hash = hash, out_cancelled = flag\<rparr>))"
proof -
  obtain rd r where rd: "from_reader bc infallible (file\<lparr>held := bs\<rparr>) = Inr rd" "header rd = h"
    and r: "replay_into bc infallible (adapter_sim G infallible) rounds 0
        \<lparr>run_state = s0, run_source = inner rd, run_mirror = None\<rparr> = Some (r, Inr (of_nat n))"
      "adapter_current_tick G (run_state r) = adapter_current_tick G s"
      "adapter_state_hash G (run_state r) = adapter_state_hash G s"
    using assms(1,4,5) by (force simp: replays_to_def)
  show ?thesis
    using rd r assms(2) adapter_initialize_any [OF assms(3), of h] by (simp add: replay_game_def open_log_def)
qed

text \<open>C2. What a session records is what \<open>replay\<close> reports: a host or dedicated server of any
  deterministic game that was started with a recording path and ended normally, having loaded
  a save or not, leaves a file that the public \<open>replay\<close> of the same game accepts and plays to
  the end, and the outcome it returns has the tick and the fingerprint of the authority's
  final state.\<close>

theorem recording_replays_through_the_api:
  assumes "bincode_format bc" "deterministic_game G gdet" "length (ID G) = 16"
    and "start_server bc infallible fs file G config local = Inr st" "record_path config = Some path"
    and "authority_worker bc infallible fs file blank G config st env ctl = Some (fin, acts, Inr ())" "reliable blank"
  shows "\<exists>w n. ss_writer fin = Some w \<and> (\<forall>fs' file' rounds.
    faultless file' \<longrightarrow> fs' path = Some (written w) \<longrightarrow> n < length rounds \<longrightarrow>
    list_all (\<lambda>(stop, os). \<not> stop \<and> batch_room 128 os > 0) rounds \<longrightarrow>
    replay_game bc infallible fs' file' G path rounds False =
      Some (and_then (adapter_state_hash G (ss_sim fin)) (\<lambda>hash.
        Inr \<lparr>out_records = of_nat n, final_tick = adapter_current_tick G (ss_sim fin), final_hash = hash,
             out_cancelled = False\<rparr>)))"
proof -
  let ?sim = "adapter_sim G infallible" and ?cfg = "authority_config config st"
  have sim: "deterministic_sim ?sim (\<lambda>a. map_option gdet (ad_simulation a))"
    using deterministic_game.adapter_fingerprinted [OF assms(2)] by (rule fingerprinted_sim.axioms)
  have rec: "cfg_record_path ?cfg = Some path" using assms(5) by (simp add: authority_config_def)
  obtain h s0 where init: "sim_initialize ?sim h (adapter_new (start_header st)) = (s0, Inr ())"
    and log: "recorded ?sim (\<lambda>a. map_option gdet (ad_simulation a)) bc s0 (enc_header bc h) fin"
    and h: "case cfg_load_path ?cfg of None \<Rightarrow> h = sim_header ?sim (adapter_new (start_header st))
     | Some from \<Rightarrow> \<exists>rd. open_log bc infallible fs file from = Inr rd \<and> h = header rd"
    by (rule deterministic_sim.run_server_recorded [OF sim assms(6) [unfolded authority_worker_def] rec assms(7) adapter_bounded])
  have "header_current h"
    using h bincode_format.from_reader_current [OF assms(1)] started_header_current [OF assms(1,3,4)]
    by (auto simp: open_log_def adapter_new_def split: option.splits)
  from deterministic_sim.recorded_replays [OF sim assms(1) log this]
  obtain w n where w: "ss_writer fin = Some w"
    "\<And>src. faultless src \<Longrightarrow> held src = written w \<Longrightarrow>
       replays_to bc ?sim (\<lambda>a. map_option gdet (ad_simulation a)) s0 h n (ss_sim fin) src"
    by blast
  have "replay_game bc infallible fs' file' G path rounds False =
      Some (and_then (adapter_state_hash G (ss_sim fin)) (\<lambda>hash.
        Inr \<lparr>out_records = of_nat n, final_tick = adapter_current_tick G (ss_sim fin), final_hash = hash,
             out_cancelled = False\<rparr>))"
    if "faultless file'" "fs' path = Some (written w)" "n < length rounds"
      "list_all (\<lambda>(stop, os). \<not> stop \<and> batch_room 128 os > 0) rounds" for fs' file' rounds
  proof -
    have "faultless (file'\<lparr>held := written w\<rparr>)" using that(1) by (simp add: faultless_def)
    from w(2) [OF this] have "replays_to bc ?sim (\<lambda>a. map_option gdet (ad_simulation a)) s0 h n (ss_sim fin)
        (file'\<lparr>held := written w\<rparr>)" by simp
    then show ?thesis using init that(2-4) by (intro replay_game_plays) simp_all
  qed
  then show ?thesis using w(1) by blast
qed

section \<open>A recorded wallet session\<close>

definition demo_payload :: "byte list" where
  "demo_payload = canon transfer_shape demo_transfer"

definition wallet_env :: tick_env where
  "wallet_env = \<lparr>te_transport = None, te_events = [], te_clients = [], te_local = Some [Received demo_payload]\<rparr>"

definition wallet_session :: session_env where
  "wallet_session = demo_session\<lparr>se_ticks := [(False, wallet_env), (True, wallet_env)]\<rparr>"

definition wallet_config :: "wallet_initialization server_config" where
  "wallet_config = (into_config (Some ''log'') None)\<lparr>expected_clients := 0\<rparr>"

definition wallet_start :: server_start where
  "wallet_start =
     \<lparr>start_header = wallet_header, start_tick_nanos = 33333333, start_local = True, start_capacity = 256\<rparr>"

lemma wallet_hosted:
  "host standard_bincode infallible (\<lambda>_. None) (byte_source []) wallet_game wallet_config = Inr wallet_start"
proof -
  have "encode wallet_initialization_wire infallible \<lparr>init_seed = 42, init_balances = [100, 200]\<rparr> =
      Inr (canon wallet_initialization_shape wallet_setup)"
    using wallet_setup_encodes by (simp add: wallet_setup_def)
  moreover have "command_wire wallet_game = transfer_wire" "initialization_wire wallet_game = wallet_initialization_wire"
    "VERSION wallet_game = 2"
    by (simp_all add: wallet_game_def)
  ultimately show ?thesis
    by (simp add: host_def start_server_def wallet_config_def into_config_def server_config_new_def
        validate_capacity_def validate_tick_duration_def codec_result_def wallet_start_def wallet_header_def
        replay_header_new_def)
qed

abbreviation wallet_sim :: "wallet_simulation adapter session_sim" where
  "wallet_sim \<equiv> adapter_sim wallet_game infallible"

definition wallet_live :: "wallet_simulation adapter authority" where
  "wallet_live =
     \<lparr>au_sim = \<lparr>ad_header = wallet_header, ad_simulation = Some (wallet_started\<lparr>published := Some (ws_state wallet_started)\<rparr>)\<rparr>,
      au_writer = Some (demo_blank\<lparr>written := enc_header standard_bincode wallet_header,
        flushed := length (enc_header standard_bincode wallet_header)\<rparr>),
      au_verified = [], au_hashes = []\<rparr>"

definition wallet_done :: "wallet_simulation adapter authority" where
  "wallet_done =
     wallet_live\<lparr>au_sim := \<lparr>ad_header = wallet_header,
         ad_simulation = Some (wallet_paid\<lparr>published := Some (ws_state wallet_paid)\<rparr>)\<rparr>,
       au_writer := map_option (\<lambda>w. w\<lparr>written := written w @ record_bytes standard_bincode wallet_record\<rparr>)
         (au_writer wallet_live)\<rparr>"
lemma wallet_payload_valid: "validate transfer_wire infallible demo_payload = Inr ()"
  unfolding demo_payload_def by (rule encode_validates [OF demo_transfer_bytes])

lemma wallet_server_bytes: "length (enc_server standard_bincode (Tick wallet_record)) = 25"
proof -
  have "length (enc_server standard_bincode (Tick \<lparr>tick = 1, inputs = [\<lparr>participant = Host,
      payload = [1, 0, 0, 0, 0, 0, 0, 0, 1, 0, 0, 0, 50, 0, 0, 0, 0, 0, 0, 0]\<rparr>]\<rparr>)) = 25"
    by code_simp
  then show ?thesis by (simp add: wallet_record_def demo_transfer_canon)
qed

lemma wallet_gather:
  "gather_inputs standard_bincode infallible wallet_sim d wallet_env wallet_live = Inr ([], inputs wallet_record, [])"
proof -
  have "length demo_payload = 20" by (simp add: demo_payload_def demo_transfer_canon)
  moreover have "command_wire wallet_game = transfer_wire" by (simp add: wallet_game_def)
  moreover have "account_input 0 20 = Inr 52" by (simp add: account_input_Inr max_replay_record_bytes_def)
  ultimately show ?thesis
    using wallet_payload_valid
    by (simp add: gather_inputs_def update_network_def wallet_env_def wallet_live_def adapter_validate
        codec_result_def demo_drain wallet_record_def demo_payload_def [symmetric])
qed

lemma wallet_ticks:
  "wtick (ws_state wallet_started) = 0" "wtick (ws_state wallet_paid) = 1" "tick wallet_record = 1"
  "g_current_tick wallet_game w = wtick (ws_state w)"
  by (simp_all add: wallet_started_def wallet_state_default_def wallet_paid_def wallet_record_def wallet_game_def)

lemma wallet_advances: "advance_tick wallet_sim wallet_record Live (au_sim wallet_live) = (au_sim wallet_done, Inr ())"
proof -
  have d: "decode_inputs transfer_wire infallible (inputs wallet_record) =
      Inr [\<lparr>input_participant = Host, input_command = demo_transfer\<rparr>]"
    using transfer.roundtrip [OF demo_transfer_sendable demo_transfer_bytes]
    by (simp add: wallet_record_def codec_result_def)
  have "wallet_advance \<lparr>number = 1, tick_inputs = [\<lparr>input_participant = Host, input_command = demo_transfer\<rparr>]\<rparr>
      (wallet_started\<lparr>published := p\<rparr>) = (wallet_paid\<lparr>published := p\<rparr>, Inr ())" for p
    by (simp add: wallet_paid_def wallet_started_def wallet_state_default_def demo_transfer_def wallet_advance_def
        wallet_input_def transfer_to_def transfer_checked_def get_balance_def checked_add_def checked_sub_def)
  then have "sim_advance wallet_sim wallet_record (au_sim wallet_live) =
      (\<lparr>ad_header = wallet_header,
        ad_simulation = Some (wallet_paid\<lparr>published := Some (ws_state wallet_started)\<rparr>)\<rparr>, Inr ())"
    using d by (simp add: adapter_advance_def wallet_game_def wallet_live_def) (simp add: wallet_record_def infallible_def)
  then show ?thesis
    unfolding advance_tick_Inr
    by (simp add: adapter_current_tick_def adapter_finish_tick_def adapter_publish_def wallet_ticks wallet_live_def
        wallet_done_def) (simp add: wallet_game_def wallet_publish_def no_finish_tick_def wallet_ticks)
qed

lemma wallet_interval: "sim_hash_interval wallet_sim \<lparr>ad_header = wallet_header, ad_simulation = g\<rparr> = 30"
proof -
  have "(1000000000 + 33333333 div 2) div 33333333 = (30 :: u64)" by code_simp
  then show ?thesis by (simp add: adapter_sim_def wallet_header_def replay_header_new_def)
qed

lemma wallet_commits:
  "commit_tick standard_bincode wallet_sim wallet_record wallet_live =
    (wallet_done, [Broadcast channel_lockstep (enc_server standard_bincode (Tick wallet_record)), Send_Packets], Inr ())"
proof -
  have "append_writer standard_bincode wallet_record (au_writer wallet_live) = (au_writer wallet_done, Inr ())"
    using wallet_recordable
    by (simp add: append_writer_def append_record_reliable wallet_live_def wallet_done_def reliable_def demo_blank_def)
  moreover have "fingerprint_tick wallet_sim (tick wallet_record) wallet_done = (wallet_done, Inr ())"
    using wallet_interval by (simp add: fingerprint_tick_def wallet_done_def wallet_ticks)
  moreover have "wallet_live\<lparr>au_sim := au_sim wallet_done, au_writer := au_writer wallet_done\<rparr> = wallet_done"
    by (simp add: wallet_done_def)
  moreover have "length (enc_server standard_bincode (Tick wallet_record)) \<le> max_replay_record_bytes"
    using wallet_server_bytes by (simp add: max_replay_record_bytes_def)
  ultimately show ?thesis using wallet_advances by (simp add: commit_tick_def Let_def)
qed

lemma wallet_loop:
  "tick_loop standard_bincode infallible wallet_sim d (se_ticks wallet_session) wallet_live =
    Some (wallet_done, [Broadcast channel_lockstep (enc_server standard_bincode (Tick wallet_record)), Send_Packets], Inr ())"
proof -
  have "wallet_live\<lparr>au_verified := []\<rparr> = wallet_live" by (simp add: wallet_live_def)
  moreover have "checked_add (sim_current_tick wallet_sim (au_sim wallet_live)) 1 = Some (1 :: u64)"
    by (simp add: checked_add_def wallet_live_def adapter_current_tick_def wallet_ticks)
  moreover have "\<lparr>tick = 1, inputs = inputs wallet_record\<rparr> = wallet_record" by (simp add: wallet_record_def)
  ultimately show ?thesis by (simp add: wallet_session_def tick_round_def wallet_gather wallet_commits Let_def)
qed

lemma wallet_served:
  "\<exists>fin acts. authority_worker standard_bincode infallible (\<lambda>_. None) src demo_blank wallet_game wallet_config wallet_start
     wallet_session session_control_default = Some (fin, acts, Inr ()) \<and> ss_sim fin = au_sim wallet_done"
proof -
  let ?w = "demo_blank\<lparr>written := enc_header standard_bincode wallet_header\<rparr>"
  let ?w' = "?w\<lparr>flushed := length (enc_header standard_bincode wallet_header)\<rparr>"
  let ?cfg = "authority_config wallet_config wallet_start"
  let ?a = "\<lparr>ad_header = wallet_header, ad_simulation = Some wallet_started\<rparr>"
  let ?st = "\<lparr>ss_sim = ?a, ss_writer = Some ?w, ss_control = session_control_default\<rparr>"
  have cr: "create standard_bincode (\<lambda>_. None) demo_blank ''log'' wallet_header = Inr ?w"
    by (simp add: create_def write_all_def demo_blank_def)
  have w: "wait_for_clients standard_bincode infallible 0 save meta (se_wait wallet_session)
      \<lparr>w_peers = [], w_published = None, w_control = ctl\<rparr> =
      Some (\<lparr>w_peers = [], w_published = Some 0, w_control = publish_status (Waiting 0 0) ctl\<rparr>,
        [Broadcast channel_lockstep (enc_server standard_bincode (Start (meta_tick meta) (meta_hash meta))),
         Send_Packets], Inr [])" for save meta ctl
    by (simp add: wallet_session_def demo_session_def wait_round_def update_network_def demo_wait_def drain_local_def
        ready_count_def)
  have nanos: "unat (tick_nanos wallet_header) = 33333333" by (simp add: wallet_header_def replay_header_new_def)
  have cfg: "cfg_tick_duration ?cfg = 33333333" "cfg_expected ?cfg = 0" "cfg_load_path ?cfg = None"
    "cfg_record_path ?cfg = Some ''log''"
    by (simp_all add: authority_config_def wallet_config_def into_config_def server_config_new_def wallet_start_def)
  have same: "?cfg\<lparr>cfg_tick_duration := 33333333\<rparr> = ?cfg" using cfg(1) by simp
  have fl: "flush_writer (Some ?w) = (Some ?w', Inr ())"
    by (simp add: flush_writer_def flush_def demo_blank_def)
  have pub: "adapter_publish wallet_game ?a = (au_sim wallet_live, Inr ())"
    by (simp add: adapter_publish_def wallet_live_def) (simp add: wallet_game_def wallet_publish_def)
  have live: "\<lparr>au_sim = au_sim wallet_live, au_writer = Some ?w', au_verified = [], au_hashes = []\<rparr> = wallet_live"
    by (simp add: wallet_live_def)
  have stop: "\<not> se_stop_ready wallet_session" "\<not> se_stop_loaded wallet_session" "se_read wallet_session p = Inr []"
    "se_bind wallet_session = Inr ()" for p
    by (simp_all add: wallet_session_def demo_session_def)
  have srv: "\<exists>st acts. serve standard_bincode infallible wallet_sim ?cfg wallet_session save meta
      (?st\<lparr>ss_writer := Some ?w'\<rparr>) = Some (st, acts, Inr ()) \<and> ss_sim st = au_sim wallet_done \<and>
      ss_writer st = au_writer wallet_done" for save meta
    using wallet_loop [of "cfg_desync_policy ?cfg"] live by (simp add: serve_def Let_def cfg w stop pub)
  have meta: "\<exists>meta. session_metadata wallet_sim [] ?a = Inr meta"
    by (simp add: session_metadata_def adapter_state_hash_def) (simp add: wallet_game_def)
  have sess: "\<exists>st acts. run_session standard_bincode infallible wallet_sim ?cfg wallet_session None ?st =
      Some (st, acts, Inr ()) \<and> ss_sim st = au_sim wallet_done \<and> ss_writer st = au_writer wallet_done"
    using srv meta by (auto simp: run_session_def after_load_def fl save_bytes_def Let_def cfg stop)
  then obtain st acts where s: "run_session standard_bincode infallible wallet_sim ?cfg wallet_session None ?st =
      Some (st, acts, Inr ())" "ss_sim st = au_sim wallet_done" "ss_writer st = au_writer wallet_done"
    by blast
  have "\<exists>v. flush_writer (au_writer wallet_done) = (v, Inr ())"
    by (simp add: flush_writer_def flush_def wallet_done_def wallet_live_def demo_blank_def)
  then obtain v where fin: "flush_writer (ss_writer st) = (v, Inr ())" using s(3) by auto
  have hdr: "start_header wallet_start = wallet_header" "ad_header (adapter_new wallet_header) = wallet_header"
    by (simp_all add: wallet_start_def adapter_new_def)
  have ok: "validate_tick_duration 33333333 = Inr ()" by (simp add: validate_tick_duration_def)
  show ?thesis
    using s(1) by (simp add: authority_worker_def run_server_def Let_def cfg ok hdr nanos same wallet_starts cr
        final_flush_def s(2) fin)
qed

theorem recording_replays_through_the_api_witness:
  "\<exists>fin acts w n. authority_worker standard_bincode infallible (\<lambda>_. None) (byte_source []) demo_blank wallet_game
      wallet_config wallet_start wallet_session session_control_default = Some (fin, acts, Inr ()) \<and> ss_writer fin = Some w \<and>
    replay_game standard_bincode infallible (\<lambda>_. Some (written w)) (byte_source []) wallet_game ''log''
      (replicate (Suc n) (False, [Go])) False =
    Some (Inr \<lparr>out_records = of_nat n, final_tick = 1, final_hash = wallet_state_hash (ws_state wallet_paid),
      out_cancelled = False\<rparr>)"
proof -
  obtain fin acts where run: "authority_worker standard_bincode infallible (\<lambda>_. None) (byte_source []) demo_blank
      wallet_game wallet_config wallet_start wallet_session session_control_default = Some (fin, acts, Inr ())"
    "ss_sim fin = au_sim wallet_done"
    using wallet_served by blast
  have rel: "reliable demo_blank" by (simp add: reliable_def demo_blank_def)
  have start: "start_server standard_bincode infallible (\<lambda>_. None) (byte_source []) wallet_game wallet_config True =
      Inr wallet_start"
    using wallet_hosted by (simp add: host_def)
  have path: "record_path wallet_config = Some ''log''" by (simp add: wallet_config_def into_config_def)
  have len: "length (ID wallet_game) = 16" by (simp add: wallet_game_def)
  have room: "0 < batch_room 128 [Go]" by (simp add: numeral_eq_Suc)
  obtain w n where w: "ss_writer fin = Some w" "\<forall>fs' file' rounds. faultless file' \<longrightarrow> fs' ''log'' = Some (written w) \<longrightarrow> n < length rounds \<longrightarrow>
      list_all (\<lambda>(stop, os). \<not> stop \<and> batch_room 128 os > 0) rounds \<longrightarrow>
      replay_game standard_bincode infallible fs' file' wallet_game ''log'' rounds False =
    Some (and_then (adapter_state_hash wallet_game (ss_sim fin)) (\<lambda>hash.
      Inr \<lparr>out_records = of_nat n, final_tick = adapter_current_tick wallet_game (ss_sim fin), final_hash = hash,
           out_cancelled = False\<rparr>))"
    using recording_replays_through_the_api [OF std.bincode_format_axioms wallet.deterministic_game_axioms len start path
        run(1) rel] by blast
  have "replay_game standard_bincode infallible (\<lambda>_. Some (written w)) (byte_source []) wallet_game ''log''
      (replicate (Suc n) (False, [Go])) False =
    Some (and_then (adapter_state_hash wallet_game (ss_sim fin)) (\<lambda>hash.
      Inr \<lparr>out_records = of_nat n, final_tick = adapter_current_tick wallet_game (ss_sim fin), final_hash = hash,
           out_cancelled = False\<rparr>))"
    using room by (intro w(2) [rule_format]) (simp_all add: list_all_iff)
  moreover have "adapter_state_hash wallet_game (ss_sim fin) = Inr (wallet_state_hash (ws_state wallet_paid))"
    "adapter_current_tick wallet_game (ss_sim fin) = 1"
    by (simp_all add: run(2) wallet_done_def adapter_state_hash_def adapter_current_tick_def wallet_ticks)
      (simp add: wallet_game_def)
  ultimately have "replay_game standard_bincode infallible (\<lambda>_. Some (written w)) (byte_source []) wallet_game ''log''
      (replicate (Suc n) (False, [Go])) False =
    Some (Inr \<lparr>out_records = of_nat n, final_tick = 1, final_hash = wallet_state_hash (ws_state wallet_paid),
      out_cancelled = False\<rparr>)"
    by (simp del: replicate.simps)
  then show ?thesis using run(1) w(1) by blast
qed

end
