(* ===== verification/Programs.thy ===== *)
theory Programs
  imports Hosting Wallet_Program Garden_Screen
begin

text \<open>
  The \<open>main\<close> functions of the two example programs: \<^verbatim>\<open>examples/wallet/src/main.rs\<close> and
  \<^verbatim>\<open>examples/power-garden/src/main.rs\<close>.  A mode opens a session, runs it and shuts it down, or
  replays a recording, or shows the garden's window.  Parsing the arguments and the logger are
  left out; \<open>spawned\<close> is the outcome of starting a worker's thread with the handle on it.
\<close>

section \<open>The wallet\<close>

text \<open>Why a program fails: a framework's error passed on by \<open>?\<close>, or a message.\<close>

datatype program_error = Passed session_error | Message string

text \<open>What a program leaves: the session it presented, the replay it printed, and how it exits,
  \<open>None\<close> while the rounds given do not end it.\<close>

record 'p program_end =
  end_session :: "'p option"
  end_replay :: "replay_outcome option"
  end_result :: "(program_error + unit) option"

definition refused :: "session_error \<Rightarrow> 'p program_end" where
  "refused e = \<lparr>end_session = None, end_replay = None, end_result = Some (Inl (Passed e))\<rparr>"

definition ran :: "'p \<Rightarrow> (string + unit) option \<Rightarrow> 'p program_end" where
  "ran p res = \<lparr>end_session = Some p, end_replay = None, end_result = map_option (map_err Message) res\<rparr>"

text \<open>\<open>replay\<close> with a fresh control, which nothing cancels.\<close>

definition print_replay ::
  "bincode \<Rightarrow> (nat \<Rightarrow> bool) \<Rightarrow> (string \<rightharpoonup> byte list) \<Rightarrow> source \<Rightarrow> ('c, 'i, 'g) game \<Rightarrow> string \<Rightarrow>
   observation list list \<Rightarrow> 'p program_end" where
  "print_replay bc al fs file G path batches =
     (case replay_game bc al fs file G path (map (Pair False) batches) False of
        None \<Rightarrow> \<lparr>end_session = None, end_replay = None, end_result = None\<rparr>
      | Some (Inl e) \<Rightarrow> refused e
      | Some (Inr outcome) \<Rightarrow> \<lparr>end_session = None, end_replay = Some outcome, end_result = Some (Inr ())\<rparr>)"

definition wallet_open ::
  "bincode \<Rightarrow> (nat \<Rightarrow> bool) \<Rightarrow> (string \<rightharpoonup> byte list) \<Rightarrow> source \<Rightarrow> (string \<Rightarrow> 'q session_handle session_result) \<Rightarrow>
   wallet_launch \<Rightarrow> 'q session_handle session_result" where
  "wallet_open bc al fs file spawned l =
     (case l of
        Launch_Host c \<Rightarrow> and_then (host bc al fs file wallet_game c) (\<lambda>_. spawned ''session-authority'')
      | Launch_Server c \<Rightarrow> and_then (dedicated_server bc al fs file wallet_game c) (\<lambda>_. spawned ''session-authority'')
      | Launch_Client c \<Rightarrow> and_then (connect_replica wallet_game c) (\<lambda>_. spawned ''session-replica''))"

definition wallet_main ::
  "bincode \<Rightarrow> (nat \<Rightarrow> bool) \<Rightarrow> (string \<rightharpoonup> byte list) \<Rightarrow> source \<Rightarrow> (string \<Rightarrow> 'q session_handle session_result) \<Rightarrow>
   session_error shown \<Rightarrow> submit_error shown \<Rightarrow> 'q sender \<Rightarrow> string + unit \<Rightarrow> console_round list \<Rightarrow>
   observation list list \<Rightarrow> wallet_mode option \<Rightarrow> 'q presentation program_end option" where
  "wallet_main bc al fs file spawned show_error show_submit try_send console rounds batches md =
     (case wallet_launch (cli_mode md) of
        Inl path \<Rightarrow> Some (print_replay bc al fs file wallet_game path batches)
      | Inr (l, demo) \<Rightarrow>
          (case wallet_open bc al fs file spawned l of
             Inl e \<Rightarrow> Some (refused e)
           | Inr h \<Rightarrow>
               map_option (\<lambda>(p, res). ran p res)
                 (run_live show_error show_submit al try_send console rounds h demo)))"

text \<open>\<open>cancel_on_enter\<close>: whatever reading the line gave, its thread then cancels the session.\<close>

definition console_thread :: "string + nat \<Rightarrow> session_control \<Rightarrow> string option \<times> session_control" where
  "console_thread line c =
     (case line of
        Inl e \<Rightarrow> (Some (''Could not read console input: '' @ e), cancel c)
      | Inr _ \<Rightarrow> (None, cancel c))"

section \<open>The garden\<close>

datatype garden_mode =
    Server_Mode u16 "string option" "string option"
  | Replay_Mode string

text \<open>The window's event loop, over the frames until it is closed.\<close>

definition garden_window ::
  "message \<Rightarrow> ('t \<Rightarrow> 't \<Rightarrow> bool) \<Rightarrow> ('q, 't) frame_input list \<Rightarrow> (string + unit) option" where
  "garden_window to_string recent frames =
     Option.bind (run_frames to_string recent frames screen_start) (screen_exit to_string)"

definition garden_main ::
  "bincode \<Rightarrow> (nat \<Rightarrow> bool) \<Rightarrow> (string \<rightharpoonup> byte list) \<Rightarrow> source \<Rightarrow> (string \<Rightarrow> 'q session_handle session_result) \<Rightarrow>
   message \<Rightarrow> ('t \<Rightarrow> 't \<Rightarrow> bool) \<Rightarrow> ('q, 't) frame_input list \<Rightarrow> string + unit \<Rightarrow> server_round list \<Rightarrow>
   observation list list \<Rightarrow> garden_mode option \<Rightarrow> 'q session_handle program_end option" where
  "garden_main bc al fs file spawned to_string recent frames console rounds batches md =
     (case md of
        None \<Rightarrow>
          map_option (\<lambda>res. \<lparr>end_session = None, end_replay = None, end_result = Some (map_err Message res)\<rparr>)
            (garden_window to_string recent frames)
      | Some (Replay_Mode path) \<Rightarrow>
          Some (print_replay bc al fs file (game_adapter power_garden) path batches)
      | Some (Server_Mode p load_from record_to) \<Rightarrow>
          (case and_then (dedicated_server bc al fs file (game_adapter power_garden)
                  (server_config_of p load_from record_to default_initialization))
                (\<lambda>_. spawned ''session-authority'') of
             Inl e \<Rightarrow> Some (refused e)
           | Inr h \<Rightarrow> map_option (\<lambda>(h, res). ran h res) (run_headless to_string console rounds h)))"

section \<open>The programs end\<close>

definition loads :: "wallet_mode \<Rightarrow> string option" where
  "loads md = (case md of Host_Run opts \<Rightarrow> opt_load opts | Server_Run opts \<Rightarrow> opt_load opts | _ \<Rightarrow> None)"

lemma wallet_starts_new: "\<exists>st. start_server bc infallible fs file wallet_game (into_config r None) local = Inr st"
  using wallet_setup_encodes(2)
  by (simp add: start_server_def into_config_def server_config_new_def validate_capacity_def
      validate_tick_duration_def codec_result_def wallet_game_def wallet_setup_def)

lemma wallet_open_new:
  assumes "wallet_launch md = Inr (l, demo)" "loads md = None"
  shows "wallet_open bc infallible fs file spawned l =
    spawned (if md = Client_Run then ''session-replica'' else ''session-authority'')"
proof (cases md)
  case (Host_Run opts)
  obtain st where "start_server bc infallible fs file wallet_game (into_config (opt_record opts) None) True = Inr st"
    using wallet_starts_new by blast
  then show ?thesis using Host_Run assms by (auto simp: wallet_launch_def loads_def wallet_open_def host_def)
next
  case (Server_Run opts)
  obtain st where "start_server bc infallible fs file wallet_game (into_config (opt_record opts) None) False = Inr st"
    using wallet_starts_new by blast
  then show ?thesis using Server_Run assms by (auto simp: wallet_launch_def loads_def wallet_open_def dedicated_server_def)
next
  case Client_Run
  then show ?thesis
    using assms by (auto simp: wallet_launch_def wallet_open_def connect_replica_def client_config_new_def validate_capacity_def)
next
  case (Replay_Run path)
  then show ?thesis using assms by (simp add: wallet_launch_def)
qed

text \<open>C40. Once Enter is pressed the wallet program ends: opening a session without a save never fails on
  the program's own configuration; if then a round sees the session cancelled, or the console
  could not start, the program ends with the worker joined, succeeds only if the worker did, and
  otherwise its message carries the worker's error.\<close>

theorem wallet_program_ends:
  assumes "\<forall>n. \<exists>h. spawned n = Inr h \<and> worker_ok (worker h)" "r \<in> set rounds" "\<forall>c. is_cancelled (at_test r c)"
    and "loads (cli_mode md) = None" "\<forall>path. cli_mode md \<noteq> Replay_Run path"
  shows "\<exists>p out ending.
    wallet_main bc infallible fs file spawned show_error show_submit ts console rounds batches md =
      Some \<lparr>end_session = Some p, end_replay = None, end_result = Some (map_err Message out)\<rparr> \<and>
    terminal (worker (p_session p)) = Some ending \<and> (out = Inr () \<longrightarrow> ending = Inr ()) \<and>
    (\<forall>e. ending = Inl e \<longrightarrow> (\<exists>m. out = Inl (m @ show_error e)))"
proof -
  obtain l demo where l: "wallet_launch (cli_mode md) = Inr (l, demo)"
    using assms(5) by (cases "cli_mode md") (simp_all add: wallet_launch_def)
  obtain h where h: "wallet_open bc infallible fs file spawned l = Inr h" "worker_ok (worker h)"
    using wallet_open_new [OF l assms(4), of bc fs "file" spawned] assms(1) by metis
  obtain p out ending where "run_live show_error show_submit infallible ts console rounds h demo = Some (p, Some out)"
    "terminal (worker (p_session p)) = Some ending" "out = Inr () \<longrightarrow> ending = Inr ()"
    "\<forall>e. ending = Inl e \<longrightarrow> (\<exists>m. out = Inl (m @ show_error e))"
    using run_live_ends [OF h(2) assms(2,3), of show_error show_submit infallible ts console demo] by blast
  then show ?thesis
    using l h(1) by (intro exI [of _ p] exI [of _ out] exI [of _ ending]) (simp add: wallet_main_def ran_def)
qed

theorem wallet_program_ends_witness:
  "\<exists>p out.
     wallet_main standard_bincode infallible (\<lambda>_. None) (byte_source []) (\<lambda>_. Inr idle_handle) (\<lambda>_. ''error'') (\<lambda>_. ''submit'')
       (\<lambda>b q. (q @ [b], Inr ())) (Inr ()) [live_round, enter_round] [] None =
     Some \<lparr>end_session = Some p, end_replay = None, end_result = Some (map_err Message out)\<rparr> \<and>
     terminal (worker (p_session p)) \<noteq> None"
proof -
  let ?spawned = "\<lambda>_ :: string. Inr idle_handle :: byte list list session_handle session_result"
  have "\<forall>n. \<exists>h. ?spawned n = Inr h \<and> worker_ok (worker h)"
    by (simp add: idle_handle_def worker_ok_def spawn_def)
  moreover have "enter_round \<in> set [live_round, enter_round]" by simp
  moreover have "\<forall>c. is_cancelled (at_test enter_round c)"
    by (simp add: enter_round_def is_cancelled_def cancel_def)
  moreover have "loads (cli_mode None) = None" by (simp add: loads_def cli_mode_def no_options_def)
  moreover have "\<forall>path. cli_mode None \<noteq> Replay_Run path" by (simp add: cli_mode_def)
  ultimately show ?thesis
    using wallet_program_ends [of ?spawned enter_round "[live_round, enter_round]" None standard_bincode "\<lambda>_. None"
        "byte_source []" "\<lambda>_. ''error''" "\<lambda>_. ''submit''" "\<lambda>b q. (q @ [b], Inr ())" "Inr ()" "[]"]
    by fastforce
qed

text \<open>The garden's headless server ends the same way, and its window whatever is done in it.\<close>

lemma run_headless_ends:
  assumes "worker_ok (worker h)" "r \<in> set rounds" "\<forall>c. is_cancelled (s_test r c)"
  shows "\<exists>h' out. run_headless show_error console rounds h = Some (h', Some out) \<and> terminal (worker h') \<noteq> None"
proof (cases console)
  case (Inl e)
  then show ?thesis using drop_total [OF assms(1)] by (auto simp: run_headless_def)
next
  case (Inr u)
  obtain h1 where h1: "serve_headless rounds h = Some (h1, True)" "worker_ok (worker h1)"
    using serve_headless_ends [OF assms] by blast
  then obtain h' ending where "shutdown h1 = Some (h', ending)" "terminal (worker h') = Some ending"
    using shutdown_total by blast
  then show ?thesis using Inr h1(1) by (simp add: run_headless_def)
qed

theorem garden_program_ends:
  assumes "\<forall>n. \<exists>h. spawned n = Inr h \<and> worker_ok (worker h)" "r \<in> set rounds" "\<forall>c. is_cancelled (s_test r c)"
    and "\<forall>i \<in> set frames. input_ok i" "md = None \<or> (\<exists>p record_to. md = Some (Server_Mode p None record_to))"
  shows "\<exists>e. garden_main bc infallible fs file spawned ts recent frames console rounds batches md = Some e \<and>
    end_result e \<noteq> None"
proof (cases md)
  case None
  obtain s where "run_frames ts recent frames screen_start = Some s" "screen_ok s"
    using run_frames_ok [OF screen_start_ok assms(4)] by blast
  moreover from this have "screen_exit ts s \<noteq> None"
    using slot_shutdown_total
    by (fastforce simp: screen_ok_def menu_in_step_def screen_exit_def guard_shutdown_def)
  ultimately show ?thesis using None by (auto simp: garden_main_def garden_window_def)
next
  case (Some m)
  then obtain p record_to where m: "md = Some (Server_Mode p None record_to)" using assms(5) by auto
  obtain h where h: "spawned ''session-authority'' = Inr h" "worker_ok (worker h)" using assms(1) by blast
  obtain h' out where "run_headless ts console rounds h = Some (h', Some out)"
    using run_headless_ends [OF h(2) assms(2,3)] by blast
  moreover have "\<exists>st. dedicated_server bc infallible fs file (game_adapter power_garden)
      (server_config_of p None record_to default_initialization) = Inr st"
    using default_encodes(2)
    by (simp add: dedicated_server_def start_server_def server_config_of_def server_config_new_def
        validate_capacity_def validate_tick_duration_def codec_result_def)
  ultimately show ?thesis using m h(1) by (auto simp: garden_main_def ran_def)
qed

text \<open>What the console thread is for: after it ran, every later test sees the session cancelled.\<close>

lemma console_cancels: "is_cancelled (snd (console_thread line c))"
  by (simp add: console_thread_def cancel_def is_cancelled_def split: sum.split)

end
