(* ===== verification/Network.thy ===== *)
theory Network
  imports Example_Session
begin

text \<open>
  A live session as a whole: the authority of \<^verbatim>\<open>run_server.rs\<close> and the replicas of
  \<^verbatim>\<open>run_client.rs\<close>, joined by the reliable ordered channels of \<^verbatim>\<open>protocol.rs\<close>.  A step is one
  iteration of the authority's tick loop or of one replica's loop; either may take any
  number of the messages on their way, so every interleaving and every delay is covered.
  A replica whose connection is lost takes no more steps.
\<close>

section \<open>The channels\<close>

text \<open>
  What is under way between the authority and one client: lockstep messages in both
  directions and fingerprint reports.
\<close>

record 's seat =
  seat_replica :: "'s replica"
  seat_down :: "byte list list"
  seat_up :: "byte list list"
  seat_reports :: "byte list list"

record 's network =
  nw_authority :: "'s authority"
  nw_seat :: "u64 \<Rightarrow> 's seat"

text \<open>The messages a replica's transport calls put on a channel.\<close>

definition sent_on :: "u8 \<Rightarrow> client_action list \<Rightarrow> byte list list" where
  "sent_on ch acts =
     concat (map (\<lambda>act. case act of Client_Send c bs \<Rightarrow> if c = ch then [bs] else [] | _ \<Rightarrow> []) acts)"

lemma sent_on_simps [simp]:
  "sent_on ch [] = []" "sent_on ch (as @ rest) = sent_on ch as @ sent_on ch rest"
  "sent_on ch (Client_Send c bs # as) = (if c = ch then bs # sent_on ch as else sent_on ch as)"
  "sent_on ch (Client_Send_Packets # as) = sent_on ch as"
  by (simp_all add: sent_on_def)

text \<open>
  One round of the authority takes, of every client it asks, some messages from the front
  of its two channels: a list of a client, a number of inputs and a number of reports.
\<close>

type_synonym takes = "(u64 \<times> nat \<times> nat) list"

definition client_rounds :: "(u64 \<Rightarrow> 's seat) \<Rightarrow> takes \<Rightarrow> client_round list" where
  "client_rounds seats takes =
     map (\<lambda>(cid, n, m). \<lparr>cr_id = cid, cr_lockstep = take n (seat_up (seats cid)),
       cr_desync = take m (seat_reports (seats cid))\<rparr>) takes"

definition taken :: "takes \<Rightarrow> u64 \<Rightarrow> nat \<times> nat" where
  "taken takes cid = (case map_of takes cid of None \<Rightarrow> (0, 0) | Some nm \<Rightarrow> nm)"

definition seat_served :: "takes \<Rightarrow> byte list list \<Rightarrow> u64 \<Rightarrow> 's seat \<Rightarrow> 's seat" where
  "seat_served takes sent cid p =
     p\<lparr>seat_down := seat_down p @ sent,
       seat_up := drop (fst (taken takes cid)) (seat_up p),
       seat_reports := drop (snd (taken takes cid)) (seat_reports p)\<rparr>"

lemma untaken: "cid \<notin> cr_id ` set (client_rounds seats takes) \<Longrightarrow> taken takes cid = (0, 0)"
  by (force simp: client_rounds_def taken_def dest: map_of_SomeD split: option.splits)

lemma taken_reports:
  assumes "distinct (map fst takes)" "cr \<in> set (client_rounds seats takes)" "cr_id cr = cid"
  shows "cr_desync cr = take (snd (taken takes cid)) (seat_reports (seats cid))"
proof -
  obtain n m where "(cid, n, m) \<in> set takes" "cr_desync cr = take m (seat_reports (seats cid))"
    using assms(2,3) by (auto simp: client_rounds_def)
  then show ?thesis using assms(1) by (simp add: taken_def)
qed

text \<open>
  A replica's iteration in which the connection holds and the authority, which sends
  nothing else once it is live, sent only lockstep messages.
\<close>

definition quiet :: "client_env \<Rightarrow> bool" where
  "quiet env \<longleftrightarrow> ce_transport env = None \<and> ce_disconnected env = None \<and> ce_saves env = [] \<and>
     \<not> ce_desync env \<and> ce_sent env = None"

definition seat_moved :: "nat \<Rightarrow> 's replica \<Rightarrow> client_action list \<Rightarrow> 's seat \<Rightarrow> 's seat" where
  "seat_moved n c acts p =
     \<lparr>seat_replica = c, seat_down = drop n (seat_down p),
      seat_up = seat_up p @ sent_on channel_lockstep acts,
      seat_reports = seat_reports p @ sent_on channel_desync acts\<rparr>"

text \<open>A round that only takes messages.\<close>

definition idle_env :: "byte list list \<Rightarrow> client_env" where
  "idle_env msgs = \<lparr>ce_transport = None, ce_disconnected = None, ce_local = [], ce_saves = [], ce_batch = [],
     ce_elapsed = False, ce_lockstep = msgs, ce_desync = False, ce_sent = None\<rparr>"

inductive network_step ::
  "bincode \<Rightarrow> 's session_sim \<Rightarrow> desync_policy \<Rightarrow> 's network \<Rightarrow> 's network \<Rightarrow> bool"
  for bc sim policy where
  authority: "distinct (map fst takes) \<Longrightarrow> te_clients env = client_rounds (nw_seat w) takes \<Longrightarrow>
    tick_round bc infallible sim policy env (nw_authority w) = (a, acts, Inr ()) \<Longrightarrow>
    network_step bc sim policy w
      \<lparr>nw_authority = a, nw_seat = (\<lambda>cid. seat_served takes (broadcasts acts) cid (nw_seat w cid))\<rparr>"
| replica: "quiet env \<Longrightarrow> n \<le> 128 \<Longrightarrow> ce_lockstep env = take n (seat_down (nw_seat w cid)) \<Longrightarrow>
    client_round bc infallible sim env (seat_replica (nw_seat w cid)) = (c, acts, Inr ()) \<Longrightarrow>
    network_step bc sim policy w
      (w\<lparr>nw_seat := (nw_seat w)(cid := seat_moved n c acts (nw_seat w cid))\<rparr>)"

text \<open>
  The start, as the barrier leaves it: the authority has broadcast \<open>Start\<close>, and every
  participant has rebuilt the authority's state, reported ready and waits for it.
\<close>

definition seat_starts ::
  "bincode \<Rightarrow> 's session_sim \<Rightarrow> ('s \<Rightarrow> 'd) \<Rightarrow> save_metadata \<Rightarrow> 's \<Rightarrow> 's seat \<Rightarrow> bool" where
  "seat_starts bc sim det meta s p \<longleftrightarrow>
     cphase (rp_startup (seat_replica p)) = AwaitingStart meta \<and>
     fst (rp_reported (seat_replica p)) = creceived (rp_startup (seat_replica p)) \<and>
     det (rp_sim (seat_replica p)) = det s \<and>
     sim_hash_interval sim (rp_sim (seat_replica p)) = sim_hash_interval sim s \<and>
     snd (sim_publish sim (rp_sim (seat_replica p))) = Inr () \<and>
     seat_down p = [enc_server bc (Start (meta_tick meta) (meta_hash meta))] \<and> seat_reports p = []"

definition network_starts ::
  "bincode \<Rightarrow> 's session_sim \<Rightarrow> ('s \<Rightarrow> 'd) \<Rightarrow> save_metadata \<Rightarrow> 's network \<Rightarrow> bool" where
  "network_starts bc sim det meta w \<longleftrightarrow>
     (let a = nw_authority w in
      au_hashes a = [] \<and> bt_ok (au_verified a) \<and> sim_current_tick sim (au_sim a) = meta_tick meta \<and>
      length (enc_server bc (Start (meta_tick meta) (meta_hash meta))) \<le> max_replay_record_bytes \<and>
      (\<forall>(cid, v) \<in> set (au_verified a). v = meta_tick meta \<and>
         seat_starts bc sim det meta (au_sim a) (nw_seat w cid)))"

section \<open>Ticks and fingerprints along a run\<close>

text \<open>The reports a replica makes for a piece of history.\<close>

definition sampled :: "u64 \<Rightarrow> (u64 \<times> u64 session_result) list \<Rightarrow> desync_hash list" where
  "sampled interval hist =
     concat (map (\<lambda>(t, r). case r of Inr h \<Rightarrow>
       if t mod interval = 0 then [\<lparr>report_tick = t, report_hash = h\<rparr>] else [] | Inl _ \<Rightarrow> []) hist)"

lemma sent_reports:
  "sent_on channel_desync (concat (map (report_of bc interval) hist)) = map (enc_desync bc) (sampled interval hist)"
  by (induction hist) (auto simp: sampled_def report_of_def split: sum.splits)

lemma sent_reports_lockstep: "sent_on channel_lockstep (concat (map (report_of bc interval) hist)) = []"
  by (induction hist) (auto simp: report_of_def channel_lockstep_def channel_desync_def split: sum.splits)

lemma sampled_ticks:
  "r \<in> set (sampled interval hist) \<Longrightarrow>
     (report_tick r, Inr (report_hash r)) \<in> set hist \<and> report_tick r mod interval = 0"
  by (auto simp: sampled_def split: sum.splits if_splits del: mod_0_imp_dvd)

lemma sampled_ascend:
  "sorted_wrt (<) (map fst hist) \<Longrightarrow> sorted_wrt (<) (map report_tick (sampled interval hist))"
proof (induction hist)
  case (Cons e hist)
  have "\<forall>r \<in> set (sampled interval hist). fst e < report_tick r"
    using Cons.prems sampled_ticks [of _ interval hist] by fastforce
  moreover have "sampled interval (e # hist) = sampled interval [e] @ sampled interval hist"
    by (simp add: sampled_def)
  moreover have "sampled interval [e] = [] \<or> (\<exists>r. sampled interval [e] = [r] \<and> report_tick r = fst e)"
    by (cases e) (auto simp: sampled_def split: sum.splits)
  ultimately show ?case using Cons by auto
qed (simp add: sampled_def)

text \<open>The authority fingerprinted every sampled tick.\<close>

lemma sampled_history:
  assumes "fingerprinted_sim sim det" "authority_run bc al sim policy a0 a advs hist sent"
  shows "\<forall>(t, r) \<in> set (history sim advs (au_sim a0)).
    t mod sim_hash_interval sim (au_sim a0) = 0 \<longrightarrow> (\<exists>h. r = Inr h)"
proof
  fix e assume "e \<in> set (history sim advs (au_sim a0))"
  then show "case e of (t, r) \<Rightarrow> t mod sim_hash_interval sim (au_sim a0) = 0 \<longrightarrow> (\<exists>h. r = Inr h)"
    using fingerprinted_sim.authority_sampled [OF assms, of "fst e" "snd e"] authority_run_history [OF assms(2)]
    by (simp add: case_prod_beta)
qed

context fingerprinted_sim
begin

text \<open>The ticks of a history ascend from the current one to the last.\<close>

lemma history_sorted:
  "advance_all sim Live advs s = (s', Inr ()) \<Longrightarrow>
     sorted_wrt (<) (sim_current_tick sim s # map fst (history sim advs s)) \<and>
     (\<forall>t \<in> fst ` set (history sim advs s). t \<le> sim_current_tick sim s')"
proof (induction advs arbitrary: s)
  case (Cons adv advs)
  obtain s1 where s1: "advance_tick sim adv Live s = (s1, Inr ())" "advance_all sim Live advs s1 = (s', Inr ())"
    using Cons.prems by (auto simp: advance_all_Cons_Inr simp del: advance_all.simps)
  have t: "sim_current_tick sim s1 = tick adv" by (rule advance_tick_tick [OF s1(1)])
  have "unat (tick adv) = Suc (unat (sim_current_tick sim s))" using s1(1) by (simp add: advance_tick_Inr)
  then have lt: "sim_current_tick sim s < tick adv" by (simp add: word_less_nat_alt)
  have "unat (sim_current_tick sim s1) \<le> unat (sim_current_tick sim s')"
    using advance_all_final [OF s1(2)] by simp
  then have le: "tick adv \<le> sim_current_tick sim s'" by (simp add: t word_le_nat_alt)
  have h: "history sim (adv # advs) s = (tick adv, sim_state_hash sim s1) # history sim advs s1"
    using s1(1) by simp
  show ?case
    using Cons.IH [OF s1(2)] lt le unfolding h by (auto simp: t)
qed simp

end

section \<open>What the authority verified\<close>

text \<open>A client's verified tick moves only by the reports taken from that client.\<close>

lemma process_client_seen:
  assumes "process_client bc al sim s policy hashes cr (verified, g) = Inr (verified', g', acts)" "bt_ok verified"
  shows "bt_ok verified'" "cid \<noteq> cr_id cr \<Longrightarrow> map_of verified' cid = map_of verified cid"
    "map_of verified' (cr_id cr) = Some now \<Longrightarrow> \<exists>seen acts'. map_of verified (cr_id cr) = Some seen \<and>
       hash_reports bc al (cr_id cr) (cr_desync cr) (sim_current_tick sim s) seen hashes policy
         (sim_hash_interval sim s) = Inr (now, acts')"
  using assms
  by (auto simp: process_client_def Let_def res_simps map_of_bt_insert split: option.splits)

lemma process_clients_seen:
  "process_clients bc al sim s policy hashes crs (verified, g) = Inr (verified', g', acts) \<Longrightarrow> bt_ok verified \<Longrightarrow>
   distinct (map cr_id crs) \<Longrightarrow>
   bt_ok verified' \<and>
   (\<forall>cid now. map_of verified' cid = Some now \<longrightarrow> (\<exists>seen. map_of verified cid = Some seen \<and>
      (now = seen \<and> cid \<notin> cr_id ` set crs \<or>
       (\<exists>cr \<in> set crs. \<exists>acts'. cr_id cr = cid \<and> hash_reports bc al cid (cr_desync cr) (sim_current_tick sim s) seen hashes
          policy (sim_hash_interval sim s) = Inr (now, acts')))))"
proof (induction crs arbitrary: verified g acts)
  case (Cons cr crs)
  obtain v1 g1 acts1 acts2 where
    one: "process_client bc al sim s policy hashes cr (verified, g) = Inr (v1, g1, acts1)"
    and rest: "process_clients bc al sim s policy hashes crs (v1, g1) = Inr (verified', g', acts2)"
    using Cons.prems(1) by (auto simp: res_simps)
  note o = process_client_seen [OF one Cons.prems(2)]
  have "distinct (map cr_id crs)" using Cons.prems(3) by simp
  note ih = Cons.IH [OF rest o(1) this]
  show ?case
  proof (intro conjI allI impI)
    show "bt_ok verified'" using ih by simp
    fix cid now assume n: "map_of verified' cid = Some now"
    then obtain seen where seen: "map_of v1 cid = Some seen"
      "now = seen \<and> cid \<notin> cr_id ` set crs \<or>
       (\<exists>cr \<in> set crs. \<exists>acts'. cr_id cr = cid \<and> hash_reports bc al cid (cr_desync cr) (sim_current_tick sim s) seen hashes
          policy (sim_hash_interval sim s) = Inr (now, acts'))"
      using ih by blast
    show "\<exists>seen. map_of verified cid = Some seen \<and>
      (now = seen \<and> cid \<notin> cr_id ` set (cr # crs) \<or>
       (\<exists>c \<in> set (cr # crs). \<exists>acts'. cr_id c = cid \<and> hash_reports bc al cid (cr_desync c) (sim_current_tick sim s) seen hashes
          policy (sim_hash_interval sim s) = Inr (now, acts')))"
    proof (cases "cid = cr_id cr")
      case True
      then have "cid \<notin> cr_id ` set crs" using Cons.prems(3) by simp
      then have "now = seen" using seen(2) by auto
      then show ?thesis using o(3) seen(1) True by fastforce
    next
      case False
      then show ?thesis using o(2) seen by auto
    qed
  qed
qed auto

lemma live_events_seen:
  "live_events evs verified = (verified', acts) \<Longrightarrow> bt_ok verified \<Longrightarrow>
     bt_ok verified' \<and> (\<forall>cid v. map_of verified' cid = Some v \<longrightarrow> map_of verified cid = Some v)"
proof (induction evs arbitrary: verified acts)
  case (Cons ev evs)
  obtain v1 acts1 acts2 where v: "live_event ev verified = (v1, acts1)" "live_events evs v1 = (verified', acts2)"
    using Cons.prems(1) by (auto simp: Let_def split: prod.splits)
  have "bt_ok v1 \<and> (\<forall>cid w. map_of v1 cid = Some w \<longrightarrow> map_of verified cid = Some w)"
    using v(1) Cons.prems(2)
    by (auto simp: live_event_def bt_remove_def map_of_bt_filter split: server_event.splits option.splits if_splits)
  then show ?case using Cons.IH [OF v(2)] by blast
qed auto

lemma tick_round_seen:
  assumes "tick_round bc al sim policy env a = (a', acts, Inr ())" "bt_ok (au_verified a)"
    and "distinct (map cr_id (te_clients env))"
  shows "bt_ok (au_verified a')"
    and "map_of (au_verified a') cid = Some now \<Longrightarrow> \<exists>seen. map_of (au_verified a) cid = Some seen \<and>
      (now = seen \<and> cid \<notin> cr_id ` set (te_clients env) \<or>
       (\<exists>cr \<in> set (te_clients env). \<exists>acts'. cr_id cr = cid \<and>
          hash_reports bc al cid (cr_desync cr) (sim_current_tick sim (au_sim a)) seen (au_hashes a) policy
            (sim_hash_interval sim (au_sim a)) = Inr (now, acts')))"
proof -
  obtain adv verified g where t: "gather_inputs bc al sim policy env a = Inr (verified, inputs adv, g)"
    "commit_tick bc sim adv (a\<lparr>au_verified := verified\<rparr>) =
      (a', [Broadcast channel_lockstep (enc_server bc (Tick adv)), Send_Packets], Inr ())"
    using assms(1) by (elim tick_round_Inr) auto
  have v: "au_verified a' = verified" using commit_tick_Inr(4) [OF t(2)] by simp
  obtain v0 acts1 g1 acts2 where
    ev: "live_events (te_events env) (au_verified a) = (v0, acts1)"
    and pc: "process_clients bc al sim (au_sim a) policy (au_hashes a) (te_clients env) (v0, (0, [])) =
      Inr (verified, g1, acts2)"
    using t(1) by (auto simp: gather_inputs_def Let_def res_simps split: prod.splits)
  note e = live_events_seen [OF ev assms(2)]
  note p = process_clients_seen [OF pc conjunct1 [OF e] assms(3)]
  show "bt_ok (au_verified a')" using p v by simp
  show "\<exists>seen. map_of (au_verified a) cid = Some seen \<and>
      (now = seen \<and> cid \<notin> cr_id ` set (te_clients env) \<or>
       (\<exists>cr \<in> set (te_clients env). \<exists>acts'. cr_id cr = cid \<and>
          hash_reports bc al cid (cr_desync cr) (sim_current_tick sim (au_sim a)) seen (au_hashes a) policy
            (sim_hash_interval sim (au_sim a)) = Inr (now, acts')))"
    if "map_of (au_verified a') cid = Some now"
    using that p e unfolding v by blast
qed

text \<open>Reports only move the verified tick forward, to ticks that were reported.\<close>

lemma hash_reports_forward:
  assumes "bincode_format bc"
  shows "hash_reports bc infallible cid (map (enc_desync bc) rs) now seen hashes policy interval = Inr (seen', acts) \<Longrightarrow>
     sorted_wrt (<) (v # map report_tick rs) \<Longrightarrow> seen \<le> v \<Longrightarrow> seen' \<le> last (v # map report_tick rs)"
proof (induction rs arbitrary: seen v acts)
  case (Cons r rs)
  obtain s1 acts1 acts2 where
    one: "handle_hash_report bc infallible cid (enc_desync bc r) now seen hashes policy interval = Inr (s1, acts1)"
    and rest: "hash_reports bc infallible cid (map (enc_desync bc) rs) now s1 hashes policy interval = Inr (seen', acts2)"
    using Cons.prems(1) by (auto simp: res_simps)
  have "v < report_tick r" using Cons.prems(2) by simp
  moreover have "s1 = seen \<or> s1 = report_tick r"
    using one bincode_format.decode_encode_desync [OF assms]
    by (auto simp: handle_hash_report_def verify_hash_def res_simps split: sum.splits if_splits)
  ultimately have "s1 \<le> report_tick r" using Cons.prems(3) by auto
  from Cons.IH [OF rest _ this] show ?case using Cons.prems(2) by simp
qed simp

text \<open>True reports in order end no session; those that are on time are all accepted.\<close>

lemma true_report_handled:
  assumes "bincode_format bc" "history_kept interval now hist hashes" "distinct (map fst hist)"
    and "(report_tick r, Inr (report_hash r)) \<in> set hist" "report_tick r mod interval = 0" "seen < report_tick r"
  shows "(\<exists>acts. handle_hash_report bc infallible cid (enc_desync bc r) now seen hashes policy interval = Inr (seen, acts) \<and>
      unat now > Suc (unat seen + unat interval * 10)) \<or>
    handle_hash_report bc infallible cid (enc_desync bc r) now seen hashes policy interval = Inr (report_tick r, [])"
proof (cases "map_of hashes (report_tick r)")
  case None
  have "\<not> unat now \<le> Suc (unat seen + unat interval * 10)"
  proof
    assume "unat now \<le> Suc (unat seen + unat interval * 10)"
    then have "unat now - unat (report_tick r) \<le> unat interval * 10"
      using assms(6) by (simp add: word_less_nat_alt)
    then obtain h where "(report_tick r, h) \<in> set hashes"
      using history_keptD(5) [OF assms(2,4,5)] by blast
    then show False using None by (force simp: map_of_eq_None_iff)
  qed
  then show ?thesis
    using None bincode_format.decode_encode_desync [OF assms(1)] assms(6)
    by (auto simp: handle_hash_report_def verify_hash_def is_desync_def ok_or_def)
next
  case (Some h)
  then have "(report_tick r, Inr h) \<in> set hist"
    using history_keptD(4) [OF assms(2) map_of_SomeD] by blast
  from eq_key_imp_eq_value [OF assms(3,4) this] have "h = report_hash r" by simp
  moreover have "\<not> now < report_tick r" using history_keptD(3) [OF assms(2,4)] by simp
  moreover have "\<not> report_tick r \<le> seen" using assms(6) by simp
  ultimately show ?thesis
    using Some bincode_format.decode_encode_desync [OF assms(1)] assms(5,6)
    by (simp add: handle_hash_report_def verify_hash_def ok_or_def)
qed

lemma true_reports_handled:
  assumes "bincode_format bc" "history_kept interval now hist hashes" "distinct (map fst hist)"
  shows "\<forall>r \<in> set rs. (report_tick r, Inr (report_hash r)) \<in> set hist \<and> report_tick r mod interval = 0 \<Longrightarrow>
    sorted_wrt (<) (v # map report_tick rs) \<Longrightarrow> seen \<le> v \<Longrightarrow>
    \<exists>seen' acts. hash_reports bc infallible cid (map (enc_desync bc) rs) now seen hashes policy interval = Inr (seen', acts) \<and>
      (unat now \<le> Suc (unat seen + unat interval * 10) \<longrightarrow> acts = [] \<and> seen' = last (seen # map report_tick rs))"
proof (induction rs arbitrary: seen v)
  case (Cons r rs)
  have lt: "seen < report_tick r" using Cons.prems(2,3) by auto
  have sorted: "sorted_wrt (<) (report_tick r # map report_tick rs)" using Cons.prems(2) by simp
  have true: "\<forall>r \<in> set rs. (report_tick r, Inr (report_hash r)) \<in> set hist \<and> report_tick r mod interval = 0"
    using Cons.prems(1) by simp
  from true_report_handled [OF assms _ _ lt, of cid policy] Cons.prems(1) consider
    acts where "handle_hash_report bc infallible cid (enc_desync bc r) now seen hashes policy interval = Inr (seen, acts)"
      "\<not> unat now \<le> Suc (unat seen + unat interval * 10)"
  | "handle_hash_report bc infallible cid (enc_desync bc r) now seen hashes policy interval = Inr (report_tick r, [])"
    by (auto simp: not_le)
  then show ?case
  proof cases
    case (1 acts)
    have "seen \<le> report_tick r" using lt by simp
    from Cons.IH [OF true sorted this] obtain seen' acts' where
      "hash_reports bc infallible cid (map (enc_desync bc) rs) now seen hashes policy interval = Inr (seen', acts')"
      by blast
    with 1 show ?thesis by auto
  next
    case 2
    have "unat now \<le> Suc (unat (report_tick r) + unat interval * 10)"
      if "unat now \<le> Suc (unat seen + unat interval * 10)"
      using that lt by (simp add: word_less_nat_alt)
    with 2 show ?thesis using Cons.IH [OF true sorted order_refl] by auto
  qed
qed simp

section \<open>One round of a replica\<close>

definition settled :: "'s replica \<Rightarrow> bool" where
  "settled c \<longleftrightarrow> (is_live (rp_startup c) \<or> (\<exists>meta. cphase (rp_startup c) = AwaitingStart meta)) \<and>
     fst (rp_reported c) = creceived (rp_startup c)"

text \<open>Once loaded, a round forwards the local queue and handles the lockstep messages.\<close>

lemma settled_round:
  assumes "settled c" "quiet env" "forward_loop bc 256 (ce_local env) (is_live (rp_startup c)) = Inr sent"
    and "length (ce_lockstep env) \<le> 128"
  shows "client_round bc al sim env c =
    (let (c', acts, res) = lockstep_loop bc al sim (ce_lockstep env) c in
     case res of Inl e \<Rightarrow> (c', sent @ acts, Inl e) | Inr _ \<Rightarrow> (c', sent @ acts @ [Client_Send_Packets], Inr ()))"
proof -
  have fw: "forward_inputs bc (ce_local env) c = (c, sent, Inr ())"
    using assms(3) by (simp add: forward_inputs_def)
  have su: "step_startup bc al sim (ce_batch env) c = (c, [], Inr ())"
    using assms(1) by (auto simp: step_startup_def startup_step_def settled_def is_live_def do_nothing_def
        split: client_phase.splits)
  have rl: "report_loading bc (ce_elapsed env) c = (c, [], Inr ())"
    using assms(1) by (auto simp: report_loading_def is_loading_def settled_def is_live_def do_nothing_def)
  show ?thesis
    using assms(1,2,4) fw su rl
    by (simp add: client_round_def transport_check_def quiet_def do_nothing_def then_do_Inr
        acknowledge_progress_def progress_def settled_def then_do_def [of "lockstep_loop bc al sim (ce_lockstep env) c"]
        split: prod.splits sum.splits)
qed

lemma forwarded_reports: "forward_loop bc n rs live = Inr sent \<Longrightarrow> sent_on channel_desync sent = []"
  by (induction bc n rs live arbitrary: sent rule: forward_loop.induct)
    (auto simp: res_simps channel_lockstep_def channel_desync_def)

text \<open>The local queue fails a round only when the application dropped its sender.\<close>

lemma forward_loop_total: "Recv_Disconnected \<notin> set (take n rs) \<Longrightarrow> \<exists>sent. forward_loop bc n rs live = Inr sent"
  by (induction bc n rs live rule: forward_loop.induct) (auto simp: res_simps)

text \<open>The first message a participant handles is \<open>Start\<close>.\<close>

lemma start_handled:
  assumes "bincode_format bc" "cphase (rp_startup c) = AwaitingStart meta" "sim_publish sim (rp_sim c) = (s, Inr ())"
    and "length (enc_server bc (Start (meta_tick meta) (meta_hash meta))) \<le> max_replay_record_bytes"
  shows "\<exists>ctl. handle_lockstep bc infallible sim (enc_server bc (Start (meta_tick meta) (meta_hash meta))) c =
    (c\<lparr>rp_startup := (rp_startup c)\<lparr>cphase := Live_Phase\<rparr>, rp_sim := s, rp_control := ctl\<rparr>, [], Inr ())"
  using assms bincode_format.decode_encode_server_start [OF assms(1,4)]
  by (intro exI [of _ "publish_status Live_Status (rp_control c)"])
    (simp add: handle_lockstep_def start_live_def start_def do_nothing_def)

text \<open>
  Every completed round leaves the received bytes acknowledged; so a replica that awaits
  \<open>Start\<close> is settled, and no progress message follows its readiness report.
\<close>

lemma startup_step_received:
  "startup_step bc al sim os c s = (c', s', res) \<Longrightarrow> creceived c' = creceived c"
  by (auto simp: startup_step_def Let_def split: client_phase.splits prod.splits sum.splits option.splits if_splits)

lemma handle_lockstep_acknowledged:
  "handle_lockstep bc al sim bs c = (c', acts, res) \<Longrightarrow>
     rp_reported c' = rp_reported c \<and> creceived (rp_startup c') = creceived (rp_startup c)"
  by (auto simp: handle_lockstep_def start_live_def apply_tick_def fail_with_def do_nothing_def client_send_def start_def
      Let_def split: sum.splits server_message.splits if_splits prod.splits client_phase.splits)

lemma lockstep_loop_acknowledged:
  "lockstep_loop bc al sim msgs c = (c', acts, res) \<Longrightarrow>
     rp_reported c' = rp_reported c \<and> creceived (rp_startup c') = creceived (rp_startup c)"
proof (induction msgs arbitrary: c acts)
  case (Cons bs msgs)
  obtain c1 acts1 r1 where one: "handle_lockstep bc al sim bs c = (c1, acts1, r1)" by (rule prod_cases3)
  show ?case
  proof (cases r1)
    case (Inl e)
    then show ?thesis using Cons.prems one handle_lockstep_acknowledged [OF one] by (simp add: then_do_def)
  next
    case (Inr u)
    then obtain acts2 where "lockstep_loop bc al sim msgs c1 = (c', acts2, res)"
      using Cons.prems one by (auto simp: then_do_Inr Let_def split: prod.splits)
    then show ?thesis using Cons.IH handle_lockstep_acknowledged [OF one] by metis
  qed
qed (simp add: do_nothing_def)

lemma then_do_completes:
  assumes "then_do m f = (c', acts, Inr u)"
  obtains c1 acts1 v rest where "m = (c1, acts1, Inr v)" "f c1 = (c', rest, Inr u)"
  using assms by (cases m) (auto simp: then_do_def Let_def split: sum.splits prod.splits)

lemma round_acknowledges:
  assumes "client_round bc al sim env c = (c', acts, Inr ())"
  shows "fst (rp_reported c') = creceived (rp_startup c')"
proof -
  obtain c0 c1 c2 c3 c4 acts1 acts2 acts3 acts4 where
    a: "acknowledge_progress bc c0 = (c1, acts1, Inr ())"
    and s: "step_startup bc al sim (ce_batch env) c1 = (c2, acts2, Inr ())"
    and r: "report_loading bc (ce_elapsed env) c2 = (c3, acts3, Inr ())"
    and l: "lockstep_loop bc al sim (take 128 (ce_lockstep env)) c3 = (c4, acts4, Inr ())" and c': "c' = c4"
    using assms unfolding client_round_def
    by (elim then_do_completes) (auto simp: do_nothing_def fail_with_def split: if_splits option.splits)
  have "fst (rp_reported c1) = creceived (rp_startup c1)"
    using a by (auto simp: acknowledge_progress_def progress_def do_nothing_def split: if_splits)
  moreover have "rp_reported c2 = rp_reported c1 \<and> creceived (rp_startup c2) = creceived (rp_startup c1)"
    using s by (auto simp: step_startup_def do_nothing_def client_send_def fail_with_def Let_def
        dest: startup_step_received split: prod.splits sum.splits option.splits)
  ultimately have "fst (rp_reported c3) = creceived (rp_startup c3)"
    using r by (auto simp: report_loading_def progress_def do_nothing_def Let_def split: if_splits)
  then show ?thesis using lockstep_loop_acknowledged [OF l] by (simp add: c')
qed

lemma awaiting_settled:
  "client_round bc al sim env c = (c', acts, Inr ()) \<Longrightarrow> cphase (rp_startup c') = AwaitingStart meta \<Longrightarrow> settled c'"
  using round_acknowledges by (auto simp: settled_def)

lemma round_forwards:
  "client_round bc al sim env c = (c', acts, Inr ()) \<Longrightarrow> quiet env \<Longrightarrow>
     \<exists>sent. forward_loop bc 256 (ce_local env) (is_live (rp_startup c)) = Inr sent"
  by (auto simp: client_round_def transport_check_def quiet_def do_nothing_def then_do_Inr forward_inputs_def
      then_do_def [of "(_, [], Inl _)"] split: sum.splits)

section \<open>Every participant follows\<close>

text \<open>
  After \<open>k\<close> of the records executed so far a participant is in the state \<open>s\<close> they lead to;
  the rest is on its way.
\<close>

definition seat_follows ::
  "bincode \<Rightarrow> 's session_sim \<Rightarrow> ('s \<Rightarrow> 'd) \<Rightarrow> save_metadata \<Rightarrow> 's \<Rightarrow> tick_advance list \<Rightarrow> nat \<Rightarrow> 's \<Rightarrow> 's seat \<Rightarrow> bool" where
  "seat_follows bc sim det meta s0 advs k s p \<longleftrightarrow>
     k \<le> length advs \<and> advance_all sim Live (take k advs) s0 = (s, Inr ()) \<and>
     settled (seat_replica p) \<and> det (rp_sim (seat_replica p)) = det s \<and>
     sim_hash_interval sim (rp_sim (seat_replica p)) = sim_hash_interval sim s0 \<and>
     (if is_live (rp_startup (seat_replica p)) then seat_down p = map (\<lambda>adv. enc_server bc (Tick adv)) (drop k advs)
      else k = 0 \<and> cphase (rp_startup (seat_replica p)) = AwaitingStart meta \<and>
        snd (sim_publish sim (rp_sim (seat_replica p))) = Inr () \<and>
        seat_down p = enc_server bc (Start (meta_tick meta) (meta_hash meta)) #
          map (\<lambda>adv. enc_server bc (Tick adv)) advs)"

text \<open>Its pending reports are true, ascend, and are newer than what the authority verified.\<close>

definition seat_reported ::
  "bincode \<Rightarrow> 's session_sim \<Rightarrow> 's \<Rightarrow> tick_advance list \<Rightarrow> nat \<Rightarrow> 's \<Rightarrow> u64 option \<Rightarrow> byte list list \<Rightarrow> bool" where
  "seat_reported bc sim s0 advs k s seen reports \<longleftrightarrow>
     (\<exists>rs v. reports = map (enc_desync bc) rs \<and>
        (\<forall>r \<in> set rs. (report_tick r, Inr (report_hash r)) \<in> set (history sim (take k advs) s0) \<and>
           report_tick r mod sim_hash_interval sim s0 = 0) \<and>
        sorted_wrt (<) (v # map report_tick rs) \<and> last (v # map report_tick rs) \<le> sim_current_tick sim s \<and>
        (\<forall>w. seen = Some w \<longrightarrow> w \<le> v))"

text \<open>The invariant of the network.\<close>

definition network_ok ::
  "bincode \<Rightarrow> 's session_sim \<Rightarrow> ('s \<Rightarrow> 'd) \<Rightarrow> desync_policy \<Rightarrow> save_metadata \<Rightarrow> 's network \<Rightarrow> 's network \<Rightarrow> bool" where
  "network_ok bc sim det policy meta w0 w \<longleftrightarrow>
     (\<exists>advs hist sent.
        authority_run bc infallible sim policy (nw_authority w0) (nw_authority w) advs hist sent \<and>
        bt_ok (au_verified (nw_authority w)) \<and>
        (\<forall>cid \<in> fst ` set (au_verified (nw_authority w0)). \<exists>k s.
           seat_follows bc sim det meta (au_sim (nw_authority w0)) advs k s (nw_seat w cid) \<and>
           seat_reported bc sim (au_sim (nw_authority w0)) advs k s (map_of (au_verified (nw_authority w)) cid)
             (seat_reports (nw_seat w cid))))"

lemma seat_follows_served:
  assumes "seat_follows bc sim det meta s0 advs k s p"
  shows "seat_follows bc sim det meta s0 (advs @ [adv]) k s (seat_served takes [enc_server bc (Tick adv)] cid p)"
  using assms by (auto simp: seat_follows_def seat_served_def)

lemma sorted_last: "sorted_wrt (<) (v # xs) \<Longrightarrow> x \<in> set (v # xs) \<Longrightarrow> x \<le> (last (v # xs) :: 'a::linorder)"
  by (induction xs arbitrary: v x) fastforce+

lemma sorted_drop:
  assumes "sorted_wrt (<) (v # xs)"
  shows "sorted_wrt (<) (v # take m xs) \<and> sorted_wrt (<) (last (v # take m xs) # drop m (xs :: 'a::linorder list))"
proof -
  have "sorted_wrt (<) ((v # take m xs) @ drop m xs)" using assms by simp
  then have "sorted_wrt (<) (v # take m xs)" "sorted_wrt (<) (drop m xs)"
    "\<forall>x \<in> set (v # take m xs). \<forall>y \<in> set (drop m xs). x < y"
    unfolding sorted_wrt_append by blast+
  moreover have "last (v # take m xs) \<in> set (v # take m xs)" by (rule last_in_set) simp
  ultimately show ?thesis by simp
qed

lemma last_drop_take: "last (last (v # take m xs) # drop m xs) = last (v # xs)"
  by (induction xs arbitrary: v m) (auto simp: take_Cons' drop_Cons')

lemma sorted_extend:
  assumes "sorted_wrt (<) (v # xs)" "last (v # xs) \<le> (t :: 'a::linorder)" "sorted_wrt (<) (t # ys)"
  shows "sorted_wrt (<) (v # xs @ ys)"
proof -
  have "x < y" if "x \<in> set (v # xs)" "y \<in> set ys" for x y
    using sorted_last [OF assms(1) that(1)] assms(2,3) that(2) by fastforce
  then show ?thesis using assms(1,3) by (auto simp: sorted_wrt_append)
qed

lemma seat_reported_served:
  assumes "bincode_format bc" "seat_reported bc sim s0 advs k s seen (seat_reports p)" "k \<le> length advs"
    and "\<And>w. seen' = Some w \<Longrightarrow> \<exists>v. seen = Some v \<and>
      (w = v \<and> snd (taken takes cid) = 0 \<or>
       (\<exists>acts. hash_reports bc infallible cid (take (snd (taken takes cid)) (seat_reports p)) now v hashes policy interval =
          Inr (w, acts)))"
  shows "seat_reported bc sim s0 (advs @ [adv]) k s seen' (seat_reports (seat_served takes sent cid p))"
proof -
  obtain rs v where r: "seat_reports p = map (enc_desync bc) rs"
    "\<forall>r \<in> set rs. (report_tick r, Inr (report_hash r)) \<in> set (history sim (take k advs) s0) \<and>
       report_tick r mod sim_hash_interval sim s0 = 0"
    "sorted_wrt (<) (v # map report_tick rs)" "last (v # map report_tick rs) \<le> sim_current_tick sim s"
    "\<forall>w. seen = Some w \<longrightarrow> w \<le> v"
    using assms(2) unfolding seat_reported_def by blast
  let ?m = "snd (taken takes cid)"
  let ?v = "last (v # map report_tick (take ?m rs))"
  have sorted: "sorted_wrt (<) (v # map report_tick (take ?m rs))"
    using sorted_drop [OF r(3), of ?m] by (simp add: take_map)
  have "w \<le> ?v" if some: "seen' = Some w" for w
  proof -
    obtain u where u: "seen = Some u" "w = u \<and> ?m = 0 \<or>
       (\<exists>acts. hash_reports bc infallible cid (take ?m (seat_reports p)) now u hashes policy interval = Inr (w, acts))"
      using assms(4) [OF some] by blast
    then have "u \<le> v" using r(5) by simp
    then show ?thesis
      using u(2) hash_reports_forward [OF assms(1) _ sorted] by (auto simp: r(1) take_map)
  qed
  moreover have "sorted_wrt (<) (?v # map report_tick (drop ?m rs))"
    using sorted_drop [OF r(3), of ?m] by (simp add: take_map drop_map)
  moreover have "last (?v # map report_tick (drop ?m rs)) = last (v # map report_tick rs)"
    using last_drop_take [of v ?m "map report_tick rs"] by (simp add: take_map drop_map)
  ultimately show ?thesis
    unfolding seat_reported_def
    by (intro exI [of _ "drop ?m rs"] exI [of _ ?v])
      (use r assms(3) in \<open>auto simp: seat_served_def drop_map dest: in_set_dropD\<close>)
qed

text \<open>A round that takes \<open>n\<close> messages moves the participant by that many records.\<close>

definition moved ::
  "bincode \<Rightarrow> 's session_sim \<Rightarrow> 's \<Rightarrow> tick_advance list \<Rightarrow> nat \<Rightarrow> 's \<Rightarrow> nat \<Rightarrow> 's \<Rightarrow> client_action list \<Rightarrow> bool" where
  "moved bc sim s0 advs k s k' s' acts \<longleftrightarrow> k \<le> k' \<and> k' \<le> length advs \<and>
     advance_all sim Live (drop k (take k' advs)) s = (s', Inr ()) \<and>
     sent_on channel_desync acts =
       map (enc_desync bc) (sampled (sim_hash_interval sim s0) (history sim (drop k (take k' advs)) s))"

context fingerprinted_sim
begin

lemma seat_reported_moved:
  assumes "seat_reported bc sim s0 advs k s seen (seat_reports p)" "moved bc sim s0 advs k s k' s' acts"
    and "advance_all sim Live (take k advs) s0 = (s, Inr ())"
  shows "seat_reported bc sim s0 advs k' s' seen (seat_reports (seat_moved n c acts p))"
proof -
  obtain rs v where r: "seat_reports p = map (enc_desync bc) rs"
    "\<forall>r \<in> set rs. (report_tick r, Inr (report_hash r)) \<in> set (history sim (take k advs) s0) \<and>
       report_tick r mod sim_hash_interval sim s0 = 0"
    "sorted_wrt (<) (v # map report_tick rs)" "last (v # map report_tick rs) \<le> sim_current_tick sim s"
    "\<forall>w. seen = Some w \<longrightarrow> w \<le> v"
    using assms(1) unfolding seat_reported_def by blast
  let ?mid = "drop k (take k' advs)"
  let ?new = "sampled (sim_hash_interval sim s0) (history sim ?mid s)"
  note m = assms(2) [unfolded moved_def]
  have mid: "advance_all sim Live ?mid s = (s', Inr ())" using m by blast
  have "take k advs @ ?mid = take k' advs"
    using m append_take_drop_id [of k "take k' advs"] by (simp add: min_def)
  then have hist: "history sim (take k' advs) s0 = history sim (take k advs) s0 @ history sim ?mid s"
    using history_append [OF assms(3), of ?mid] by simp
  note sorted = history_sorted [OF mid]
  have new: "sorted_wrt (<) (sim_current_tick sim s # map report_tick ?new)"
    using sorted sampled_ascend [of "history sim ?mid s"] sampled_ticks [of _ _ "history sim ?mid s"] by fastforce
  have "unat (sim_current_tick sim s) \<le> unat (sim_current_tick sim s')" using advance_all_final [OF mid] by simp
  then have le: "sim_current_tick sim s \<le> sim_current_tick sim s'" by (simp add: word_le_nat_alt)
  have "sorted_wrt (<) (v # map report_tick (rs @ ?new))"
    using sorted_extend [OF r(3,4) new] by simp
  moreover have "last (v # map report_tick (rs @ ?new)) \<le> sim_current_tick sim s'"
  proof (cases "?new = []")
    case True
    then show ?thesis using r(4) le by simp
  next
    case False
    then have "last ?new \<in> set ?new" by (rule last_in_set)
    then have "report_tick (last ?new) \<le> sim_current_tick sim s'"
      using sampled_ticks sorted by fastforce
    then show ?thesis using False by (simp add: last_map)
  qed
  moreover have "\<forall>r \<in> set (rs @ ?new). (report_tick r, Inr (report_hash r)) \<in> set (history sim (take k' advs) s0) \<and>
       report_tick r mod sim_hash_interval sim s0 = 0"
    using r(2) sampled_ticks [of _ "sim_hash_interval sim s0" "history sim ?mid s"] unfolding hist by fastforce
  ultimately show ?thesis
    unfolding seat_reported_def
    by (intro exI [of _ "rs @ ?new"] exI [of _ v]) (use r(1,5) m in \<open>simp add: seat_moved_def\<close>)
qed

text \<open>Handling lockstep messages leaves the fingerprint interval alone.\<close>

lemma handle_lockstep_keeps:
  "handle_lockstep bc al sim bs c = (c', acts, Inr ()) \<Longrightarrow>
     sim_hash_interval sim (rp_sim c') = sim_hash_interval sim (rp_sim c)"
  using interval_publish [of "rp_sim c"]
  by (auto simp: handle_lockstep_def start_live_def apply_tick_def fail_with_def do_nothing_def client_send_def start_def
      Let_def interval_advance_tick
      split: sum.splits server_message.splits if_splits prod.splits client_phase.splits)

lemma lockstep_loop_keeps:
  "lockstep_loop bc al sim msgs c = (c', acts, Inr ()) \<Longrightarrow>
     sim_hash_interval sim (rp_sim c') = sim_hash_interval sim (rp_sim c)"
proof (induction msgs arbitrary: c acts)
  case (Cons bs msgs)
  obtain c1 acts1 acts2 where one: "handle_lockstep bc al sim bs c = (c1, acts1, Inr ())"
    and rest: "lockstep_loop bc al sim msgs c1 = (c', acts2, Inr ())"
    using Cons.prems by (auto simp: then_do_def split: prod.splits sum.splits)
  then show ?case using Cons.IH [OF rest] handle_lockstep_keeps [OF one] by simp
qed (simp add: do_nothing_def)

text \<open>The lockstep messages of a live participant.\<close>

lemma live_moved:
  assumes "bincode_format bc" "publishes sim" "is_live (rp_startup c)"
    and "k \<le> length advs" "advance_all sim Live (take k advs) s0 = (s, Inr ())" "det (rp_sim c) = det s"
    and "sim_hash_interval sim (rp_sim c) = sim_hash_interval sim s0" "advance_all sim Live advs s0 = (s1, Inr ())"
    and "list_all (\<lambda>adv. carries adv \<and> length (enc_server bc (Tick adv)) \<le> max_replay_record_bytes) advs"
    and "\<forall>(t, r) \<in> set (history sim advs s0). t mod sim_hash_interval sim s0 = 0 \<longrightarrow> (\<exists>h. r = Inr h)"
  shows "\<exists>c' acts s'. lockstep_loop bc infallible sim (map (\<lambda>adv. enc_server bc (Tick adv)) (take n (drop k advs))) c =
      (c', acts, Inr ()) \<and>
    moved bc sim s0 advs k s (min (k + n) (length advs)) s' acts \<and> sent_on channel_lockstep acts = [] \<and>
    det (rp_sim c') = det s' \<and> rp_startup c' = rp_startup c"
proof -
  let ?k = "min (k + n) (length advs)" and ?mid = "take n (drop k advs)"
  have mid: "drop k (take ?k advs) = ?mid" by (simp add: drop_take min_def)
  have split: "advs = take k advs @ ?mid @ drop n (drop k advs)"
    using append_take_drop_id [of k advs] append_take_drop_id [of n "drop k advs"] by simp
  have "advance_all sim Live (drop k advs) s = (s1, Inr ())"
    using assms(8,5) advance_all_append [of sim Live "take k advs" "drop k advs" s0] by simp
  then obtain s' where s': "advance_all sim Live ?mid s = (s', Inr ())"
    using advance_all_append [of sim Live ?mid "drop n (drop k advs)" s]
    by (auto simp del: drop_drop split: prod.splits sum.splits)
  have "history sim advs s0 = history sim (take k advs) s0 @ history sim ?mid s @ history sim (drop n (drop k advs)) s'"
    using history_append [OF assms(5)] history_append [OF s'] split by metis
  then have "\<forall>(t, r) \<in> set (history sim ?mid s). t mod sim_hash_interval sim s0 = 0 \<longrightarrow> (\<exists>h. r = Inr h)"
    using assms(10) by auto
  moreover have "list_all (\<lambda>adv. carries adv \<and> length (enc_server bc (Tick adv)) \<le> max_replay_record_bytes) ?mid"
    using assms(9) by (auto simp: list_all_iff dest: in_set_takeD in_set_dropD)
  ultimately obtain c' where "lockstep_loop bc infallible sim (map (\<lambda>adv. enc_server bc (Tick adv)) ?mid) c =
      (c', concat (map (report_of bc (sim_hash_interval sim s0)) (history sim ?mid s)), Inr ())"
    "det (rp_sim c') = det s'" "rp_startup c' = rp_startup c"
    using lockstep_follows [OF assms(1,2) assms(7) [symmetric] s' assms(6) [symmetric] assms(3)] by blast
  moreover have "moved bc sim s0 advs k s ?k s'
      (concat (map (report_of bc (sim_hash_interval sim s0)) (history sim ?mid s)))"
    using s' assms(4) by (simp add: moved_def mid sent_reports)
  ultimately show ?thesis using sent_reports_lockstep by blast
qed

text \<open>The handling of what a round takes, started or not.\<close>

lemma messages_moved:
  assumes "bincode_format bc" "publishes sim" "seat_follows bc sim det meta s0 advs k s p"
    and "length (enc_server bc (Start (meta_tick meta) (meta_hash meta))) \<le> max_replay_record_bytes"
    and "advance_all sim Live advs s0 = (s1, Inr ())"
    and "list_all (\<lambda>adv. carries adv \<and> length (enc_server bc (Tick adv)) \<le> max_replay_record_bytes) advs"
    and "\<forall>(t, r) \<in> set (history sim advs s0). t mod sim_hash_interval sim s0 = 0 \<longrightarrow> (\<exists>h. r = Inr h)"
  shows "\<exists>c' acts k' s'. lockstep_loop bc infallible sim (take n (seat_down p)) (seat_replica p) = (c', acts, Inr ()) \<and>
    moved bc sim s0 advs k s k' s' acts \<and> sent_on channel_lockstep acts = [] \<and>
    (\<forall>sent. seat_follows bc sim det meta s0 advs k' s' (seat_moved n c' sent p))"
proof -
  let ?c = "seat_replica p"
  note f = assms(3) [unfolded seat_follows_def]
  have k: "k \<le> length advs" "advance_all sim Live (take k advs) s0 = (s, Inr ())" "settled ?c"
    "det (rp_sim ?c) = det s" "sim_hash_interval sim (rp_sim ?c) = sim_hash_interval sim s0"
    using f by simp_all
  have prefix: "advance_all sim Live (take k' advs) s0 = (s', Inr ())"
    if "moved bc sim s0 advs k s k' s' acts" for k' s' acts
  proof -
    have "take k' advs = take k advs @ drop k (take k' advs)"
      using that append_take_drop_id [of k "take k' advs"] by (simp add: moved_def min_def)
    then have "advance_all sim Live (take k' advs) s0 = advance_all sim Live (drop k (take k' advs)) s"
      using advance_all_append [of sim Live "take k advs" "drop k (take k' advs)" s0] k(2) by simp
    then show ?thesis using that by (simp add: moved_def)
  qed
  have stay: ?thesis if "take n (seat_down p) = []"
  proof -
    have "moved bc sim s0 advs k s k s []" using k(1) by (simp add: moved_def sampled_def)
    moreover have "n = 0 \<or> seat_down p = []" using that by simp
    then have "seat_follows bc sim det meta s0 advs k s (seat_moved n ?c sent p)" for sent
      using f by (auto simp: seat_follows_def seat_moved_def)
    ultimately show ?thesis
      using that by (intro exI [of _ ?c] exI [of _ "[]"] exI [of _ k] exI [of _ s]) (auto simp: do_nothing_def)
  qed
  have go: "seat_follows bc sim det meta s0 advs k' s' (seat_moved n c' sent p)"
    if "moved bc sim s0 advs k s k' s' acts" "det (rp_sim c') = det s'" "is_live (rp_startup c')" "settled c'"
      "sim_hash_interval sim (rp_sim c') = sim_hash_interval sim s0"
      "drop n (seat_down p) = map (\<lambda>adv. enc_server bc (Tick adv)) (drop k' advs)" for k' s' acts c' sent
    using that prefix [OF that(1)] by (simp add: seat_follows_def seat_moved_def moved_def)
  show ?thesis
  proof (cases "is_live (rp_startup ?c)")
    case True
    then have d: "seat_down p = map (\<lambda>adv. enc_server bc (Tick adv)) (drop k advs)" using f by simp
    obtain c' acts s' where l: "lockstep_loop bc infallible sim (take n (seat_down p)) ?c = (c', acts, Inr ())"
      "moved bc sim s0 advs k s (min (k + n) (length advs)) s' acts" "sent_on channel_lockstep acts = []"
      "det (rp_sim c') = det s'" "rp_startup c' = rp_startup ?c"
      using live_moved [OF assms(1,2) True k(1,2,4,5) assms(5-7), of n] by (auto simp: d take_map)
    note keep = lockstep_loop_keeps [OF l(1)] lockstep_loop_acknowledged [OF l(1)]
    have "seat_follows bc sim det meta s0 advs (min (k + n) (length advs)) s' (seat_moved n c' sent p)" for sent
      by (rule go [OF l(2,4)])
        (use True l(5) keep k(3,5) in \<open>auto simp: settled_def d drop_map add.commute min_def\<close>)
    then show ?thesis using l by blast
  next
    case False
    note w = f [simplified False, simplified]
    show ?thesis
    proof (cases n)
      case 0
      then show ?thesis using stay by simp
    next
      case (Suc m)
      obtain s2 where s2: "sim_publish sim (rp_sim ?c) = (s2, Inr ())"
        using w by (metis prod.collapse)
      obtain ctl where st: "handle_lockstep bc infallible sim
          (enc_server bc (Start (meta_tick meta) (meta_hash meta))) ?c =
        (?c\<lparr>rp_startup := (rp_startup ?c)\<lparr>cphase := Live_Phase\<rparr>, rp_sim := s2, rp_control := ctl\<rparr>, [], Inr ())"
        using start_handled [OF assms(1) _ s2 assms(4)] w by blast
      let ?live = "?c\<lparr>rp_startup := (rp_startup ?c)\<lparr>cphase := Live_Phase\<rparr>, rp_sim := s2, rp_control := ctl\<rparr>"
      have live: "is_live (rp_startup ?live)" "det (rp_sim ?live) = det s"
        "sim_hash_interval sim (rp_sim ?live) = sim_hash_interval sim s0"
        using k(4,5) publish_det [of "rp_sim ?c"] interval_publish [of "rp_sim ?c"] s2
        by (simp_all add: is_live_def)
      obtain c' acts s' where l: "lockstep_loop bc infallible sim
          (map (\<lambda>adv. enc_server bc (Tick adv)) (take m (drop k advs))) ?live = (c', acts, Inr ())"
        "moved bc sim s0 advs k s (min (k + m) (length advs)) s' acts" "sent_on channel_lockstep acts = []"
        "det (rp_sim c') = det s'" "rp_startup c' = rp_startup ?live"
        using live_moved [OF assms(1,2) live(1) k(1,2) live(2,3) assms(5-7), of m] by blast
      note keep = lockstep_loop_keeps [OF l(1)] lockstep_loop_acknowledged [OF l(1)]
      have "take n (seat_down p) = enc_server bc (Start (meta_tick meta) (meta_hash meta)) #
          map (\<lambda>adv. enc_server bc (Tick adv)) (take m (drop k advs))"
        using w Suc by (simp add: take_map)
      then have loop: "lockstep_loop bc infallible sim (take n (seat_down p)) ?c = (c', acts, Inr ())"
        using st l(1) by (simp add: then_do_Inr)
      have "seat_follows bc sim det meta s0 advs (min (k + m) (length advs)) s' (seat_moved n c' sent p)" for sent
        by (rule go [OF l(2,4)])
          (use live l(5) keep k(3) w Suc in \<open>auto simp: settled_def is_live_def drop_map min_def\<close>)
      then show ?thesis using loop l(2,3) by blast
    qed
  qed
qed

text \<open>A whole round succeeds, whatever it takes and whatever the local queue holds.\<close>

lemma round_moved:
  assumes "bincode_format bc" "publishes sim" "seat_follows bc sim det meta s0 advs k s p"
    and "length (enc_server bc (Start (meta_tick meta) (meta_hash meta))) \<le> max_replay_record_bytes"
    and "advance_all sim Live advs s0 = (s1, Inr ())"
    and "list_all (\<lambda>adv. carries adv \<and> length (enc_server bc (Tick adv)) \<le> max_replay_record_bytes) advs"
    and "\<forall>(t, r) \<in> set (history sim advs s0). t mod sim_hash_interval sim s0 = 0 \<longrightarrow> (\<exists>h. r = Inr h)"
    and "quiet env" "n \<le> 128" "ce_lockstep env = take n (seat_down p)"
    and "forward_loop bc 256 (ce_local env) (is_live (rp_startup (seat_replica p))) = Inr sent"
  obtains c' acts k' s' where "client_round bc infallible sim env (seat_replica p) = (c', acts, Inr ())"
    "moved bc sim s0 advs k s k' s' acts" "seat_follows bc sim det meta s0 advs k' s' (seat_moved n c' acts p)"
proof -
  obtain c' acts k' s' where l:
    "lockstep_loop bc infallible sim (take n (seat_down p)) (seat_replica p) = (c', acts, Inr ())"
    "moved bc sim s0 advs k s k' s' acts"
    "\<forall>sent. seat_follows bc sim det meta s0 advs k' s' (seat_moved n c' sent p)"
    using messages_moved [OF assms(1-7), of n] by blast
  have "settled (seat_replica p)" using assms(3) by (simp add: seat_follows_def)
  from settled_round [OF this assms(8,11), of infallible sim] assms(9,10)
  have "client_round bc infallible sim env (seat_replica p) = (c', sent @ acts @ [Client_Send_Packets], Inr ())"
    using l(1) by simp
  moreover have "moved bc sim s0 advs k s k' s' (sent @ acts @ [Client_Send_Packets])"
    using l(2) forwarded_reports [OF assms(11)] by (simp add: moved_def)
  ultimately show ?thesis using that l(3) by blast
qed

lemma network_ok_start:
  assumes "network_starts bc sim det meta w"
  shows "network_ok bc sim det policy meta w w"
proof -
  let ?a = "nw_authority w"
  have b: "bt_ok (au_verified ?a)" using assms by (simp add: network_starts_def Let_def)
  have seat: "seat_follows bc sim det meta (au_sim ?a) [] 0 (au_sim ?a) (nw_seat w cid) \<and>
      seat_reported bc sim (au_sim ?a) [] 0 (au_sim ?a) (map_of (au_verified ?a) cid) (seat_reports (nw_seat w cid))"
    if cid: "cid \<in> fst ` set (au_verified ?a)" for cid
  proof -
    obtain v where v: "(cid, v) \<in> set (au_verified ?a)" using cid by auto
    then have s: "v = meta_tick meta" "seat_starts bc sim det meta (au_sim ?a) (nw_seat w cid)"
      "sim_current_tick sim (au_sim ?a) = meta_tick meta"
      using assms by (auto simp: network_starts_def Let_def)
    have "map_of (au_verified ?a) cid = Some (meta_tick meta)"
      using v s(1) bt_ok_distinct [OF b] by (simp add: map_of_eq_Some_iff)
    then show ?thesis
      using s(2,3) by (auto simp: seat_follows_def seat_reported_def seat_starts_def settled_def is_live_def
          intro!: exI [of _ "[]"] exI [of _ "meta_tick meta"])
  qed
  show ?thesis
    unfolding network_ok_def
    by (intro exI [of _ "[]"] conjI ballI) (use b seat authority_run.started in blast)+
qed

text \<open>Rounds of the authority.\<close>

lemma network_ok_authority:
  assumes "bincode_format bc" "network_ok bc sim det policy meta w0 w"
    and "distinct (map fst takes)" "te_clients env = client_rounds (nw_seat w) takes"
    and "tick_round bc infallible sim policy env (nw_authority w) = (a, acts, Inr ())"
  shows "network_ok bc sim det policy meta w0
    \<lparr>nw_authority = a, nw_seat = (\<lambda>cid. seat_served takes (broadcasts acts) cid (nw_seat w cid))\<rparr>"
proof -
  let ?s0 = "au_sim (nw_authority w0)"
  obtain advs hist sent where run:
    "authority_run bc infallible sim policy (nw_authority w0) (nw_authority w) advs hist sent"
    and ok: "bt_ok (au_verified (nw_authority w))"
    and seats: "\<forall>cid \<in> fst ` set (au_verified (nw_authority w0)). \<exists>k s.
      seat_follows bc sim det meta ?s0 advs k s (nw_seat w cid) \<and>
      seat_reported bc sim ?s0 advs k s (map_of (au_verified (nw_authority w)) cid) (seat_reports (nw_seat w cid))"
    using assms(2) unfolding network_ok_def by blast
  obtain adv verified g where t: "tick_record bc infallible sim policy env (nw_authority w) = Some adv"
    "gather_inputs bc infallible sim policy env (nw_authority w) = Inr (verified, inputs adv, g)"
    "acts = g @ [Broadcast channel_lockstep (enc_server bc (Tick adv)), Send_Packets]"
    using assms(5) by (elim tick_round_Inr) auto
  have b: "broadcasts acts = [enc_server bc (Tick adv)]" using broadcasts_gather [OF t(2)] t(3) by simp
  have ids: "map cr_id (te_clients env) = map fst takes"
    unfolding assms(4) client_rounds_def by (induction takes) auto
  have dist: "distinct (map cr_id (te_clients env))" unfolding ids by (rule assms(3))
  note seen = tick_round_seen [OF assms(5) ok dist]
  have "\<exists>k s. seat_follows bc sim det meta ?s0 (advs @ [adv]) k s (seat_served takes (broadcasts acts) cid (nw_seat w cid)) \<and>
      seat_reported bc sim ?s0 (advs @ [adv]) k s (map_of (au_verified a) cid)
        (seat_reports (seat_served takes (broadcasts acts) cid (nw_seat w cid)))"
    if cid: "cid \<in> fst ` set (au_verified (nw_authority w0))" for cid
  proof -
    obtain k s where f: "seat_follows bc sim det meta ?s0 advs k s (nw_seat w cid)"
      "seat_reported bc sim ?s0 advs k s (map_of (au_verified (nw_authority w)) cid) (seat_reports (nw_seat w cid))"
      using seats cid by blast
    have "k \<le> length advs" using f(1) by (simp add: seat_follows_def)
    then have "seat_reported bc sim ?s0 (advs @ [adv]) k s (map_of (au_verified a) cid)
        (seat_reports (seat_served takes (broadcasts acts) cid (nw_seat w cid)))"
    proof (rule seat_reported_served [OF assms(1) f(2)])
      fix now assume "map_of (au_verified a) cid = Some now"
      then obtain v where v: "map_of (au_verified (nw_authority w)) cid = Some v"
        "now = v \<and> cid \<notin> cr_id ` set (te_clients env) \<or>
         (\<exists>cr \<in> set (te_clients env). \<exists>acts'. cr_id cr = cid \<and>
            hash_reports bc infallible cid (cr_desync cr) (sim_current_tick sim (au_sim (nw_authority w))) v
              (au_hashes (nw_authority w)) policy (sim_hash_interval sim (au_sim (nw_authority w))) = Inr (now, acts'))"
        using seen(2) by blast
      then show "\<exists>v. map_of (au_verified (nw_authority w)) cid = Some v \<and>
        (now = v \<and> snd (taken takes cid) = 0 \<or>
         (\<exists>acts. hash_reports bc infallible cid (take (snd (taken takes cid)) (seat_reports (nw_seat w cid)))
            (sim_current_tick sim (au_sim (nw_authority w))) v (au_hashes (nw_authority w)) policy
            (sim_hash_interval sim (au_sim (nw_authority w))) = Inr (now, acts)))"
        using untaken [of cid "nw_seat w" takes] taken_reports [OF assms(3), of _ "nw_seat w" cid]
        unfolding assms(4) by fastforce
    qed
    then show ?thesis using seat_follows_served [OF f(1)] b by metis
  qed
  then show ?thesis
    unfolding network_ok_def
    using authority_run.ticked [OF run assms(5) t(1)] seen(1) by (simp; blast)
qed

text \<open>Rounds of a replica: they succeed, and they keep the invariant.\<close>

lemma network_ok_moved:
  assumes "bincode_format bc" "publishes sim" "bounded_commands sim" "network_ok bc sim det policy meta w0 w"
    and "length (enc_server bc (Start (meta_tick meta) (meta_hash meta))) \<le> max_replay_record_bytes"
    and "cid \<in> fst ` set (au_verified (nw_authority w0))"
    and "quiet env" "n \<le> 128" "ce_lockstep env = take n (seat_down (nw_seat w cid))"
    and "forward_loop bc 256 (ce_local env) (is_live (rp_startup (seat_replica (nw_seat w cid)))) = Inr sent"
  shows "\<exists>c acts. client_round bc infallible sim env (seat_replica (nw_seat w cid)) = (c, acts, Inr ()) \<and>
    network_ok bc sim det policy meta w0 (w\<lparr>nw_seat := (nw_seat w)(cid := seat_moved n c acts (nw_seat w cid))\<rparr>)"
proof -
  let ?s0 = "au_sim (nw_authority w0)"
  obtain advs hist out where run:
    "authority_run bc infallible sim policy (nw_authority w0) (nw_authority w) advs hist out"
    and ok: "bt_ok (au_verified (nw_authority w))"
    and seats: "\<forall>cid \<in> fst ` set (au_verified (nw_authority w0)). \<exists>k s.
      seat_follows bc sim det meta ?s0 advs k s (nw_seat w cid) \<and>
      seat_reported bc sim ?s0 advs k s (map_of (au_verified (nw_authority w)) cid) (seat_reports (nw_seat w cid))"
    using assms(4) unfolding network_ok_def by blast
  obtain k s where f: "seat_follows bc sim det meta ?s0 advs k s (nw_seat w cid)"
    "seat_reported bc sim ?s0 advs k s (map_of (au_verified (nw_authority w)) cid) (seat_reports (nw_seat w cid))"
    using seats assms(6) by blast
  have prefix: "advance_all sim Live (take k advs) ?s0 = (s, Inr ())" using f(1) by (simp add: seat_follows_def)
  have known: "\<forall>(t, r) \<in> set (history sim advs ?s0). t mod sim_hash_interval sim ?s0 = 0 \<longrightarrow> (\<exists>h. r = Inr h)"
    by (rule sampled_history [OF fingerprinted_sim_axioms run])
  obtain c acts k' s' where r: "client_round bc infallible sim env (seat_replica (nw_seat w cid)) = (c, acts, Inr ())"
    "moved bc sim ?s0 advs k s k' s' acts"
    "seat_follows bc sim det meta ?s0 advs k' s' (seat_moved n c acts (nw_seat w cid))"
    by (rule round_moved [OF assms(1,2) f(1) assms(5) authority_run_executes(1) [OF run]
        authority_run_carries [OF run assms(3)] known assms(7-10)])
  have "seat_reported bc sim ?s0 advs k' s' (map_of (au_verified (nw_authority w)) cid)
      (seat_reports (seat_moved n c acts (nw_seat w cid)))"
    by (rule seat_reported_moved [OF f(2) r(2) prefix])
  then have "network_ok bc sim det policy meta w0
      (w\<lparr>nw_seat := (nw_seat w)(cid := seat_moved n c acts (nw_seat w cid))\<rparr>)"
    unfolding network_ok_def using run ok seats r(3)
    by (intro exI [of _ advs] exI [of _ hist] exI [of _ out]) auto
  then show ?thesis using r(1) by blast
qed

lemma network_ok_step:
  assumes "bincode_format bc" "publishes sim" "bounded_commands sim"
    and "length (enc_server bc (Start (meta_tick meta) (meta_hash meta))) \<le> max_replay_record_bytes"
    and "network_step bc sim policy w w'" "network_ok bc sim det policy meta w0 w"
  shows "network_ok bc sim det policy meta w0 w'"
  using assms(5)
proof cases
  case (authority takes env a acts)
  show ?thesis
    unfolding authority(1) by (rule network_ok_authority [OF assms(1,6) authority(2-4)])
next
  case (replica env n cid c acts)
  show ?thesis
  proof (cases "cid \<in> fst ` set (au_verified (nw_authority w0))")
    case True
    obtain sent where "forward_loop bc 256 (ce_local env) (is_live (rp_startup (seat_replica (nw_seat w cid)))) = Inr sent"
      using round_forwards [OF replica(5,2)] by blast
    from network_ok_moved [OF assms(1-3,6,4) True replica(2-4) this] replica(5) show ?thesis
      unfolding replica(1) by auto
  next
    case False
    then have "\<And>other. other \<in> fst ` set (au_verified (nw_authority w0)) \<Longrightarrow> other \<noteq> cid" by blast
    then show ?thesis
      using assms(6) unfolding network_ok_def replica(1) by simp
  qed
qed

lemma network_ok_reachable:
  assumes "bincode_format bc" "publishes sim" "bounded_commands sim" "network_starts bc sim det meta w0"
    and "rtranclp (network_step bc sim policy) w0 w"
  shows "network_ok bc sim det policy meta w0 w"
  using assms(5)
proof induction
  case base
  show ?case by (rule network_ok_start [OF assms(4)])
next
  case (step w w')
  have "length (enc_server bc (Start (meta_tick meta) (meta_hash meta))) \<le> max_replay_record_bytes"
    using assms(4) by (simp add: network_starts_def Let_def)
  from network_ok_step [OF assms(1-3) this step(2,3)] show ?case .
qed

text \<open>Rounds that only take messages empty the channel.\<close>

lemma network_drains:
  assumes "bincode_format bc" "publishes sim" "bounded_commands sim"
    and "length (enc_server bc (Start (meta_tick meta) (meta_hash meta))) \<le> max_replay_record_bytes"
    and "cid \<in> fst ` set (au_verified (nw_authority w0))"
  shows "network_ok bc sim det policy meta w0 w \<Longrightarrow>
    \<exists>w'. rtranclp (network_step bc sim policy) w w' \<and> network_ok bc sim det policy meta w0 w' \<and>
      nw_authority w' = nw_authority w \<and> (\<forall>other. other \<noteq> cid \<longrightarrow> nw_seat w' other = nw_seat w other) \<and>
      seat_down (nw_seat w' cid) = []"
proof (induction "length (seat_down (nw_seat w cid))" arbitrary: w rule: less_induct)
  case less
  show ?case
  proof (cases "seat_down (nw_seat w cid) = []")
    case True
    then show ?thesis using less(2) by blast
  next
    case False
    let ?env = "idle_env (take 128 (seat_down (nw_seat w cid)))"
    have q: "quiet ?env" "ce_lockstep ?env = take 128 (seat_down (nw_seat w cid))"
      "forward_loop bc 256 (ce_local ?env) (is_live (rp_startup (seat_replica (nw_seat w cid)))) = Inr []"
      by (simp_all add: quiet_def idle_env_def forward_loop.simps(3))
    obtain c acts where r: "client_round bc infallible sim ?env (seat_replica (nw_seat w cid)) = (c, acts, Inr ())"
      "network_ok bc sim det policy meta w0
        (w\<lparr>nw_seat := (nw_seat w)(cid := seat_moved 128 c acts (nw_seat w cid))\<rparr>)"
      using network_ok_moved [OF assms(1-3) less(2) assms(4,5) q(1) order_refl q(2,3)] by blast
    let ?w = "w\<lparr>nw_seat := (nw_seat w)(cid := seat_moved 128 c acts (nw_seat w cid))\<rparr>"
    have step: "network_step bc sim policy w ?w"
      by (rule network_step.replica [OF q(1) order_refl q(2) r(1)])
    have "length (seat_down (nw_seat ?w cid)) < length (seat_down (nw_seat w cid))"
      using False by (simp add: seat_moved_def)
    from less(1) [OF this r(2)] obtain w' where "rtranclp (network_step bc sim policy) ?w w'"
      "network_ok bc sim det policy meta w0 w'" "nw_authority w' = nw_authority ?w"
      "\<forall>other. other \<noteq> cid \<longrightarrow> nw_seat w' other = nw_seat ?w other" "seat_down (nw_seat w' cid) = []"
      by blast
    then show ?thesis using converse_rtranclp_into_rtranclp [of "network_step bc sim policy", OF step]
      by (intro exI [of _ w']) auto
  qed
qed

end

section \<open>A concrete network\<close>

text \<open>
  The authority of the example session and its one participant: the authority executes the
  participant's command, then the participant starts, executes the tick and reports it.
\<close>

definition net_meta :: save_metadata where
  "net_meta = \<lparr>total_bytes = 60, meta_tick = 29, meta_hash = 903\<rparr>"

definition net_replica :: "test_simulation replica" where
  "net_replica = (replica_new (au_sim demo_start) session_control_default)
     \<lparr>rp_startup := client_startup_default\<lparr>cphase := AwaitingStart net_meta\<rparr>\<rparr>"

definition net_seat :: "test_simulation seat" where
  "net_seat = \<lparr>seat_replica = net_replica, seat_down = [enc_server standard_bincode (Start 29 903)],
     seat_up = [enc_client standard_bincode (Input [7])], seat_reports = []\<rparr>"

definition net_start :: "test_simulation network" where
  "net_start = \<lparr>nw_authority = demo_start\<lparr>au_verified := [(5, 29)]\<rparr>, nw_seat = (\<lambda>_. net_seat)\<rparr>"

definition net_ticked :: "test_simulation network" where
  "net_ticked =
     \<lparr>nw_authority = demo_end\<lparr>au_verified := [(5, 29)]\<rparr>,
      nw_seat = (\<lambda>cid. seat_served [(5, 1, 0)] [enc_server standard_bincode (Tick demo_tick)] cid net_seat)\<rparr>"

lemma net_starts:
  "network_starts standard_bincode limited_sim (\<lambda>s. (ts_tick s, ts_commands s)) net_meta net_start"
  using start_size
  by (simp add: network_starts_def net_start_def demo_start_def net_meta_def limited_sim_def test_sim_def
      seat_starts_def net_seat_def net_replica_def replica_new_def client_startup_default_def ts_publish_def)

lemma net_gather:
  "gather_inputs standard_bincode infallible limited_sim FailFast demo_env (demo_start\<lparr>au_verified := [(5, 29)]\<rparr>) =
    Inr ([(5, 29)], inputs demo_tick, [])"
  by (simp add: gather_inputs_def update_network_def demo_env_def demo_start_def process_client_def
     std.decode_encode_client limited_sim_def test_sim_def limit_command_def demo_budget demo_drain demo_tick_def
     enforce_verification_deadline_def saturating_sub_def test_simulation_default_def)

lemma net_commit:
  "commit_tick standard_bincode limited_sim demo_tick (demo_start\<lparr>au_verified := v\<rparr>) =
    (demo_end\<lparr>au_verified := v\<rparr>, [Broadcast channel_lockstep (enc_server standard_bincode (Tick demo_tick)), Send_Packets], Inr ())"
proof -
  have "fingerprint_tick limited_sim (tick demo_tick) (demo_start\<lparr>au_verified := v, au_sim := au_sim demo_end,
     au_writer := Some (demo_writer\<lparr>written := written demo_writer @ record_bytes standard_bincode demo_tick\<rparr>)\<rparr>) =
   (demo_end\<lparr>au_verified := v\<rparr>, Inr ())"
    by (simp add: fingerprint_tick_def limited_sim_def test_sim_def demo_start_def demo_end_def keep_hash_def
      saturating_sub_def flush_writer_def flush_def demo_writer_def demo_tick_def)
  then show ?thesis
    using demo_sizes(2) by (simp add: commit_tick_def demo_append demo_advance Let_def)
qed

lemma net_tick_step: "network_step standard_bincode limited_sim FailFast net_start net_ticked"
proof -
  let ?a = "demo_start\<lparr>au_verified := [(5, 29)]\<rparr>"
  let ?acts = "[Broadcast channel_lockstep (enc_server standard_bincode (Tick demo_tick)), Send_Packets]"
  have t: "checked_add (sim_current_tick limited_sim (au_sim ?a)) 1 = Some (30 :: u64)"
    by (simp add: checked_add_def demo_start_def limited_sim_def test_sim_def)
  have d: "\<lparr>tick = 30, inputs = inputs demo_tick\<rparr> = demo_tick" by (simp add: demo_tick_def)
  have "tick_round standard_bincode infallible limited_sim FailFast demo_env (nw_authority net_start) =
    (demo_end\<lparr>au_verified := [(5, 29)]\<rparr>, ?acts, Inr ())"
    using t by (simp add: tick_round_def net_start_def net_gather d net_commit Let_def)
  moreover have "te_clients demo_env = client_rounds (nw_seat net_start) [(5, 1, 0)]"
    by (simp add: demo_env_def client_rounds_def net_start_def net_seat_def)
  moreover have "distinct (map fst [(5 :: u64, 1 :: nat, 0 :: nat)])" by simp
  ultimately have "network_step standard_bincode limited_sim FailFast net_start
    \<lparr>nw_authority = demo_end\<lparr>au_verified := [(5, 29)]\<rparr>,
     nw_seat = (\<lambda>cid. seat_served [(5, 1, 0)] (broadcasts ?acts) cid (nw_seat net_start cid))\<rparr>"
    by (intro network_step.authority)
  then show ?thesis by (simp add: net_ticked_def net_start_def)
qed

lemma net_reached: "rtranclp (network_step standard_bincode limited_sim FailFast) net_start net_ticked"
  using net_tick_step by blast

text \<open>The participant takes both messages, goes live and reports.\<close>

lemma net_reported:
  "\<exists>w. rtranclp (network_step standard_bincode limited_sim FailFast) net_start w \<and>
    nw_authority w = demo_end\<lparr>au_verified := [(5, 29)]\<rparr> \<and>
    seat_reports (nw_seat w 5) = [enc_desync standard_bincode \<lparr>report_tick = 30, report_hash = 936\<rparr>]"
proof -
  let ?msgs = "[enc_server standard_bincode (Start 29 903), enc_server standard_bincode (Tick demo_tick)]"
  let ?p = "nw_seat net_ticked 5" and ?env = "idle_env ?msgs"
  have p: "seat_replica ?p = net_replica" "seat_down ?p = ?msgs" "seat_reports ?p = []"
    by (simp_all add: net_ticked_def seat_served_def net_seat_def)
  let ?s1 = "\<lparr>ts_tick = 29, ts_commands = 4, ts_starts = 1, ts_live_ticks = 30\<rparr>"
  let ?s2 = "\<lparr>ts_tick = 30, ts_commands = 6, ts_starts = 1, ts_live_ticks = 31\<rparr>"
  have meta: "meta_tick net_meta = 29" "meta_hash net_meta = 903" by (simp_all add: net_meta_def)
  have st: "cphase (rp_startup net_replica) = AwaitingStart net_meta"
    "sim_publish limited_sim (rp_sim net_replica) = (?s1, Inr ())"
    by (simp_all add: net_replica_def limited_sim_def test_sim_def ts_publish_def replica_new_def demo_start_def)
  obtain ctl where one: "handle_lockstep standard_bincode infallible limited_sim (enc_server standard_bincode (Start 29 903)) net_replica =
      (net_replica\<lparr>rp_startup := (rp_startup net_replica)\<lparr>cphase := Live_Phase\<rparr>, rp_sim := ?s1, rp_control := ctl\<rparr>, [], Inr ())"
    using start_handled [OF std.bincode_format_axioms st start_size] unfolding meta by blast
  let ?c = "net_replica\<lparr>rp_startup := (rp_startup net_replica)\<lparr>cphase := Live_Phase\<rparr>, rp_sim := ?s1, rp_control := ctl\<rparr>"
  have "advance_tick limited_sim demo_tick Live ?s1 = (?s2, Inr ())"
    by (simp add: advance_tick_def validate_tick_def checked_add_def advance_checked_def demo_tick_def
        limited_sim_def test_sim_def ts_advance_def ts_publish_def default_finish_tick_def)
  moreover have "sim_state_hash limited_sim ?s2 = Inr 936" "tick demo_tick = 30" "sim_hash_interval limited_sim ?s2 = 30"
    by (simp_all add: limited_sim_def test_sim_def demo_tick_def)
  moreover have "carries demo_tick" by (simp add: carries_def demo_tick_def)
  then have "decode_server_message standard_bincode infallible (enc_server standard_bincode (Tick demo_tick)) =
      Inr (Tick demo_tick)"
    by (rule std.decode_encode_server_tick) (rule demo_sizes(2))
  ultimately have two: "handle_lockstep standard_bincode infallible limited_sim (enc_server standard_bincode (Tick demo_tick)) ?c =
      (?c\<lparr>rp_sim := ?s2\<rparr>, [Client_Send channel_desync (enc_desync standard_bincode \<lparr>report_tick = 30, report_hash = 936\<rparr>)], Inr ())"
    by (simp add: handle_lockstep_def is_live_def apply_tick_def client_send_def)
  have "settled net_replica"
    using st(1) by (auto simp: settled_def net_replica_def replica_new_def client_startup_default_def)
  moreover have q: "quiet ?env" "ce_lockstep ?env = ?msgs" by (simp_all add: quiet_def idle_env_def)
  moreover have "forward_loop standard_bincode 256 (ce_local ?env) (is_live (rp_startup net_replica)) = Inr []"
    by (simp add: idle_env_def forward_loop.simps(3))
  ultimately have "client_round standard_bincode infallible limited_sim ?env (seat_replica ?p) =
      (?c\<lparr>rp_sim := ?s2\<rparr>, [Client_Send channel_desync (enc_desync standard_bincode \<lparr>report_tick = 30, report_hash = 936\<rparr>),
        Client_Send_Packets], Inr ())"
    by (simp add: settled_round p(1) one two then_do_Inr do_nothing_def del: One_nat_def)
  moreover have "ce_lockstep ?env = take 2 (seat_down ?p)" using q(2) p(2) by simp
  moreover define w where "w = net_ticked\<lparr>nw_seat := (nw_seat net_ticked)(5 := seat_moved 2 (?c\<lparr>rp_sim := ?s2\<rparr>)
        [Client_Send channel_desync (enc_desync standard_bincode \<lparr>report_tick = 30, report_hash = 936\<rparr>),
         Client_Send_Packets] ?p)\<rparr>"
  ultimately have "network_step standard_bincode limited_sim FailFast net_ticked w"
    unfolding w_def by (intro network_step.replica [OF q(1)]) simp_all
  then have "rtranclp (network_step standard_bincode limited_sim FailFast) net_start w"
    by (rule rtranclp.rtrancl_into_rtrancl [OF net_reached])
  moreover have "nw_authority w = demo_end\<lparr>au_verified := [(5, 29)]\<rparr>" "nw_seat w 5 = seat_moved 2 (?c\<lparr>rp_sim := ?s2\<rparr>)
        [Client_Send channel_desync (enc_desync standard_bincode \<lparr>report_tick = 30, report_hash = 936\<rparr>),
         Client_Send_Packets] ?p"
    unfolding w_def by (simp_all add: net_ticked_def)
  ultimately show ?thesis by (intro exI [of _ w]) (simp add: seat_moved_def p(3))
qed

section \<open>Properties\<close>

text \<open>C3. Lockstep under every interleaving: however the rounds of the authority and of the replicas
  alternate, whatever they take from the channels, whatever is played, and whoever else joins,
  leaves or misbehaves, a participant is in the authoritative state a prefix of the executed
  records leads to, and in the authority's own state whenever nothing is under way to it.\<close>

theorem network_stays_in_lockstep:
  assumes "bincode_format bc" "fingerprinted_sim sim det" "publishes sim" "bounded_commands sim"
    and "network_starts bc sim det meta w0" "rtranclp (network_step bc sim policy) w0 w"
    and "cid \<in> fst ` set (au_verified (nw_authority w0))"
  shows "\<exists>advs k s. advance_all sim Live advs (au_sim (nw_authority w0)) = (au_sim (nw_authority w), Inr ()) \<and>
    k \<le> length advs \<and> advance_all sim Live (take k advs) (au_sim (nw_authority w0)) = (s, Inr ()) \<and>
    det (rp_sim (seat_replica (nw_seat w cid))) = det s \<and>
    (seat_down (nw_seat w cid) = [] \<longrightarrow>
       det (rp_sim (seat_replica (nw_seat w cid))) = det (au_sim (nw_authority w)))"
proof -
  obtain advs hist sent k s where
    run: "authority_run bc infallible sim policy (nw_authority w0) (nw_authority w) advs hist sent"
    and f: "seat_follows bc sim det meta (au_sim (nw_authority w0)) advs k s (nw_seat w cid)"
    using fingerprinted_sim.network_ok_reachable [OF assms(2,1,3-6)] assms(7) unfolding network_ok_def by blast
  note ex = authority_run_executes(1) [OF run]
  have "k = length advs" if "seat_down (nw_seat w cid) = []"
    using f that by (auto simp: seat_follows_def split: if_splits)
  then have "det s = det (au_sim (nw_authority w))" if "seat_down (nw_seat w cid) = []"
    using f ex that by (simp add: seat_follows_def)
  then show ?thesis
    using f ex unfolding seat_follows_def by metis
qed

theorem network_stays_in_lockstep_witness:
  "\<exists>advs k s. advance_all limited_sim Live advs (au_sim demo_start) = (au_sim demo_end, Inr ()) \<and>
    k \<le> length advs \<and> advance_all limited_sim Live (take k advs) (au_sim demo_start) = (s, Inr ()) \<and>
    (ts_tick (rp_sim net_replica), ts_commands (rp_sim net_replica)) = (ts_tick s, ts_commands s)"
proof -
  have five: "(5 :: u64) \<in> fst ` set (au_verified (nw_authority net_start))" by (simp add: net_start_def)
  have at: "nw_authority net_start = demo_start\<lparr>au_verified := [(5, 29)]\<rparr>"
    "nw_authority net_ticked = demo_end\<lparr>au_verified := [(5, 29)]\<rparr>" "seat_replica (nw_seat net_ticked 5) = net_replica"
    by (simp_all add: net_start_def net_ticked_def seat_served_def net_seat_def)
  from network_stays_in_lockstep [OF std.bincode_format_axioms limited.fingerprinted_sim_axioms limited_publishes
      limited_bounds net_starts net_reached five]
  show ?thesis unfolding at by (simp; blast)
qed

text \<open>C6. No participant is ever accused: whatever interleaving led there, the reports a
  participant has under way, as many of them as the authority takes, end no session under
  either policy; while the authority is at most ten intervals past the last accepted one they
  are all accepted, without a disconnection.\<close>

theorem participant_is_never_accused:
  assumes "bincode_format bc" "fingerprinted_sim sim det" "publishes sim" "bounded_commands sim"
    and "network_starts bc sim det meta w0" "rtranclp (network_step bc sim policy) w0 w"
    and "cid \<in> fst ` set (au_verified (nw_authority w0))"
    and "unat (sim_hash_interval sim (au_sim (nw_authority w0))) * 10 < 2 ^ 64"
    and "map_of (au_verified (nw_authority w)) cid = Some seen"
    and "now = sim_current_tick sim (au_sim (nw_authority w))"
    and "interval = sim_hash_interval sim (au_sim (nw_authority w))"
  shows "\<exists>seen' acts. hash_reports bc infallible cid (take m (seat_reports (nw_seat w cid))) now seen
      (au_hashes (nw_authority w)) policy' interval = Inr (seen', acts) \<and>
    (unat now \<le> Suc (unat seen + unat interval * 10) \<longrightarrow>
       acts = [] \<and> (take m (seat_reports (nw_seat w cid)) \<noteq> [] \<longrightarrow> seen < seen'))"
proof -
  obtain advs hist sent k s where
    run: "authority_run bc infallible sim policy (nw_authority w0) (nw_authority w) advs hist sent"
    and f: "seat_follows bc sim det meta (au_sim (nw_authority w0)) advs k s (nw_seat w cid)"
      "seat_reported bc sim (au_sim (nw_authority w0)) advs k s (map_of (au_verified (nw_authority w)) cid)
        (seat_reports (nw_seat w cid))"
    using fingerprinted_sim.network_ok_reachable [OF assms(2,1,3-6)] assms(7) unfolding network_ok_def by blast
  have fresh: "au_hashes (nw_authority w0) = []" using assms(5) by (simp add: network_starts_def Let_def)
  note kept = fingerprinted_sim.authority_history [OF assms(2) run fresh refl assms(8)]
  have i: "interval = sim_hash_interval sim (au_sim (nw_authority w0))" using kept(2) assms(11) by simp
  note hist = authority_run_history [OF run] and ex = authority_run_executes(1) [OF run]
  have dist: "distinct (map fst hist)"
    using fingerprinted_sim.history_sorted [OF assms(2) ex] unfolding hist by (simp add: strict_sorted_iff)
  have "history sim advs (au_sim (nw_authority w0)) =
      history sim (take k advs) (au_sim (nw_authority w0)) @ history sim (drop k advs) s"
    using history_append [of sim "take k advs" _ s "drop k advs"] f(1) by (simp add: seat_follows_def)
  then have sub: "set (history sim (take k advs) (au_sim (nw_authority w0))) \<subseteq> set hist" by (simp add: hist)
  obtain rs v where r: "seat_reports (nw_seat w cid) = map (enc_desync bc) rs"
    "\<forall>r \<in> set rs. (report_tick r, Inr (report_hash r)) \<in> set (history sim (take k advs) (au_sim (nw_authority w0))) \<and>
       report_tick r mod interval = 0"
    "sorted_wrt (<) (v # map report_tick rs)" "seen \<le> v"
    using f(2) assms(9) unfolding seat_reported_def i by auto
  have true: "\<forall>r \<in> set (take m rs). (report_tick r, Inr (report_hash r)) \<in> set hist \<and> report_tick r mod interval = 0"
    using r(2) sub by (blast dest: in_set_takeD)
  have sorted: "sorted_wrt (<) (v # map report_tick (take m rs))"
    using sorted_drop [OF r(3), of m] by (simp add: take_map)
  have "history_kept interval now hist (au_hashes (nw_authority w))" using kept(1) by (simp add: i assms(10))
  from true_reports_handled [OF assms(1) this dist true sorted r(4), of cid policy'] obtain seen' acts where
    h: "hash_reports bc infallible cid (map (enc_desync bc) (take m rs)) now seen (au_hashes (nw_authority w)) policy' interval =
      Inr (seen', acts)"
    "unat now \<le> Suc (unat seen + unat interval * 10) \<longrightarrow> acts = [] \<and> seen' = last (seen # map report_tick (take m rs))"
    by blast
  have "seen < last (seen # map report_tick (take m rs))" if "take m rs \<noteq> []"
  proof -
    have "last (map report_tick (take m rs)) \<in> set (map report_tick (take m rs))"
      using that by (intro last_in_set) simp
    then have "v < last (map report_tick (take m rs))" using sorted by auto
    then show ?thesis using that r(4) by (simp add: order_le_less_trans)
  qed
  then show ?thesis using h by (auto simp: r(1) take_map)
qed

theorem participant_is_never_accused_witness:
  "\<exists>seen' acts. hash_reports standard_bincode infallible 5
      [enc_desync standard_bincode \<lparr>report_tick = 30, report_hash = 936\<rparr>] 30 29 (au_hashes demo_end) FailFast 30 =
      Inr (seen', acts) \<and> acts = [] \<and> 29 < seen'"
proof -
  obtain w where w: "rtranclp (network_step standard_bincode limited_sim FailFast) net_start w"
    "nw_authority w = demo_end\<lparr>au_verified := [(5, 29)]\<rparr>"
    "seat_reports (nw_seat w 5) = [enc_desync standard_bincode \<lparr>report_tick = 30, report_hash = 936\<rparr>]"
    using net_reported by blast
  have five: "(5 :: u64) \<in> fst ` set (au_verified (nw_authority net_start))" by (simp add: net_start_def)
  have interval: "sim_hash_interval limited_sim s = 30" for s by (simp add: limited_sim_def test_sim_def)
  then have small: "unat (sim_hash_interval limited_sim (au_sim (nw_authority net_start))) * 10 < 2 ^ 64" by simp
  have seen: "map_of (au_verified (nw_authority w)) 5 = Some 29" by (simp add: w(2))
  have now: "30 = sim_current_tick limited_sim (au_sim (nw_authority w))"
    by (simp add: w(2) demo_end_def limited_sim_def test_sim_def)
  have i: "30 = sim_hash_interval limited_sim (au_sim (nw_authority w))" by (simp add: interval)
  from participant_is_never_accused [OF std.bincode_format_axioms limited.fingerprinted_sim_axioms limited_publishes
      limited_bounds net_starts w(1) five small seen now i, of 1 FailFast]
  show ?thesis by (simp add: w(2,3))
qed

text \<open>C7. Nobody is left behind: in every reachable network a participant's next round succeeds,
  whatever it takes and whatever its application submits, as long as the application holds its
  end of the queue; and rounds of that participant alone bring it live into the authority's
  authoritative state.\<close>

theorem participant_catches_up:
  assumes "bincode_format bc" "fingerprinted_sim sim det" "publishes sim" "bounded_commands sim"
    and "network_starts bc sim det meta w0" "rtranclp (network_step bc sim policy) w0 w"
    and "cid \<in> fst ` set (au_verified (nw_authority w0))"
  shows "(\<forall>env n. quiet env \<and> n \<le> 128 \<and> ce_lockstep env = take n (seat_down (nw_seat w cid)) \<and>
      Recv_Disconnected \<notin> set (take 256 (ce_local env)) \<longrightarrow>
      (\<exists>c acts. client_round bc infallible sim env (seat_replica (nw_seat w cid)) = (c, acts, Inr ()))) \<and>
    (\<exists>w'. rtranclp (network_step bc sim policy) w w' \<and> nw_authority w' = nw_authority w \<and>
      (\<forall>other. other \<noteq> cid \<longrightarrow> nw_seat w' other = nw_seat w other) \<and>
      is_live (rp_startup (seat_replica (nw_seat w' cid))) \<and>
      det (rp_sim (seat_replica (nw_seat w' cid))) = det (au_sim (nw_authority w)))"
proof (intro conjI allI impI)
  note ok = fingerprinted_sim.network_ok_reachable [OF assms(2,1,3-6)]
  have len: "length (enc_server bc (Start (meta_tick meta) (meta_hash meta))) \<le> max_replay_record_bytes"
    using assms(5) by (simp add: network_starts_def Let_def)
  {
    fix env n assume e: "quiet env \<and> n \<le> 128 \<and> ce_lockstep env = take n (seat_down (nw_seat w cid)) \<and>
      Recv_Disconnected \<notin> set (take 256 (ce_local env))"
    then obtain sent where "forward_loop bc 256 (ce_local env) (is_live (rp_startup (seat_replica (nw_seat w cid)))) = Inr sent"
      using forward_loop_total by blast
    with e show "\<exists>c acts. client_round bc infallible sim env (seat_replica (nw_seat w cid)) = (c, acts, Inr ())"
      using fingerprinted_sim.network_ok_moved [OF assms(2,1,3,4) ok len assms(7)] by blast
  }
  obtain w' where w': "rtranclp (network_step bc sim policy) w w'" "network_ok bc sim det policy meta w0 w'"
    "nw_authority w' = nw_authority w" "\<forall>other. other \<noteq> cid \<longrightarrow> nw_seat w' other = nw_seat w other"
    "seat_down (nw_seat w' cid) = []"
    using fingerprinted_sim.network_drains [OF assms(2,1,3,4) len assms(7) ok] by blast
  then obtain advs hist sent k s where
    run: "authority_run bc infallible sim policy (nw_authority w0) (nw_authority w') advs hist sent"
    and f: "seat_follows bc sim det meta (au_sim (nw_authority w0)) advs k s (nw_seat w' cid)"
    using assms(7) unfolding network_ok_def by blast
  have live: "is_live (rp_startup (seat_replica (nw_seat w' cid)))" "k = length advs"
    using f w'(5) by (auto simp: seat_follows_def split: if_splits)
  then have "det (rp_sim (seat_replica (nw_seat w' cid))) = det (au_sim (nw_authority w))"
    using f authority_run_executes(1) [OF run] w'(3) by (simp add: seat_follows_def)
  then show "\<exists>w'. rtranclp (network_step bc sim policy) w w' \<and> nw_authority w' = nw_authority w \<and>
      (\<forall>other. other \<noteq> cid \<longrightarrow> nw_seat w' other = nw_seat w other) \<and>
      is_live (rp_startup (seat_replica (nw_seat w' cid))) \<and>
      det (rp_sim (seat_replica (nw_seat w' cid))) = det (au_sim (nw_authority w))"
    using w' live(1) by blast
qed

theorem participant_catches_up_witness:
  "\<exists>w. rtranclp (network_step standard_bincode limited_sim FailFast) net_ticked w \<and>
    is_live (rp_startup (seat_replica (nw_seat w 5))) \<and> ts_tick (rp_sim (seat_replica (nw_seat w 5))) = 30 \<and>
    ts_commands (rp_sim (seat_replica (nw_seat w 5))) = 6"
proof -
  have five: "(5 :: u64) \<in> fst ` set (au_verified (nw_authority net_start))" by (simp add: net_start_def)
  have "au_sim (nw_authority net_ticked) = \<lparr>ts_tick = 30, ts_commands = 6, ts_starts = 1, ts_live_ticks = 30\<rparr>"
    by (simp add: net_ticked_def demo_end_def)
  with participant_catches_up [OF std.bincode_format_axioms limited.fingerprinted_sim_axioms limited_publishes
      limited_bounds net_starts net_reached five]
  show ?thesis by auto
qed

end
