(* ===== verification/Joining.thy ===== *)
theory Joining
  imports Network
begin

text \<open>
  How a live session comes about: the rounds of \<^verbatim>\<open>run_client.rs\<close> while a client is loading, fed
  from the save channel, and the barrier of \<^verbatim>\<open>run_server.rs\<close> that waits for it.  A step is one
  iteration of the client's loop that takes any number of the save messages under way and
  replays any number of records.
\<close>

section \<open>Loading rounds\<close>

definition loading_env :: "bincode \<Rightarrow> save_message list \<Rightarrow> client_env \<Rightarrow> bool" where
  "loading_env bc msgs env \<longleftrightarrow> ce_transport env = None \<and> ce_disconnected env = None \<and>
     ce_saves env = map (enc_save bc) msgs \<and> ce_lockstep env = [] \<and> \<not> ce_desync env \<and> ce_sent env = None"

inductive join_step ::
  "bincode \<Rightarrow> 's session_sim \<Rightarrow> 's replica \<times> save_message list \<Rightarrow> 's replica \<times> save_message list \<Rightarrow> bool"
  for bc sim where
  loads: "loading_env bc (take n msgs) env \<Longrightarrow>
    client_round bc infallible sim env c = (c', acts, Inr ()) \<Longrightarrow>
    join_step bc sim (c, msgs) (c', drop n msgs)"

text \<open>
  Where a client stands when the messages \<open>msgs\<close> of its transfer are still to come: the
  bytes so far are those of the chunks so far, and the records still to be replayed lead
  from its state to \<open>c1\<close>, the state the save describes.
\<close>

definition loading_ok ::
  "bincode \<Rightarrow> 's session_sim \<Rightarrow> save_metadata \<Rightarrow> byte list list \<Rightarrow> 's \<Rightarrow> 's \<Rightarrow>
   client_startup \<Rightarrow> 's \<Rightarrow> save_message list \<Rightarrow> bool" where
  "loading_ok bc sim meta chunks fresh c1 st s msgs \<longleftrightarrow>
     (case cphase st of
        Receiving None bytes \<Rightarrow>
          bytes = [] \<and> msgs = Begin meta # map Chunk chunks \<and> creceived st = 0 \<and> s = fresh \<and> \<not> initialized st
      | Receiving (Some m) bytes \<Rightarrow>
          (\<exists>done todo. chunks = done @ todo \<and> todo \<noteq> [] \<and> bytes = concat done \<and> msgs = map Chunk todo) \<and>
          m = meta \<and> unat (creceived st) = length bytes \<and> s = fresh \<and> \<not> initialized st
      | Replaying m rd \<Rightarrow>
          msgs = [] \<and> m = meta \<and>
          (\<exists>s0 advs. (if initialized st then (s, Inr ()) else sim_initialize sim (header rd) s) = (s0, Inr ()) \<and>
             faultless (inner rd) \<and> held (inner rd) = log_bytes bc advs \<and> list_all (recordable bc) advs \<and>
             advance_all sim Replay advs s0 = (c1, Inr ()))
      | AwaitingStart m \<Rightarrow> msgs = [] \<and> m = meta \<and> s = c1
      | _ \<Rightarrow> False)"

text \<open>The save the transfer carries: a header and records that lead from the initialized state to \<open>c1\<close>.\<close>

definition save_describes ::
  "bincode \<Rightarrow> 's session_sim \<Rightarrow> replay_reader \<Rightarrow> byte list \<Rightarrow> save_metadata \<Rightarrow> byte list list \<Rightarrow> 's \<Rightarrow> 's \<Rightarrow> bool" where
  "save_describes bc sim rd0 save meta chunks fresh c1 \<longleftrightarrow>
     chunks_ok chunks \<and> concat chunks = save \<and> save \<noteq> [] \<and> length save = unat (total_bytes meta) \<and>
     from_reader bc infallible (memory_source save) = Inr rd0 \<and>
     (\<exists>c0 advs. sim_initialize sim (header rd0) fresh = (c0, Inr ()) \<and> faultless (inner rd0) \<and>
        held (inner rd0) = log_bytes bc advs \<and> list_all (recordable bc) advs \<and>
        advance_all sim Replay advs c0 = (c1, Inr ())) \<and>
     meta_tick meta = sim_current_tick sim c1 \<and> sim_state_hash sim c1 = Inr (meta_hash meta)"

lemma loading_starts:
  "loading_ok bc sim meta chunks fresh c1 client_startup_default fresh (Begin meta # map Chunk chunks)"
  by (simp add: loading_ok_def client_startup_default_def)

text \<open>One message of the transfer.\<close>

lemma receive_one:
  assumes "save_describes bc sim rd0 save meta chunks fresh c1"
    and "loading_ok bc sim meta chunks fresh c1 st s (m # msgs)"
  shows "\<exists>st'. receive_save bc infallible m st = (st', Inr ()) \<and>
    loading_ok bc sim meta chunks fresh c1 st' s msgs"
proof -
  note d = assms(1) [unfolded save_describes_def]
  have pos: "total_bytes meta \<noteq> 0" using d by auto
  from assms(2) consider
    (fresh) "cphase st = Receiving None []" "m = Begin meta" "msgs = map Chunk chunks" "creceived st = 0" "s = fresh" "\<not> initialized st"
  | (more) got ch todo where "cphase st = Receiving (Some meta) (concat got)" "chunks = got @ ch # todo" "m = Chunk ch"
      "msgs = map Chunk todo" "unat (creceived st) = length (concat got)" "s = fresh" "\<not> initialized st"
    by (auto simp: loading_ok_def Cons_eq_map_conv split: client_phase.splits option.splits)
  then show ?thesis
  proof cases
    case fresh
    have "chunks \<noteq> []" using d by auto
    moreover have "receive_save bc infallible m st = (st\<lparr>cphase := Receiving (Some meta) []\<rparr>, Inr ())"
      using fresh pos by (simp add: receive_save_def finish_transfer_def Let_def flip: word_neq_0_conv)
    moreover have "\<exists>got todo. chunks = got @ todo \<and> todo \<noteq> [] \<and> concat got = [] \<and> map Chunk chunks = map Chunk todo"
      using \<open>chunks \<noteq> []\<close> by (intro exI [of _ "[]"] exI [of _ chunks]) simp
    ultimately show ?thesis
      using fresh by (simp add: loading_ok_def)
  next
    case (more got ch todo)
    have ch: "ch \<noteq> []" "length ch \<le> max_save_chunk_bytes" "chunks_ok todo"
      using d more(2) by (auto simp: chunks_ok_def)
    have len: "length (concat got) + length ch + length (concat todo) = unat (total_bytes meta)"
      using d more(2) by (metis add.assoc concat.simps(2) concat_append length_append)
    then have fit: "length (concat got) + length ch \<le> unat (total_bytes meta)" by simp
    note rc = receive_chunk(1) [OF more(1,5) ch(1,2) fit, where bc = bc] receive_chunk(2) [OF more(1,5) ch(1,2) fit]
    let ?got = "creceived st + word_of_nat (length ch)"
    show ?thesis
    proof (cases "todo = []")
      case True
      then have "?got = total_bytes meta" using rc(2) len by (simp add: word_unat_eq_iff)
      moreover have "concat got @ ch = save" using d more(2) True by auto
      ultimately have "receive_save bc infallible m st =
          (st\<lparr>creceived := ?got, cphase := Replaying meta rd0\<rparr>, Inr ())"
        using rc(1) d more(3) by (simp add: finish_transfer_def Let_def)
      moreover have "loading_ok bc sim meta chunks fresh c1
          (st\<lparr>creceived := ?got, cphase := Replaying meta rd0\<rparr>) s msgs"
        using d more True by (auto simp: loading_ok_def)
      ultimately show ?thesis by blast
    next
      case False
      then have "concat todo \<noteq> []" using ch(3) by (cases todo) (auto simp: chunks_ok_def)
      then have "?got \<noteq> total_bytes meta" using rc(2) len by (metis add_cancel_right_right length_0_conv)
      then have "receive_save bc infallible m st =
          (st\<lparr>creceived := ?got, cphase := Receiving (Some meta) (concat (got @ [ch]))\<rparr>, Inr ())"
        using rc(1) more(3) by (simp add: finish_transfer_def Let_def)
      moreover have "loading_ok bc sim meta chunks fresh c1
          (st\<lparr>creceived := ?got, cphase := Receiving (Some meta) (concat (got @ [ch]))\<rparr>) s msgs"
        unfolding loading_ok_def using rc(2) more False
        by (simp; intro exI [of _ "got @ [ch]"] exI [of _ todo]) simp
      ultimately show ?thesis by blast
    qed
  qed
qed

lemma received_saves:
  assumes "bincode_format bc" "save_describes bc sim rd0 save meta chunks fresh c1"
  shows "loading_ok bc sim meta chunks fresh c1 (rp_startup c) (rp_sim c) (ms @ msgs) \<Longrightarrow>
    \<exists>st. receive_saves bc infallible (map (enc_save bc) ms) c = (c\<lparr>rp_startup := st\<rparr>, [], Inr ()) \<and>
      loading_ok bc sim meta chunks fresh c1 st (rp_sim c) msgs"
proof (induction ms arbitrary: c)
  case Nil
  then show ?case by (intro exI [of _ "rp_startup c"]) (simp add: do_nothing_def)
next
  case (Cons m ms)
  obtain st where st: "receive_save bc infallible m (rp_startup c) = (st, Inr ())"
    "loading_ok bc sim meta chunks fresh c1 st (rp_sim c) (ms @ msgs)"
    using receive_one [OF assms(2)] Cons.prems by fastforce
  have "case m of Chunk bs \<Rightarrow> bs \<noteq> [] \<and> length bs \<le> max_save_chunk_bytes | _ \<Rightarrow> True"
  proof (cases m)
    case (Chunk bs)
    then have "bs \<in> set chunks"
      using Cons.prems by (auto simp: loading_ok_def Cons_eq_map_conv split: client_phase.splits option.splits)
    then show ?thesis using Chunk assms(2) by (simp add: save_describes_def chunks_ok_def list_all_iff)
  qed simp
  from bincode_format.decode_encode_save [OF assms(1) this] Cons.IH [of "c\<lparr>rp_startup := st\<rparr>"] st
  show ?case by simp
qed

text \<open>One batch of the replay.\<close>

lemma stepped_startup:
  assumes "bincode_format bc" "deterministic_sim sim det" "save_describes bc sim rd0 save meta chunks fresh c1"
    and "loading_ok bc sim meta chunks fresh c1 st s msgs"
  shows "\<exists>st' s' res. startup_step bc infallible sim os st s = (st', s', Inr res) \<and>
    loading_ok bc sim meta chunks fresh c1 st' s' msgs"
proof (cases "\<exists>m rd. cphase st = Replaying m rd")
  case True
  then obtain rd s0 advs where r: "cphase st = Replaying meta rd" "msgs = []"
    "(if initialized st then (s, Inr ()) else sim_initialize sim (header rd) s) = (s0, Inr ())"
    "faultless (inner rd)" "held (inner rd) = log_bytes bc advs" "list_all (recordable bc) advs"
    "advance_all sim Replay advs s0 = (c1, Inr ())"
    using assms(4) by (auto simp: loading_ok_def)
  have m: "meta_tick meta = sim_current_tick sim c1" "sim_state_hash sim c1 = Inr (meta_hash meta)"
    using assms(3) by (simp_all add: save_describes_def)
  note step = bincode_format.startup_step_plays [OF assms(1,2) r(1,3-7) m, of os]
  let ?n = "batch_room 128 os"
  show ?thesis
  proof (cases "length advs < ?n")
    case True
    then show ?thesis using step r(2) by (simp add: Let_def loading_ok_def)
  next
    case False
    have split: "advance_all sim Replay (take ?n advs @ drop ?n advs) s0 = (c1, Inr ())"
      using r(7) by simp
    have "list_all (recordable bc) (drop ?n advs)"
      using r(6) by (auto simp: list_all_iff dest: in_set_dropD)
    then show ?thesis
      using False step r(2,4) bincode_format.advance_all_split [OF assms(1) split] by (auto simp: Let_def loading_ok_def)
  qed
next
  case False
  then have "startup_step bc infallible sim os st s = (st, s, Inr None)"
    by (auto simp: startup_step_def split: client_phase.splits)
  then show ?thesis using assms(4) by blast
qed

text \<open>A whole round: it succeeds, and it leaves the client where the transfer and the log say.\<close>

lemma loading_round:
  assumes "bincode_format bc" "deterministic_sim sim det" "save_describes bc sim rd0 save meta chunks fresh c1"
    and "loading_ok bc sim meta chunks fresh c1 (rp_startup c) (rp_sim c) msgs"
    and "loading_env bc (take n msgs) env"
    and "forward_loop bc 256 (ce_local env) (is_live (rp_startup c)) = Inr sent"
  obtains c' acts st st' s' res where "client_round bc infallible sim env c = (c', acts, Inr ())"
    "loading_ok bc sim meta chunks fresh c1 (rp_startup c') (rp_sim c') (drop n msgs)"
    "loading_ok bc sim meta chunks fresh c1 st (rp_sim c) (drop n msgs)"
    "startup_step bc infallible sim (ce_batch env) st (rp_sim c) = (st', s', Inr res)"
    "rp_startup c' = st'" "rp_sim c' = s'" "take n msgs = [] \<longrightarrow> st = rp_startup c"
proof -
  have e: "ce_transport env = None" "ce_disconnected env = None" "ce_saves env = map (enc_save bc) (take n msgs)"
    "ce_lockstep env = []" "\<not> ce_desync env" "ce_sent env = None"
    using assms(5) by (simp_all add: loading_env_def)
  have fw: "forward_inputs bc (ce_local env) c = (c, sent, Inr ())"
    using assms(6) by (simp add: forward_inputs_def)
  have "loading_ok bc sim meta chunks fresh c1 (rp_startup c) (rp_sim c) (take n msgs @ drop n msgs)"
    using assms(4) by simp
  then obtain st where st: "receive_saves bc infallible (ce_saves env) c = (c\<lparr>rp_startup := st\<rparr>, [], Inr ())"
    "loading_ok bc sim meta chunks fresh c1 st (rp_sim c) (drop n msgs)"
    using received_saves [OF assms(1,3)] unfolding e(3) by blast
  obtain ca acts1 where ack: "acknowledge_progress bc (c\<lparr>rp_startup := st\<rparr>) = (ca, acts1, Inr ())"
    "rp_startup ca = st" "rp_sim ca = rp_sim c"
    by (cases "fst (progress st) \<noteq> fst (rp_reported c)") (auto simp: acknowledge_progress_def do_nothing_def)
  obtain st' s' res where step: "startup_step bc infallible sim (ce_batch env) st (rp_sim c) = (st', s', Inr res)"
    "loading_ok bc sim meta chunks fresh c1 st' s' (drop n msgs)"
    using stepped_startup [OF assms(1-3) st(2)] by blast
  obtain cb acts2 where su: "step_startup bc infallible sim (ce_batch env) ca = (cb, acts2, Inr ())"
    "rp_startup cb = st'" "rp_sim cb = s'"
    using step(1) ack(2,3) by (cases res) (auto simp: step_startup_def do_nothing_def client_send_def)
  obtain cd acts3 where rl: "report_loading bc (ce_elapsed env) cb = (cd, acts3, Inr ())"
    "rp_startup cd = st'" "rp_sim cd = s'"
    using su(2,3) by (cases "is_loading (rp_startup cb) \<and> ce_elapsed env") (auto simp: report_loading_def do_nothing_def Let_def)
  have "client_round bc infallible sim env c = (cd, sent @ acts1 @ acts2 @ acts3 @ [Client_Send_Packets], Inr ())"
    using e fw st(1) ack(1) su(1) rl(1)
    by (simp add: client_round_def transport_check_def do_nothing_def then_do_Inr)
  moreover have "st = rp_startup c" if "take n msgs = []"
  proof -
    have "c\<lparr>rp_startup := st\<rparr> = c" using st(1) e(3) that by (simp add: do_nothing_def)
    then show ?thesis by (metis replica.select_convs(1) replica.surjective replica.update_convs(1))
  qed
  ultimately show ?thesis using that step st(2) rl by blast
qed

lemma join_step_ok:
  assumes "bincode_format bc" "deterministic_sim sim det" "save_describes bc sim rd0 save meta chunks fresh c1"
    and "join_step bc sim x y" "loading_ok bc sim meta chunks fresh c1 (rp_startup (fst x)) (rp_sim (fst x)) (snd x)"
  shows "loading_ok bc sim meta chunks fresh c1 (rp_startup (fst y)) (rp_sim (fst y)) (snd y)"
  using assms(4)
proof cases
  case (loads n msgs env c c' acts)
  obtain sent where "forward_loop bc 256 (ce_local env) (is_live (rp_startup c)) = Inr sent"
    using loads(4) loads(3)
    by (auto simp: client_round_def transport_check_def loading_env_def do_nothing_def then_do_Inr forward_inputs_def
        then_do_def [of "(_, [], Inl _)"] split: sum.splits)
  from loading_round [OF assms(1-3) _ loads(3) this] assms(5) loads show ?thesis by fastforce
qed

text \<open>A client that awaits \<open>Start\<close> after its rounds has exactly the state the save describes.\<close>

definition joined ::
  "bincode \<Rightarrow> 's session_sim \<Rightarrow> 's \<Rightarrow> save_message list \<Rightarrow> 's replica \<Rightarrow> bool" where
  "joined bc sim fresh sent c \<longleftrightarrow>
     (\<exists>ctl. tranclp (join_step bc sim) (replica_new fresh ctl, sent) (c, [])) \<and>
     (\<exists>m. cphase (rp_startup c) = AwaitingStart m)"

lemma joining_ok:
  assumes "bincode_format bc" "deterministic_sim sim det" "save_describes bc sim rd0 save meta chunks fresh c1"
    and "rtranclp (join_step bc sim) (replica_new fresh ctl, Begin meta # map Chunk chunks) y"
  shows "loading_ok bc sim meta chunks fresh c1 (rp_startup (fst y)) (rp_sim (fst y)) (snd y)"
  using assms(4)
proof induction
  case base
  show ?case using loading_starts by (simp add: replica_new_def)
next
  case (step y z)
  then show ?case by (blast intro: join_step_ok [OF assms(1-3)])
qed

lemma joined_ok:
  assumes "bincode_format bc" "deterministic_sim sim det" "save_describes bc sim rd0 save meta chunks fresh c1"
    and "joined bc sim fresh (Begin meta # map Chunk chunks) c"
  shows "cphase (rp_startup c) = AwaitingStart meta \<and> rp_sim c = c1 \<and> settled c"
proof -
  obtain ctl where run: "tranclp (join_step bc sim) (replica_new fresh ctl, Begin meta # map Chunk chunks) (c, [])"
    using assms(4) unfolding joined_def by blast
  obtain m where m: "cphase (rp_startup c) = AwaitingStart m"
    using assms(4) unfolding joined_def by blast
  from joining_ok [OF assms(1-3) tranclp_into_rtranclp [OF run]] m
  have "m = meta" "rp_sim c = c1" by (simp_all add: loading_ok_def)
  moreover obtain y where last: "join_step bc sim y (c, [])" using run by (cases rule: tranclp.cases) auto
  then have "settled c" using m by cases (auto intro: awaiting_settled)
  ultimately show ?thesis using m by simp
qed

text \<open>The save a server sends describes the state it was taken in.\<close>

lemma server_save_describes:
  assumes "bincode_format bc" "deterministic_sim sim det" "header_current h" "list_all (recordable bc) advs"
    and "save = enc_header bc h @ log_bytes bc advs" "advance_all sim phase advs s0 = (s1, Inr ())"
    and "sim_initialize sim h fresh = (c0, Inr ())" "det s0 = det c0" "session_metadata sim save s1 = Inr meta"
    and "chunks_ok chunks" "concat chunks = save"
  obtains rd c1 where "save_describes bc sim rd save meta chunks fresh c1" "advance_all sim Replay advs c0 = (c1, Inr ())"
    "det c1 = det s1"
proof -
  obtain hh where m: "length save < 2 ^ 64" "meta = \<lparr>total_bytes = word_of_nat (length save),
      meta_tick = sim_current_tick sim s1, meta_hash = hh\<rparr>" "sim_state_hash sim s1 = Inr hh"
    using assms(9) by (auto simp: session_metadata_def res_simps split: if_splits)
  then have len: "length save = unat (total_bytes meta)" by (simp add: unat_of_nat)
  have "magic_const \<noteq> []" by (simp add: magic_const_def)
  then have "save \<noteq> []"
    using assms(3,5) by (simp add: bincode_format.header_layout [OF assms(1)] header_current_def)
  let ?src = "memory_source save"
  let ?rd = "\<lparr>inner = ?src\<lparr>held := log_bytes bc advs\<rparr>, header = h\<rparr>"
  have src: "faultless ?src" "held ?src = enc_header bc h @ log_bytes bc advs"
    by (simp_all add: memory_source_def faultless_def assms(5))
  have rd: "from_reader bc infallible ?src = Inr ?rd"
    by (rule bincode_format.from_reader_enc [OF assms(1) src assms(3)])
  obtain c1 where c1: "advance_all sim Replay advs c0 = (c1, Inr ())" "det s1 = det c1"
    using deterministic_sim.advance_all_replays [OF assms(2,6,8)] by blast
  have "meta_tick meta = sim_current_tick sim c1" "sim_state_hash sim c1 = Inr (meta_hash meta)"
    using m(2,3) deterministic_sim.tick_det [OF assms(2) c1(2)] deterministic_sim.hash_det [OF assms(2) c1(2)]
    by simp_all
  moreover have "\<exists>c advs'. sim_initialize sim (header ?rd) fresh = (c, Inr ()) \<and> faultless (inner ?rd) \<and>
        held (inner ?rd) = log_bytes bc advs' \<and> list_all (recordable bc) advs' \<and>
        advance_all sim Replay advs' c = (c1, Inr ())"
    using assms(4,7) src(1) c1(1) by (intro exI [of _ c0] exI [of _ advs]) simp
  ultimately have "save_describes bc sim ?rd save meta chunks fresh c1"
    unfolding save_describes_def using assms(10,11) \<open>save \<noteq> []\<close> len rd by blast
  then show ?thesis using that c1 by simp
qed

text \<open>The client's rounds alone finish the replay.\<close>

definition replay_env :: "bincode \<Rightarrow> save_message list \<Rightarrow> client_env" where
  "replay_env bc msgs = \<lparr>ce_transport = None, ce_disconnected = None, ce_local = [], ce_saves = map (enc_save bc) msgs,
     ce_batch = replicate 128 Go, ce_elapsed = False, ce_lockstep = [], ce_desync = False, ce_sent = None\<rparr>"

lemma replay_env_simps:
  "loading_env bc msgs (replay_env bc msgs)" "forward_loop bc 256 (ce_local (replay_env bc msgs)) live = Inr []"
  "ce_batch (replay_env bc msgs) = replicate 128 Go"
  by (simp_all add: loading_env_def replay_env_def forward_loop.simps(3))

lemma full_room: "batch_room n (replicate n Go) = n"
  by (induction n) simp_all

lemma replay_finishes:
  assumes "bincode_format bc" "deterministic_sim sim det" "save_describes bc sim rd0 save meta chunks fresh c1"
  shows "loading_ok bc sim meta chunks fresh c1 (rp_startup c) (rp_sim c) [] \<Longrightarrow>
    cphase (rp_startup c) = Replaying meta rd \<Longrightarrow>
    (if initialized (rp_startup c) then (rp_sim c, Inr ()) else sim_initialize sim (header rd) (rp_sim c)) = (s0, Inr ()) \<Longrightarrow>
    faultless (inner rd) \<Longrightarrow> held (inner rd) = log_bytes bc advs \<Longrightarrow> list_all (recordable bc) advs \<Longrightarrow>
    advance_all sim Replay advs s0 = (c1, Inr ()) \<Longrightarrow>
    \<exists>c'. tranclp (join_step bc sim) (c, []) (c', []) \<and> cphase (rp_startup c') = AwaitingStart meta \<and> rp_sim c' = c1"
proof (induction "length advs" arbitrary: c rd s0 advs rule: less_induct)
  case less
  let ?env = "replay_env bc []"
  have le: "loading_env bc (take 0 []) ?env" by (simp add: replay_env_simps)
  obtain c' acts st' s' res where r: "client_round bc infallible sim ?env c = (c', acts, Inr ())"
    "loading_ok bc sim meta chunks fresh c1 (rp_startup c') (rp_sim c') []"
    "startup_step bc infallible sim (ce_batch ?env) (rp_startup c) (rp_sim c) = (st', s', Inr res)"
    "rp_startup c' = st'" "rp_sim c' = s'"
    by (rule loading_round [OF assms less.prems(1) le replay_env_simps(2)]) auto
  have step: "join_step bc sim (c, []) (c', [])"
    using join_step.loads [OF le r(1)] by simp
  have m: "meta_tick meta = sim_current_tick sim c1" "sim_state_hash sim c1 = Inr (meta_hash meta)"
    using assms(3) by (simp_all add: save_describes_def)
  note plays = bincode_format.startup_step_plays [OF assms(1,2) less.prems(2-7) m, of "ce_batch ?env",
      unfolded replay_env_simps(3) full_room]
  show ?case
  proof (cases "length advs < 128")
    case True
    then have "st' = (rp_startup c)\<lparr>initialized := True, creplayed := meta_tick meta, cphase := AwaitingStart meta\<rparr>" "s' = c1"
      using plays r(3) by (simp_all add: replay_env_simps(3))
    then show ?thesis using step r(4,5) by (intro exI [of _ c']) auto
  next
    case False
    let ?mid = "fst (advance_all sim Replay (take 128 advs) s0)"
    let ?rd = "rd\<lparr>inner := (inner rd)\<lparr>held := log_bytes bc (drop 128 advs)\<rparr>\<rparr>"
    have c': "rp_startup c' = (rp_startup c)\<lparr>initialized := True, creplayed := sim_current_tick sim ?mid,
        cphase := Replaying meta ?rd\<rparr>" "rp_sim c' = ?mid"
      using False plays r(3-5) by (auto simp: replay_env_simps(3) Let_def)
    have split: "advance_all sim Replay (take 128 advs @ drop 128 advs) s0 = (c1, Inr ())"
      using less.prems(7) by simp
    have "\<exists>c''. tranclp (join_step bc sim) (c', []) (c'', []) \<and> cphase (rp_startup c'') = AwaitingStart meta \<and> rp_sim c'' = c1"
    proof (rule less.hyps [of "drop 128 advs" c' ?rd ?mid])
      show "length (drop 128 advs) < length advs" using False by simp
      show "advance_all sim Replay (drop 128 advs) ?mid = (c1, Inr ())"
        by (rule bincode_format.advance_all_split [OF assms(1) split])
      show "list_all (recordable bc) (drop 128 advs)"
        using less.prems(6) by (auto simp: list_all_iff dest: in_set_dropD)
    qed (use r(2) c' less.prems(4) in simp_all)
    then show ?thesis using tranclp_into_tranclp2 [of "join_step bc sim", OF step] by blast
  qed
qed

lemma loading_finishes:
  assumes "bincode_format bc" "deterministic_sim sim det" "save_describes bc sim rd0 save meta chunks fresh c1"
    and "loading_ok bc sim meta chunks fresh c1 (rp_startup c) (rp_sim c) msgs"
  shows "\<exists>c'. tranclp (join_step bc sim) (c, msgs) (c', []) \<and> cphase (rp_startup c') = AwaitingStart meta \<and> rp_sim c' = c1"
proof -
  have le: "loading_env bc (take (length msgs) msgs) (replay_env bc msgs)" by (simp add: replay_env_simps)
  obtain c' acts where r: "client_round bc infallible sim (replay_env bc msgs) c = (c', acts, Inr ())"
    "loading_ok bc sim meta chunks fresh c1 (rp_startup c') (rp_sim c') (drop (length msgs) msgs)"
    by (rule loading_round [OF assms le replay_env_simps(2)]) blast
  have step: "join_step bc sim (c, msgs) (c', [])" using join_step.loads [OF le r(1)] by simp
  show ?thesis
  proof (cases "\<exists>m rd. cphase (rp_startup c') = Replaying m rd")
    case True
    then obtain rd s0 advs where "cphase (rp_startup c') = Replaying meta rd"
      "(if initialized (rp_startup c') then (rp_sim c', Inr ()) else sim_initialize sim (header rd) (rp_sim c')) = (s0, Inr ())"
      "faultless (inner rd)" "held (inner rd) = log_bytes bc advs" "list_all (recordable bc) advs"
      "advance_all sim Replay advs s0 = (c1, Inr ())"
      using r(2) by (auto simp: loading_ok_def)
    from replay_finishes [OF assms(1-3) _ this] r(2) tranclp_into_tranclp2 [of "join_step bc sim", OF step] show ?thesis by simp blast
  next
    case False
    then have "cphase (rp_startup c') = AwaitingStart meta \<and> rp_sim c' = c1"
      using r(2) by (auto simp: loading_ok_def split: client_phase.splits option.splits)
    then show ?thesis using step by blast
  qed
qed

text \<open>One round loads the small save.\<close>

definition counter_replica :: "u64 replica" where
  "counter_replica = replica_new 0 session_control_default"

lemma counter_fingerprinted: "fingerprinted_sim tick_counter (\<lambda>s. s)"
  by unfold_locales (simp_all add: tick_counter_def default_finish_tick_def)

lemma counter_save:
  "small_save = enc_header standard_bincode small_header @ log_bytes standard_bincode [small_record]"
  "advance_all tick_counter Replay [small_record] 0 = (1, Inr ())" "sim_initialize tick_counter small_header 0 = (0, Inr ())"
  "session_metadata tick_counter small_save 1 = Inr small_meta" "list_all (recordable standard_bincode) [small_record]"
proof -
  show "small_save = enc_header standard_bincode small_header @ log_bytes standard_bincode [small_record]"
    by (simp add: small_save_def log_bytes_def)
  show "advance_all tick_counter Replay [small_record] 0 = (1, Inr ())"
    by (simp add: advance_tick_def validate_tick_def checked_add_def advance_checked_def
        tick_counter_def small_record_def default_finish_tick_def)
  show "sim_initialize tick_counter small_header 0 = (0, Inr ())"
    by (simp add: tick_counter_def default_initialize_def)
  show "session_metadata tick_counter small_save 1 = Inr small_meta"
    using small_sizes(1) by (simp add: session_metadata_def tick_counter_def small_meta_def res_simps)
  show "list_all (recordable standard_bincode) [small_record]" by (simp add: small_recordable)
qed

section \<open>Properties\<close>

text \<open>C4. A client always gets in: whatever part of a completed transfer its rounds have taken so
  far and however they cut the replay, its next round succeeds as long as its application holds
  its end of the queue, and further rounds bring it to await \<open>Start\<close> in the authoritative state
  the save was taken in.\<close>

theorem loading_client_joins:
  assumes "bincode_format bc" "deterministic_sim sim det" "header_current h" "list_all (recordable bc) advs"
    and "save = enc_header bc h @ log_bytes bc advs" "advance_all sim phase advs s0 = (s1, Inr ())"
    and "sim_initialize sim h fresh = (c0, Inr ())" "det s0 = det c0" "session_metadata sim save s1 = Inr meta"
    and "startup_run bc save meta p sent" "begin_fits bc meta" "transfer p \<noteq> Transferring"
    and "rtranclp (join_step bc sim) (replica_new fresh ctl, sent) (c, msgs)"
  shows "(\<forall>env n. loading_env bc (take n msgs) env \<and> Recv_Disconnected \<notin> set (take 256 (ce_local env)) \<longrightarrow>
      (\<exists>c' acts. client_round bc infallible sim env c = (c', acts, Inr ()))) \<and>
    (\<exists>c'. tranclp (join_step bc sim) (c, msgs) (c', []) \<and>
      cphase (rp_startup c') = AwaitingStart meta \<and> det (rp_sim c') = det s1)"
proof (intro conjI allI impI)
  obtain chunks where ch: "sent = Begin meta # map Chunk chunks" "chunks_ok chunks" "concat chunks = save"
    by (rule ready_run [OF assms(10-12)])
  obtain rd c1 where d: "save_describes bc sim rd save meta chunks fresh c1" "det c1 = det s1"
    by (rule server_save_describes [OF assms(1-9) ch(2,3)])
  have ok: "loading_ok bc sim meta chunks fresh c1 (rp_startup c) (rp_sim c) msgs"
    using joining_ok [OF assms(1,2) d(1)] assms(13) unfolding ch(1) by fastforce
  {
    fix env n assume e: "loading_env bc (take n msgs) env \<and> Recv_Disconnected \<notin> set (take 256 (ce_local env))"
    then obtain fw where "forward_loop bc 256 (ce_local env) (is_live (rp_startup c)) = Inr fw"
      using forward_loop_total by blast
    from loading_round [OF assms(1,2) d(1) ok conjunct1 [OF e] this]
    show "\<exists>c' acts. client_round bc infallible sim env c = (c', acts, Inr ())" by blast
  }
  from loading_finishes [OF assms(1,2) d(1) ok] d(2)
  show "\<exists>c'. tranclp (join_step bc sim) (c, msgs) (c', []) \<and>
      cphase (rp_startup c') = AwaitingStart meta \<and> det (rp_sim c') = det s1" by metis
qed

theorem loading_client_joins_witness:
  "\<exists>c. tranclp (join_step standard_bincode tick_counter) (counter_replica, [Begin small_meta, Chunk small_save]) (c, []) \<and>
    cphase (rp_startup c) = AwaitingStart small_meta \<and> rp_sim c = 1"
proof -
  have "transfer small_peer \<noteq> Transferring" by (simp add: small_peer_def)
  from loading_client_joins [OF std.bincode_format_axioms fingerprinted_sim.axioms(1) [OF counter_fingerprinted]
      small_header_current counter_save(5,1-3) refl counter_save(4) small_run small_begin_fits this rtranclp.rtrancl_refl]
  show ?thesis unfolding counter_replica_def by blast
qed

text \<open>C5. The barrier opens on a network in lockstep: once the authority's wait for its clients ends
  and every participant has joined from the save it was sent and awaits \<open>Start\<close>, the session
  starts as the lockstep properties demand: participants verified at the save's tick and in the
  authority's authoritative state, with \<open>Start\<close> under way.\<close>

theorem barrier_starts_the_network:
  assumes "bincode_format bc" "fingerprinted_sim sim det" "header_current h" "list_all (recordable bc) advs"
    and "save = enc_header bc h @ log_bytes bc advs" "advance_all sim phase advs s0 = (s1, Inr ())"
    and "sim_initialize sim h fresh = (c0, Inr ())" "det s0 = det c0" "sim_hash_interval sim s0 = sim_hash_interval sim c0"
    and "session_metadata sim save s1 = Inr meta" "begin_fits bc meta"
    and "length (enc_server bc (Start (meta_tick meta) (meta_hash meta))) \<le> max_replay_record_bytes"
    and "wait_for_clients bc al expected save meta rounds
      \<lparr>w_peers = [], w_published = None, w_control = ctl\<rparr> = Some (w, acts, Inr participants)"
    and "list_all (\<lambda>(stop, _). \<not> stop) rounds"
    and "sim_publish sim s1 = (s2, Inr ())"
    and "nw_authority n = \<lparr>au_sim = s2, au_writer = writer, au_verified = participants, au_hashes = []\<rparr>"
    and "\<forall>cid \<in> fst ` set participants. \<exists>p sent. startup_run bc save meta p sent \<and> transfer p \<noteq> Transferring \<and>
      joined bc sim fresh sent (seat_replica (nw_seat n cid)) \<and>
      snd (sim_publish sim (rp_sim (seat_replica (nw_seat n cid)))) = Inr () \<and>
      seat_down (nw_seat n cid) = [enc_server bc (Start (meta_tick meta) (meta_hash meta))] \<and>
      seat_reports (nw_seat n cid) = []"
  shows "network_starts bc sim det meta n"
proof -
  have ds: "deterministic_sim sim det" by (rule fingerprinted_sim.axioms(1) [OF assms(2)])
  have opened: "opened bc al expected save meta (map snd rounds) acts participants"
    using wait_opens [OF assms(13) _ assms(11,14), of "[]" "[]"] by simp
  have s2: "det s2 = det s1" "sim_hash_interval sim s2 = sim_hash_interval sim s1"
    using deterministic_sim.publish_det [OF ds, of s1] fingerprinted_sim.interval_publish [OF assms(2), of s1] assms(15)
    by simp_all
  have "meta_tick meta = sim_current_tick sim s1"
    using assms(10) by (auto simp: session_metadata_def res_simps split: if_splits)
  then have t: "sim_current_tick sim s2 = meta_tick meta"
    using deterministic_sim.tick_det [OF ds s2(1)] by simp
  have "seat_starts bc sim det meta s2 (nw_seat n cid)" if cid: "cid \<in> fst ` set participants" for cid
  proof -
    obtain p sent where r: "startup_run bc save meta p sent" "transfer p \<noteq> Transferring"
      "joined bc sim fresh sent (seat_replica (nw_seat n cid))"
      "snd (sim_publish sim (rp_sim (seat_replica (nw_seat n cid)))) = Inr ()"
      "seat_down (nw_seat n cid) = [enc_server bc (Start (meta_tick meta) (meta_hash meta))]"
      "seat_reports (nw_seat n cid) = []"
      using assms(17) cid by blast
    obtain chunks where ch: "sent = Begin meta # map Chunk chunks" "chunks_ok chunks" "concat chunks = save"
      by (rule ready_run [OF r(1) assms(11) r(2)])
    obtain rd c1 where d: "save_describes bc sim rd save meta chunks fresh c1" "det c1 = det s1"
      "advance_all sim Replay advs c0 = (c1, Inr ())"
      by (rule server_save_describes [OF assms(1) ds assms(3-8,10) ch(2,3)])
    note j = joined_ok [OF assms(1) ds d(1) r(3) [unfolded ch(1)]]
    have "sim_hash_interval sim c1 = sim_hash_interval sim s1"
      using fingerprinted_sim.interval_advance_all [OF assms(2) d(3)]
        fingerprinted_sim.interval_advance_all [OF assms(2,6)] assms(9) by simp
    then show ?thesis
      using j r(4-6) d(2) s2 by (auto simp: seat_starts_def settled_def is_live_def)
  qed
  then show ?thesis
    using opened t assms(12,16) by (force simp: network_starts_def opened_def Let_def)
qed

definition counter_network :: "u64 replica \<Rightarrow> u64 network" where
  "counter_network c =
     \<lparr>nw_authority = \<lparr>au_sim = 1, au_writer = None, au_verified = [(5, 1)], au_hashes = []\<rparr>,
      nw_seat = (\<lambda>_. \<lparr>seat_replica = c, seat_down = [enc_server standard_bincode (Start 1 1)], seat_up = [],
        seat_reports = []\<rparr>)\<rparr>"

theorem barrier_starts_the_network_witness:
  "\<exists>c. joined standard_bincode tick_counter 0 [Begin small_meta, Chunk small_save] c \<and>
    network_starts standard_bincode tick_counter (\<lambda>s. s) small_meta (counter_network c)"
proof -
  have meta: "meta_tick small_meta = 1" "meta_hash small_meta = 1" by (simp_all add: small_meta_def)
  have tr: "transfer small_peer \<noteq> Transferring" by (simp add: small_peer_def)
  have chunks: "chunks_ok [small_save]" "concat [small_save] = small_save"
    using small_sizes(1) by (auto simp: chunks_ok_def max_save_chunk_bytes_def)
  obtain rd c1 where d: "save_describes standard_bincode tick_counter rd small_save small_meta [small_save] 0 c1"
    by (rule server_save_describes [OF std.bincode_format_axioms fingerprinted_sim.axioms(1) [OF counter_fingerprinted]
        small_header_current counter_save(5,1-3) refl counter_save(4) chunks])
  have "loading_ok standard_bincode tick_counter small_meta [small_save] 0 c1 (rp_startup counter_replica)
      (rp_sim counter_replica) [Begin small_meta, Chunk small_save]"
    using loading_starts [of standard_bincode tick_counter small_meta "[small_save]" 0 c1]
    by (simp add: counter_replica_def replica_new_def)
  then obtain c where c: "tranclp (join_step standard_bincode tick_counter) (counter_replica, [Begin small_meta, Chunk small_save]) (c, [])"
    "cphase (rp_startup c) = AwaitingStart small_meta"
    using loading_finishes [OF std.bincode_format_axioms fingerprinted_sim.axioms(1) [OF counter_fingerprinted] d]
    by blast
  then have j: "joined standard_bincode tick_counter 0 [Begin small_meta, Chunk small_save] c"
    unfolding joined_def counter_replica_def by blast
  obtain w acts where w: "wait_for_clients standard_bincode infallible 1 small_save small_meta [(False, join_env)]
      \<lparr>w_peers = [], w_published = None, w_control = session_control_default\<rparr> = Some (w, acts, Inr [(5, 1)])"
    using join_round by blast
  have pub: "sim_publish tick_counter 1 = (1, Inr ())" by (simp add: tick_counter_def)
  have au: "nw_authority (counter_network c) = \<lparr>au_sim = 1, au_writer = None, au_verified = [(5, 1)], au_hashes = []\<rparr>"
    by (simp add: counter_network_def)
  have seats: "\<forall>cid \<in> fst ` set [(5, 1)]. \<exists>p sent. startup_run standard_bincode small_save small_meta p sent \<and>
      transfer p \<noteq> Transferring \<and> joined standard_bincode tick_counter 0 sent (seat_replica (nw_seat (counter_network c) cid)) \<and>
      snd (sim_publish tick_counter (rp_sim (seat_replica (nw_seat (counter_network c) cid)))) = Inr () \<and>
      seat_down (nw_seat (counter_network c) cid) =
        [enc_server standard_bincode (Start (meta_tick small_meta) (meta_hash small_meta))] \<and>
      seat_reports (nw_seat (counter_network c) cid) = []"
    using small_run tr j by (auto simp: counter_network_def meta tick_counter_def)
  have stops: "list_all (\<lambda>(stop, _). \<not> stop) [(False, join_env)]" by simp
  have "network_starts standard_bincode tick_counter (\<lambda>s. s) small_meta (counter_network c)"
    by (rule barrier_starts_the_network [OF std.bincode_format_axioms counter_fingerprinted small_header_current
        counter_save(5,1-3) refl refl counter_save(4) small_begin_fits start_size w stops pub au seats])
  with j show ?thesis by blast
qed

end
