(* ===== verification/Core_Tests.thy ===== *)
theory Core_Tests
  imports Test_Simulation Derive_Wire
begin

text \<open>
  The unit tests of \<^verbatim>\<open>simulation.rs\<close> and \<^verbatim>\<open>session.rs\<close> on the model.  A test is a
  boolean definition that makes the calls of its function in order and compares what the
  function's assertions compare; the lemma under the same name says that the model passes it.
\<close>

section \<open>What the assertions use\<close>

definition is_err :: "'e + 'a \<Rightarrow> bool" where
  "is_err r \<longleftrightarrow> (case r of Inl _ \<Rightarrow> True | Inr _ \<Rightarrow> False)"

definition contains :: "string \<Rightarrow> string \<Rightarrow> bool" where
  "contains s t \<longleftrightarrow> list_ex (\<lambda>k. take (length t) (drop k s) = t) [0..<Suc (length s)]"

definition utf8 :: "string \<Rightarrow> byte list" where
  "utf8 s = map of_char s"

lemma err_simps [simp]: "is_err (Inl e)" "\<not> is_err (Inr v)"
  by (simp_all add: is_err_def)

section \<open>The driver\<close>

datatype failure = Advance | WrongTick | Publish

record lifecycle =
  lc_tick :: u64
  calls :: "string list"
  pending_effect :: bool
  lc_failure :: "failure option"

definition lifecycle_default :: lifecycle where
  "lifecycle_default = \<lparr>lc_tick = 0, calls = [], pending_effect = False, lc_failure = None\<rparr>"

text \<open>A failed \<open>assert!\<close> panics.\<close>

definition lc_advance :: "tick_advance \<Rightarrow> lifecycle \<Rightarrow> lifecycle \<times> unit session_result" where
  "lc_advance adv s =
     (if pending_effect s then (s, Inl (Worker ''previous tick was not cleaned up''))
      else
        let s = s\<lparr>calls := calls s @ [''advance''], pending_effect := True\<rparr> in
        if lc_failure s = Some Advance then (s, Inl (Simulation_Error ''advance failed''))
        else (if lc_failure s \<noteq> Some WrongTick then s\<lparr>lc_tick := tick adv\<rparr> else s, Inr ()))"

definition lc_publish :: "lifecycle \<Rightarrow> lifecycle \<times> unit session_result" where
  "lc_publish s =
     (if \<not> pending_effect s then (s, Inl (Worker ''publication ran after cleanup''))
      else
        let s = s\<lparr>calls := calls s @ [''publish'']\<rparr> in
        (s, if lc_failure s = Some Publish then Inl (Simulation_Error ''publish failed'') else Inr ()))"

definition lc_finish_tick :: "lifecycle \<Rightarrow> lifecycle" where
  "lc_finish_tick s = s\<lparr>calls := calls s @ [''finish''], pending_effect := False\<rparr>"

definition lifecycle_sim :: "lifecycle session_sim" where
  "lifecycle_sim =
     \<lparr>sim_header = (\<lambda>_. replay_header_current), sim_initialize = default_initialize,
      sim_validate_command = default_validate_command,
      sim_hash_interval = (\<lambda>_. hash_interval (tick_nanos replay_header_current)),
      sim_current_tick = lc_tick, sim_state_hash = (\<lambda>s. Inr (lc_tick s)),
      sim_advance = lc_advance, sim_publish = lc_publish, sim_finish_tick = lc_finish_tick\<rparr>"

definition empty_tick :: "u64 \<Rightarrow> tick_advance" where
  "empty_tick t = \<lparr>tick = t, inputs = []\<rparr>"

text \<open>A sequence of calls whose results the test unwraps.\<close>

fun drive :: "'s session_sim \<Rightarrow> (u64 \<times> tick_phase) list \<Rightarrow> 's \<Rightarrow> 's option" where
  "drive sim [] s = Some s"
| "drive sim ((t, phase) # rest) s =
     (case advance_tick sim (empty_tick t) phase s of
        (s, Inr _) \<Rightarrow> drive sim rest s
      | (s, Inl _) \<Rightarrow> None)"

definition driver_owns_publication_and_cleanup_order :: bool where
  "driver_owns_publication_and_cleanup_order \<longleftrightarrow>
     (case drive lifecycle_sim [(1, Replay), (2, Replay), (3, Live)] lifecycle_default of
        None \<Rightarrow> False
      | Some s \<Rightarrow>
          calls s = [''advance'', ''finish'', ''advance'', ''finish'', ''advance'', ''publish'', ''finish''] \<and>
          \<not> pending_effect s)"

definition returned_errors_cleanup_without_publishing_invalid_state :: bool where
  "returned_errors_cleanup_without_publishing_invalid_state \<longleftrightarrow>
     list_all (\<lambda>phase. list_all (\<lambda>f.
       case advance_tick lifecycle_sim (empty_tick 1) phase (lifecycle_default\<lparr>lc_failure := Some f\<rparr>) of
         (s, res) \<Rightarrow> is_err res \<and> calls s = [''advance'', ''finish''] \<and> \<not> pending_effect s)
       [Advance, WrongTick]) [Live, Replay] \<and>
     (case advance_tick lifecycle_sim (empty_tick 1) Live (lifecycle_default\<lparr>lc_failure := Some Publish\<rparr>) of
        (s, res) \<Rightarrow>
          is_err res \<and> calls s = [''advance'', ''publish'', ''finish''] \<and> lc_tick s = 1 \<and> \<not> pending_effect s \<and>
          (case advance_tick lifecycle_sim (empty_tick 3) Live (s\<lparr>calls := []\<rparr>) of
             (s, res) \<Rightarrow> is_err res \<and> calls s = []))"

record broken =
  br_tick :: u64
  called :: bool
  fail :: bool

definition br_advance :: "tick_advance \<Rightarrow> broken \<Rightarrow> broken \<times> unit session_result" where
  "br_advance adv s =
     (s\<lparr>called := True\<rparr>, if fail s then Inl (Simulation_Error ''intentional'') else Inr ())"

definition broken_sim :: "broken session_sim" where
  "broken_sim =
     \<lparr>sim_header = (\<lambda>_. replay_header_current), sim_initialize = default_initialize,
      sim_validate_command = default_validate_command,
      sim_hash_interval = (\<lambda>_. hash_interval (tick_nanos replay_header_current)),
      sim_current_tick = br_tick, sim_state_hash = (\<lambda>s. Inr (br_tick s)),
      sim_advance = br_advance, sim_publish = (\<lambda>s. (s, Inr ())), sim_finish_tick = default_finish_tick\<rparr>"

definition adapter_failure_and_tick_contract_are_checked :: bool where
  "adapter_failure_and_tick_contract_are_checked \<longleftrightarrow>
     list_all (\<lambda>phase.
       let (s, r1) = advance_tick broken_sim (empty_tick 2) phase \<lparr>br_tick = 0, called = False, fail = False\<rparr>;
           (s2, r2) = advance_tick broken_sim (empty_tick 1) phase s;
           (s3, r3) = advance_tick broken_sim (empty_tick 1) phase (s2\<lparr>fail := True\<rparr>);
           (s4, r4) = advance_tick broken_sim (empty_tick 0) phase (s3\<lparr>br_tick := 0xFFFFFFFFFFFFFFFF, called := False\<rparr>)
       in (case r1 of Inl (Protocol _) \<Rightarrow> True | _ \<Rightarrow> False) \<and> \<not> called s \<and>
          (case r2 of Inl (Simulation_Error _) \<Rightarrow> True | _ \<Rightarrow> False) \<and> called s2 \<and>
          r3 = Inl (Simulation_Error ''intentional'') \<and> is_err r4 \<and> \<not> called s4) [Live, Replay]"

lemmas driver_tests = advance_tick_def advance_checked_def validate_tick_def checked_add_def empty_tick_def
  is_err_def lifecycle_sim_def lifecycle_default_def lc_advance_def lc_publish_def lc_finish_tick_def
  broken_sim_def br_advance_def default_finish_tick_def

lemma driver_owns_publication_and_cleanup_order: driver_owns_publication_and_cleanup_order
  by (simp add: driver_owns_publication_and_cleanup_order_def driver_tests)

lemma returned_errors_cleanup_without_publishing_invalid_state:
  returned_errors_cleanup_without_publishing_invalid_state
  by (simp add: returned_errors_cleanup_without_publishing_invalid_state_def driver_tests)

lemma adapter_failure_and_tick_contract_are_checked: adapter_failure_and_tick_contract_are_checked
  by (simp add: adapter_failure_and_tick_contract_are_checked_def driver_tests)

section \<open>The worker\<close>

definition observes_completion_errors_panics_and_cancellation :: bool where
  "observes_completion_errors_panics_and_cancellation \<longleftrightarrow>
     list_all (\<lambda>mode.
       let ctl = (if mode = (0 :: nat) then cancel session_control_default else session_control_default);
           work = (if mode = 2 then Returned (Inl (Worker ''failed''))
                   else if mode = 3 then Panicked ''test panic'' else Returned (Inr ()))
       in case join (spawn work) ctl of
            None \<Rightarrow> False
          | Some (res, w, ctl) \<Rightarrow>
              if mode = 0 then status ctl = Stopped else is_failed (status ctl)) [0, 1, 2, 3]"

lemma observes_completion_errors_panics_and_cancellation: observes_completion_errors_panics_and_cancellation
  by (simp add: observes_completion_errors_panics_and_cancellation_def join_def Let_def spawn_def thread_result_def
      publish_result_def publish_status_def is_failed_def cancel_def is_cancelled_def session_control_default_def)

end
