(* ===== verification/Log_Tests.thy ===== *)
theory Log_Tests
  imports Core_Tests
begin

text \<open>
  The unit tests of \<^verbatim>\<open>protocol.rs\<close> and \<^verbatim>\<open>replay.rs\<close> on the model, with the serialization package
  instantiated by its documented standard layout (\<open>standard_bincode\<close>).  A test is a boolean
  definition; the lemma of the same name says that the model passes it.
\<close>

section \<open>Messages\<close>

abbreviation "bc \<equiv> standard_bincode"

definition rejects_trailing_bytes :: bool where
  "rejects_trailing_bytes \<longleftrightarrow>
     is_err (decode_client_message bc infallible (enc_client bc (Ready 0 1) @ [0]))"

definition fixture :: "(byte list \<Rightarrow> decode_error + 'a) \<Rightarrow> ('a \<Rightarrow> byte list) \<Rightarrow> 'a \<Rightarrow> byte list \<Rightarrow> bool" where
  "fixture rd enc v bytes \<longleftrightarrow>
     enc v = bytes \<and>
     (case rd bytes of Inr v \<Rightarrow> enc v = bytes | Inl _ \<Rightarrow> False) \<and>
     list_all (\<lambda>n. is_err (rd (take n bytes))) [0..<length bytes] \<and>
     is_err (rd (bytes @ [0]))"

definition two_inputs :: tick_advance where
  "two_inputs = \<lparr>tick = 1, inputs = replicate 2 \<lparr>participant = Host, payload = [0]\<rparr>\<rparr>"

definition framework_protocol_fixtures :: bool where
  "framework_protocol_fixtures \<longleftrightarrow>
     fixture (decode_client_message bc infallible) (enc_client bc) (Input [0]) [0, 1, 0] \<and>
     fixture (decode_client_message bc infallible) (enc_client bc) (Progress 251 1) [1, 251, 251, 0, 1] \<and>
     fixture (decode_client_message bc infallible) (enc_client bc) (Ready 1 2) [2, 1, 2] \<and>
     fixture (decode_server_message bc infallible) (enc_server bc) (Start 1 2) [0, 1, 2] \<and>
     fixture (decode_server_message bc infallible) (enc_server bc) (Tick two_inputs) [1, 1, 2, 0, 1, 0, 0, 1, 0] \<and>
     fixture (decode_save_message bc infallible) (enc_save bc)
       (Begin \<lparr>total_bytes = 3, meta_tick = 1, meta_hash = 2\<rparr>) [0, 3, 1, 2] \<and>
     fixture (decode_save_message bc infallible) (enc_save bc) (Chunk [10, 20]) [1, 2, 10, 20] \<and>
     fixture (decode_desync_hash bc infallible) (enc_desync bc) \<lparr>report_tick = 1, report_hash = 2\<rparr> [1, 2] \<and>
     fixture (decode_tick_advance bc infallible) (enc_tick bc) two_inputs [1, 2, 0, 1, 0, 0, 1, 0]"

text \<open>The closure of the test panics in the second pass: the first pass has to fail.\<close>

definition malformed_collections_never_reach_materialization :: bool where
  "malformed_collections_never_reach_materialization \<longleftrightarrow>
     list_all (\<lambda>bytes.
         is_err (one_pass (read_tick bc) \<lparr>unread = bytes, materialize = False, reserves = infallible\<rparr>) \<and>
         is_err (validated infallible (read_tick bc) bytes))
       [1 # enc_u64 bc 0xFFFFFFFFFFFFFFFF, [1, 2, 0], [1, 1, 99], [1, 0, 0]] \<and>
     list_all (\<lambda>bytes. is_err (decode_save_message bc infallible bytes))
       [[1, 2, 0], [1, 0], [1, 1, 0, 0], [2], [255]] \<and>
     is_err (decode_client_message bc infallible [3]) \<and>
     is_err (decode_client_message bc infallible [0, 1]) \<and>
     is_err (decode_server_message bc infallible [2]) \<and>
     is_err (decode_save_message bc infallible (enc_save bc (Chunk (replicate (max_save_chunk_bytes + 1) 0)))) \<and>
     \<not> is_err (decode_save_message bc infallible (enc_save bc (Chunk (replicate max_save_chunk_bytes 0))))"

text \<open>The layout, field by field, and the readers.\<close>

lemma std_selectors:
  "dec_u32 bc = std_dec_u32" "dec_u64 bc = std_dec_u64" "dec_participant bc = std_dec_participant"
  "enc_u32 bc = std_enc_u32" "enc_u64 bc = std_enc_u64" "enc_participant bc = std_enc_participant"
  "enc_tick bc = std_enc_tick"
  by (simp_all add: standard_bincode_def)

lemma read_inputs_numeral:
  "read_inputs c (numeral k) r =
     and_then (scalar (dec_participant c) r) (\<lambda>(p, r).
     and_then (read_payload c r) (\<lambda>(bytes, r).
     and_then (read_inputs c (pred_numeral k) r) (\<lambda>(rest, r).
     Inr (if materialize r then \<lparr>participant = p, payload = bytes\<rparr> # rest else rest, r))))"
  by (simp add: numeral_eq_Suc)

lemmas enc_test = std.client_layout std.server_layout std.save_layout std.desync_layout std_selectors
  enc_bytes_def std_enc_u32_def std_enc_u64_def std_enc_tick_def std_enc_bytes_def varint_def to_le_bytes_def

lemmas read_test = decode_client_message_def decode_server_message_def decode_save_message_def
  decode_desync_hash_def decode_tick_advance_def validated_def one_pass_def read_client_def read_server_def
  read_save_def read_tick_def read_pair_def read_payload_def read_length_def scalar_def std_dec_u32_def
  std_dec_u64_def std_dec_participant_def fixed_tail_def read_inputs_numeral max_payload_bytes_def
  max_save_chunk_bytes_def max_replay_record_bytes_def infallible_def

lemma rejects_trailing_bytes: rejects_trailing_bytes
  by (simp add: rejects_trailing_bytes_def enc_test read_test)

lemma two_inputs: "two_inputs = \<lparr>tick = 1, inputs = [\<lparr>participant = Host, payload = [0]\<rparr>, \<lparr>participant = Host, payload = [0]\<rparr>]\<rparr>"
  by (simp add: two_inputs_def numeral_eq_Suc)

lemma le_251: "le_of_nat 2 251 = [251, 0]"
  by (simp add: numeral_2_eq_2)

lemma client_fixtures:
  "fixture (decode_client_message bc infallible) (enc_client bc) (Input [0]) [0, 1, 0]"
  "fixture (decode_client_message bc infallible) (enc_client bc) (Progress 251 1) [1, 251, 251, 0, 1]"
  "fixture (decode_client_message bc infallible) (enc_client bc) (Ready 1 2) [2, 1, 2]"
  by (simp_all add: fixture_def enc_test read_test le_251)

lemma server_fixtures:
  "fixture (decode_server_message bc infallible) (enc_server bc) (Start 1 2) [0, 1, 2]"
  "fixture (decode_server_message bc infallible) (enc_server bc) (Tick two_inputs) [1, 1, 2, 0, 1, 0, 0, 1, 0]"
  by (simp_all add: fixture_def enc_test read_test two_inputs)

lemma save_fixtures:
  "fixture (decode_save_message bc infallible) (enc_save bc)
     (Begin \<lparr>total_bytes = 3, meta_tick = 1, meta_hash = 2\<rparr>) [0, 3, 1, 2]"
  "fixture (decode_save_message bc infallible) (enc_save bc) (Chunk [10, 20]) [1, 2, 10, 20]"
  by (simp_all add: fixture_def enc_test read_test)

lemma record_fixtures:
  "fixture (decode_desync_hash bc infallible) (enc_desync bc) \<lparr>report_tick = 1, report_hash = 2\<rparr> [1, 2]"
  "fixture (decode_tick_advance bc infallible) (enc_tick bc) two_inputs [1, 2, 0, 1, 0, 0, 1, 0]"
  by (simp_all add: fixture_def enc_test read_test two_inputs)

lemma framework_protocol_fixtures: framework_protocol_fixtures
  unfolding framework_protocol_fixtures_def
  by (intro conjI client_fixtures server_fixtures save_fixtures record_fixtures)

lemma chunk_sizes:
  assumes "length bs < 2 ^ 64"
  shows "is_err (decode_save_message bc infallible (enc_save bc (Chunk bs))) \<longleftrightarrow>
    bs = [] \<or> length bs > max_save_chunk_bytes"
proof (cases "bs = [] \<or> length bs > max_save_chunk_bytes")
  case True
  have "read_length bc c = Inr (length bs, c\<lparr>unread := bs\<rparr>)" if "unread c = enc_bytes bc bs" for c
    using assms that by (intro std.read_length_enc) (auto simp: enc_bytes_def)
  with True show ?thesis
    by (auto simp: decode_save_message_def validated_def one_pass_def read_save_def std.save_layout)
next
  case False
  then show ?thesis using std.decode_encode_save [of "Chunk bs"] by simp
qed

lemma malformed_collections_never_reach_materialization: malformed_collections_never_reach_materialization
  unfolding malformed_collections_never_reach_materialization_def
proof (intro conjI)
  show "is_err (decode_save_message bc infallible (enc_save bc (Chunk (replicate (max_save_chunk_bytes + 1) 0))))"
    "\<not> is_err (decode_save_message bc infallible (enc_save bc (Chunk (replicate max_save_chunk_bytes 0))))"
    by (simp_all add: chunk_sizes max_save_chunk_bytes_def)
qed (simp_all add: enc_test read_test nat_of_le_of_nat)

section \<open>The log\<close>

text \<open>A file system without faults, and \<open>io::Cursor\<close>: one \<^verbatim>\<open>fill_buf\<close> exposes all that is left.\<close>

definition sound_file :: replay_writer where
  "sound_file = \<lparr>written = [], flushed = 0, write_fault = (\<lambda>_ _. None), flush_fault = (\<lambda>_. None)\<rparr>"

definition cursor_source :: "byte list \<Rightarrow> source" where
  "cursor_source bs = \<lparr>held = bs, window = (\<lambda>n. n), read_fault = (\<lambda>_. None)\<rparr>"

definition open_bytes :: "byte list \<Rightarrow> io_error + replay_reader" where
  "open_bytes bs = from_reader bc infallible (cursor_source bs)"

definition empty_record :: tick_advance where
  "empty_record = \<lparr>tick = 1, inputs = []\<rparr>"

definition double_record :: tick_advance where
  "double_record = \<lparr>tick = 2, inputs = [\<lparr>participant = Host, payload = [0]\<rparr>, \<lparr>participant = Host, payload = [0]\<rparr>]\<rparr>"

definition written_log :: "io_error + byte list" where
  "written_log =
     and_then (create bc (\<lambda>_. None) sound_file ''record.save'' replay_header_current) (\<lambda>w.
     case append_record bc empty_record w of
       (_, Inl e) \<Rightarrow> Inl e
     | (w, Inr _) \<Rightarrow>
         (case append_record bc double_record w of
            (_, Inl e) \<Rightarrow> Inl e
          | (w, Inr _) \<Rightarrow>
              (case flush w of
                 (_, Inl e) \<Rightarrow> Inl e
               | (w, Inr _) \<Rightarrow> Inr (take (flushed w) (written w)))))"

definition round_trips_header_and_records :: bool where
  "round_trips_header_and_records \<longleftrightarrow>
     (case and_then written_log (\<lambda>bs.
           and_then (open_log bc infallible [''record.save'' \<mapsto> bs] (cursor_source []) ''record.save'') (\<lambda>rd.
           and_then (next_record bc infallible (inner rd)) (\<lambda>(r1, src).
           and_then (next_record bc infallible src) (\<lambda>(r2, src).
           and_then (next_record bc infallible src) (\<lambda>(r3, src). Inr (header rd, r1, r2, r3)))))) of
        Inr (h, Some r1, Some r2, None) \<Rightarrow>
          protocol_id h = protocol_id_const \<and> format_version h = format_version_const \<and> initialization h = [0] \<and>
          tick r1 = 1 \<and> inputs r1 = [] \<and> tick r2 = 2 \<and>
          inputs r2 = [\<lparr>participant = Host, payload = [0]\<rparr>, \<lparr>participant = Host, payload = [0]\<rparr>]
      | _ \<Rightarrow> False)"

definition rejected_header :: "replay_header \<Rightarrow> string \<Rightarrow> bool" where
  "rejected_header h expected \<longleftrightarrow>
     (case open_log bc infallible [''bad.save'' \<mapsto> enc_header bc h] (cursor_source []) ''bad.save'' of
        Inl (IoError InvalidData message) \<Rightarrow> contains message expected
      | _ \<Rightarrow> False)"

definition rejects_wrong_magic :: bool where
  "rejects_wrong_magic \<longleftrightarrow>
     rejected_header (replay_header_current\<lparr>magic := [0x58, 0x58, 0x58, 0x58]\<rparr>) ''magic''"

definition rejects_wrong_protocol_id :: bool where
  "rejects_wrong_protocol_id \<longleftrightarrow>
     rejected_header (replay_header_current\<lparr>protocol_id := 0xDEADBEEF\<rparr>) ''PROTOCOL_ID''"

text \<open>The hard link is a second name for the file; links by name are not modelled.\<close>

definition recording_never_overwrites_existing_files_or_aliases :: bool where
  "recording_never_overwrites_existing_files_or_aliases \<longleftrightarrow>
     (let file = utf8 ''precious source'' in
      list_all (\<lambda>path.
        case create bc [''source.save'' \<mapsto> file, ''hard.save'' \<mapsto> file] sound_file path replay_header_current of
          Inl (IoError AlreadyExists _) \<Rightarrow> True
        | _ \<Rightarrow> False) [''source.save'', ''hard.save''])"

definition ticks_upto :: "nat \<Rightarrow> tick_advance list" where
  "ticks_upto n = map (\<lambda>k. \<lparr>tick = of_nat k, inputs = []\<rparr>) [1..<Suc n]"

text \<open>Whatever the clock allows the first batch, short of nothing.\<close>

definition replay_batches_yield_cancel_and_reject_tick_gaps :: "observation list \<Rightarrow> bool" where
  "replay_batches_yield_cancel_and_reject_tick_gaps clock \<longleftrightarrow>
     (case open_bytes (enc_header bc replay_header_current @ log_bytes bc (ticks_upto 300)) of
        Inl _ \<Rightarrow> False
      | Inr rd \<Rightarrow>
          (case replay_batch bc infallible test_sim (Go # clock)
              \<lparr>run_state = test_simulation_default, run_source = inner rd, run_mirror = None\<rparr> of
             (_, Inl _) \<Rightarrow> False
           | (r, Inr first) \<Rightarrow>
               \<not> finished first \<and> 1 \<le> records first \<and> records first \<le> 128 \<and>
               (case replay_batch bc infallible test_sim (Cancel_Seen # clock) r of
                  (_, Inl _) \<Rightarrow> False
                | (r, Inr stopped) \<Rightarrow>
                    records stopped = 0 \<and> ts_tick (run_state r) = records first \<and>
                    (case replay_batch bc infallible test_sim (Go # clock)
                        (r\<lparr>run_state := (run_state r)\<lparr>ts_tick := ts_tick (run_state r) + 1\<rparr>\<rparr>) of
                       (_, Inl (Io (IoError InvalidData _))) \<Rightarrow> True
                     | _ \<Rightarrow> False))))"

definition malformed_record_lengths_and_truncation_are_errors :: bool where
  "malformed_record_lengths_and_truncation_are_errors \<longleftrightarrow>
     list_all (\<lambda>len :: u32.
       case open_bytes (enc_header bc replay_header_current @ to_le_bytes len) of
         Inl _ \<Rightarrow> False
       | Inr rd \<Rightarrow> is_err (next_record bc infallible (inner rd))) [0xFFFFFFFF, 1]"

definition rejects_legacy_and_truncated_headers :: bool where
  "rejects_legacy_and_truncated_headers \<longleftrightarrow>
     is_err (open_bytes [0x50, 0x4C, 0x4E, 0x54, 0xFD, 5, 0, 0x54, 0x45, 0x4E, 0x41, 0x4C, 0x50, 1, 0]) \<and>
     list_all (\<lambda>n. is_err (open_bytes (take n (enc_header bc replay_header_current))))
       [0..<length (enc_header bc replay_header_current)] \<and>
     is_err (open_bytes (enc_header bc (replay_header_current\<lparr>tick_nanos := 0\<rparr>)))"

lemma test_header: "header_current replay_header_current"
  by (simp add: replay_header_current_def replay_header_new_def header_current_def validate_tick_duration_def
      max_payload_bytes_def)

lemma cursor_source_simps [simp]:
  "faultless (cursor_source bs)" "held (cursor_source bs) = bs" "(cursor_source bs)\<lparr>held := cs\<rparr> = cursor_source cs"
  by (simp_all add: cursor_source_def faultless_def)

lemma reliable_sound [simp]: "reliable (sound_file\<lparr>flushed := n\<rparr>)"
  by (simp add: reliable_def sound_file_def)

lemma open_bytes_enc:
  "open_bytes (enc_header bc replay_header_current @ rest) =
     Inr \<lparr>inner = cursor_source rest, header = replay_header_current\<rparr>"
  using std.from_reader_enc [of "cursor_source _" replay_header_current rest] test_header
  by (simp add: open_bytes_def)

lemma records_fit:
  "recordable bc empty_record" "recordable bc double_record" "recordable bc \<lparr>tick = t, inputs = []\<rparr>"
  by (simp_all add: recordable_def carries_def empty_record_def double_record_def enc_test
      max_replay_record_bytes_def max_payload_bytes_def length_le_of_nat)

lemma round_trips_header_and_records: round_trips_header_and_records
proof -
  have log: "written_log = Inr (enc_header bc replay_header_current @ record_bytes bc empty_record @ record_bytes bc double_record)"
    using records_fit
    by (simp add: written_log_def create_def write_all_reliable append_record_reliable flush_def reliable_def sound_file_def)
  have "tick empty_record = 1" "inputs empty_record = []" "tick double_record = 2"
    "inputs double_record = [\<lparr>participant = Host, payload = [0]\<rparr>, \<lparr>participant = Host, payload = [0]\<rparr>]"
    by (simp_all add: empty_record_def double_record_def)
  moreover have "protocol_id replay_header_current = protocol_id_const" "initialization replay_header_current = [0]"
    "format_version replay_header_current = format_version_const"
    by (simp_all add: replay_header_current_def replay_header_new_def)
  ultimately show ?thesis
    using records_fit open_bytes_enc [of "record_bytes bc empty_record @ record_bytes bc double_record"]
      std.next_record_enc [of "cursor_source (record_bytes bc empty_record @ record_bytes bc double_record)"
        empty_record "record_bytes bc double_record"]
      std.next_record_enc [of "cursor_source (record_bytes bc double_record)" double_record "[]"]
    unfolding round_trips_header_and_records_def log
    by (simp add: open_log_def open_bytes_def next_record_end)
qed

lemma rejects_wrong_magic: rejects_wrong_magic
proof -
  let ?h = "replay_header_current\<lparr>magic := [0x58, 0x58, 0x58, 0x58]\<rparr>"
  have "read_scalar (dec_array bc 4) (cursor_source (enc_header bc ?h)) =
      Inr ([0x58, 0x58, 0x58, 0x58], cursor_source (drop 4 (enc_header bc ?h)))"
    by (subst std.read_scalar_array [of _ "[0x58, 0x58, 0x58, 0x58]" "drop 4 (enc_header bc ?h)"])
      (simp_all add: std.header_layout)
  moreover have "contains ''unsupported save magic'' ''magic''" by code_simp
  ultimately show ?thesis
    by (simp add: rejects_wrong_magic_def rejected_header_def open_log_def from_reader_def read_header_def magic_const_def)
qed

lemma rejects_wrong_protocol_id: rejects_wrong_protocol_id
proof -
  let ?h = "replay_header_current\<lparr>protocol_id := 0xDEADBEEF\<rparr>"
  have "contains ''replay log PROTOCOL_ID mismatch'' ''PROTOCOL_ID''" by code_simp
  moreover have "read_header bc infallible (cursor_source (enc_header bc ?h)) =
      Inl (IoError InvalidData ''replay log PROTOCOL_ID mismatch'')"
    by (subst std.read_header_fields [of _ ?h "[]"])
      (simp_all add: replay_header_current_def replay_header_new_def protocol_id_const_def max_payload_bytes_def)
  ultimately show ?thesis
    by (simp add: rejects_wrong_protocol_id_def rejected_header_def open_log_def from_reader_def)
qed

lemma recording_never_overwrites_existing_files_or_aliases: recording_never_overwrites_existing_files_or_aliases
  by (simp add: recording_never_overwrites_existing_files_or_aliases_def create_def)

lemma malformed_record_lengths_and_truncation_are_errors: malformed_record_lengths_and_truncation_are_errors
proof -
  have "is_err (next_record bc infallible (cursor_source (to_le_bytes n)))"
    if "unat n > 0" for n :: u32
  proof -
    have "read_exact 4 (cursor_source (to_le_bytes n)) = Inr (to_le_bytes n, cursor_source [])"
      by (subst read_exact_enough) (simp_all add: consume_def)
    moreover have "collect eof oom infallible (unat n) (cursor_source []) = Inl eof" for eof oom
      using that by (intro collect_short) simp_all
    moreover have "to_le_bytes n \<noteq> []" using length_to_le_bytes [of n] by force
    ultimately show ?thesis
      by (simp add: next_record_def fill_buf_faultless from_to_le_bytes Let_def)
  qed
  then show ?thesis
    by (simp add: malformed_record_lengths_and_truncation_are_errors_def open_bytes_enc)
qed

lemma test_step:
  assumes "ts_tick s = of_nat n" "Suc n < 2 ^ 64"
  shows "advance_tick test_sim \<lparr>tick = of_nat (Suc n), inputs = is\<rparr> Replay s =
    (s\<lparr>ts_tick := of_nat (Suc n), ts_commands := ts_commands s + of_nat (length is)\<rparr>, Inr ())"
proof -
  have "n < 2 ^ 64" using assms(2) by linarith
  then have "unat (of_nat n :: u64) = n" by (simp add: unat_of_nat)
  then show ?thesis
    using assms
    by (simp add: advance_tick_def validate_tick_def checked_add_def advance_checked_def test_sim_def ts_advance_def
        default_finish_tick_def)
qed

lemma ticks_advance:
  "advance_all test_sim Replay (map (\<lambda>k. \<lparr>tick = of_nat k, inputs = []\<rparr>) [Suc m..<Suc (m + n)]) s =
     (s\<lparr>ts_tick := of_nat (m + n)\<rparr>, Inr ())"
  if "ts_tick s = of_nat m" "m + n < 2 ^ 64"
  using that
proof (induction n arbitrary: m s)
  case (Suc n)
  have "advance_tick test_sim \<lparr>tick = of_nat (Suc m), inputs = []\<rparr> Replay s =
      (s\<lparr>ts_tick := of_nat (Suc m)\<rparr>, Inr ())"
    using test_step [of s m "[]"] Suc.prems by simp
  moreover have "[Suc m..<Suc (m + Suc n)] = Suc m # [Suc (Suc m)..<Suc (Suc m + n)]"
    by (simp add: upt_rec)
  ultimately show ?case
    using Suc.IH [of "s\<lparr>ts_tick := of_nat (Suc m)\<rparr>" "Suc m"] Suc.prems by simp
qed simp

lemma ticks_upto_run:
  assumes "n < 2 ^ 64"
  shows "advance_all test_sim Replay (ticks_upto n) test_simulation_default =
    (test_simulation_default\<lparr>ts_tick := of_nat n\<rparr>, Inr ())"
  using ticks_advance [of test_simulation_default 0 n] assms
  by (simp add: ticks_upto_def test_simulation_default_def)

lemma length_ticks_upto [simp]: "length (ticks_upto n) = n"
  by (simp add: ticks_upto_def)

lemma ticks_upto_split:
  "m \<le> n \<Longrightarrow> take m (ticks_upto n) = ticks_upto m"
  "m < n \<Longrightarrow> drop m (ticks_upto n) = \<lparr>tick = of_nat (Suc m), inputs = []\<rparr> # drop (Suc m) (ticks_upto n)"
proof -
  show "take m (ticks_upto n) = ticks_upto m" if "m \<le> n"
    using that by (simp add: ticks_upto_def take_map take_upt del: upt_Suc)
  have d: "drop k (ticks_upto n) = map (\<lambda>k. \<lparr>tick = of_nat k, inputs = []\<rparr>) [Suc k..<Suc n]" for k
    by (simp add: ticks_upto_def drop_map drop_upt del: upt_Suc)
  show "drop m (ticks_upto n) = \<lparr>tick = of_nat (Suc m), inputs = []\<rparr> # drop (Suc m) (ticks_upto n)" if "m < n"
    using that unfolding d by (subst upt_conv_Cons) (simp_all del: upt_Suc)
qed

lemma replay_batch_cancelled:
  "replay_batch c al sim (Cancel_Seen # os) r = (r, Inr \<lparr>records = 0, finished = False\<rparr>)"
  by (simp add: replay_batch_def batch_loop_stops)

lemma replay_batch_gap:
  assumes "next_record c al (run_source r) = Inr (Some adv, src)"
    and "validate_tick sim (run_state r) (tick adv) = Inl e"
  shows "replay_batch c al sim (Go # os) r = (r\<lparr>run_source := src\<rparr>, Inl (Io (IoError InvalidData ''protocol: tick gap'')))"
  using batch_loop.simps(1) [of c al sim 127 os 0 r] assms replay_step_rejects [of sim "r\<lparr>run_source := src\<rparr>"]
  by (simp add: replay_batch_def)

lemma replay_batches_yield_cancel_and_reject_tick_gaps: "replay_batches_yield_cancel_and_reject_tick_gaps clock"
proof -
  let ?advs = "ticks_upto 300" and ?s = test_simulation_default
  let ?r = "\<lparr>run_state = ?s, run_source = cursor_source (log_bytes bc ?advs), run_mirror = None\<rparr>"
  define m where "m = batch_room 128 (Go # clock)"
  have m: "1 \<le> m" "m \<le> 128" by (auto simp: m_def batch_room_def)
  let ?r1 = "after_records bc test_sim (ticks_upto m) (log_bytes bc (drop m ?advs)) ?r"
  have fit: "list_all (recordable bc) ?advs" using records_fit(3) by (simp add: ticks_upto_def list_all_iff)
  have first: "replay_batch bc infallible test_sim (Go # clock) ?r =
      (?r1, Inr \<lparr>records = of_nat m, finished = False\<rparr>)"
  proof -
    have "batch_loop bc infallible test_sim 128 (Go # clock) 0 ?r =
        (let m = batch_room 128 (Go # clock) in
         (after_records bc test_sim (take m ?advs) (log_bytes bc (drop m ?advs)) ?r,
          Inr \<lparr>records = 0 + of_nat (length (take m ?advs)), finished = length ?advs < m\<rparr>))"
    proof (rule std.batch_loop_plays)
      show "advance_all test_sim Replay ?advs (run_state ?r) = (?s\<lparr>ts_tick := of_nat 300\<rparr>, Inr ())"
        using ticks_upto_run [of 300] by simp
    qed (simp_all add: fit mirror_ok_def)
    moreover have "take m ?advs = ticks_upto m" "\<not> length ?advs < m"
      using m by (simp_all add: ticks_upto_split)
    ultimately show ?thesis
      by (simp only: replay_batch_def Let_def m_def [symmetric] length_ticks_upto add_0)
  qed
  have s1: "run_state ?r1 = ?s\<lparr>ts_tick := of_nat m\<rparr>"
    using m ticks_upto_run [of m] by (simp add: after_records_def)
  let ?r2 = "?r1\<lparr>run_state := (run_state ?r1)\<lparr>ts_tick := ts_tick (run_state ?r1) + 1\<rparr>\<rparr>"
  have "next_record bc infallible (run_source ?r2) =
      Inr (Some \<lparr>tick = of_nat (Suc m), inputs = []\<rparr>, cursor_source (log_bytes bc (drop (Suc m) ?advs)))"
    using std.next_record_enc [of "cursor_source (log_bytes bc (drop m ?advs))" "\<lparr>tick = of_nat (Suc m), inputs = []\<rparr>"]
      records_fit(3) m ticks_upto_split(2) [of m 300]
    by (simp add: after_records_def)
  moreover have "\<exists>e. validate_tick test_sim (run_state ?r2) (of_nat (Suc m)) = Inl e"
  proof (cases "validate_tick test_sim (run_state ?r2) (of_nat (Suc m))")
    case (Inr u)
    have "ts_tick (run_state ?r2) = of_nat (Suc m)" by (simp add: s1 add.commute)
    moreover have "sim_current_tick test_sim (run_state ?r2) = ts_tick (run_state ?r2)" by (simp add: test_sim_def)
    ultimately show ?thesis using Inr by (simp add: validate_tick_Inr del: of_nat_Suc)
  qed simp
  ultimately have gap: "\<exists>r e. replay_batch bc infallible test_sim (Go # clock) ?r2 = (r, Inl (Io (IoError InvalidData e)))"
    by (metis replay_batch_gap tick_advance.select_convs(1))
  have "1 \<le> (of_nat m :: u64)" "(of_nat m :: u64) \<le> 128"
    using m by (simp_all add: word_le_nat_alt unat_of_nat)
  then show ?thesis
    using gap
    by (auto simp: replay_batches_yield_cancel_and_reject_tick_gaps_def open_bytes_enc first s1 replay_batch_cancelled)
qed

section \<open>Truncated headers\<close>

text \<open>A decoder that succeeds does so whatever follows; then a reader that succeeds on a prefix
  succeeds, with the same header, on the whole.\<close>

definition extends :: "(byte list \<Rightarrow> ('a \<times> nat) option) \<Rightarrow> bool" where
  "extends dec \<longleftrightarrow> (\<forall>bs v k ext. dec bs = Some (v, k) \<longrightarrow> k \<le> length bs \<and> dec (bs @ ext) = Some (v, k))"

definition followed_by :: "byte list \<Rightarrow> source \<Rightarrow> source" where
  "followed_by ext s = s\<lparr>held := held s @ ext\<rparr>"

lemma followed_by_simps [simp]: "faultless (followed_by ext s) = faultless s" "held (followed_by ext s) = held s @ ext"
  by (simp_all add: followed_by_def)

lemma consume_followed_by: "k \<le> length (held s) \<Longrightarrow> consume k (followed_by ext s) = followed_by ext (consume k s)"
  by (simp add: consume_def followed_by_def)

lemma fixed_tail_extends: "fixed_tail k bs = Some (n, j) \<Longrightarrow> j \<le> Suc (length bs) \<and> fixed_tail k (bs @ ext) = Some (n, j)"
  by (auto simp: fixed_tail_def split: if_splits)

lemma unvarint_extends: "extends unvarint"
  unfolding extends_def
proof (intro allI impI)
  fix bs v k ext assume "unvarint bs = Some (v, k)"
  then show "k \<le> length bs \<and> unvarint (bs @ ext) = Some (v, k)"
    using fixed_tail_extends by (cases bs) (auto split: if_splits)
qed

lemma std_extends: "extends (dec_u32 bc)" "extends (dec_u64 bc)" "extends (dec_array bc n)"
  using unvarint_extends
  by (auto simp: extends_def standard_bincode_def std_dec_u32_def std_dec_u64_def split: option.splits if_splits) 

lemma read_scalar_extends:
  assumes "extends dec" "faultless s" "read_scalar dec s = Inr (v, s')"
  shows "faultless s'" "read_scalar dec (followed_by ext s) = Inr (v, followed_by ext s')"
proof -
  obtain k where k: "dec (held s) = Some (v, k)"
    using assms(3) by (auto simp: read_scalar_def res_simps split: option.splits)
  then have d: "k \<le> length (held s)" "dec (held s @ ext) = Some (v, k)" using assms(1) by (auto simp: extends_def)
  then have "s' = consume k s"
    using assms(2,3) k by (simp add: read_scalar_def read_exact_enough)
  then show "faultless s'" "read_scalar dec (followed_by ext s) = Inr (v, followed_by ext s')"
    using assms(2) d by (simp_all add: read_scalar_def read_exact_enough consume_followed_by)
qed

lemma read_blocks_short:
  "faultless s \<Longrightarrow> al = infallible \<Longrightarrow> length (held s) < n \<Longrightarrow> \<exists>e. read_blocks al n s = Inl e"
proof (induction al n s rule: read_blocks.induct)
  case (1 al n s)
  then show ?case
  proof (cases "min 4096 n \<le> length (held s)")
    case True
    then have r: "read_exact (min 4096 n) s = Inr (take (min 4096 n) (held s), consume (min 4096 n) s)"
      using 1(2) by (simp add: read_exact_enough)
    have "\<exists>e. read_blocks al (n - min 4096 n) (consume (min 4096 n) s) = Inl e"
      using 1(2-4) True r by (intro 1(1)) (auto simp: infallible_True)
    then show ?thesis using r 1(3,4) by (subst read_blocks.simps) (auto simp: Let_def infallible_True)
  next
    case False
    then have short: "length (held s) < min 4096 n" by (simp only: not_le)
    have "\<exists>e. read_exact (min 4096 n) s = Inl e"
      using collect_short [OF 1(2) refl short] by (intro exI) (simp only: read_exact_def infallible_def [abs_def])
    then show ?thesis using 1(4) by (subst read_blocks.simps) (auto simp: Let_def)
  qed
qed

lemma read_blocks_extends:
  assumes "faultless s" "read_blocks infallible n s = Inr (bs, s')"
  shows "faultless s'" "read_blocks infallible n (followed_by ext s) = Inr (bs, followed_by ext s')"
proof -
  have n: "n \<le> length (held s)" using read_blocks_short [OF assms(1) refl, of n] assms(2) by fastforce
  then have "s' = consume n s" "bs = take n (held s)" using assms by (simp_all add: read_blocks_enough)
  then show "faultless s'" "read_blocks infallible n (followed_by ext s) = Inr (bs, followed_by ext s')"
    using assms(1) n by (simp_all add: read_blocks_enough consume_followed_by)
qed

lemma read_header_extends:
  assumes "faultless s" "read_header bc infallible s = Inr (h, s')"
  shows "read_header bc infallible (followed_by ext s) = Inr (h, followed_by ext s')"
proof -
  obtain s1 pid s2 fv s3 gid s4 gv s5 nanos s6 len s7 init where
    r: "read_scalar (dec_array bc 4) s = Inr (magic_const, s1)" "read_scalar (dec_u64 bc) s1 = Inr (pid, s2)"
      "read_scalar (dec_u32 bc) s2 = Inr (fv, s3)" "read_scalar (dec_array bc 16) s3 = Inr (gid, s4)"
      "read_scalar (dec_u32 bc) s4 = Inr (gv, s5)" "read_scalar (dec_u64 bc) s5 = Inr (nanos, s6)"
      "read_scalar (dec_u64 bc) s6 = Inr (len, s7)" "unat len \<le> max_payload_bytes"
      "read_blocks infallible (unat len) s7 = Inr (init, s')"
    and h: "h = \<lparr>magic = magic_const, protocol_id = pid, format_version = fv, game_id = gid, game_version = gv,
      tick_nanos = nanos, initialization = init\<rparr>"
    and v: "pid = protocol_id_const" "fv = format_version_const" "validate_tick_duration (unat nanos) = Inr ()"
    using assms(2) by (auto simp: read_header_def res_simps Let_def split: if_splits)
  note f = assms(1)
  note 1 = read_scalar_extends [OF std_extends(3) f r(1)]
  note 2 = read_scalar_extends [OF std_extends(2) 1(1) r(2)]
  note 3 = read_scalar_extends [OF std_extends(1) 2(1) r(3)]
  note 4 = read_scalar_extends [OF std_extends(3) 3(1) r(4)]
  note 5 = read_scalar_extends [OF std_extends(1) 4(1) r(5)]
  note 6 = read_scalar_extends [OF std_extends(2) 5(1) r(6)]
  note 7 = read_scalar_extends [OF std_extends(2) 6(1) r(7)]
  show ?thesis
    using r(8) h v
    by (simp add: read_header_def Let_def 1(2) 2(2) 3(2) 4(2) 5(2) 6(2) 7(2) read_blocks_extends(2) [OF 7(1) r(9)])
qed

lemma truncated_header:
  assumes "header_current h" "n < length (enc_header bc h)"
  shows "is_err (open_bytes (take n (enc_header bc h)))"
proof (cases "read_header bc infallible (cursor_source (take n (enc_header bc h)))")
  case (Inr r)
  let ?s = "cursor_source (take n (enc_header bc h))" and ?ext = "drop n (enc_header bc h)"
  obtain h' s' where r: "r = (h', s')" by (cases r)
  have "read_header bc infallible (followed_by ?ext ?s) = Inr (h', followed_by ?ext s')"
    using Inr unfolding r by (rule read_header_extends [rotated]) simp
  moreover have "read_header bc infallible (followed_by ?ext ?s) = Inr (h, (followed_by ?ext ?s)\<lparr>held := []\<rparr>)"
    by (rule std.read_header_enc) (simp_all add: assms(1))
  ultimately have "followed_by ?ext s' = (followed_by ?ext ?s)\<lparr>held := []\<rparr>" by (metis sum.inject(2) prod.inject)
  then have "held (followed_by ?ext s') = []" by simp
  then show ?thesis using assms(2) by simp
qed (simp add: open_bytes_def from_reader_def)

lemma rejects_legacy_and_truncated_headers: rejects_legacy_and_truncated_headers
  unfolding rejects_legacy_and_truncated_headers_def
proof (intro conjI)
  let ?h = "replay_header_current\<lparr>tick_nanos := 0\<rparr>"
  have "read_header bc infallible (cursor_source (enc_header bc ?h)) = Inl (IoError InvalidData ''tick duration'')"
    by (subst std.read_header_fields [of _ ?h "[]"])
      (simp_all add: replay_header_current_def replay_header_new_def max_payload_bytes_def validate_tick_duration_def)
  then show "is_err (open_bytes (enc_header bc ?h))" by (simp add: open_bytes_def from_reader_def)
  show "is_err (open_bytes [0x50, 0x4C, 0x4E, 0x54, 0xFD, 5, 0, 0x54, 0x45, 0x4E, 0x41, 0x4C, 0x50, 1, 0])"
    using read_exact_enough [of "cursor_source [0x50, 0x4C, 0x4E, 0x54, 0xFD, 5, 0, 0x54, 0x45, 0x4E, 0x41, 0x4C, 0x50, 1, 0]" 4]
    by (simp add: open_bytes_def from_reader_def read_header_def read_scalar_def standard_bincode_def magic_const_def)
qed (simp add: list_all_iff truncated_header test_header)

end
