(* ===== verification/Startup_Tests.thy ===== *)
theory Startup_Tests
  imports Startup Log_Tests
begin

text \<open>
  The unit tests of \<^verbatim>\<open>startup.rs\<close> on the model.  The transport of the first test is one that
  takes every message; the two tests that move megabytes through the third-party transport are
  left out.
\<close>

section \<open>The sender\<close>

definition roomy_link :: link where
  "roomy_link = \<lparr>available_memory = (\<lambda>_. channel_save_max_mem), can_send = (\<lambda>_ _. True)\<rparr>"

definition zeros :: "byte list" where
  "zeros = replicate (2 * max_save_chunk_bytes + 1) 0"

definition zeros_meta :: save_metadata where
  "zeros_meta = \<lparr>total_bytes = of_nat (length zeros), meta_tick = 0, meta_hash = 0\<rparr>"

definition consumption_reports_release_only_complete_sent_messages :: bool where
  "consumption_reports_release_only_complete_sent_messages \<longleftrightarrow>
     (let meta = zeros_meta;
          (p, _) = pump bc roomy_link zeros meta (startup_peer_new 0);
          (p1, r1) = receive_startup (Progress 1 0) meta 0 p;
          (p2, r2) = receive_startup (Progress (total_bytes meta + 1) 0) meta 0 p1;
          (p3, r3) = receive_startup (Progress (of_nat max_save_chunk_bytes) 0) meta 0 p2;
          (p4, r4) = receive_startup (Progress (of_nat max_save_chunk_bytes) 0) meta 0 p3;
          (p5, r5) = receive_startup (Progress 0 0) meta 0 p4;
          (p6, r6) = receive_startup (Progress (total_bytes meta) 0) meta 0 p5
      in is_err r1 \<and> is_err r2 \<and> receive_memory p2 = receive_memory p \<and>
         \<not> is_err r3 \<and> receive_memory p3 < receive_memory p \<and>
         \<not> is_err r4 \<and> receive_memory p4 = receive_memory p3 \<and>
         is_err r5 \<and> \<not> is_err r6 \<and> receive_memory p6 = 0 \<and> outstanding p6 = [])"

definition seconds :: "nat \<Rightarrow> nat" where
  "seconds n = n * 1000000000"

definition rejects_invalid_startup_and_times_out_only_without_progress :: "nat \<Rightarrow> bool" where
  "rejects_invalid_startup_and_times_out_only_without_progress now \<longleftrightarrow>
     (let meta = \<lparr>total_bytes = 10, meta_tick = 2, meta_hash = 3\<rparr>;
          p = startup_peer_new now;
          (p1, r1) = receive_startup (Input [0]) meta now p;
          (p2, r2) = receive_startup (Ready 2 3) meta now p1;
          p3 = p2\<lparr>offset := 10, outstanding := outstanding p2 @ [(10, 1200)], receive_memory := 1200,
                  transfer := AwaitingReadiness\<rparr>;
          (p4, r4) = receive_startup (Progress 10 0) meta (now + seconds 20) p3;
          (p5, r5) = receive_startup (Progress 10 0) meta (now + seconds 40) p4;
          (p6, r6) = receive_startup (Ready 2 4) meta now p5
      in is_err r1 \<and> is_err r2 \<and> timed_out (now + startup_timeout) p2 \<and>
         \<not> is_err r4 \<and> \<not> timed_out (now + startup_timeout) p4 \<and>
         \<not> is_err r5 \<and> timed_out (now + seconds 51) p5 \<and> is_err r6)"

lemma rejects_invalid_startup_and_times_out_only_without_progress:
  "rejects_invalid_startup_and_times_out_only_without_progress now"
  by (simp add: rejects_invalid_startup_and_times_out_only_without_progress_def receive_startup_def
      startup_peer_new_def timed_out_def is_ready_def startup_timeout_def seconds_def)

section \<open>The receiver\<close>

definition receiver_rejects_out_of_order_and_excess_data :: bool where
  "receiver_rejects_out_of_order_and_excess_data \<longleftrightarrow>
     (let meta = \<lparr>total_bytes = 1, meta_tick = 0, meta_hash = 0\<rparr>;
          (c1, r1) = receive_save bc infallible (Chunk [0]) client_startup_default;
          (c2, r2) = start 0 0 c1;
          (c3, r3) = receive_save bc infallible (Begin meta) c2;
          (c4, r4) = receive_save bc infallible (Begin meta) c3;
          (c5, r5) = receive_save bc infallible (Chunk [0, 1]) c4;
          (c6, r6) = receive_save bc infallible (Chunk [0]) c5
      in is_err r1 \<and> is_err r2 \<and> \<not> is_err r3 \<and> is_err r4 \<and> is_err r5 \<and> is_err r6)"

lemma receiver_rejects_out_of_order_and_excess_data: receiver_rejects_out_of_order_and_excess_data
proof -
  have "\<exists>e. from_reader bc infallible (memory_source [0]) = Inl e"
    by (simp add: from_reader_def read_header_def read_scalar_def memory_source_def standard_bincode_def)
  then show ?thesis
    by (auto simp: receiver_rejects_out_of_order_and_excess_data_def receive_save_def client_startup_default_def
        start_def finish_transfer_def checked_add_def max_save_chunk_bytes_def infallible_def Let_def)
qed

text \<open>The sizes of the four messages and of the memory they take.\<close>

lemma chunk_size:
  assumes "0 < length bs" "length bs \<le> max_save_chunk_bytes"
  shows "length (enc_save bc (Chunk bs)) = (if length bs < 251 then 2 else if length bs < 65536 then 4 else 6) + length bs"
  using assms
  by (simp add: std.save_layout enc_bytes_def std_selectors std_enc_u32_def std_enc_u64_def varint_def
      max_save_chunk_bytes_def unat_of_nat)

lemma length_zeros: "length zeros = 2 * max_save_chunk_bytes + 1"
  by (simp add: zeros_def)

lemma pumped_chunk:
  assumes "offset p < length save" "end_at = min (offset p + max_save_chunk_bytes) (length save)"
    and "n = length (enc_save c (Chunk (take (end_at - offset p) (drop (offset p) save))))"
    and "receive_memory_of n \<le> channel_save_max_mem - receive_memory p"
  shows "fst (pump_chunks c roomy_link save k p) =
    fst (pump_chunks c roomy_link save (Suc k) ((push_outstanding end_at (receive_memory_of n) p)\<lparr>offset := end_at\<rparr>))"
proof -
  have "end_at - offset p \<le> channel_save_max_mem"
    using assms(2) by (auto simp: max_save_chunk_bytes_def channel_save_max_mem_def)
  then show ?thesis
    using assms(1,4) unfolding assms(3)
    by (subst pump_chunks.simps) (simp add: roomy_link_def Let_def split_def flip: assms(2))
qed

definition zeros_peer :: startup_peer where
  "zeros_peer = \<lparr>transfer = AwaitingReadiness, began = True, offset = 524289, received = 0,
     outstanding = [(0, 1200), (262144, 262800), (524288, 262800), (524289, 1200)],
     receive_memory = 528000, replayed = 0, last_progress = 0\<rparr>"

lemma zeros_pump: "fst (pump bc roomy_link zeros zeros_meta (startup_peer_new 0)) = zeros_peer"
proof -
  let ?peer = "\<lambda>out n at. \<lparr>transfer = Transferring, began = True, offset = at, received = 0, outstanding = out,
     receive_memory = n, replayed = 0, last_progress = 0\<rparr>"
  have len: "length zeros = 524289" by (simp add: length_zeros max_save_chunk_bytes_def)
  have size: "length (enc_save bc (Chunk (take (b - a) (drop a zeros)))) = n"
    if "a < b" "b \<le> 524289" "b - a \<le> 262144"
      "n = (if b - a < 251 then 2 else if b - a < 65536 then 4 else 6) + (b - a)" for a b n
    using that len by (subst chunk_size) (simp_all add: max_save_chunk_bytes_def)
  have mem: "receive_memory_of 262150 = 262800" "receive_memory_of 3 = 1200" "receive_memory_of 7 = 1200"
    by (simp_all add: receive_memory_of_def renet_slice_bytes_def)
  have 4: "fst (pump_chunks bc roomy_link zeros k (?peer out n 524289)) = (?peer out n 524289)\<lparr>transfer := AwaitingReadiness\<rparr>"
    for k out n
    by (subst pump_chunks.simps) (simp add: len)
  have 3: "fst (pump_chunks bc roomy_link zeros k (?peer out n 524288)) =
      fst (pump_chunks bc roomy_link zeros (Suc k) (?peer (out @ [(524289, 1200)]) (n + 1200) 524289))"
    if "n \<le> 1000000" for k out n
    using that size [of 524288 524289 3]
    by (subst pumped_chunk [where end_at = 524289 and n = 3])
      (simp_all add: len mem push_outstanding_def max_save_chunk_bytes_def channel_save_max_mem_def)
  have 2: "fst (pump_chunks bc roomy_link zeros k (?peer out n 262144)) =
      fst (pump_chunks bc roomy_link zeros (Suc k) (?peer (out @ [(524288, 262800)]) (n + 262800) 524288))"
    if "n \<le> 1000000" for k out n
    using that size [of 262144 524288 262150]
    by (subst pumped_chunk [where end_at = 524288 and n = 262150])
      (simp_all add: len mem push_outstanding_def max_save_chunk_bytes_def channel_save_max_mem_def)
  have 1: "fst (pump_chunks bc roomy_link zeros k (?peer out n 0)) =
      fst (pump_chunks bc roomy_link zeros (Suc k) (?peer (out @ [(262144, 262800)]) (n + 262800) 262144))"
    if "n \<le> 1000000" for k out n
    using that size [of 0 262144 262150]
    by (subst pumped_chunk [where end_at = 262144 and n = 262150])
      (simp_all add: len mem push_outstanding_def max_save_chunk_bytes_def channel_save_max_mem_def)
  have "length (enc_save bc (Begin zeros_meta)) = 8"
    by (simp add: zeros_meta_def len std.save_layout std_selectors std_enc_u32_def std_enc_u64_def varint_def)
  moreover have "receive_memory_of 8 = 1200" by (simp add: receive_memory_of_def renet_slice_bytes_def)
  ultimately show ?thesis
    using 1 [of 1200 1 "[(0, 1200)]"] 2 3 4
    by (simp add: pump_def startup_peer_new_def push_outstanding_def zeros_peer_def split_def roomy_link_def)
qed

lemma consumption_reports_release_only_complete_sent_messages: consumption_reports_release_only_complete_sent_messages
proof -
  obtain sent where p: "pump bc roomy_link zeros zeros_meta (startup_peer_new 0) = (zeros_peer, sent)"
    using zeros_pump by (cases "pump bc roomy_link zeros zeros_meta (startup_peer_new 0)") simp
  have meta: "total_bytes zeros_meta = 524289" "meta_tick zeros_meta = 0"
    by (simp_all add: zeros_meta_def length_zeros max_save_chunk_bytes_def)
  show ?thesis
    by (simp add: consumption_reports_release_only_complete_sent_messages_def p meta receive_startup_def zeros_peer_def max_save_chunk_bytes_def)
qed

section \<open>A whole join\<close>

definition join_records :: "tick_advance list" where
  "join_records =
     map (\<lambda>k. \<lparr>tick = of_nat k,
                inputs = (if k mod 30 = 0 then [\<lparr>participant = Host, payload = [0]\<rparr>] else [])\<rparr>) [1..<301]"

definition join_save :: "byte list" where
  "join_save = enc_header bc replay_header_current @ log_bytes bc join_records"

text \<open>The authority's own replay, and the client's loop, with a clock that lets each batch run one
  record; the client's first batch has an arbitrary clock.\<close>

definition join_metadata :: "save_metadata option" where
  "join_metadata =
     (case open_bytes join_save of
        Inl _ \<Rightarrow> None
      | Inr rd \<Rightarrow>
          (case replay_into bc infallible test_sim (replicate 302 (False, [Go])) 0
              \<lparr>run_state = test_simulation_default, run_source = inner rd, run_mirror = None\<rparr> of
             Some (r, Inr _) \<Rightarrow>
               (case sim_state_hash test_sim (run_state r) of
                  Inr h \<Rightarrow> Some \<lparr>total_bytes = of_nat (length join_save), meta_tick = 300, meta_hash = h\<rparr>
                | Inl _ \<Rightarrow> None)
           | _ \<Rightarrow> None))"

definition incremental_join_matches_authority_and_requires_start :: "observation list \<Rightarrow> bool" where
  "incremental_join_matches_authority_and_requires_start clock \<longleftrightarrow>
     (case join_metadata of
        None \<Rightarrow> False
      | Some metadata \<Rightarrow>
          (case deliver bc infallible [Begin metadata, Chunk join_save] client_startup_default of
             (_, Inl _) \<Rightarrow> False
           | (c, Inr _) \<Rightarrow>
               (case startup_step bc infallible test_sim clock c test_simulation_default of
                  (c, s, Inr None) \<Rightarrow>
                    ts_tick s \<le> 128 \<and>
                    (case startup_step bc infallible test_sim [Cancel_Seen] c s of
                       (c, s', Inr None) \<Rightarrow>
                         ts_tick s' = ts_tick s \<and>
                         (case startup_steps bc infallible test_sim (replicate 302 [Go]) c s' of
                            (c, s, Inr (Some (Ready t h))) \<Rightarrow>
                              t = meta_tick metadata \<and> h = meta_hash metadata \<and> \<not> is_live c \<and>
                              is_err (snd (start (meta_tick metadata) 0 c)) \<and>
                              (case start (meta_tick metadata) (meta_hash metadata) c of
                                 (c, res) \<Rightarrow>
                                   \<not> is_err res \<and> is_live c \<and>
                                   is_err (snd (start (meta_tick metadata) (meta_hash metadata) c)) \<and>
                                   is_err (snd (receive_save bc infallible (Begin metadata) c)))
                          | _ \<Rightarrow> False)
                     | _ \<Rightarrow> False)
                | _ \<Rightarrow> False)))"

definition joined :: "nat \<Rightarrow> test_simulation" where
  "joined n = test_simulation_default\<lparr>ts_tick := of_nat n, ts_commands := of_nat (n div 30)\<rparr>"

lemma length_join_records: "length join_records = 300"
  by (simp add: join_records_def)

lemma nth_join_records:
  "n < 300 \<Longrightarrow> join_records ! n =
     \<lparr>tick = of_nat (Suc n), inputs = (if Suc n mod 30 = 0 then [\<lparr>participant = Host, payload = [0]\<rparr>] else [])\<rparr>"
  unfolding join_records_def by (subst nth_map) (simp_all del: upt_conv_Cons)

lemma joined_step:
  assumes "n < 300"
  shows "advance_tick test_sim (join_records ! n) Replay (joined n) = (joined (Suc n), Inr ())"
proof -
  have d: "Suc n div 30 = n div 30 + (if Suc n mod 30 = 0 then 1 else 0)" by (simp add: div_Suc)
  have "advance_tick test_sim (join_records ! n) Replay (joined n) =
      ((joined n)\<lparr>ts_tick := of_nat (Suc n), ts_commands := ts_commands (joined n) +
          of_nat (length (if Suc n mod 30 = 0 then [\<lparr>participant = Host, payload = [0 :: byte]\<rparr>] else []))\<rparr>, Inr ())"
    unfolding nth_join_records [OF assms] using assms by (intro test_step) (simp_all add: joined_def)
  then show ?thesis unfolding joined_def d by (simp split: if_splits)
qed

lemma joined_run:
  "n \<le> 300 \<Longrightarrow> advance_all test_sim Replay (take n join_records) (joined 0) = (joined n, Inr ())"
proof (induction n)
  case (Suc n)
  then have "take (Suc n) join_records = take n join_records @ [join_records ! n]"
    by (simp add: take_Suc_conv_app_nth length_join_records)
  then show ?case using Suc joined_step [of n] by (simp add: advance_all_append)
qed simp

lemma joined_rest:
  assumes "n \<le> 300"
  shows "advance_all test_sim Replay (drop n join_records) (joined n) = (joined 300, Inr ())"
proof -
  have "advance_all test_sim Replay (take n join_records @ drop n join_records) (joined 0) = (joined 300, Inr ())"
    using joined_run [of 300] length_join_records by simp
  from std.advance_all_split [OF this] show ?thesis using joined_run [OF assms] by simp
qed

lemma join_record_size:
  assumes "adv \<in> set join_records"
  shows "carries adv" "length (enc_tick bc adv) \<le> 20"
proof -
  have small: "length (varint k) \<le> 9" for k by (simp add: varint_def)
  from assms obtain k where adv: "adv = \<lparr>tick = of_nat k,
      inputs = (if k mod 30 = 0 then [\<lparr>participant = Host, payload = [0]\<rparr>] else [])\<rparr>"
    by (auto simp: join_records_def)
  then show "carries adv" by (simp add: carries_def max_payload_bytes_def)
  show "length (enc_tick bc adv) \<le> 20"
    using small [of "unat (of_nat k :: u64)"] adv
    by (simp add: std_selectors std_enc_tick_def std_enc_u64_def std_enc_bytes_def std_enc_u32_def)
      (simp add: varint_def)
qed

lemma join_recordable: "list_all (recordable bc) join_records"
  using join_record_size by (force simp: list_all_iff recordable_def max_replay_record_bytes_def)

lemma log_length:
  "(\<And>adv. adv \<in> set advs \<Longrightarrow> length (enc_tick bc adv) \<le> k) \<Longrightarrow> length (log_bytes bc advs) \<le> (k + 4) * length advs"
proof (induction advs)
  case (Cons a as)
  from Cons.prems [of a] have "length (record_bytes bc a) \<le> k + 4" by (simp add: record_bytes_def)
  with Cons show ?case by (simp add: algebra_simps)
qed simp

lemma header_length:
  "0 < length (enc_header bc replay_header_current)" "length (enc_header bc replay_header_current) \<le> 60"
  by (simp_all add: std.header_layout std_selectors std_enc_u64_def std_enc_u32_def varint_def enc_bytes_def
      replay_header_current_def replay_header_new_def magic_const_def)

lemma join_save_size: "0 < length join_save" "length join_save \<le> max_save_chunk_bytes"
  using log_length [OF join_record_size(2), of join_records] header_length
  by (simp_all add: join_save_def max_save_chunk_bytes_def length_join_records)

definition join_hash :: u64 where
  "join_hash = 9310"

definition join_meta :: save_metadata where
  "join_meta = \<lparr>total_bytes = of_nat (length join_save), meta_tick = 300, meta_hash = join_hash\<rparr>"

definition join_reader :: replay_reader where
  "join_reader = \<lparr>inner = (memory_source join_save)\<lparr>held := log_bytes bc join_records\<rparr>, header = replay_header_current\<rparr>"

lemma joined_fields:
  "joined 0 = test_simulation_default" "sim_current_tick test_sim (joined 300) = 300"
  "sim_state_hash test_sim (joined 300) = Inr join_hash" "ts_tick (joined n) = of_nat n"
  by (simp_all add: joined_def test_simulation_default_def test_sim_def join_hash_def)

lemma memory_faultless: "faultless (memory_source bs)" "held (memory_source bs) = bs"
  by (simp_all add: memory_source_def faultless_def)

lemma join_metadata: "join_metadata = Some join_meta"
proof -
  let ?r = "\<lparr>run_state = test_simulation_default, run_source = cursor_source (log_bytes bc join_records), run_mirror = None\<rparr>"
  have "replay_into bc infallible test_sim (replicate 302 (False, [Go])) 0 ?r =
      Some (after_records bc test_sim join_records [] ?r, Inr (0 + of_nat (length join_records)))"
  proof (rule std.replay_into_plays)
    show "advance_all test_sim Replay join_records (run_state ?r) = (joined 300, Inr ())"
      using joined_rest [of 0] joined_fields(1) by simp
    show "list_all (\<lambda>(stop, os). \<not> stop \<and> batch_room 128 os > 0) (replicate 302 (False, [Go]))"
      by (simp add: list_all_iff batch_room_def)
  qed (simp_all add: join_recordable mirror_ok_def length_join_records)
  moreover have "run_state (after_records bc test_sim join_records [] ?r) = joined 300"
    using joined_rest [of 0] joined_fields(1) by (simp add: after_records_def)
  ultimately show ?thesis
    by (simp add: join_metadata_def join_save_def open_bytes_enc joined_fields join_meta_def)
qed

lemma join_delivered:
  "deliver bc infallible [Begin join_meta, Chunk join_save] client_startup_default =
     (client_startup_default\<lparr>cphase := Replaying join_meta join_reader, creceived := total_bytes join_meta\<rparr>, Inr ())"
proof -
  have "from_reader bc infallible (memory_source join_save) = Inr join_reader"
    using std.from_reader_enc [of "memory_source join_save" replay_header_current] test_header
    by (simp add: memory_faultless join_reader_def join_save_def)
  moreover have "length join_save = unat (total_bytes join_meta)"
    using join_save_size by (simp add: join_meta_def unat_of_nat max_save_chunk_bytes_def)
  moreover have "chunks_ok [join_save]" using join_save_size by (simp add: chunks_ok_def)
  moreover have "join_save \<noteq> []" using join_save_size(1) by auto
  ultimately show ?thesis
    using deliver_transfer [of bc join_save join_reader join_meta "[join_save]"]
    by (simp del: deliver.simps)
qed

text \<open>The client in mid-replay, before record \<open>n\<close>.\<close>

definition joining :: "nat \<Rightarrow> client_startup \<Rightarrow> bool" where
  "joining n c \<longleftrightarrow> (\<exists>rd. cphase c = Replaying join_meta rd \<and> header rd = replay_header_current \<and>
     faultless (inner rd) \<and> held (inner rd) = log_bytes bc (drop n join_records))"

lemma join_initialize: "(if b then (s, Inr ()) else sim_initialize test_sim h s) = (s, Inr ())"
  by (simp add: test_sim_def default_initialize_def)

lemma joining_step:
  assumes "joining n c" "n + batch_room 128 os \<le> 300"
  shows "\<exists>c'. startup_step bc infallible test_sim os c (joined n) =
    (c', joined (n + batch_room 128 os), Inr None) \<and> joining (n + batch_room 128 os) c'"
proof -
  let ?m = "batch_room 128 os"
  obtain rd where rd: "cphase c = Replaying join_meta rd" "header rd = replay_header_current"
    "faultless (inner rd)" "held (inner rd) = log_bytes bc (drop n join_records)"
    using assms(1) by (auto simp: joining_def)
  have rec: "list_all (recordable bc) (drop n join_records)"
    using join_recordable by (meson list_all_iff in_set_dropD)
  have run: "advance_all test_sim Replay (drop n join_records) (joined n) = (joined 300, Inr ())"
    using assms(2) by (intro joined_rest) simp
  have "advance_all test_sim Replay (take n join_records @ take ?m (drop n join_records)) (joined 0) =
      (joined (n + ?m), Inr ())"
    using joined_run [of "n + ?m"] assms(2) by (simp add: take_add)
  from std.advance_all_split [OF this]
  have mid: "advance_all test_sim Replay (take ?m (drop n join_records)) (joined n) = (joined (n + ?m), Inr ())"
    using joined_run [of n] assms(2) by simp
  have "\<not> length (drop n join_records) < ?m" using assms(2) by (simp add: length_join_records)
  then have "startup_step bc infallible test_sim os c (joined n) =
      (c\<lparr>initialized := True, creplayed := sim_current_tick test_sim (joined (n + ?m)),
         cphase := Replaying join_meta (rd\<lparr>inner := (inner rd)\<lparr>held := log_bytes bc (drop (n + ?m) join_records)\<rparr>\<rparr>)\<rparr>,
       joined (n + ?m), Inr None)"
    using std.startup_step_plays [OF test.deterministic_sim_axioms rd(1) join_initialize rd(3,4) rec run, of os]
    by (simp add: Let_def mid joined_fields join_meta_def add.commute)
  then show ?thesis using rd by (simp add: joining_def)
qed

lemma joining_ends:
  assumes "joining n c" "n \<le> 300"
  shows "\<exists>c'. startup_steps bc infallible test_sim (replicate 302 [Go]) c (joined n) =
    (c', joined 300, Inr (Some (Ready 300 join_hash))) \<and> cphase c' = AwaitingStart join_meta"
proof -
  obtain rd where rd: "cphase c = Replaying join_meta rd" "faultless (inner rd)"
    "held (inner rd) = log_bytes bc (drop n join_records)"
    using assms(1) by (auto simp: joining_def)
  have rec: "list_all (recordable bc) (drop n join_records)"
    using join_recordable by (meson list_all_iff in_set_dropD)
  have "list_all (\<lambda>os. 0 < batch_room 128 os) (replicate 302 [Go])" by (simp add: list_all_iff batch_room_def)
  then show ?thesis
    using std.startup_steps_ready [OF test.deterministic_sim_axioms rd(1) join_initialize rd(2,3) rec joined_rest [OF assms(2)],
        of "replicate 302 [Go]"]
    by (simp add: joined_fields join_meta_def length_join_records)
qed

lemma incremental_join_matches_authority_and_requires_start: "incremental_join_matches_authority_and_requires_start clock"
proof -
  let ?m = "batch_room 128 clock"
  have m: "?m \<le> 128" by (simp add: batch_room_def)
  let ?c = "client_startup_default\<lparr>cphase := Replaying join_meta join_reader, creceived := total_bytes join_meta\<rparr>"
  have "joining 0 ?c" by (simp add: joining_def join_reader_def memory_faultless)
  then obtain c1 where c1: "startup_step bc infallible test_sim clock ?c test_simulation_default = (c1, joined ?m, Inr None)" "joining ?m c1"
    using joining_step [of 0 ?c clock] m by (auto simp: joined_fields(1))
  obtain c2 where c2: "startup_step bc infallible test_sim [Cancel_Seen] c1 (joined ?m) = (c2, joined ?m, Inr None)" "joining ?m c2"
    using joining_step [OF c1(2), of "[Cancel_Seen]"] m by auto
  obtain c3 where c3: "startup_steps bc infallible test_sim (replicate 302 [Go]) c2 (joined ?m) =
      (c3, joined 300, Inr (Some (Ready 300 join_hash)))" "cphase c3 = AwaitingStart join_meta"
    using joining_ends [OF c2(2)] m by auto
  have "ts_tick (joined ?m) \<le> 128" using m by (simp add: joined_fields word_le_nat_alt unat_of_nat)
  moreover have "join_hash \<noteq> 0" "meta_tick join_meta = 300" "meta_hash join_meta = join_hash"
    by (simp_all add: join_hash_def join_meta_def)
  ultimately show ?thesis
    using c3(2)
    unfolding incremental_join_matches_authority_and_requires_start_def join_metadata option.case join_delivered
      prod.case sum.case c1 c2
    by (simp add: c3(1) start_def is_live_def receive_save_def)
qed

end
