(* ===== verification/Network_Tests.thy ===== *)
theory Network_Tests
  imports Run_Client Startup_Tests
begin

unbundle bit_operations_syntax

text \<open>
  The unit tests of \<^verbatim>\<open>run_server.rs\<close> and \<^verbatim>\<open>run_client.rs\<close> that need no second thread, on the
  model: the transport's connections are the disconnections among the returned actions.
\<close>

section \<open>The server\<close>

definition validates_hash_ticks_and_fingerprints :: bool where
  "validates_hash_ticks_and_fingerprints \<longleftrightarrow>
     (let hashes = [(30, 123), (60, 456)] in
      case verify_hash \<lparr>report_tick = 30, report_hash = 123\<rparr> 60 0 hashes 30 of
        Inl _ \<Rightarrow> False
      | Inr verified \<Rightarrow>
          verified = 30 \<and>
          list_all (\<lambda>t. is_err (verify_hash \<lparr>report_tick = t, report_hash = 123\<rparr> 60 verified hashes 30)) [0, 30, 31, 90] \<and>
          (case verify_hash \<lparr>report_tick = 60, report_hash = 0\<rparr> 60 verified hashes 30 of
             Inl (Desync _) \<Rightarrow> True | _ \<Rightarrow> False))"

lemma validates_hash_ticks_and_fingerprints: validates_hash_ticks_and_fingerprints
  by (simp add: validates_hash_ticks_and_fingerprints_def verify_hash_def)

definition hash_history_window :: u64 where
  "hash_history_window = 300"

definition connected_after :: "u64 \<Rightarrow> server_action list \<Rightarrow> bool" where
  "connected_after cid acts \<longleftrightarrow> Disconnect cid \<notin> set acts"

definition mismatch_policy_contains_failure_and_verification_cannot_expire_silently :: bool where
  "mismatch_policy_contains_failure_and_verification_cannot_expire_silently \<longleftrightarrow>
     (let report = enc_desync bc \<lparr>report_tick = 30, report_hash = 999\<rparr>; hashes = [(30, 123)] in
      case handle_hash_report bc infallible 1 report 30 0 hashes Disconnect_Policy 30 of
        Inl _ \<Rightarrow> False
      | Inr (verified, acts) \<Rightarrow>
          \<not> connected_after 1 acts \<and> connected_after 2 acts \<and>
          (case handle_hash_report bc infallible 2 report 30 verified hashes FailFast 30 of
             Inl (Desync _) \<Rightarrow> True | _ \<Rightarrow> False) \<and>
          connected_after 2 (enforce_verification_deadline 2 300 0 hash_history_window) \<and>
          \<not> connected_after 2 (enforce_verification_deadline 2 301 0 hash_history_window))"

lemma mismatch_policy_contains_failure_and_verification_cannot_expire_silently:
  mismatch_policy_contains_failure_and_verification_cannot_expire_silently
  by (simp add: mismatch_policy_contains_failure_and_verification_cannot_expire_silently_def handle_hash_report_def
      std.decode_encode_desync verify_hash_def is_desync_def connected_after_def enforce_verification_deadline_def
      saturating_sub_def hash_history_window_def)

text \<open>The port is taken: binding fails with an I/O error.\<close>

definition bind_failure_cfg :: server_cfg where
  "bind_failure_cfg =
     \<lparr>cfg_tick_duration = 33333333, cfg_expected = 0, cfg_load_path = None,
      cfg_record_path = Some ''failed.save'', cfg_desync_policy = Disconnect_Policy\<rparr>"

definition bind_failure_env :: session_env where
  "bind_failure_env =
     \<lparr>se_load = [], se_stop_loaded = False, se_read = (\<lambda>_. Inr (enc_header bc replay_header_current)),
      se_bind = Inl (Io (IoError OtherIo ''address in use'')), se_wait = [], se_stop_ready = False, se_ticks = []\<rparr>"

definition bind_failure_is_returned_and_record_header_is_flushed :: bool where
  "bind_failure_is_returned_and_record_header_is_flushed \<longleftrightarrow>
     (case run_server bc infallible (\<lambda>_. None) (cursor_source []) sound_file test_sim bind_failure_cfg bind_failure_env
        test_simulation_default session_control_default of
        Some (st, _, Inl (Io _)) \<Rightarrow>
          (case ss_writer st of
             None \<Rightarrow> False
           | Some w \<Rightarrow>
               (case open_bytes (take (flushed w) (written w)) of
                  Inl _ \<Rightarrow> False
                | Inr rd \<Rightarrow>
                    (case next_record bc infallible (inner rd) of Inr (None, _) \<Rightarrow> True | _ \<Rightarrow> False)))
      | _ \<Rightarrow> False)"

lemma bind_failure_is_returned_and_record_header_is_flushed: bind_failure_is_returned_and_record_header_is_flushed
proof -
  let ?w = "sound_file\<lparr>written := enc_header bc replay_header_current\<rparr>"
  let ?w' = "?w\<lparr>flushed := length (enc_header bc replay_header_current)\<rparr>"
  let ?cfg = "bind_failure_cfg\<lparr>cfg_tick_duration := unat (tick_nanos replay_header_current)\<rparr>"
  have cr: "create bc (\<lambda>_. None) sound_file ''failed.save'' replay_header_current = Inr ?w"
    by (simp add: create_def write_all_def sound_file_def)
  have fl: "flush_writer (Some ?w) = (Some ?w', Inr ())" "flush_writer (Some ?w') = (Some ?w', Inr ())"
    by (simp_all add: flush_writer_def flush_def sound_file_def)
  have hash: "sim_state_hash test_sim test_simulation_default = Inr 0"
    and hdr: "sim_header test_sim test_simulation_default = replay_header_current"
    and ini: "sim_initialize test_sim replay_header_current test_simulation_default = (test_simulation_default, Inr ())"
    by (simp_all add: test_sim_def test_simulation_default_def default_initialize_def)
  have cfg: "validate_tick_duration (cfg_tick_duration bind_failure_cfg) = Inr ()" "\<not> cfg_expected bind_failure_cfg > 1024"
    "cfg_load_path bind_failure_cfg = None" "cfg_record_path bind_failure_cfg = Some ''failed.save''"
    by (simp_all add: bind_failure_cfg_def validate_tick_duration_def)
  have "length (enc_header bc replay_header_current) < 2 ^ 64"
    using join_save_size(2) by (simp add: join_save_def max_save_chunk_bytes_def)
  then have "\<exists>meta. session_metadata test_sim (enc_header bc replay_header_current) test_simulation_default = Inr meta"
    by (simp add: session_metadata_def hash)
  then have "after_load bc infallible test_sim ?cfg bind_failure_env
      \<lparr>ss_sim = test_simulation_default, ss_writer = Some ?w, ss_control = session_control_default\<rparr> =
      Some (\<lparr>ss_sim = test_simulation_default, ss_writer = Some ?w', ss_control = session_control_default\<rparr>, [],
        Inl (Io (IoError OtherIo ''address in use'')))"
    by (auto simp: after_load_def fl save_bytes_def bind_failure_env_def bind_failure_cfg_def)
  then have "run_server bc infallible (\<lambda>_. None) (cursor_source []) sound_file test_sim bind_failure_cfg bind_failure_env
        test_simulation_default session_control_default =
      Some (\<lparr>ss_sim = test_simulation_default, ss_writer = Some ?w', ss_control = session_control_default\<rparr>, [],
        Inl (Io (IoError OtherIo ''address in use'')))"
    by (simp add: run_server_def run_session_def cfg cr hdr ini fl final_flush_def Let_def)
  then show ?thesis
    using open_bytes_enc [of "[]"]
    by (simp add: bind_failure_is_returned_and_record_header_is_flushed_def next_record_end)
qed

section \<open>The replica\<close>

definition fresh_replica :: "client_startup \<Rightarrow> test_simulation \<Rightarrow> test_simulation replica" where
  "fresh_replica st s =
     \<lparr>rp_startup = st, rp_sim = s, rp_reported = (0, 0), rp_control = session_control_default\<rparr>"

definition live_tick_gap_is_a_reported_failure :: bool where
  "live_tick_gap_is_a_reported_failure \<longleftrightarrow>
     (case apply_tick bc test_sim \<lparr>tick = 2, inputs = []\<rparr> (fresh_replica client_startup_default test_simulation_default) of
        (c, _, res) \<Rightarrow> is_err res \<and> ts_tick (rp_sim c) = 0 \<and> ts_live_ticks (rp_sim c) = 0)"

lemma live_tick_gap_is_a_reported_failure: live_tick_gap_is_a_reported_failure
  by (simp add: live_tick_gap_is_a_reported_failure_def apply_tick_def advance_tick_def validate_tick_def fail_with_def
      checked_add_def fresh_replica_def test_sim_def test_simulation_default_def)

text \<open>\<open>loaded_tick\<close> records precede the start; the client's clock lets every batch run to its end.\<close>

definition loaded_records :: "nat \<Rightarrow> tick_advance list" where
  "loaded_records n = map (\<lambda>k. \<lparr>tick = of_nat k, inputs = [\<lparr>participant = Host, payload = [0]\<rparr>]\<rparr>) [1..<Suc n]"

definition start_hook_runs_only_after_verification_before_live :: bool where
  "start_hook_runs_only_after_verification_before_live \<longleftrightarrow>
     list_all (\<lambda>loaded_tick.
       let bytes = enc_header bc replay_header_current @ log_bytes bc (loaded_records loaded_tick);
           t = of_nat loaded_tick
       in case advance_all test_sim Replay (loaded_records loaded_tick) test_simulation_default of
            (_, Inl _) \<Rightarrow> False
          | (authority, Inr _) \<Rightarrow>
            (case sim_state_hash test_sim authority of
               Inl _ \<Rightarrow> False
             | Inr hash \<Rightarrow>
               (case deliver bc infallible [Begin \<lparr>total_bytes = of_nat (length bytes), meta_tick = t, meta_hash = hash\<rparr>,
                                            Chunk bytes] client_startup_default of
                  (_, Inl _) \<Rightarrow> False
                | (startup, Inr _) \<Rightarrow>
                  (case startup_steps bc infallible test_sim (replicate 7 (replicate 128 Go)) startup test_simulation_default of
                     (startup, s, Inr (Some _)) \<Rightarrow>
                       ts_starts s = 0 \<and> ts_live_ticks s = 0 \<and>
                       (case start_live test_sim t (hash XOR 1) (fresh_replica startup s) of
                          (c, _, r1) \<Rightarrow>
                            is_err r1 \<and> ts_starts (rp_sim c) = 0 \<and>
                            (case start_live test_sim t hash c of
                               (c, _, r2) \<Rightarrow>
                                 \<not> is_err r2 \<and> status (rp_control c) = Live_Status \<and> ts_starts (rp_sim c) = 1 \<and>
                                 ts_tick (rp_sim c) = t \<and>
                                 (case start_live test_sim t hash c of
                                    (c, _, r3) \<Rightarrow>
                                      is_err r3 \<and>
                                      (case apply_tick bc test_sim \<lparr>tick = t + 1, inputs = []\<rparr> c of
                                         (c, _, r4) \<Rightarrow>
                                           \<not> is_err r4 \<and> ts_tick (rp_sim c) = t + 1 \<and> ts_live_ticks (rp_sim c) = 1))))
                   | _ \<Rightarrow> False)))) [0, 5]"

text \<open>A client that receives a log in one chunk and replays it to its end.\<close>

lemma test_client_ready:
  assumes "list_all (recordable bc) advs" "advance_all test_sim Replay advs test_simulation_default = (s', Inr ())"
    and "save = enc_header bc replay_header_current @ log_bytes bc advs" "length save \<le> max_save_chunk_bytes"
    and "meta = \<lparr>total_bytes = of_nat (length save), meta_tick = ts_tick s', meta_hash = h\<rparr>"
    and "sim_state_hash test_sim s' = Inr h" "list_all (\<lambda>os. batch_room 128 os > 0) rounds" "length advs < length rounds"
  shows "\<exists>c c'. deliver bc infallible [Begin meta, Chunk save] client_startup_default = (c, Inr ()) \<and>
    startup_steps bc infallible test_sim rounds c test_simulation_default = (c', s', Inr (Some (Ready (ts_tick s') h))) \<and>
    cphase c' = AwaitingStart meta"
proof -
  let ?rd = "\<lparr>inner = (memory_source save)\<lparr>held := log_bytes bc advs\<rparr>, header = replay_header_current\<rparr>"
  let ?c = "client_startup_default\<lparr>cphase := Replaying meta ?rd, creceived := total_bytes meta\<rparr>"
  have "enc_header bc replay_header_current \<noteq> []" by (simp add: std.header_layout replay_header_current_def
        replay_header_new_def magic_const_def)
  then have "save \<noteq> []" by (simp add: assms(3))
  moreover have "from_reader bc infallible (memory_source save) = Inr ?rd"
    using std.from_reader_enc [of "memory_source save" replay_header_current] test_header
    by (simp add: memory_faultless assms(3))
  moreover have "length save = unat (total_bytes meta)"
    using assms(4) by (simp add: assms(5) unat_of_nat max_save_chunk_bytes_def)
  moreover have "chunks_ok [save]" using assms(4) \<open>save \<noteq> []\<close> by (simp add: chunks_ok_def)
  ultimately have 1: "deliver bc infallible [Begin meta, Chunk save] client_startup_default = (?c, Inr ())"
    using deliver_transfer [of bc save ?rd meta "[save]"] by (simp del: deliver.simps)
  have tick: "meta_tick meta = sim_current_tick test_sim s'" "sim_state_hash test_sim s' = Inr (meta_hash meta)"
    using assms(5,6) by (simp_all add: test_sim_def)
  have src: "cphase ?c = Replaying meta ?rd" "faultless (inner ?rd)" "held (inner ?rd) = log_bytes bc advs"
    by (simp_all add: memory_faultless)
  show ?thesis
    using 1 std.startup_steps_ready [OF test.deterministic_sim_axioms src(1) join_initialize src(2,3) assms(1,2) tick assms(7,8)]
    by (simp add: assms(5))
qed

lemma loaded_fit: "list_all (recordable bc) (loaded_records n)"
  by (auto simp: list_all_iff loaded_records_def recordable_def carries_def max_payload_bytes_def
      max_replay_record_bytes_def enc_test length_le_of_nat)

lemma length_loaded: "length (loaded_records n) = n"
  by (simp add: loaded_records_def)

lemma loaded_size: "length (enc_header bc replay_header_current @ log_bytes bc (loaded_records n)) \<le> 60 + 24 * n"
proof -
  have small: "length (varint k) \<le> 9" for k by (simp add: varint_def)
  have "length (enc_tick bc adv) \<le> 20" if "adv \<in> set (loaded_records n)" for adv
    using that small by (auto simp: loaded_records_def enc_test) 
  from log_length [OF this, of "loaded_records n"] show ?thesis
    using header_length by (simp add: length_loaded)
qed

lemma loaded_run:
  "n < 2 ^ 64 \<Longrightarrow> advance_all test_sim Replay (loaded_records n) test_simulation_default =
    (test_simulation_default\<lparr>ts_tick := of_nat n, ts_commands := of_nat n\<rparr>, Inr ())"
proof (induction n)
  case 0
  then show ?case by (simp add: loaded_records_def test_simulation_default_def)
next
  case (Suc n)
  have "loaded_records (Suc n) = loaded_records n @
      [\<lparr>tick = of_nat (Suc n), inputs = [\<lparr>participant = Host, payload = [0]\<rparr>]\<rparr>]"
    by (simp add: loaded_records_def)
  then show ?case
    using Suc test_step [of "test_simulation_default\<lparr>ts_tick := of_nat n, ts_commands := of_nat n\<rparr>" n]
    by (simp add: advance_all_append add.commute)
qed

lemma xor_one: "(h :: u64) XOR 1 \<noteq> h"
proof
  assume "h XOR 1 = h"
  then have "bit (h XOR 1) 0 = bit h 0" by simp
  then show False by (simp add: bit_simps)
qed

lemma started_replica:
  assumes "cphase c = AwaitingStart meta" "meta_tick meta = t" "meta_hash meta = h"
    and "ts_starts s = 0" "ts_live_ticks s = 0" "ts_tick s = t" "unat t < 2 ^ 64 - 1"
  shows "case start_live test_sim t (h XOR 1) (fresh_replica c s) of
     (c, _, r1) \<Rightarrow>
       is_err r1 \<and> ts_starts (rp_sim c) = 0 \<and>
       (case start_live test_sim t h c of
          (c, _, r2) \<Rightarrow>
            \<not> is_err r2 \<and> status (rp_control c) = Live_Status \<and> ts_starts (rp_sim c) = 1 \<and>
            ts_tick (rp_sim c) = t \<and>
            (case start_live test_sim t h c of
               (c, _, r3) \<Rightarrow>
                 is_err r3 \<and>
                 (case apply_tick bc test_sim \<lparr>tick = t + 1, inputs = []\<rparr> c of
                    (c, _, r4) \<Rightarrow>
                      \<not> is_err r4 \<and> ts_tick (rp_sim c) = t + 1 \<and> ts_live_ticks (rp_sim c) = 1)))"
  using assms xor_one [of h]
  by (simp add: fresh_replica_def start_live_def start_def fail_with_def do_nothing_def client_send_def test_sim_def
      ts_publish_def apply_tick_def advance_tick_def validate_tick_def checked_add_def advance_checked_def ts_advance_def
      default_finish_tick_def publish_status_def Let_def)

lemma start_hook_runs_only_after_verification_before_live: start_hook_runs_only_after_verification_before_live
proof -
  have "batch_room 128 (replicate 128 Go) > 0" by (simp add: batch_room_def)
  then have rounds: "list_all (\<lambda>os. batch_room 128 os > 0) (replicate 7 (replicate 128 Go))" by (simp add: list_all_iff)
  show ?thesis
    unfolding start_hook_runs_only_after_verification_before_live_def list_all_iff
  proof (intro ballI, goal_cases)
    case (1 n)
    then have n: "n \<le> 5" by auto
    let ?s = "test_simulation_default\<lparr>ts_tick := of_nat n, ts_commands := of_nat n\<rparr>"
    let ?h = "of_nat n * 31 + of_nat n :: u64"
    let ?save = "enc_header bc replay_header_current @ log_bytes bc (loaded_records n)"
    let ?meta = "\<lparr>total_bytes = of_nat (length ?save), meta_tick = of_nat n, meta_hash = ?h\<rparr>"
    have run: "advance_all test_sim Replay (loaded_records n) test_simulation_default = (?s, Inr ())"
      using n by (intro loaded_run) simp
    have hash: "sim_state_hash test_sim ?s = Inr ?h" by (simp add: test_sim_def)
    have size: "length ?save \<le> max_save_chunk_bytes"
      using loaded_size [of n] n by (simp add: max_save_chunk_bytes_def)
    obtain c c' where c: "deliver bc infallible [Begin ?meta, Chunk ?save] client_startup_default = (c, Inr ())"
      "startup_steps bc infallible test_sim (replicate 7 (replicate 128 Go)) c test_simulation_default =
        (c', ?s, Inr (Some (Ready (of_nat n) ?h)))" "cphase c' = AwaitingStart ?meta"
      using test_client_ready [OF loaded_fit run refl size refl hash rounds] n by (auto simp: length_loaded)
    have "unat (of_nat n :: u64) < 2 ^ 64 - 1" using n by (simp add: unat_of_nat)
    then show ?case
      using started_replica [OF c(3), of "of_nat n" ?h ?s]
      unfolding Let_def run prod.case sum.case hash c(1,2) option.case
      by (simp add: test_simulation_default_def)
  qed
qed

end
