(* ===== verification/Api_Tests.thy ===== *)
theory Api_Tests
  imports Hosting Startup_Tests
begin

text \<open>
  The unit tests of \<^verbatim>\<open>api.rs\<close> that need no second peer, on the model, with their game \<open>Counter\<close>.
  The command channel is instantiated by a bounded queue whose receiver may be gone.
\<close>

section \<open>The counter game\<close>

definition count_create :: "u64 \<Rightarrow> nat \<Rightarrow> u64 session_result" where
  "count_create initial _ =
     (if initial \<noteq> 42 then Inl (Simulation_Error ''expected seed 42'') else Inr 0)"

definition counter :: "(u64 list, u64, u64) game" where
  "counter =
     \<lparr>ID = utf8 ''counter-game-001'', VERSION = 1, command_wire = vec_wire u64_wire, initialization_wire = u64_wire,
      create_simulation = count_create, g_current_tick = (\<lambda>n. n), g_state_hash = (\<lambda>n. Inr n),
      g_advance = (\<lambda>t n. (number t, Inr ())), g_publish = no_publish, g_finish_tick = no_finish_tick\<rparr>"

interpretation counter: deterministic_game counter infallible "\<lambda>n. n"
  by unfold_locales (auto simp: counter_def no_publish_def no_finish_tick_def)

section \<open>Submission\<close>

record bounded_queue =
  queued :: "byte list list"
  capacity :: nat
  receiver_alive :: bool

definition bounded_send :: "byte list \<Rightarrow> bounded_queue \<Rightarrow> bounded_queue \<times> (try_send_error + unit)" where
  "bounded_send bs q =
     (if \<not> receiver_alive q then (q, Inl Disconnected_Send)
      else if length (queued q) \<ge> capacity q then (q, Inl Full_Send)
      else (q\<lparr>queued := queued q @ [bs]\<rparr>, Inr ()))"

definition submission_reports_not_live_full_stopped_and_oversized :: bool where
  "submission_reports_not_live_full_stopped_and_oversized \<longleftrightarrow>
     (let send = submit (vec_wire u64_wire) infallible bounded_send;
          ctl = session_control_default;
          q = \<lparr>queued = [], capacity = 1, receiver_alive = True\<rparr>;
          (q1, r1) = send ctl [1] q;
          live = publish_status Live_Status ctl;
          (q2, r2) = send live [1] q1;
          (q3, r3) = send live [1] q2;
          (q4, r4) = send live (replicate max_payload_bytes 0) q3;
          (q5, r5) = send live [1] (q4\<lparr>receiver_alive := False\<rparr>);
          (q6, r6) = send (cancel live) [1] q5
      in r1 = Inl NotLive \<and> r2 = Inr () \<and> r3 = Inl Full \<and>
         (case r4 of Inl (Submit_Codec _) \<Rightarrow> True | _ \<Rightarrow> False) \<and>
         r5 = Inl Submit_Stopped \<and> r6 = Inl Submit_Stopped)"

lemma encode_one: "encode (vec_wire u64_wire) infallible [1 :: u64] = Inr (canon (vec_shape scalar_shape u64_wire) [1])"
  by (subst vec_u64.encode_Inr)
    (simp_all add: within_budget_def vec_shape_def scalar_shape_def max_payload_bytes_def max_allocation_bytes_def max_depth_def
      vec_wire_def scalar_wire_def)

lemma encode_oversized:
  "\<exists>e. encode (vec_wire u64_wire) infallible (replicate max_payload_bytes (0 :: u64)) = Inl e"
proof (cases "encode (vec_wire u64_wire) infallible (replicate max_payload_bytes (0 :: u64))")
  case (Inr bs)
  then have "bs = canon (vec_shape scalar_shape u64_wire) (replicate max_payload_bytes 0)" by (rule vec_u64.encode_canon)
  moreover have "length bs \<le> max_payload_bytes"
    using Inr by (auto simp: encode_def validate_def res_simps split: if_splits)
  ultimately show ?thesis by (simp add: vec_shape_def scalar_shape_def length_concat sum_list_replicate)
qed simp

lemma submission_reports_not_live_full_stopped_and_oversized: submission_reports_not_live_full_stopped_and_oversized
  using encode_one encode_oversized
  by (auto simp: submission_reports_not_live_full_stopped_and_oversized_def submit_def bounded_send_def
      session_control_default_def is_cancelled_def publish_status_def cancel_def Let_def)

section \<open>Compatibility\<close>

definition counter_header :: "byte list \<Rightarrow> u32 \<Rightarrow> replay_header" where
  "counter_header gid version = replay_header_new gid version 33333333 (to_le_bytes (42 :: u64))"

definition is_compatibility :: "'a session_result \<Rightarrow> bool" where
  "is_compatibility r \<longleftrightarrow> (case r of Inl (Compatibility _) \<Rightarrow> True | _ \<Rightarrow> False)"

definition is_configuration :: "'a session_result \<Rightarrow> bool" where
  "is_configuration r \<longleftrightarrow> (case r of Inl (Configuration _) \<Rightarrow> True | _ \<Rightarrow> False)"

definition bad_config :: "nat \<Rightarrow> u64 server_config" where
  "bad_config bad =
     (let cfg = (server_config_new 42)\<lparr>record_path := Some ''output.save''\<rparr> in
      if bad = 0 then cfg\<lparr>expected_clients := 1025\<rparr>
      else if bad = 1 then cfg\<lparr>tick_duration := 0\<rparr>
      else cfg\<lparr>command_capacity := 0\<rparr>)"

text \<open>The entry points return before anything is written.\<close>

definition compatibility_and_configuration_fail_before_creating_recordings :: bool where
  "compatibility_and_configuration_fail_before_creating_recordings \<longleftrightarrow>
     list_all (\<lambda>(gid, version).
       let fs = [''other.save'' \<mapsto> enc_header bc (counter_header gid version)];
           cfg = (server_config_new 42)\<lparr>load_path := Some ''other.save'', record_path := Some ''output.save''\<rparr>
       in is_compatibility (host bc infallible fs (cursor_source []) counter cfg) \<and>
          (case replay_game bc infallible fs (cursor_source []) counter ''other.save'' [] False of
             Some r \<Rightarrow> is_compatibility r | None \<Rightarrow> False))
       [(ID counter, 2), (utf8 ''different-game01'', 1)] \<and>
     (case replay_game bc infallible [''input.save'' \<mapsto> utf8 ''PLNTlegacy''] (cursor_source []) counter ''input.save'' [] False of
        Some r \<Rightarrow> is_err r | None \<Rightarrow> False) \<and>
     list_all (\<lambda>bad. is_configuration (host bc infallible (\<lambda>_. None) (cursor_source []) counter (bad_config bad))) [0, 1, 2]"

lemma counter_header_current: "length gid = 16 \<Longrightarrow> header_current (counter_header gid version)"
  by (simp add: counter_header_def replay_header_new_def header_current_def validate_tick_duration_def max_payload_bytes_def)

lemma open_counter:
  "length gid = 16 \<Longrightarrow> open_bytes (enc_header bc (counter_header gid version) @ rest) =
     Inr \<lparr>inner = cursor_source rest, header = counter_header gid version\<rparr>"
  using std.from_reader_enc [of "cursor_source _" "counter_header gid version" rest] counter_header_current
  by (simp add: open_bytes_def)

lemma incompatible_load:
  assumes "open_log c al fs file path = Inr rd" "validate_header G al (header rd) = Inl e"
  shows "validate_capacity (command_capacity config) = Inr () \<Longrightarrow> validate_tick_duration (tick_duration config) = Inr () \<Longrightarrow>
      \<not> expected_clients config > 1024 \<Longrightarrow> load_path config = Some path \<Longrightarrow>
      start_server c al fs file G config local = Inl e"
    "replay_game c al fs file G path rounds flag = Some (Inl e)"
  using assms by (simp_all add: start_server_def replay_game_def)

lemma compatibility_and_configuration_fail_before_creating_recordings:
  compatibility_and_configuration_fail_before_creating_recordings
  unfolding compatibility_and_configuration_fail_before_creating_recordings_def
proof (intro conjI)
  have other: "is_compatibility (validate_header counter infallible (counter_header gid version))"
    if "gid \<noteq> ID counter \<or> version \<noteq> 1" for gid version
    using that
    by (auto simp: validate_header_def is_compatibility_def counter_header_def replay_header_new_def counter_def)
  have rejected: "is_compatibility (host bc infallible [''other.save'' \<mapsto> enc_header bc (counter_header gid version)]
        (cursor_source []) counter
        ((server_config_new 42)\<lparr>load_path := Some ''other.save'', record_path := Some ''output.save''\<rparr>)) \<and>
      (case replay_game bc infallible [''other.save'' \<mapsto> enc_header bc (counter_header gid version)] (cursor_source [])
          counter ''other.save'' [] False of Some r \<Rightarrow> is_compatibility r | None \<Rightarrow> False)"
    if "length gid = 16" "gid \<noteq> ID counter \<or> version \<noteq> 1" for gid version
  proof -
    note gv = that
    obtain msg where "validate_header counter infallible (counter_header gid version) = Inl (Compatibility msg)"
      using other [OF gv(2)] by (auto simp: is_compatibility_def split: sum.splits session_error.splits)
    then have bad: "validate_header counter infallible
        (header \<lparr>inner = cursor_source [], header = counter_header gid version\<rparr>) = Inl (Compatibility msg)" by simp
    have log: "open_log bc infallible [''other.save'' \<mapsto> enc_header bc (counter_header gid version)] (cursor_source [])
        ''other.save'' = Inr \<lparr>inner = cursor_source [], header = counter_header gid version\<rparr>"
      using open_counter [OF gv(1), of version "[]"] by (simp add: open_log_def open_bytes_def)
    have "host bc infallible [''other.save'' \<mapsto> enc_header bc (counter_header gid version)] (cursor_source []) counter
        ((server_config_new 42)\<lparr>load_path := Some ''other.save'', record_path := Some ''output.save''\<rparr>) =
        Inl (Compatibility msg)"
      unfolding host_def
      by (rule incompatible_load(1) [OF log bad])
        (simp_all add: server_config_new_def validate_capacity_def validate_tick_duration_def)
    moreover have "replay_game bc infallible [''other.save'' \<mapsto> enc_header bc (counter_header gid version)]
        (cursor_source []) counter ''other.save'' [] False = Some (Inl (Compatibility msg))"
      by (rule incompatible_load(2) [OF log bad])
    ultimately show ?thesis by (simp add: is_compatibility_def)
  qed
  have ids: "length (ID counter) = 16" "length (utf8 ''different-game01'') = 16"
    by (simp_all add: counter_def utf8_def)
  have "utf8 ''different-game01'' \<noteq> ID counter" by (simp add: utf8_def counter_def)
  then show "list_all (\<lambda>(gid, version).
       let fs = [''other.save'' \<mapsto> enc_header bc (counter_header gid version)];
           cfg = (server_config_new 42)\<lparr>load_path := Some ''other.save'', record_path := Some ''output.save''\<rparr>
       in is_compatibility (host bc infallible fs (cursor_source []) counter cfg) \<and>
          (case replay_game bc infallible fs (cursor_source []) counter ''other.save'' [] False of
             Some r \<Rightarrow> is_compatibility r | None \<Rightarrow> False))
       [(ID counter, 2), (utf8 ''different-game01'', 1)]"
    using rejected [OF ids(1), of 2] rejected [OF ids(2), of 1] by (simp add: Let_def)
  have "utf8 ''PLNTlegacy'' = [0x50, 0x4C, 0x4E, 0x54, 0x6C, 0x65, 0x67, 0x61, 0x63, 0x79]" by (simp add: utf8_def)
  then show "case replay_game bc infallible [''input.save'' \<mapsto> utf8 ''PLNTlegacy''] (cursor_source []) counter
      ''input.save'' [] False of Some r \<Rightarrow> is_err r | None \<Rightarrow> False"
    using read_exact_enough [of "cursor_source [0x50, 0x4C, 0x4E, 0x54, 0x6C, 0x65, 0x67, 0x61, 0x63, 0x79]" 4]
    by (simp add: replay_game_def open_log_def from_reader_def read_header_def read_scalar_def standard_bincode_def
        magic_const_def)
qed (simp add: bad_config_def server_config_new_def host_def start_server_def validate_capacity_def
    validate_tick_duration_def is_configuration_def)

section \<open>Recorded origins\<close>

definition bad_input :: command where
  "bad_input = \<lparr>participant = Remote 123, payload = replicate 4 255\<rparr>"

definition bad_record :: tick_advance where
  "bad_record = \<lparr>tick = 1, inputs = [bad_input]\<rparr>"

definition oversized :: tick_advance where
  "oversized =
     \<lparr>tick = 2, inputs = replicate (max_replay_record_bytes div max_payload_bytes + 1)
        \<lparr>participant = Host, payload = replicate max_payload_bytes 0\<rparr>\<rparr>"

definition first_record :: "byte list \<Rightarrow> tick_advance option" where
  "first_record file =
     (case and_then (open_bytes file) (\<lambda>rd. next_record bc infallible (inner rd)) of
        Inr (adv, _) \<Rightarrow> adv | Inl _ \<Rightarrow> None)"

definition recorded_origin_and_invalid_game_payload_are_preserved_and_rejected :: bool where
  "recorded_origin_and_invalid_game_payload_are_preserved_and_rejected \<longleftrightarrow>
     (case create bc (\<lambda>_. None) sound_file ''bad.save'' (counter_header (ID counter) 1) of
        Inl _ \<Rightarrow> False
      | Inr w \<Rightarrow>
          (case append_record bc bad_record w of
             (_, Inl _) \<Rightarrow> False
           | (w, Inr _) \<Rightarrow>
               (case flush w of
                  (_, Inl _) \<Rightarrow> False
                | (w, Inr _) \<Rightarrow>
                    let file = take (flushed w) (written w) in
                    (case first_record file of
                       Some adv \<Rightarrow> inputs adv ! 0 = bad_input | None \<Rightarrow> False) \<and>
                    (case replay_game bc infallible [''bad.save'' \<mapsto> file] (cursor_source []) counter ''bad.save''
                        [(False, [Go])] False of
                       Some (Inl (Codec_Error _)) \<Rightarrow> True | _ \<Rightarrow> False) \<and>
                    (case append_record bc oversized w of
                       (w, res) \<Rightarrow>
                         is_err res \<and>
                         (case first_record (take (flushed w) (written w)) of
                            Some adv \<Rightarrow> tick adv = 1 | None \<Rightarrow> False)))))"

lemma bad_record_fits: "recordable bc bad_record"
  by (simp add: recordable_def carries_def bad_record_def bad_input_def enc_test
      max_replay_record_bytes_def max_payload_bytes_def length_le_of_nat)

lemma oversized_rejected: "append_record bc oversized w = (w, Inl (IoError InvalidData ''replay record exceeds lockstep budget''))"
proof -
  have "length (enc_tick bc oversized) > max_replay_record_bytes"
    by (simp add: oversized_def enc_test max_replay_record_bytes_def max_payload_bytes_def length_concat sum_list_replicate)
  then show ?thesis by (simp add: append_record_def Let_def)
qed

lemma four_times: "replicate 4 x = [x, x, x, x]"
  by (simp add: numeral_eq_Suc)

lemma bad_payload: "\<exists>e. decode (vec_wire u64_wire) infallible (replicate 4 255) = Inl e"
proof -
  have "from_le_bytes [255, 255, 255, 255 :: byte] = (0xFFFFFFFF :: u32)" by (simp add: from_le_bytes_def)
  then show ?thesis
    by (simp add: four_times decode_def validate_def vec_wire_def decoder_new_def enter_def count_def scalar_wire_def
        take_bytes_def usize_checked_mul_def usize_checked_add_def usize_max_def max_payload_bytes_def
        max_allocation_bytes_def max_depth_def)
qed

lemma counter_initializes:
  "adapter_initialize counter infallible (counter_header (ID counter) 1) (adapter_new (counter_header (ID counter) 1)) =
     (\<lparr>ad_header = counter_header (ID counter) 1, ad_simulation = Some 0\<rparr>, Inr ())"
  "validate_header counter infallible (counter_header (ID counter) 1) = Inr ()"
proof -
  have b: "within_budget scalar_shape (42 :: u64)" "canon scalar_shape (42 :: u64) = to_le_bytes (42 :: u64)"
    by (simp_all add: within_budget_def scalar_shape_def max_payload_bytes_def)
  then have d: "decode u64_wire infallible (to_le_bytes (42 :: u64)) = Inr 42"
    using w64.decode_canon [of 42] by simp
  have "validate u64_wire infallible (to_le_bytes (42 :: u64)) = Inr ()"
    using b w64.validate_iff by metis
  then show v: "validate_header counter infallible (counter_header (ID counter) 1) = Inr ()"
    by (simp add: validate_header_def counter_header_def replay_header_new_def validate_tick_duration_def codec_result_def
        counter_def)
  show "adapter_initialize counter infallible (counter_header (ID counter) 1) (adapter_new (counter_header (ID counter) 1)) =
     (\<lparr>ad_header = counter_header (ID counter) 1, ad_simulation = Some 0\<rparr>, Inr ())"
    unfolding adapter_initialize_def v
    by (simp add: adapter_new_def) (simp add: counter_header_def replay_header_new_def d codec_result_def counter_def count_create_def)
qed

lemma recorded_origin_and_invalid_game_payload_are_preserved_and_rejected:
  recorded_origin_and_invalid_game_payload_are_preserved_and_rejected
proof -
  let ?h = "counter_header (ID counter) 1"
  let ?file = "enc_header bc ?h @ record_bytes bc bad_record"
  let ?w = "\<lparr>written = ?file, flushed = length ?file, write_fault = (\<lambda>_ _. None), flush_fault = (\<lambda>_. None)\<rparr>"
  have id: "length (ID counter) = 16" by (simp add: counter_def utf8_def)
  have open_it: "open_bytes ?file = Inr \<lparr>inner = cursor_source (record_bytes bc bad_record), header = ?h\<rparr>"
    by (rule open_counter [OF id])
  have next_it: "next_record bc infallible (cursor_source (record_bytes bc bad_record)) = Inr (Some bad_record, cursor_source [])"
    using std.next_record_enc [of "cursor_source (record_bytes bc bad_record)" bad_record "[]"] bad_record_fits by simp
  have first: "first_record ?file = Some bad_record" by (simp add: first_record_def open_it next_it)
  let ?made = "sound_file\<lparr>written := enc_header bc ?h\<rparr>" and ?filled = "sound_file\<lparr>written := ?file\<rparr>"
  have "reliable ?made" by (simp add: reliable_def sound_file_def)
  note app = append_record_reliable [OF this bad_record_fits]
  have "flush ?filled = (?w, Inr ())" by (simp add: flush_def sound_file_def)
  moreover have "create bc (\<lambda>_. None) sound_file ''bad.save'' ?h = Inr ?made"
    by (simp add: create_def write_all_def sound_file_def)
  ultimately have made: "create bc (\<lambda>_. None) sound_file ''bad.save'' ?h = Inr ?made"
    "append_record bc bad_record ?made = (?filled, Inr ())" "flush ?filled = (?w, Inr ())"
    using app by simp_all
  have cut: "take (flushed ?w) (written ?w) = ?file" by simp
  let ?a = "\<lparr>ad_header = ?h, ad_simulation = Some (0 :: u64)\<rparr>"
  let ?r = "\<lparr>run_state = ?a, run_source = cursor_source (record_bytes bc bad_record), run_mirror = None\<rparr>"
  obtain e where e: "decode (vec_wire u64_wire) infallible (replicate 4 255) = Inl e" using bad_payload by blast
  have "adapter_advance counter infallible bad_record ?a = (?a, Inl (Codec_Error e))"
    using e by (simp add: adapter_advance_def bad_record_def bad_input_def counter_def codec_result_def infallible_def)
  then have "snd (advance_tick (adapter_sim counter infallible) bad_record Replay ?a) = Inl (Codec_Error e)"
    by (simp add: advance_tick_def validate_tick_def checked_add_def advance_checked_def adapter_sim_def
        adapter_current_tick_def bad_record_def counter_def)
  moreover have "validate_tick (adapter_sim counter infallible) ?a (tick bad_record) = Inr ()"
    by (simp add: validate_tick_def checked_add_def adapter_sim_def adapter_current_tick_def bad_record_def counter_def)
  ultimately have "snd (replay_batch bc infallible (adapter_sim counter infallible) [Go] ?r) = Inl (Codec_Error e)"
    using batch_loop.simps(1) [of bc infallible "adapter_sim counter infallible" 127 "[]" 0 ?r]
    by (simp add: replay_batch_def next_it replay_step_def split_def split: sum.splits)
  then have "replay_game bc infallible [''bad.save'' \<mapsto> ?file] (cursor_source []) counter ''bad.save'' [(False, [Go])] False =
      Some (Inl (Codec_Error e))"
    using open_it by (simp add: replay_game_def open_log_def open_bytes_def counter_initializes split_def)
  moreover have "inputs bad_record ! 0 = bad_input" "tick bad_record = 1" by (simp_all add: bad_record_def)
  ultimately show ?thesis
    unfolding recorded_origin_and_invalid_game_payload_are_preserved_and_rejected_def made sum.case prod.case Let_def
      oversized_rejected cut first
    by simp
qed

section \<open>Retained results\<close>

definition exists_config :: "u64 server_config" where
  "exists_config = (server_config_new 42)\<lparr>port := 0, record_path := Some ''exists.save''\<rparr>"

text \<open>The worker of the first handle observes the cancellation and returns; the one of the second
  is the authority.  A handle that is joined twice returns the same result.\<close>

definition retained :: "thread_outcome \<Rightarrow> (bounded_queue session_handle \<times> unit session_result \<times> unit session_result) option" where
  "retained outcome =
     Option.bind (shutdown \<lparr>commands = \<lparr>queued = [], capacity = 1, receiver_alive = False\<rparr>,
                            control = session_control_default, worker = spawn outcome\<rparr>) (\<lambda>(h, first).
     map_option (\<lambda>(h, second). (h, first, second)) (handle_join h))"

definition joined_then_shut ::
  "unit session_result \<Rightarrow> (unit session_result \<times> unit session_result) option" where
  "joined_then_shut outcome =
     Option.bind (handle_join \<lparr>commands = \<lparr>queued = [], capacity = 256, receiver_alive = False\<rparr>,
                               control = session_control_default, worker = spawn (Returned outcome)\<rparr>) (\<lambda>(h, first).
     map_option (\<lambda>(h, second). (first, second)) (shutdown h))"

definition cancellation_and_io_failure_are_retained_separately_from_status :: "session_env \<Rightarrow> bool" where
  "cancellation_and_io_failure_are_retained_separately_from_status env \<longleftrightarrow>
     (case retained (Returned (Inr ())) of
        Some (h, first, second) \<Rightarrow> \<not> is_err first \<and> first = second \<and> status (control h) = Stopped
      | None \<Rightarrow> False) \<and>
     (let fs = [''exists.save'' \<mapsto> utf8 ''preserve''] in
      case host bc infallible fs (cursor_source []) counter exists_config of
        Inl _ \<Rightarrow> False
      | Inr st \<Rightarrow>
          (case authority_worker bc infallible fs (cursor_source []) sound_file counter exists_config st env
              session_control_default of
             Some (_, _, outcome) \<Rightarrow>
               (case joined_then_shut outcome of
                  Some (first, second) \<Rightarrow>
                    (case first of Inl (Io (IoError AlreadyExists _)) \<Rightarrow> True | _ \<Rightarrow> False) \<and> first = second
                | None \<Rightarrow> False)
           | None \<Rightarrow> False))"

lemma retained_returned:
  "retained (Returned (Inr ())) =
     Some (\<lparr>commands = \<lparr>queued = [], capacity = 1, receiver_alive = False\<rparr>,
            control = \<lparr>cancelled = True, status = Stopped\<rparr>,
            worker = \<lparr>thread = None, terminal = Some (Inr ())\<rparr>\<rparr>, Inr (), Inr ())"
  by (simp add: retained_def shutdown_def handle_join_def handle_cancel_def join_def spawn_def thread_result_def
      publish_result_def publish_status_def cancel_def is_cancelled_def session_control_default_def is_failed_def Let_def)

lemma retained_failure: "joined_then_shut (Inl e) = Some (Inl e, Inl e)"
  by (simp add: joined_then_shut_def shutdown_def handle_join_def handle_cancel_def join_def spawn_def thread_result_def
      publish_result_def publish_status_def cancel_def is_cancelled_def session_control_default_def is_failed_def Let_def)

lemma cancellation_and_io_failure_are_retained_separately_from_status:
  "cancellation_and_io_failure_are_retained_separately_from_status env"
proof -
  let ?fs = "[''exists.save'' \<mapsto> utf8 ''preserve'']" and ?h = "counter_header (ID counter) 1"
  let ?st = "\<lparr>start_header = ?h, start_tick_nanos = 33333333, start_local = True, start_capacity = 256\<rparr>"
  have "within_budget scalar_shape (42 :: u64)" "canon scalar_shape (42 :: u64) = to_le_bytes (42 :: u64)"
    by (simp_all add: within_budget_def scalar_shape_def max_payload_bytes_def)
  then have enc: "encode u64_wire infallible (42 :: u64) = Inr (to_le_bytes (42 :: u64))"
    by (subst w64.encode_Inr) (simp_all add: within_budget_def)
  have started: "host bc infallible ?fs (cursor_source []) counter exists_config = Inr ?st"
    by (simp add: host_def start_server_def exists_config_def server_config_new_def validate_capacity_def
        validate_tick_duration_def counter_header_def enc codec_result_def counter_def replay_header_new_def)
  have "create bc ?fs sound_file ''exists.save'' ?h = Inl (IoError AlreadyExists ''File exists'')"
    by (simp add: create_def)
  then have "\<exists>st acts. authority_worker bc infallible ?fs (cursor_source []) sound_file counter exists_config ?st env
      session_control_default = Some (st, acts, Inl (Io (IoError AlreadyExists ''File exists'')))"
    using counter_initializes(1)
    by (simp add: authority_worker_def authority_config_def run_server_def exists_config_def server_config_new_def
        validate_tick_duration_def adapter_sim_def adapter_new_def Let_def)
  then show ?thesis
    using started
    by (auto simp: cancellation_and_io_failure_are_retained_separately_from_status_def retained_returned retained_failure)
qed

end
