(* ===== verification/Derive_Tests.thy ===== *)
theory Derive_Tests
  imports Core_Tests Derive_Hash
begin

text \<open>
  The unit tests of \<^verbatim>\<open>crates/synctick-derive/src\<close> on the model of the macros: each rejected
  schema with the text its error message has to contain, and the derived unit marker of
  \<^verbatim>\<open>codec.rs\<close>.  A test is a boolean definition; the lemma of the same name says that the
  model passes it.
\<close>

section \<open>Schemas\<close>

definition rejected_with :: "syn_error + 'a \<Rightarrow> string \<Rightarrow> bool" where
  "rejected_with r expected \<longleftrightarrow>
     (case r of Inl (SynError message) \<Rightarrow> contains message expected | Inr _ \<Rightarrow> False)"

definition tag_attr :: "string \<Rightarrow> nat \<Rightarrow> attribute" where
  "tag_attr path n = Attribute path [(''tag'', Literal n)]"

definition unit_variant :: "attribute list \<Rightarrow> variant_decl" where
  "unit_variant attrs = \<lparr>variant_attrs = attrs, discriminant = False, variant_fields = []\<rparr>"

definition plain_enum :: "variant_decl list \<Rightarrow> derive_input" where
  "plain_enum vs = \<lparr>input_attrs = [], input_data = EnumData vs\<rparr>"

definition one_field :: "attribute list \<Rightarrow> derive_input" where
  "one_field attrs = \<lparr>input_attrs = [], input_data = StructData [\<lparr>field_attrs = attrs\<rparr>]\<rparr>"

section \<open>\<open>Wire\<close>\<close>

definition invalid_enum_schemas_are_rejected :: bool where
  "invalid_enum_schemas_are_rejected \<longleftrightarrow>
     list_all (\<lambda>(input, expected). rejected_with (expand (Inr ()) input) expected)
       [(plain_enum [], ''at least one''),
        (plain_enum [unit_variant []], ''every variant requires''),
        (plain_enum [unit_variant [tag_attr ''wire'' 1], unit_variant [tag_attr ''wire'' 1]], ''duplicate wire tag''),
        (plain_enum [unit_variant [Attribute ''wire'' [(''tag'', Literal 1), (''tag'', Literal 2)]]],
           ''duplicate wire tag attribute''),
        (plain_enum [unit_variant [tag_attr ''wire'' 256]], ''out of range''),
        (plain_enum [unit_variant [Attribute ''wire'' [(''value'', Literal 0)]]], ''expected tag''),
        (plain_enum [(unit_variant [tag_attr ''wire'' 1])\<lparr>discriminant := True\<rparr>], ''instead of Rust discriminants''),
        (\<lparr>input_attrs = [tag_attr ''wire'' 1], input_data = EnumData [unit_variant []]\<rparr>, ''belong on enum variants''),
        (plain_enum [(unit_variant [tag_attr ''wire'' 1])
           \<lparr>variant_fields := [\<lparr>field_attrs = [tag_attr ''wire'' 2]\<rparr>]\<rparr>], ''belong on enum variants'')]"

lemma invalid_enum_schemas_are_rejected: invalid_enum_schemas_are_rejected
  by code_simp

definition unsupported_shapes_have_actionable_errors :: bool where
  "unsupported_shapes_have_actionable_errors \<longleftrightarrow>
     rejected_with (expand (Inr ()) \<lparr>input_attrs = [], input_data = UnionData\<rparr>) ''implement Wire manually'' \<and>
     rejected_with (expand (Inr ()) \<lparr>input_attrs = [], input_data = StructData []\<rparr>) ''nonempty struct''"

lemma unsupported_shapes_have_actionable_errors: unsupported_shapes_have_actionable_errors
  by code_simp

section \<open>\<open>StableHash\<close>\<close>

definition assert_rejected :: "(derive_input \<times> string) list \<Rightarrow> bool" where
  "assert_rejected cases \<longleftrightarrow>
     list_all (\<lambda>(input, expected). rejected_with (expand_hash (Inr ()) input) expected) cases"

definition rejects_ambiguous_and_unsupported_schemas :: bool where
  "rejects_ambiguous_and_unsupported_schemas \<longleftrightarrow> assert_rejected
     [(plain_enum [], ''at least one''),
      (\<lparr>input_attrs = [], input_data = UnionData\<rparr>, ''unions''),
      (plain_enum [unit_variant []], ''every variant requires''),
      (plain_enum [unit_variant [tag_attr ''stable_hash'' 256]], ''out of range''),
      (plain_enum [(unit_variant [tag_attr ''stable_hash'' 1])\<lparr>discriminant := True\<rparr>], ''instead of Rust discriminants''),
      (plain_enum [unit_variant [tag_attr ''stable_hash'' 1], unit_variant [tag_attr ''wire'' 1]],
         ''duplicate enum hash tag''),
      (plain_enum [unit_variant [tag_attr ''stable_hash'' 1, tag_attr ''wire'' 1]], ''exactly one tag''),
      (plain_enum [unit_variant [Attribute ''stable_hash'' [(''tag'', Literal 1), (''tag'', Literal 2)]]],
         ''duplicate wire tag attribute''),
      (plain_enum [unit_variant [Attribute ''stable_hash'' [(''skip'', NoValue)]]], ''expected tag''),
      (\<lparr>input_attrs = [tag_attr ''stable_hash'' 1], input_data = StructData []\<rparr>, ''belong on enum variants'')]"

lemma rejects_ambiguous_and_unsupported_schemas: rejects_ambiguous_and_unsupported_schemas
  by code_simp

definition rejects_invalid_field_attributes :: bool where
  "rejects_invalid_field_attributes \<longleftrightarrow> assert_rejected
     [(one_field [tag_attr ''stable_hash'' 1], ''expected skip on a field''),
      (one_field [Attribute ''stable_hash'' [(''skip'', NoValue), (''skip'', NoValue)]], ''duplicate stable_hash skip''),
      (one_field [Attribute ''stable_hash'' [(''skip'', NoValue)], Attribute ''stable_hash'' [(''skip'', NoValue)]],
         ''duplicate stable_hash skip''),
      (one_field [Attribute ''stable_hash'' [(''skip'', Malformed)]], ''skip takes no arguments''),
      (one_field [Attribute ''stable_hash'' [(''skip'', Arguments)]], ''skip takes no arguments''),
      (one_field [Attribute ''stable_hash'' []], ''expected #[stable_hash(skip)]''),
      (one_field [Attribute ''stable_hash'' [(''unknown'', NoValue)]], ''expected skip on a field''),
      (\<lparr>input_attrs = [Attribute ''stable_hash'' [(''skip'', NoValue)]], input_data = StructData []\<rparr>,
         ''belong on enum variants'')]"

lemma rejects_invalid_field_attributes: rejects_invalid_field_attributes
  by code_simp

section \<open>A derived marker\<close>

text \<open>\<open>struct Marker(())\<close>.\<close>

datatype unit_marker = Marker unit

definition marker_wire :: "unit_marker wire" where
  "marker_wire = construct_wire 0 (\<lambda>(u, _). Marker u) (\<lambda>m. case m of Marker u \<Rightarrow> (u, ())) (and_field unit_wire no_fields)"

definition derive_works_inside_core_with_an_explicit_unit_marker :: bool where
  "derive_works_inside_core_with_an_explicit_unit_marker \<longleftrightarrow>
     min_size marker_wire = 1 \<and> encode marker_wire infallible (Marker ()) = Inr [0] \<and>
     decode marker_wire infallible [0] = Inr (Marker ()) \<and>
     is_err (decode marker_wire infallible [1])"

lemma derive_works_inside_core_with_an_explicit_unit_marker: derive_works_inside_core_with_an_explicit_unit_marker
proof -
  have b: "to_le_bytes (0 :: u8) = [0]" "from_le_bytes [0 :: byte] = (0 :: u8)" "from_le_bytes [1 :: byte] = (1 :: u8)"
    by code_simp+
  show ?thesis
    by (simp add: derive_works_inside_core_with_an_explicit_unit_marker_def marker_wire_def construct_wire_def
        and_field_def no_fields_def unit_wire_def unit_validate_def scalar_wire_def encode_def decode_def validate_def
        encoder_write_def encoder_default_def take_bytes_def finish_def decoder_new_def infallible_def
        max_payload_bytes_def b)
qed

section \<open>Nested payloads\<close>

interpretation vec_string: wire_codec "vec_wire string_wire" "vec_shape string_shape string_wire"
  by (rule string.vec_codec)

interpretation vec_vec_string: wire_codec "vec_wire (vec_wire string_wire)"
    "vec_shape (vec_shape string_shape string_wire) (vec_wire string_wire)"
  by (rule vec_string.vec_codec)

interpretation vec_u8: wire_codec "vec_wire u8_wire" "vec_shape scalar_shape u8_wire"
  by (rule w8.vec_codec)

definition nested_payloads_validate_before_decode :: bool where
  "nested_payloads_validate_before_decode \<longleftrightarrow>
     (let W = vec_wire (vec_wire string_wire); value = [[utf8 ''hello'', utf8 ''world'']] in
      case encode W infallible value of
        Inl _ \<Rightarrow> False
      | Inr bytes \<Rightarrow>
          decode W infallible bytes = Inr value \<and>
          list_all (\<lambda>k. is_err (decode W infallible (take k bytes))) [0..<length bytes] \<and>
          is_err (decode W infallible (bytes @ [0])) \<and>
          is_err (decode W infallible ([1, 0, 0, 0] @ to_le_bytes (0xFFFFFFFF :: u32))) \<and>
          is_err (encode (vec_wire u8_wire) infallible (replicate max_payload_bytes 0)) \<and>
          is_err (decode string_wire infallible [1, 0, 0, 0, 255]))"

lemma nested_payloads_validate_before_decode: nested_payloads_validate_before_decode
proof -
  let ?W = "vec_wire (vec_wire string_wire)" and ?S = "vec_shape (vec_shape string_shape string_wire) (vec_wire string_wire)"
  let ?v = "[[utf8 ''hello'', utf8 ''world'']]"
  have u: "utf8_valid (utf8 ''hello'')" "utf8_valid (utf8 ''world'')" by code_simp+
  have l: "length (utf8 ''hello'') = 5" "length (utf8 ''world'') = 5" by (simp_all add: utf8_def)
  have b: "within_budget ?S ?v"
    using u l
    by (simp add: within_budget_def vec_shape_def string_shape_def vec_wire_def string_wire_def scalar_wire_def
        max_payload_bytes_def max_allocation_bytes_def max_depth_def)
  then have e: "encode ?W infallible ?v = Inr (canon ?S ?v)"
    by (subst vec_vec_string.encode_Inr) (simp_all add: within_budget_def)
  have d: "decode ?W infallible (canon ?S ?v) = Inr ?v"
    using b by (rule vec_vec_string.decode_canon)
  have big: "\<exists>e. encode (vec_wire u8_wire) infallible (replicate max_payload_bytes 0) = Inl e"
  proof (cases "encode (vec_wire u8_wire) infallible (replicate max_payload_bytes 0)")
    case (Inr bs)
    then have "bs = canon (vec_shape scalar_shape u8_wire) (replicate max_payload_bytes 0)"
      by (rule vec_u8.encode_canon)
    moreover have "length bs \<le> max_payload_bytes"
      using Inr by (auto simp: encode_def validate_def res_simps split: if_splits)
    ultimately show ?thesis
      by (simp add: vec_shape_def scalar_shape_def length_concat sum_list_triv)
  qed simp
  have f: "from_le_bytes [1 :: byte, 0, 0, 0] = (1 :: u32)" "from_le_bytes [255 :: byte, 255, 255, 255] = (0xFFFFFFFF :: u32)"
    by (simp_all add: from_le_bytes_def)
  then have m: "to_le_bytes (0xFFFFFFFF :: u32) = [255, 255, 255, 255]"
    using to_from_le_bytes [of "[255, 255, 255, 255]", where 'a = 32] by simp
  have hostile: "\<exists>e. decode ?W infallible ([1, 0, 0, 0] @ to_le_bytes (0xFFFFFFFF :: u32)) = Inl e"
    by (simp add: m f decode_def validate_def vec_wire_def decoder_new_def enter_def count_def scalar_wire_def take_bytes_def
        usize_checked_mul_def usize_checked_add_def usize_max_def max_payload_bytes_def max_allocation_bytes_def max_depth_def)
  have invalid: "\<exists>e. decode string_wire infallible [1, 0, 0, 0, 255] = Inl e"
    by (simp add: m f decode_def validate_def string_wire_def string_read_def decoder_new_def count_def scalar_wire_def take_bytes_def
        usize_checked_mul_def usize_checked_add_def usize_max_def max_payload_bytes_def max_allocation_bytes_def)
  have err: "(\<exists>e. r = Inl e) \<Longrightarrow> is_err r" for r :: "codec_error + 'z"
    by auto
  show ?thesis
    unfolding nested_payloads_validate_before_decode_def Let_def e sum.case
    using d vec_vec_string.decode_proper_prefix [OF d] vec_vec_string.decode_trailing [OF d, of "[0]"] hostile big invalid
    by (intro conjI) (auto simp: list_all_iff intro!: err)
qed

end
