(* ===== verification/Game_Tests.thy ===== *)
theory Game_Tests
  imports Garden_Menu Wallet
begin

unbundle bit_operations_syntax

text \<open>
  The unit tests of the wallet's \<^verbatim>\<open>model.rs\<close> and of the garden's \<^verbatim>\<open>model\<close> and \<^verbatim>\<open>menu.rs\<close> on the
  model: a test is a boolean definition that makes the calls of its function in order and
  compares what its assertions compare; the lemma of the same name says that the model passes.
\<close>

lemma checked_add_code [code]: "checked_add a b = (if a + b < a then None else Some (a + b))"
  for a b :: "'a::len word"
  by (simp add: checked_add_def no_olen_add_nat [symmetric] not_less)

section \<open>The wallet\<close>

definition rejected_transfers_never_partially_update_balances :: bool where
  "rejected_transfers_never_partially_update_balances \<longleftrightarrow>
     list_all (\<lambda>(from_id, to_id, as, expected).
       let s = wallet_state_default\<lparr>balances := [10, 0xFFFFFFFFFFFFFFFF]\<rparr> in
       transfer_to from_id \<lparr>recipient = to_id, amounts = as\<rparr> s = (s, Inl expected))
       [(9, 1, [1], UnknownSender), (0, 9, [1], UnknownRecipient), (0, 1, [0xFFFFFFFFFFFFFFFF, 1], AmountOverflow),
        (0, 1, [11], InsufficientFunds), (0, 1, [1], RecipientOverflow)]"

definition transfers_are_atomic_and_self_transfers_still_check_funds :: bool where
  "transfers_are_atomic_and_self_transfers_still_check_funds \<longleftrightarrow>
     (let (s1, r1) = transfer_to 0 \<lparr>recipient = 1, amounts = [3, 7]\<rparr> (wallet_state_default\<lparr>balances := [10, 20]\<rparr>);
          (s2, r2) = transfer_to 1 \<lparr>recipient = 1, amounts = [30]\<rparr> s1;
          (s3, r3) = transfer_to 0 \<lparr>recipient = 1, amounts = []\<rparr> s2;
          (s4, r4) = transfer_to 1 \<lparr>recipient = 1, amounts = [31]\<rparr> s3
      in r1 = Inr () \<and> balances s1 = [0, 30] \<and> r2 = Inr () \<and> r3 = Inr () \<and> balances s3 = [0, 30] \<and>
         r4 = Inl InsufficientFunds \<and> balances s4 = [0, 30])"

lemma rejected_transfers_never_partially_update_balances: rejected_transfers_never_partially_update_balances
  by (simp add: rejected_transfers_never_partially_update_balances_def transfer_to_def transfer_checked_def
      checked_add_def checked_sub_def get_balance_def wallet_state_default_def)

lemma transfers_are_atomic_and_self_transfers_still_check_funds: transfers_are_atomic_and_self_transfers_still_check_funds
  by (simp add: transfers_are_atomic_and_self_transfers_still_check_funds_def transfer_to_def transfer_checked_def
      checked_add_def checked_sub_def get_balance_def wallet_state_default_def)

section \<open>Tiles and setups\<close>

definition rotates_ports_clockwise :: bool where
  "rotates_ports_clockwise \<longleftrightarrow>
     connections \<lparr>kind = Wire, ports = NORTH OR EAST, rotation = 1\<rparr> = EAST OR SOUTH"

lemma rotates_ports_clockwise: rotates_ports_clockwise
  by code_simp

definition invalid_setup :: "nat \<Rightarrow> initialization" where
  "invalid_setup defect =
     (let i = default_initialization; ts = tiles i in
      if defect = 0 then i\<lparr>width := 4\<rparr>
      else if defect = 1 then i\<lparr>tiles := butlast ts\<rparr>
      else if defect = 2 then i\<lparr>tiles := ts[1 := (ts ! 1)\<lparr>ports := 16\<rparr>]\<rparr>
      else if defect = 3 then i\<lparr>tiles := ts[1 := (ts ! 1)\<lparr>rotation := 4\<rparr>]\<rparr>
      else if defect = 4 then i\<lparr>tiles := ts[0 := (ts ! 0)\<lparr>rotation := 1\<rparr>]\<rparr>
      else if defect = 5 then i\<lparr>tiles := ts[12 := (ts ! 12)\<lparr>kind := Wire\<rparr>]\<rparr>
      else i\<lparr>tiles := ts[7 := (ts ! 7)\<lparr>ports := EAST OR WEST\<rparr>]\<rparr>)"

definition rejects_invalid_initialization :: bool where
  "rejects_invalid_initialization \<longleftrightarrow>
     list_all (\<lambda>defect.
       let expected = (if defect \<le> 1 then Dimensions else if defect \<le> 3 then TileEncoding
                       else if defect = 4 then TileRole else if defect = 5 then Endpoints else Unsolvable)
       in validate_initialization (invalid_setup defect) = Some (Inl expected) \<and>
          board_new (invalid_setup defect) = Some (Inl expected)) [0, 1, 2, 3, 4, 5, 6]"

lemma rejects_invalid_initialization: rejects_invalid_initialization
  by code_simp

section \<open>The board\<close>

text \<open>The tuple of the expected hash is a nest of pairs: its hash streams the components in order.\<close>

definition initialization_conversion_preserves_board_and_hash_layout :: bool where
  "initialization_conversion_preserves_board_and_hash_layout \<longleftrightarrow>
     list_all (\<lambda>solved.
       let i = default_initialization;
           i = (if solved then i\<lparr>tiles := map (\<lambda>t. t\<lparr>rotation := 0\<rparr>) (tiles i)\<rparr> else i);
           expected_hash = stable_hash
            (hash_pair hash_int (hash_pair hash_int (hash_pair hash_int
              (hash_pair (hash_ref (hash_vec tile_hash)) (hash_pair hash_int hash_bool)))))
            (7 :: u64, width i, height i, tiles i, 0 :: u64, solved)
      in case puzzle_try_from i of
            Some (Inr s) \<Rightarrow> pz_tiles s = tiles i \<and> (pz_width s, pz_height s) = (5, 5) \<and> moves s = 0 \<and>
              complete s = solved \<and>
              stable_hash (hash_pair hash_int (hash_ref puzzle_hash)) (7 :: u64, s) = expected_hash
          | _ \<Rightarrow> False) [False, True]"

lemma plain_not_skipped: "\<not> is_skipped plain_field"
  by code_simp

lemma puzzle_hash_layout:
  "stable_hash (hash_pair hash_int (hash_ref puzzle_hash)) (t :: u64, s) =
     stable_hash (hash_pair hash_int (hash_pair hash_int (hash_pair hash_int
       (hash_pair (hash_ref (hash_vec tile_hash)) (hash_pair hash_int hash_bool)))))
     (t, pz_width s, pz_height s, pz_tiles s, moves s, complete s)"
  by (simp add: stable_hash_def hash_pair_def hash_ref_def field_def puzzle_hash_def plain_not_skipped)

lemma initialization_conversion_preserves_board_and_hash_layout:
  initialization_conversion_preserves_board_and_hash_layout
proof -
  have "list_all (\<lambda>solved.
       let i = default_initialization;
           i = (if solved then i\<lparr>tiles := map (\<lambda>t. t\<lparr>rotation := 0\<rparr>) (tiles i)\<rparr> else i)
       in case puzzle_try_from i of
            Some (Inr s) \<Rightarrow> pz_tiles s = tiles i \<and> width i = 5 \<and> height i = 5 \<and> pz_width s = 5 \<and> pz_height s = 5 \<and>
              moves s = 0 \<and> complete s = solved
          | _ \<Rightarrow> False) [False, True]"
    by code_simp
  then show ?thesis
    unfolding initialization_conversion_preserves_board_and_hash_layout_def
    by (rule list.pred_mono_strong)
      (simp add: Let_def puzzle_hash_layout split: option.splits sum.splits if_split_asm del: if_split)
qed

definition rotation_and_reciprocal_connections :: bool where
  "rotation_and_reciprocal_connections \<longleftrightarrow>
     (case board_new default_initialization of
        Some (Inr b) \<Rightarrow>
          length (filter (\<lambda>on. on) (powered b)) = 1 \<and>
          (case rotate_cell \<lparr>cell = 7\<rparr> b of
             Some (b, True) \<Rightarrow> powered b ! 7 \<and> \<not> powered b ! 1
           | _ \<Rightarrow> False)
      | _ \<Rightarrow> False)"

lemma rotation_and_reciprocal_connections: rotation_and_reciprocal_connections
  by code_simp

text \<open>The loop over the cells turns each wire until it is upright or the puzzle is complete; a wire
  needs at most three turns.\<close>

fun turn_upright :: "nat \<Rightarrow> nat \<Rightarrow> board \<Rightarrow> board option" where
  "turn_upright i 0 b = Some b"
| "turn_upright i (Suc n) b =
     (if rotation (pz_tiles (puzzle b) ! i) \<noteq> 0 \<and> \<not> complete (puzzle b)
      then Option.bind (rotate_cell \<lparr>cell = of_nat i\<rparr> b) (\<lambda>(b, _). turn_upright i n b)
      else Some b)"

fun turn_cells :: "nat list \<Rightarrow> board \<Rightarrow> board option" where
  "turn_cells [] b = Some b"
| "turn_cells (i # is) b =
     Option.bind (if kind (pz_tiles (puzzle b) ! i) = Wire then turn_upright i 3 b else Some b) (turn_cells is)"

definition invalid_moves_are_noops_and_completion_stops_play :: bool where
  "invalid_moves_are_noops_and_completion_stops_play \<longleftrightarrow>
     (case board_new default_initialization of
        Some (Inr b) \<Rightarrow>
          list_all (\<lambda>c. rotate_cell \<lparr>cell = c\<rparr> b = Some (b, False)) [0, 6, 12, 25, 0xFFFFFFFF] \<and>
          (case turn_cells [0..<25] b of
             Some b \<Rightarrow> complete (puzzle b) \<and> rotate_cell \<lparr>cell = 1\<rparr> b = Some (b, False)
           | None \<Rightarrow> False)
      | _ \<Rightarrow> False)"

lemma invalid_moves_are_noops_and_completion_stops_play: invalid_moves_are_noops_and_completion_stops_play
proof -
  obtain b where b: "board_new default_initialization = Some (Inr b)" using default_board by blast
  have "case board_new default_initialization of
      Some (Inr b) \<Rightarrow> list_all (\<lambda>c. rotate_cell \<lparr>cell = c\<rparr> b = Some (b, False)) [0, 6, 12, 25]
    | _ \<Rightarrow> False"
    by code_simp
  moreover have "case board_new default_initialization of
      Some (Inr b) \<Rightarrow>
        (case turn_cells [0..<25] b of
           Some b \<Rightarrow> complete (puzzle b) \<and> rotate_cell \<lparr>cell = 1\<rparr> b = Some (b, False)
         | None \<Rightarrow> False)
    | _ \<Rightarrow> False"
    by code_simp
  moreover have "rotate_cell \<lparr>cell = 0xFFFFFFFF\<rparr> b = Some (b, False)"
    using rotate_cell_effect [OF board_new_Inr(1) [OF b], of "\<lparr>cell = 0xFFFFFFFF\<rparr>"] by (simp add: turnable_def)
  ultimately show ?thesis
    using b by (simp add: invalid_moves_are_noops_and_completion_stops_play_def del: upt.simps turn_cells.simps)
qed

section \<open>The menu\<close>

definition key_event :: "key_code \<Rightarrow> key \<Rightarrow> bool \<Rightarrow> ustring option \<Rightarrow> keyboard_input" where
  "key_event code k down txt = \<lparr>key_code = code, logical_key = k, key_pressed = down, key_text = txt\<rparr>"

definition shortcut_modifiers_follow_event_order_even_with_same_frame_release :: bool where
  "shortcut_modifiers_follow_event_order_even_with_same_frame_release \<longleftrightarrow>
     (let m = menu_default\<lparr>focus := Some 3\<rparr>;
          m = m\<lparr>field_texts := (field_texts m)[3 := ascii ''old.save'']\<rparr>;
          edited = edit_fields
            [key_event ControlLeft (OtherKey 0) True None,
             key_event (OtherCode 0) (Character (ascii ''a'')) True (Some (ascii ''a'')),
             key_event ControlLeft (OtherKey 0) False None,
             key_event (OtherCode 1) (Character (ascii ''b'')) True (Some (ascii ''b''))] False ([], m :: nat menu)
      in map_option (\<lambda>(_, m). field_texts m ! 3) edited = Some (ascii ''b''))"

lemma shortcut_modifiers_follow_event_order_even_with_same_frame_release:
  shortcut_modifiers_follow_event_order_even_with_same_frame_release
  by (simp add: shortcut_modifiers_follow_event_order_even_with_same_frame_release_def key_event_def edit_fields_def
      edit_event_def edit_field_def menu_default_def change_field_def at_index_def put_index_def
      is_control_def is_letter_a_def text_len_def ascii_def)

end
