(* ===== verification/Bevy_Tests.thy ===== *)
theory Bevy_Tests
  imports Bevy_Adapter Bevy_Session Api_Tests
begin

text \<open>
  \<^verbatim>\<open>crates/synctick-bevy/src/test_game.rs\<close>, the game the adapter's own tests use, and these
  tests on the model.  A worker thread is what it returns; a handle is named by a number.
\<close>

section \<open>The example game\<close>

text \<open>The atomics are the cells of the game value.\<close>

record example =
  published_cell :: u64
  published_inputs :: u64
  cleaned_inputs :: u64

definition example_default :: example where
  "example_default = \<lparr>published_cell = 0, published_inputs = 0, cleaned_inputs = 0\<rparr>"

definition example_publish ::
  "(unit, unit) world \<Rightarrow> example \<Rightarrow> (unit, unit) world \<times> example \<times> unit session_result" where
  "example_publish w p =
     (w, p\<lparr>published_cell := TickNumber w + 1, published_inputs := of_nat (length (TickInputs w))\<rparr>, Inr ())"

definition example_finish_tick :: "(unit, unit) world \<Rightarrow> example \<Rightarrow> (unit, unit) world \<times> example" where
  "example_finish_tick w p = (w, p\<lparr>cleaned_inputs := of_nat (length (TickInputs w))\<rparr>)"

definition example_game :: "(unit, unit, unit, example) bevy_game" where
  "example_game =
     \<lparr>B_ID = utf8 ''bevy-test-game01'', B_VERSION = 1, b_command_wire = unit_wire, b_initialization_wire = unit_wire,
      game_value = example_default, empty_resources = (), build = (\<lambda>_ w. Inr w), run_schedule = Some,
      b_state_hash = (\<lambda>w. Some (TickNumber w)), b_publish = example_publish, b_finish_tick = example_finish_tick\<rparr>"

interpretation example: deterministic_bevy_game example_game "\<lambda>r. r"
  by unfold_locales (auto simp: example_game_def example_publish_def example_finish_tick_def same_world_def)

section \<open>The adapter\<close>

definition host_tick_of :: "u64 \<Rightarrow> unit game_tick" where
  "host_tick_of n = \<lparr>number = n, tick_inputs = [\<lparr>input_participant = Host, input_command = ()\<rparr>]\<rparr>"

definition factory_and_publication_share_the_same_tick_contract :: bool where
  "factory_and_publication_share_the_same_tick_contract \<longleftrightarrow>
     (let G = game_adapter example_game in
      case create_simulation G () 10000000 of
        Inl _ \<Rightarrow> False
      | Inr sim \<Rightarrow>
          let (s1, r1) = g_advance G (host_tick_of 1) sim;
              s2 = g_finish_tick G s1;
              (s3, r3) = g_publish G s2;
              (s4, r4) = g_advance G (host_tick_of 2) s3;
              (s5, r5) = g_publish G s4;
              s6 = g_finish_tick G s5
          in TickDuration (app sim) = 10000000 \<and>
             \<not> is_err r1 \<and> published_cell (bevy_value s1) = 0 \<and>
             cleaned_inputs (bevy_value s2) = 1 \<and> TickInputs (app s2) = [] \<and>
             \<not> is_err r3 \<and> published_inputs (bevy_value s3) = 0 \<and> published_cell (bevy_value s3) = 2 \<and>
             \<not> is_err r4 \<and> \<not> is_err r5 \<and> published_inputs (bevy_value s5) = 1 \<and>
             cleaned_inputs (bevy_value s6) = 1 \<and> published_cell (bevy_value s6) = 3 \<and> TickInputs (app s6) = [])"

lemma factory_and_publication_share_the_same_tick_contract: factory_and_publication_share_the_same_tick_contract
  by (simp add: factory_and_publication_share_the_same_tick_contract_def bevy_create_def bevy_advance_def
      bevy_publish_def bevy_finish_tick_def example_game_def example_publish_def example_finish_tick_def
      example_default_def host_tick_of_def)

section \<open>The session slot\<close>

text \<open>A session that runs until it is cancelled, and the frame of the presentation.\<close>

definition make :: "nat \<Rightarrow> nat session_handle" where
  "make name = \<lparr>commands = name, control = session_control_default, worker = spawn (Returned (Inr ()))\<rparr>"

definition slot_control :: "'q session_slot \<Rightarrow> session_control option" where
  "slot_control s = map_option control (slot_handle s)"

definition slot_cancelled :: "'q session_slot \<Rightarrow> bool" where
  "slot_cancelled s \<longleftrightarrow> (case slot_control s of Some ctl \<Rightarrow> is_cancelled ctl | None \<Rightarrow> False)"

definition guard_joins_even_when_the_app_and_plugin_still_own_the_worker :: bool where
  "guard_joins_even_when_the_app_and_plugin_still_own_the_worker \<longleftrightarrow>
     (let h = make 1;
          live = h\<lparr>control := publish_status Live_Status (control h)\<rparr>;
          slot = from_handle (Some live)
      in case observe False slot (plugin_build (from_handle (Some h))) of
           None \<Rightarrow> False
         | Some (slot, view) \<Rightarrow>
             (case guard_shutdown slot of
                None \<Rightarrow> False
              | Some (slot, _) \<Rightarrow>
                  map_option status (slot_control slot) = Some Stopped \<and>
                  (case observe True slot view of
                     None \<Rightarrow> False
                   | Some (slot, view) \<Rightarrow>
                       SessionState view = Stopped \<and>
                       SessionCommands view = Some 1 \<and>
                       (case slot_control slot of
                          Some ctl \<Rightarrow> snd (submit unit_wire infallible bounded_send ctl ()
                                            \<lparr>queued = [], capacity = 256, receiver_alive = False\<rparr>) = Inl Submit_Stopped
                        | None \<Rightarrow> False))))"

lemmas slot_tests = make_def spawn_def from_handle_def plugin_build_def observe_def refresh_def handle_poll_def poll_def
  guard_shutdown_def slot_shutdown_def shutdown_def handle_join_def handle_cancel_def handle_drop_def attach_def detach_def
  join_def thread_result_def publish_result_def publish_status_def cancel_def is_cancelled_def is_failed_def
  session_control_default_def slot_control_def slot_cancelled_def Let_def

lemma guard_joins_even_when_the_app_and_plugin_still_own_the_worker:
  guard_joins_even_when_the_app_and_plugin_still_own_the_worker
  by (simp add: guard_joins_even_when_the_app_and_plugin_still_own_the_worker_def slot_tests submit_def)

definition fails :: "(unit, unit, (unit, unit, example) bevy_simulation) game" where
  "fails = (game_adapter example_game)
     \<lparr>create_simulation := (\<lambda>_ _. Inl (Simulation_Error ''initialization failed''))\<rparr>"

definition fails_config :: "unit server_config" where
  "fails_config = (server_config_new ())\<lparr>port := 0\<rparr>"

text \<open>The outcome of the worker is the authority's.\<close>

definition fails_outcome :: "session_env \<Rightarrow> unit session_result option" where
  "fails_outcome env =
     (case host bc infallible (\<lambda>_. None) (cursor_source []) fails fails_config of
        Inl _ \<Rightarrow> None
      | Inr st \<Rightarrow>
          map_option (\<lambda>(_, _, res). res)
            (authority_worker bc infallible (\<lambda>_. None) (cursor_source []) sound_file fails fails_config st env
               session_control_default))"

definition guard_exposes_typed_worker_failure_after_plugin_takes_handle :: "session_env \<Rightarrow> bool" where
  "guard_exposes_typed_worker_failure_after_plugin_takes_handle env \<longleftrightarrow>
     (case fails_outcome env of
        None \<Rightarrow> False
      | Some outcome \<Rightarrow>
          let slot = from_handle (Some (make 1\<lparr>worker := spawn (Returned outcome)\<rparr>));
              view = plugin_build slot
          in case guard_shutdown slot of
               None \<Rightarrow> False
             | Some (slot, first) \<Rightarrow>
                 (case detach slot of
                    None \<Rightarrow> False
                  | Some (slot, second) \<Rightarrow>
                      (case guard_shutdown slot of
                         None \<Rightarrow> False
                       | Some (slot, third) \<Rightarrow>
                           first = Inl (Simulation_Error ''initialization failed'') \<and> second = first \<and> third = second \<and>
                           (case observe True slot view of
                              None \<Rightarrow> False
                            | Some (slot, view) \<Rightarrow>
                                SessionState view = Failed (Simulation_Error ''initialization failed'')))))"

lemma fails_outcome: "fails_outcome env = Some (Inl (Simulation_Error ''initialization failed''))"
proof -
  let ?h = "replay_header_new (B_ID example_game) 1 33333333 [0]"
  have b: "to_le_bytes (0 :: u8) = [0]" "from_le_bytes [0 :: byte] = (0 :: u8)" by code_simp+
  have unit: "encode unit_wire infallible () = Inr [0]" "decode unit_wire infallible [0] = Inr ()"
    "validate unit_wire infallible [0] = Inr ()"
    by (simp_all add: unit_wire_def unit_validate_def scalar_wire_def encode_def decode_def validate_def
        encoder_write_def encoder_default_def take_bytes_def finish_def decoder_new_def infallible_def
        max_payload_bytes_def b)
  let ?st = "\<lparr>start_header = ?h, start_tick_nanos = 33333333, start_local = True, start_capacity = 256\<rparr>"
  have "host bc infallible (\<lambda>_. None) (cursor_source []) fails fails_config = Inr ?st"
    by (simp add: host_def start_server_def fails_def fails_config_def server_config_new_def validate_capacity_def
        validate_tick_duration_def unit codec_result_def example_game_def game_adapter_def replay_header_new_def)
  moreover have "adapter_initialize fails infallible ?h (adapter_new ?h) =
      (adapter_new ?h, Inl (Simulation_Error ''initialization failed''))"
    by (simp add: adapter_initialize_def adapter_new_def validate_header_def fails_def game_adapter_def example_game_def
        replay_header_new_def validate_tick_duration_def codec_result_def unit)
  then have "\<exists>st acts. authority_worker bc infallible (\<lambda>_. None) (cursor_source []) sound_file fails fails_config ?st env
      session_control_default = Some (st, acts, Inl (Simulation_Error ''initialization failed''))"
    by (simp add: authority_worker_def authority_config_def run_server_def fails_config_def server_config_new_def
        validate_tick_duration_def adapter_sim_def adapter_new_def Let_def)
  ultimately show ?thesis by (auto simp: fails_outcome_def)
qed

lemma guard_exposes_typed_worker_failure_after_plugin_takes_handle:
  "guard_exposes_typed_worker_failure_after_plugin_takes_handle env"
  by (simp add: guard_exposes_typed_worker_failure_after_plugin_takes_handle_def fails_outcome slot_tests)

text \<open>\<open>app.update()\<close> while the worker runs.\<close>

definition update_app :: "nat session_slot \<times> nat session_view \<Rightarrow> (nat session_slot \<times> nat session_view) option" where
  "update_app sv = (case sv of (slot, view) \<Rightarrow> observe False slot view)"

text \<open>The control of a detached session is the one its shutdown leaves.\<close>

definition idle_slot_attaches_rejects_replacement_and_can_be_reused :: bool where
  "idle_slot_attaches_rejects_replacement_and_can_be_reused \<longleftrightarrow>
     (case update_app (from_handle None, plugin_build (from_handle None)) of
        None \<Rightarrow> False
      | Some (slot, view) \<Rightarrow>
          SessionCommands view = None \<and>
          (case attach (make 1) slot of
             Some (slot, None, Inr _) \<Rightarrow>
               (case update_app (slot, view) of
                  None \<Rightarrow> False
                | Some (slot, view) \<Rightarrow>
                    SessionCommands view = Some 1 \<and>
                    (case attach (make 2) slot of
                       Some (slot, Some refused, Inl _) \<Rightarrow>
                         is_cancelled (control refused) \<and> \<not> slot_cancelled slot \<and>
                         (case slot_shutdown slot of
                            Some (ended, _) \<Rightarrow> slot_cancelled ended
                          | None \<Rightarrow> False) \<and>
                         (case detach slot of
                            None \<Rightarrow> False
                          | Some (slot, first) \<Rightarrow>
                              \<not> is_err first \<and>
                              (case detach slot of
                                 None \<Rightarrow> False
                               | Some (slot, second) \<Rightarrow>
                                   second = first \<and>
                                   (case update_app (slot, view) of
                                      None \<Rightarrow> False
                                    | Some (slot, view) \<Rightarrow>
                                        SessionCommands view = None \<and> SessionCancellation view = None \<and>
                                        (case attach (make 3) slot of
                                           Some (slot, None, Inr _) \<Rightarrow>
                                             (case update_app (slot, view) of
                                                None \<Rightarrow> False
                                              | Some (slot, view) \<Rightarrow>
                                                  (case guard_shutdown slot of
                                                     Some (slot, _) \<Rightarrow> slot_cancelled slot
                                                   | None \<Rightarrow> False))
                                         | _ \<Rightarrow> False))))
                     | _ \<Rightarrow> False))
           | _ \<Rightarrow> False))"

lemma idle_slot_attaches_rejects_replacement_and_can_be_reused:
  idle_slot_attaches_rejects_replacement_and_can_be_reused
  by (simp add: idle_slot_attaches_rejects_replacement_and_can_be_reused_def update_app_def slot_tests)

end
