(* ===== verification/Spec2Isabelle.thy ===== *)
theory Spec2Isabelle
  imports Api Authority Codec Derive_Hash Derive_Wire Hashing Pacer Protocol Recording Replay_Log
    Run_Client Run_Server Session Simulation Startup Test_Simulation Wallet Game_Session Example_Session
    Garden Garden_Rules Garden_Game Garden_Menu Garden_View Garden_Screen Bevy_Adapter
    Bevy_Session Wallet_Program Socket_Address Session_Invariant Game_Invariants Hosting Programs
    Network Joining
    Core_Tests Log_Tests Startup_Tests Network_Tests Api_Tests Derive_Tests Game_Tests Bevy_Tests
begin

text \<open>
  Synctick is a framework for deterministic lockstep sessions: one authority orders the
  commands of all participants into numbered ticks, records and broadcasts them, and every
  replica executes the same ticks.  A joining client is brought up to date by sending it
  the recording, which it replays; fingerprints of the state detect divergence.  This
  library models the core crate, its derives, its Bevy integration and its two example
  games, and proves the properties that make a session correct.

  \<^bold>\<open>Parts and theories\<close> (paths under \<^verbatim>\<open>src/\<close>).
  \<^item> \<open>Prelude\<close>: machine integers as words, \<open>Err\<close>/\<open>Ok\<close> as \<open>Inl\<close>/\<open>Inr\<close>, the \<open>?\<close> operator as
    \<open>and_then\<close>, checked and saturating arithmetic, little-endian bytes, ordered maps.
  \<^item> \<open>Codec\<close> (\<^verbatim>\<open>crates/synctick/src/codec.rs\<close>): the bounded payload codec.  The trait
    \<open>Wire\<close> is the record \<open>wire\<close>; its contract is the locale \<open>wire_codec\<close> over the canonical
    image (\<open>shape\<close>) of a type, interpreted for the scalars, \<open>()\<close>, \<open>Vec\<close> and \<open>String\<close>.
  \<^item> \<open>Derive_Wire\<close> and \<open>Derive_Hash\<close> (\<^verbatim>\<open>crates/synctick-derive/src\<close>): what the macros accept,
    and the code they generate.  An accepted schema whose fields meet \<open>wire_codec\<close> generates
    a type that does.
  \<^item> \<open>Hashing\<close> (\<^verbatim>\<open>hashing.rs\<close>): the FNV-1a fingerprint and its implementations, with the
    contract \<open>streaming_hash\<close>.
  \<^item> \<open>Pacer\<close> (\<^verbatim>\<open>pacer.rs\<close>) and \<open>Session\<close> (\<^verbatim>\<open>session.rs\<close>): pacing, cancellation, published
    status, and the worker whose terminal result is kept.
  \<^item> \<open>Simulation\<close> (\<^verbatim>\<open>simulation.rs\<close>): the trait \<open>SessionSimulation\<close> as the record
    \<open>session_sim\<close> and the driver \<open>advance_tick\<close>.  The locales \<open>deterministic_sim\<close> and
    \<open>fingerprinted_sim\<close> state what a session relies on; \<open>Test_Simulation\<close>
    (\<^verbatim>\<open>test_simulation.rs\<close>), every adapted game and \<open>Example_Session\<close> provide it.
  \<^item> \<open>Protocol\<close> (\<^verbatim>\<open>protocol.rs\<close>): messages and the two-pass bounded decoders.  \<^verbatim>\<open>bincode\<close> is
    the parameter \<open>bincode\<close> with its documented layout as the locale \<open>bincode_format\<close>,
    interpreted for \<open>standard_bincode\<close>.
  \<^item> \<open>Replay_Log\<close> (\<^verbatim>\<open>replay.rs\<close>): header, writer, reader over a buffered source with short
    reads and faults, and bounded replay into a simulation, mirrored or not.
  \<^item> \<open>Startup\<close> (\<^verbatim>\<open>startup.rs\<close>): the save transfer with its memory window (\<open>startup_run\<close> are
    the runs of the server side) and the client's phases up to live.
  \<^item> \<open>Run_Server\<close> (\<^verbatim>\<open>run_server.rs\<close>) is the authority: loading, startup barrier, tick loop.
    \<open>Authority\<close> proves what its ticks guarantee (\<open>authority_run\<close> are the runs of the tick
    loop) and \<open>Recording\<close> what a whole session leaves in its log.
  \<^item> \<open>Run_Client\<close> (\<^verbatim>\<open>run_client.rs\<close>) is the replica.  \<open>Network\<close> joins the authority and any
    number of replicas by the reliable ordered channels of \<^verbatim>\<open>protocol.rs\<close>: \<open>network_step\<close> is one
    iteration of either side's loop, so its reachable states are those of every interleaving
    and delay, and \<open>network_ok\<close> is their invariant.  \<open>Joining\<close> is how a session gets there:
    \<open>join_step\<close> is one iteration of a client that is still loading, \<open>loading_ok\<close> what holds
    after any of them, and the end of the authority's wait is the start of the network.
  \<^item> \<open>Api\<close> (\<^verbatim>\<open>api.rs\<close>): the game's contract (\<open>game\<close>, locale \<open>deterministic_game\<close>), the adapter
    that makes a game a \<open>session_sim\<close>, command submission, handles, entry points.
    \<open>Socket_Address\<close> is the standard library's parser of the address a client connects to.
    \<open>Game_Session\<close> connects the adapter to the session theorems, and \<open>Hosting\<close> holds the
    closures the worker threads run (\<open>authority_worker\<close>, \<open>replica_worker\<close>) and joins a
    recorded session with the public \<open>replay\<close>.
  \<^item> \<open>Session_Invariant\<close>: a property that every operation of a simulation keeps (locale
    \<open>stable_sim\<close>, and \<open>stable_game\<close> for a game) holds in every state a worker leaves behind
    (\<open>worker_leaves\<close>: the authority, the replica, the replay, whatever they report).
    \<open>Game_Invariants\<close> interprets it on the wallet's funds and on the garden's boards.
  \<^item> \<open>Wallet\<close> (\<^verbatim>\<open>examples/wallet/src\<close>): the wallet game, through the derived codec and hash.
    \<open>Wallet_Program\<close> (\<^verbatim>\<open>main.rs\<close>, \<^verbatim>\<open>cli.rs\<close>, and the garden's \<^verbatim>\<open>main.rs\<close>): the console programs that
    open a session, poll it, submit the demo transfer and shut it down; \<open>Programs\<close>: the two
    \<open>main\<close> functions with all their modes, and the thread that watches the console.
  \<^item> \<open>Bevy_Adapter\<close> and \<open>Bevy_Session\<close> (\<^verbatim>\<open>crates/synctick-bevy/src\<close>): a Bevy game as a game of
    the framework (locale \<open>deterministic_bevy_game\<close>), and the slot that owns the attached
    session with the systems that keep the presentation in step with it.
  \<^item> \<open>Garden\<close> (\<^verbatim>\<open>examples/power-garden/src/model\<close>): tiles, the queue-based connectivity
    traversal, setup validation and the board.  \<open>Garden_Rules\<close> proves the traversal equal to
    reachability (\<open>reached\<close>), the board's invariant, and that every accepted board can be
    solved.  \<open>Garden_Game\<close> (\<^verbatim>\<open>simulation.rs\<close>) is the board as a Bevy game, and
    \<open>Garden_Menu\<close> (\<^verbatim>\<open>menu.rs\<close>) the menu that starts and ends its sessions.  \<open>Garden_View\<close>
    (\<^verbatim>\<open>presentation.rs\<close>) is the forest of entities the program spawns and the chain of systems
    that runs over it each frame (\<open>run_frame\<close>); \<open>Garden_Screen\<close> proves what a frame shows.
  \<^item> \<open>Example_Session\<close>: concrete sessions, on which the properties with hypotheses are
    instantiated.
  \<^item> \<open>Core_Tests\<close>, \<open>Log_Tests\<close>, \<open>Startup_Tests\<close>, \<open>Network_Tests\<close>, \<open>Api_Tests\<close>, \<open>Derive_Tests\<close>,
    \<open>Game_Tests\<close>, \<open>Bevy_Tests\<close>: the unit tests of the repository.  A test is a boolean
    definition under its function's name that makes the function's calls in order and compares
    what its assertions compare, with its fixtures (the failing simulations, the games \<open>counter\<close>
    and \<open>example_game\<close>); the lemma of the same name says that the model passes it.  A clock a
    test leaves to the machine is a variable of the definition.
  \<^item> This theory: the properties that span the authority, the log, the startup transfer and
    the replica.

  \<^bold>\<open>Conventions\<close>.  A method that mutates takes the old state and returns the new one, also
  when it fails.  The environment of a loop (transport, queues, clock, cancellation) is an
  explicit list of records, one per iteration, holding what each call answers in the order
  the code makes them; a loop over a list that ends before the loop does is \<open>None\<close>, so no
  theorem about a finished run assumes termination: it speaks of the rounds it consumed.
  Allocation can fail in the code, so decoders and writers take the allocator's answers;
  \<open>infallible\<close> grants every request.  Files and sources may fail and read short at any
  point; \<open>reliable\<close> and \<open>faultless\<close> rule faults out where a theorem needs it.  A \<open>usize\<close> is
  a \<open>nat\<close> of a 64-bit target.  An operation that can panic (an index out of range, a failed
  \<^verbatim>\<open>expect\<close>, an overflowing addition) is an \<open>option\<close> with \<open>None\<close> for the panic.  No fuel is
  used: loops over data are structural or have a termination proof.

  \<^bold>\<open>What the lemmas show\<close>.  Codec and derives: canonical images, budgets, round trips, the
  exact set of accepted inputs.  Hashing: one changed byte changes the state.  Log: what is
  appended is read back, a torn record is an error, replay executes the records in order.
  Startup: the memory accounted for a peer is that of the messages its client may still hold
  and bounded, chunks reassemble the save, only a matching report makes a peer ready.
  Authority: inputs of a tick come from the peer they are attributed to and fit one record,
  what is executed is what is recorded and broadcast, fingerprints are kept exactly as long as
  an on-time report can ask for them, and the barrier admits exactly the clients that
  connected, were sent the whole save and answered with its fingerprint.  Across
  components: a finished session's recording replays to the authority's state, also through
  the public entry points; an invariant of a game holds wherever a worker stops; a live
  replica ends in it; its reports are accepted; a joining client reaches it.  Network: a
  loading client's rounds never fail and can be completed, the barrier opens on a network
  whose participants are in the authority's state, and from there on, under
  every interleaving, each participant is in a past state of the authority, its reports under
  way are true and never end the session, and it can always catch up.  Games: the
  wallet keeps its money and lets only owners spend it; the garden's boards stay valid, can
  be completed, its sessions never fail and publish every tick with the rotations that
  happened, and its screen draws the published ports and light where they are, and never panics.
  Programs: a cancelled or failed program shuts its session down and reports the first failure.
  Tests: the model gives the results the repository's own tests assert.

  \<^bold>\<open>Not modelled\<close>.  Sockets, threads and the renet, bincode, crossbeam and Bevy packages
  (parameters, or answers in the environment); log lines; the token trees the derives
  quote; argument parsing (the clap package) and the text the console programs print; what the
  engine makes of the garden's entities (drawing, layout, the pointer), and its \<^verbatim>\<open>f64\<close> clock,
  whose comparison with the start of a flash is a parameter.  Of the tests, those that run a
  session over UDP or a second thread, move megabytes through the third-party transport, use
  symbolic links, or only compare concrete 64-bit hashes.
\<close>

section \<open>Properties that span components\<close>

text \<open>C1. A recording is the session: whatever a server loads, whoever joins and whatever is
  played, when it ends normally its recording starts with the header it was initialized
  with, and replaying the file, however it is buffered and however the replay is cut into
  batches, ends without error in the authority's authoritative state, tick and fingerprint.\<close>

theorem recorded_session_replays:
  assumes "bincode_format bc" "deterministic_sim sim det" "bounded_commands sim"
    and "run_server bc al fs file blank sim cfg env s ctl = Some (st, acts, Inr ())"
    and "cfg_record_path cfg = Some path" "reliable blank"
    and "cfg_load_path cfg = None \<Longrightarrow> header_current (sim_header sim s)"
  shows "\<exists>w h s0 n. ss_writer st = Some w \<and> sim_initialize sim h s = (s0, Inr ()) \<and>
    (\<forall>src. faultless src \<longrightarrow> held src = written w \<longrightarrow> replays_to bc sim det s0 h n (ss_sim st) src)"
proof -
  obtain h s0 where init: "sim_initialize sim h s = (s0, Inr ())"
    and rec: "recorded sim det bc s0 (enc_header bc h) st"
    and h: "case cfg_load_path cfg of None \<Rightarrow> h = sim_header sim s
     | Some from \<Rightarrow> \<exists>rd. open_log bc al fs file from = Inr rd \<and> h = header rd"
    by (rule deterministic_sim.run_server_recorded [OF assms(2) assms(4-6,3)])
  have "header_current h"
    using h assms(7) bincode_format.from_reader_current [OF assms(1)]
    by (auto simp: open_log_def split: option.splits)
  from deterministic_sim.recorded_replays [OF assms(2,1) rec this] init show ?thesis by blast
qed

theorem recorded_session_replays_witness:
  "\<exists>st acts w h s0 n. run_server standard_bincode infallible (\<lambda>_. None) (byte_source []) demo_blank limited_sim
      demo_cfg demo_session test_simulation_default session_control_default = Some (st, acts, Inr ()) \<and>
    ss_writer st = Some w \<and>
    replays_to standard_bincode limited_sim (\<lambda>s. (ts_tick s, ts_commands s)) s0 h n (ss_sim st) (byte_source (written w))"
proof -
  obtain st acts where run: "run_server standard_bincode infallible (\<lambda>_. None) (byte_source []) demo_blank limited_sim
      demo_cfg demo_session test_simulation_default session_control_default = Some (st, acts, Inr ())"
    using demo_server by blast
  have cfg: "cfg_record_path demo_cfg = Some ''log''" by (simp add: demo_cfg_def)
  have blank: "reliable demo_blank" by (simp add: reliable_def demo_blank_def)
  have hdr: "header_current (sim_header limited_sim test_simulation_default)"
    by (simp add: limited_sim_def test_sim_def replay_header_current_def replay_header_new_def header_current_def
        validate_tick_duration_def max_payload_bytes_def)
  obtain w h s0 n where "ss_writer st = Some w"
    "\<forall>src. faultless src \<longrightarrow> held src = written w \<longrightarrow>
       replays_to standard_bincode limited_sim (\<lambda>s. (ts_tick s, ts_commands s)) s0 h n (ss_sim st) src"
    using recorded_session_replays [OF std.bincode_format_axioms limited.deterministic_sim_axioms
        limited_bounds run cfg blank hdr] by blast
  moreover from this have "replays_to standard_bincode limited_sim (\<lambda>s. (ts_tick s, ts_commands s)) s0 h n
      (ss_sim st) (byte_source (written w))"
    by simp
  ultimately show ?thesis using run by blast
qed



text \<open>A live replica follows the authority: the broadcasts of a tick loop, processed in order
  by a live replica that starts in the authority's authoritative state, leave it in the
  authority's final authoritative state, without an error.\<close>

theorem replica_follows_authority:
  assumes "bincode_format bc" "fingerprinted_sim sim det" "publishes sim" "bounded_commands sim"
    and "tick_loop bc al sim policy rounds a = Some (a', acts, Inr ())"
    and "det (au_sim a) = det (rp_sim c)" "is_live (rp_startup c)"
    and "sim_hash_interval sim (au_sim a) = sim_hash_interval sim (rp_sim c)"
  shows "\<exists>c' reports. lockstep_loop bc infallible sim (broadcasts acts) c = (c', reports, Inr ()) \<and>
    det (rp_sim c') = det (au_sim a') \<and> is_live (rp_startup c')"
proof -
  obtain advs hist where run: "authority_run bc al sim policy a a' advs hist (broadcasts acts)"
    using tick_loop_run [OF assms(5)] by blast
  note ex = authority_run_executes [OF run]
  have "\<forall>(t, r) \<in> set (history sim advs (au_sim a)).
      t mod sim_hash_interval sim (au_sim a) = 0 \<longrightarrow> (\<exists>h. r = Inr h)"
    by (rule sampled_history [OF assms(2) run])
  then obtain c' where "lockstep_loop bc infallible sim (map (\<lambda>adv. enc_server bc (Tick adv)) advs) c =
         (c', concat (map (report_of bc (sim_hash_interval sim (au_sim a))) (history sim advs (au_sim a))), Inr ())"
    "det (rp_sim c') = det (au_sim a')" "rp_startup c' = rp_startup c"
    using fingerprinted_sim.lockstep_follows [OF assms(2,1,3,8) ex(1) assms(6,7)
        authority_run_carries [OF run assms(4)]] by blast
  then show ?thesis using assms(7) ex(2) by auto
qed

definition host_replica :: "test_simulation replica" where
  "host_replica = (replica_new (au_sim host_start) session_control_default)
     \<lparr>rp_startup := client_startup_default\<lparr>cphase := Live_Phase\<rparr>\<rparr>"

theorem replica_follows_authority_witness:
  "\<exists>c' reports. lockstep_loop standard_bincode infallible limited_sim
      [enc_server standard_bincode (Tick host_tick)] host_replica = (c', reports, Inr ()) \<and>
    ts_tick (rp_sim c') = 1 \<and> ts_commands (rp_sim c') = 1 \<and> is_live (rp_startup c')"
proof -
  have "sim_hash_interval limited_sim s = sim_hash_interval limited_sim s'" for s s'
    by (simp add: limited_sim_def test_sim_def)
  then have i: "sim_hash_interval limited_sim (au_sim host_start) = sim_hash_interval limited_sim (rp_sim host_replica)" .
  have d: "(ts_tick (au_sim host_start), ts_commands (au_sim host_start)) =
      (ts_tick (rp_sim host_replica), ts_commands (rp_sim host_replica))"
    by (simp add: host_replica_def replica_new_def)
  have l: "is_live (rp_startup host_replica)" by (simp add: host_replica_def is_live_def)
  from replica_follows_authority [OF std.bincode_format_axioms limited.fingerprinted_sim_axioms limited_publishes
      limited_bounds host_loop d l i]
  show ?thesis by (auto simp: host_end_def)
qed


text \<open>An honest replica is never accused: every report it sends while following the authority
  is accepted, under either policy, as long as it is newer than the last accepted one and
  arrives while the authority is at most ten fingerprint intervals past that one.\<close>

theorem honest_report_is_verified:
  assumes "bincode_format bc" "fingerprinted_sim sim det" "publishes sim" "bounded_commands sim"
    and "authority_run bc al sim policy a0 a advs hist sent" "au_hashes a0 = []"
    and "det (au_sim a0) = det (rp_sim c)" "is_live (rp_startup c)"
    and "sim_hash_interval sim (au_sim a0) = interval" "sim_hash_interval sim (rp_sim c) = interval"
    and "unat interval * 10 < 2 ^ 64"
    and "lockstep_loop bc infallible sim sent c = (c', reports, Inr ())"
    and "Client_Send channel_desync bytes \<in> set reports"
    and "decode_desync_hash bc infallible bytes = Inr report" "verified < report_tick report"
    and "unat (sim_current_tick sim (au_sim a)) \<le> Suc (unat verified + unat interval * 10)"
  shows "handle_hash_report bc infallible cid bytes (sim_current_tick sim (au_sim a)) verified (au_hashes a)
    policy' interval = Inr (report_tick report, [])"
proof -
  note ex = authority_run_executes [OF assms(5)] and hist = authority_run_history [OF assms(5)]
  have "\<forall>(t, r) \<in> set (history sim advs (au_sim a0)). t mod interval = 0 \<longrightarrow> (\<exists>h. r = Inr h)"
    using sampled_history [OF assms(2,5)] by (simp add: assms(9))
  then have "reports = concat (map (report_of bc interval) (history sim advs (au_sim a0)))"
    using fingerprinted_sim.lockstep_follows [OF assms(2,1,3) assms(10) [symmetric] ex(1) assms(7,8)
        authority_run_carries [OF assms(5,4)]] assms(12) ex(2) by auto
  then have "\<exists>t h. (t, Inr h) \<in> set hist \<and> t mod interval = 0 \<and>
      bytes = enc_desync bc \<lparr>report_tick = t, report_hash = h\<rparr>"
    using assms(13) hist by (auto simp: report_of_def split: sum.splits if_splits del: mod_0_imp_dvd)
  then obtain t h where t: "(t, Inr h) \<in> set hist" "t mod interval = 0"
    "bytes = enc_desync bc \<lparr>report_tick = t, report_hash = h\<rparr>" by (elim exE conjE)
  have r: "report = \<lparr>report_tick = t, report_hash = h\<rparr>"
    using assms(14) bincode_format.decode_encode_desync [OF assms(1)] t(3) by simp
  have kept: "history_kept interval (sim_current_tick sim (au_sim a)) hist (au_hashes a)"
    by (rule fingerprinted_sim.authority_history(1) [OF assms(2,5,6) assms(9) [symmetric] assms(11)])
  have "verify_hash report (sim_current_tick sim (au_sim a)) verified (au_hashes a) interval = Inr t"
    unfolding r
    by (rule fingerprinted_sim.verify_hash_complete [OF assms(2) kept t(1,2) _ assms(16)]) (use assms(15) r in simp)
  then show ?thesis using assms(14) r by (simp add: handle_hash_report_def)
qed

definition demo_replica :: "test_simulation replica" where
  "demo_replica = (replica_new (au_sim demo_start) session_control_default)
     \<lparr>rp_startup := client_startup_default\<lparr>cphase := Live_Phase\<rparr>\<rparr>"

lemma demo_follows:
  "\<exists>c'. lockstep_loop standard_bincode infallible limited_sim
      [enc_server standard_bincode (Tick demo_tick)] demo_replica =
      (c', [Client_Send channel_desync (enc_desync standard_bincode \<lparr>report_tick = 30, report_hash = 936\<rparr>)], Inr ())"
proof -
  have c: "carries demo_tick" by (simp add: carries_def demo_tick_def)
  have dec: "decode_server_message standard_bincode infallible (enc_server standard_bincode (Tick demo_tick)) =
      Inr (Tick demo_tick)"
    by (rule std.decode_encode_server_tick [OF c demo_sizes(2)])
  have h: "sim_state_hash limited_sim (au_sim demo_end) = Inr 936" "tick demo_tick = 30"
    "sim_hash_interval limited_sim (au_sim demo_end) = 30"
    by (simp_all add: limited_sim_def test_sim_def demo_end_def demo_start_def demo_tick_def)
  show ?thesis
    using dec demo_advance h
    by (simp add: handle_lockstep_def demo_replica_def is_live_def replica_new_def apply_tick_def
        client_send_def do_nothing_def then_do_def)
qed

theorem honest_report_is_verified_witness:
  "handle_hash_report standard_bincode infallible 5
     (enc_desync standard_bincode \<lparr>report_tick = 30, report_hash = 936\<rparr>)
     (sim_current_tick limited_sim (au_sim demo_end)) 0 (au_hashes demo_end) FailFast 30 = Inr (30, [])"
proof -
  obtain c' where c': "lockstep_loop standard_bincode infallible limited_sim
      [enc_server standard_bincode (Tick demo_tick)] demo_replica =
      (c', [Client_Send channel_desync (enc_desync standard_bincode \<lparr>report_tick = 30, report_hash = 936\<rparr>)], Inr ())"
    using demo_follows by blast
  have d: "(ts_tick (au_sim demo_start), ts_commands (au_sim demo_start)) =
      (ts_tick (rp_sim demo_replica), ts_commands (rp_sim demo_replica))"
    by (simp add: demo_replica_def replica_new_def)
  have l: "is_live (rp_startup demo_replica)" by (simp add: demo_replica_def is_live_def)
  have dec: "decode_desync_hash standard_bincode infallible
      (enc_desync standard_bincode \<lparr>report_tick = 30, report_hash = 936\<rparr>) = Inr \<lparr>report_tick = 30, report_hash = 936\<rparr>"
    by (rule std.decode_encode_desync)
  from honest_report_is_verified [OF std.bincode_format_axioms limited.fingerprinted_sim_axioms limited_publishes
      limited_bounds demo_run demo_ticks(4) d l demo_ticks(1) demo_ticks(1) _ c' _ dec]
  show ?thesis by (simp add: demo_ticks)
qed


text \<open>A joining client reaches the authority: the messages of a completed transfer, delivered
  in order, and more loading rounds than the save has records, bring a fresh client to the
  authoritative state of the authority; it reports ready with the authority's fingerprint,
  the authority accepts the report, and the Start that answers it makes the client live.\<close>

theorem joining_client_becomes_ready:
  assumes "bincode_format bc" "deterministic_sim sim det" "header_current h" "list_all (recordable bc) advs"
    and "save = enc_header bc h @ log_bytes bc advs"
    and "advance_all sim phase advs s0 = (s1, Inr ())" "sim_initialize sim h fresh = (c0, Inr ())" "det s0 = det c0"
    and "session_metadata sim save s1 = Inr meta" "begin_fits bc meta"
    and "startup_run bc save meta p sent" "transfer p = AwaitingReadiness"
    and "list_all (\<lambda>os. batch_room 128 os > 0) rounds" "length advs < length rounds"
  shows "\<exists>c c' s2. deliver bc infallible sent client_startup_default = (c, Inr ()) \<and>
    startup_steps bc infallible sim rounds c fresh =
      (c', s2, Inr (Some (Ready (meta_tick meta) (meta_hash meta)))) \<and> det s2 = det s1 \<and>
    is_ready (fst (receive_startup (Ready (meta_tick meta) (meta_hash meta)) meta now p)) \<and>
    is_live (fst (start (meta_tick meta) (meta_hash meta) c'))"
proof -
  obtain hh where m: "length save < 2 ^ 64" "meta = \<lparr>total_bytes = word_of_nat (length save),
      meta_tick = sim_current_tick sim s1, meta_hash = hh\<rparr>" "sim_state_hash sim s1 = Inr hh"
    using assms(9) by (auto simp: session_metadata_def res_simps split: if_splits)
  then have len: "length save = unat (total_bytes meta)" by (simp add: unat_of_nat)
  have "magic_const \<noteq> []" by (simp add: magic_const_def)
  then have "save \<noteq> []"
    using assms(3,5) by (simp add: bincode_format.header_layout [OF assms(1)] header_current_def)
  let ?src = "memory_source save"
  let ?rd = "\<lparr>inner = ?src\<lparr>held := log_bytes bc advs\<rparr>, header = h\<rparr>"
  have src: "faultless ?src" "held ?src = enc_header bc h @ log_bytes bc advs"
    by (simp_all add: memory_source_def faultless_def assms(5))
  have rd: "from_reader bc infallible ?src = Inr ?rd"
    by (rule bincode_format.from_reader_enc [OF assms(1) src assms(3)])
  obtain chunks where ch: "sent = Begin meta # map Chunk chunks" "chunks_ok chunks" "concat chunks = save"
    by (rule ready_run [OF assms(11,10)]) (use assms(12) in simp)
  let ?c = "client_startup_default\<lparr>cphase := Replaying meta ?rd, creceived := total_bytes meta\<rparr>"
  have "deliver bc infallible sent client_startup_default = (?c, Inr ())"
    unfolding ch(1) by (rule deliver_transfer [OF rd len \<open>save \<noteq> []\<close> ch(2,3)])
  moreover obtain s2 where s2: "advance_all sim Replay advs c0 = (s2, Inr ())" "det s1 = det s2"
    using deterministic_sim.advance_all_replays [OF assms(2,6,8)] by blast
  moreover have "startup_steps bc infallible sim rounds ?c fresh =
     (?c\<lparr>initialized := True, creplayed := meta_tick meta, cphase := AwaitingStart meta\<rparr>, s2,
      Inr (Some (Ready (meta_tick meta) (meta_hash meta))))"
  proof (rule bincode_format.startup_steps_ready [OF assms(1,2), of _ _ ?rd _ c0 advs])
    show "meta_tick meta = sim_current_tick sim s2"
      using m(2) deterministic_sim.tick_det [OF assms(2) s2(2)] by simp
    show "sim_state_hash sim s2 = Inr (meta_hash meta)"
      using m(2,3) deterministic_sim.hash_det [OF assms(2) s2(2)] by simp
  qed (use assms(4,7,13,14) src(1) s2(1) in \<open>simp_all add: client_startup_default_def\<close>)
  moreover have "is_ready (fst (receive_startup (Ready (meta_tick meta) (meta_hash meta)) meta now p))"
    using assms(12) by (simp add: receive_startup_def is_ready_def)
  moreover have "is_live (fst (start (meta_tick meta) (meta_hash meta)
      (?c\<lparr>initialized := True, creplayed := meta_tick meta, cphase := AwaitingStart meta\<rparr>)))"
    by (simp add: start_def is_live_def)
  ultimately show ?thesis by metis
qed


theorem joining_client_becomes_ready_witness:
  "\<exists>c c' s2. deliver standard_bincode infallible [Begin small_meta, Chunk small_save] client_startup_default =
      (c, Inr ()) \<and>
    startup_steps standard_bincode infallible tick_counter [[Go], [Go, Expired]] c 0 =
      (c', s2, Inr (Some (Ready 1 1))) \<and> s2 = 1 \<and>
    is_ready (fst (receive_startup (Ready 1 1) small_meta 7 small_peer)) \<and> is_live (fst (start 1 1 c'))"
proof -
  have det: "deterministic_sim tick_counter (\<lambda>s. s)"
    by unfold_locales (simp_all add: tick_counter_def default_finish_tick_def)
  have rec: "list_all (recordable standard_bincode) [small_record]" by (simp add: small_recordable)
  have save: "small_save = enc_header standard_bincode small_header @ log_bytes standard_bincode [small_record]"
    by (simp add: small_save_def log_bytes_def)
  have adv: "advance_all tick_counter Replay [small_record] 0 = (1, Inr ())"
    by (simp add: advance_tick_def validate_tick_def checked_add_def advance_checked_def
        tick_counter_def small_record_def default_finish_tick_def)
  have ini: "sim_initialize tick_counter small_header 0 = (0, Inr ())"
    by (simp add: tick_counter_def default_initialize_def)
  have meta: "session_metadata tick_counter small_save 1 = Inr small_meta"
    using small_sizes(1) by (simp add: session_metadata_def tick_counter_def small_meta_def res_simps)
  have ph: "transfer small_peer = AwaitingReadiness" by (simp add: small_peer_def)
  have rooms: "list_all (\<lambda>os. batch_room 128 os > 0) [[Go], [Go, Expired]]" "length [small_record] < length [[Go], [Go, Expired]]"
    by (simp_all add: numeral_eq_Suc)
  have m: "meta_tick small_meta = 1" "meta_hash small_meta = 1" by (simp_all add: small_meta_def)
  from joining_client_becomes_ready [OF std.bincode_format_axioms det small_header_current rec save adv ini refl meta
      small_begin_fits small_run ph rooms, of 7]
  show ?thesis by (simp add: m)
qed

end
